(* ===== verification/Prelude.thy ===== *)
theory Prelude
  imports Main "HOL-Library.List_Lexorder" "HOL-Library.Char_ord" "HOL-Library.Product_Lexorder"
begin

text \<open>
  The vocabulary every component shares: the collections the proofs draw on, Python's
  strings and integers as far as the program uses them, and the rows of a database table.

  Python's \<open>str\<close> is modelled by \<open>string\<close>, read as Latin-1: the character with code
  \<open>n\<close> is the code point \<open>n\<close>, so \<open>length\<close> counts code points as Python does. Text beyond
  Latin-1 is not modelled. Python's \<open>int\<close> is \<open>int\<close>; a naive UTC \<open>datetime\<close> is its number
  of microseconds since 1970-01-01, and a \<open>timedelta\<close> a number of microseconds.
\<close>

named_theorems db_simps \<open>unfolding rules of the table operations\<close>
named_theorems frame_simps \<open>which tables an operation leaves alone\<close>

type_synonym timestamp = int
type_synonym username = string

definition seconds :: "int \<Rightarrow> int" where
  "seconds n = n * 1000000"

definition minutes :: "int \<Rightarrow> int" where
  "minutes n = seconds (60 * n)"

definition hours :: "int \<Rightarrow> int" where
  "hours n = minutes (60 * n)"

definition days :: "int \<Rightarrow> int" where
  "days n = hours (24 * n)"

lemmas duration_defs = seconds_def minutes_def hours_def days_def

section \<open>Characters and strings\<close>

abbreviation code_point :: "char \<Rightarrow> nat" where
  "code_point \<equiv> of_char"

definition py_isspace :: "char \<Rightarrow> bool" where
  "py_isspace c =
     (let n = code_point c in
      (9 \<le> n \<and> n \<le> 13) \<or> (28 \<le> n \<and> n \<le> 32) \<or> n = 133 \<or> n = 160)"

definition is_digit :: "char \<Rightarrow> bool" where
  "is_digit c = (48 \<le> code_point c \<and> code_point c \<le> 57)"

definition is_lower_ascii :: "char \<Rightarrow> bool" where
  "is_lower_ascii c = (97 \<le> code_point c \<and> code_point c \<le> 122)"

definition is_upper_ascii :: "char \<Rightarrow> bool" where
  "is_upper_ascii c = (65 \<le> code_point c \<and> code_point c \<le> 90)"

definition lower_char :: "char \<Rightarrow> char" where
  "lower_char c =
     (let n = code_point c in
      if (65 \<le> n \<and> n \<le> 90) \<or> (192 \<le> n \<and> n \<le> 222 \<and> n \<noteq> 215)
      then char_of (n + 32) else c)"

definition py_lower :: "string \<Rightarrow> string" where
  "py_lower s = map lower_char s"

text \<open>SQLite's \<open>lower()\<close>, which knows the ASCII letters only.\<close>

definition sql_lower :: "string \<Rightarrow> string" where
  "sql_lower s = map (\<lambda>c. if is_upper_ascii c then lower_char c else c) s"

definition py_lstrip :: "string \<Rightarrow> string" where
  "py_lstrip s = dropWhile py_isspace s"

definition py_rstrip :: "string \<Rightarrow> string" where
  "py_rstrip s = rev (dropWhile py_isspace (rev s))"

definition py_strip :: "string \<Rightarrow> string" where
  "py_strip s = py_rstrip (py_lstrip s)"

fun starts_with :: "string \<Rightarrow> string \<Rightarrow> bool" where
  "starts_with [] s = True"
| "starts_with (p # ps) [] = False"
| "starts_with (p # ps) (c # cs) = (p = c \<and> starts_with ps cs)"

fun contains_sub :: "string \<Rightarrow> string \<Rightarrow> bool" where
  "contains_sub p [] = (p = [])"
| "contains_sub p (c # cs) = (starts_with p (c # cs) \<or> contains_sub p cs)"

text \<open>\<open>s.split(sep)\<close> for a one-character separator: never the empty list.\<close>

fun split_on :: "char \<Rightarrow> string \<Rightarrow> string list" where
  "split_on sep [] = [[]]"
| "split_on sep (c # cs) =
     (if c = sep then [] # split_on sep cs
      else (case split_on sep cs of [] \<Rightarrow> [[c]] | w # ws \<Rightarrow> (c # w) # ws))"

fun join_with :: "string \<Rightarrow> string list \<Rightarrow> string" where
  "join_with sep [] = []"
| "join_with sep [w] = w"
| "join_with sep (w # ws) = w @ sep @ join_with sep ws"

text \<open>A string between single quotes, as the program's messages show names.\<close>

definition quoted :: "string \<Rightarrow> string" where
  "quoted s = [CHR 0x27] @ s @ [CHR 0x27]"

lemma code_point_less_256 [simp]: "code_point c < 256"
  by (simp add: of_char_def) 

lemma lower_char_idem [simp]: "lower_char (lower_char c) = lower_char c"
proof -
  have "code_point (lower_char c) = (let n = code_point c in
      if (65 \<le> n \<and> n \<le> 90) \<or> (192 \<le> n \<and> n \<le> 222 \<and> n \<noteq> 215) then n + 32 else n)"
    by (simp add: lower_char_def Let_def)
  then show ?thesis
    by (auto simp: lower_char_def Let_def split: if_splits)
qed

lemma py_lower_idem [simp]: "py_lower (py_lower s) = py_lower s"
  by (simp add: py_lower_def)

lemma starts_with_iff: "starts_with p s \<longleftrightarrow> (\<exists>t. s = p @ t)"
  by (induction p s rule: starts_with.induct) auto

lemma contains_sub_iff: "contains_sub p s \<longleftrightarrow> (\<exists>a b. s = a @ p @ b)"
proof (induction s)
  case Nil
  then show ?case by auto
next
  case (Cons c cs)
  have "(\<exists>a b. c # cs = a @ p @ b) \<longleftrightarrow> starts_with p (c # cs) \<or> (\<exists>a b. cs = a @ p @ b)"
    by (auto simp: starts_with_iff Cons_eq_append_conv)
  with Cons.IH show ?case by simp
qed

lemma split_on_free: "c \<notin> set t \<Longrightarrow> split_on c t = [t]"
  by (induction t) auto

lemma split_on_append: "c \<notin> set t \<Longrightarrow> split_on c (t @ c # s) = t # split_on c s"
  by (induction t) auto

lemma split_on_join: "ts \<noteq> [] \<Longrightarrow> (\<forall>t \<in> set ts. c \<notin> set t) \<Longrightarrow> split_on c (join_with [c] ts) = ts"
  by (induction ts rule: induct_list012) (auto simp: split_on_free split_on_append)

lemma split_on_not_Nil [simp]: "split_on sep s \<noteq> []"
  by (induction s) (auto split: list.splits)

section \<open>Integers and their text\<close>

definition digit_char :: "nat \<Rightarrow> char" where
  "digit_char n = char_of (48 + n)"

definition digit_val :: "char \<Rightarrow> nat" where
  "digit_val c = code_point c - 48"

fun nat_str :: "nat \<Rightarrow> string" where
  "nat_str n = (if n < 10 then [digit_char n] else nat_str (n div 10) @ [digit_char (n mod 10)])"

declare nat_str.simps [simp del]

definition py_str_int :: "int \<Rightarrow> string" where
  "py_str_int i = (if i < 0 then ''-'' @ nat_str (nat (- i)) else nat_str (nat i))"

text \<open>
  \<open>int(s)\<close>: surrounding white space, an optional sign, then digits with single underscores
  between them. CPython refuses more than 4300 digits with the same \<open>ValueError\<close>.
\<close>

fun parse_digits :: "bool \<Rightarrow> nat \<Rightarrow> string \<Rightarrow> nat option" where
  "parse_digits seen acc [] = (if seen then Some acc else None)"
| "parse_digits seen acc (c # cs) =
     (if is_digit c then parse_digits True (10 * acc + digit_val c) cs
      else if c = CHR ''_'' \<and> seen then parse_digits False acc cs
      else None)"

definition parse_unsigned :: "string \<Rightarrow> nat option" where
  "parse_unsigned s =
     (if length (filter is_digit s) > 4300 then None else parse_digits False 0 s)"

definition py_int_of_string :: "string \<Rightarrow> int option" where
  "py_int_of_string s =
     (case py_strip s of
        [] \<Rightarrow> None
      | c # cs \<Rightarrow>
          if c = CHR ''-'' then map_option (\<lambda>n. - int n) (parse_unsigned cs)
          else if c = CHR ''+'' then map_option int (parse_unsigned cs)
          else map_option int (parse_unsigned (c # cs)))"

lemma digit_char_props [simp]:
  assumes "n < 10"
  shows "is_digit (digit_char n)" and "digit_val (digit_char n) = n"
    and "\<not> py_isspace (digit_char n)"
    and "digit_char n \<noteq> CHR ''-''" and "digit_char n \<noteq> CHR ''+''" and "digit_char n \<noteq> CHR ''|''"
proof -
  have c: "code_point (digit_char n) = 48 + n"
    using assms by (simp add: digit_char_def)
  show "is_digit (digit_char n)" "digit_val (digit_char n) = n" "\<not> py_isspace (digit_char n)"
    using assms c by (auto simp: is_digit_def digit_val_def py_isspace_def Let_def)
  show "digit_char n \<noteq> CHR ''-''" "digit_char n \<noteq> CHR ''+''" "digit_char n \<noteq> CHR ''|''"
    using assms c by (auto dest!: arg_cong [where f = "of_char :: char \<Rightarrow> nat"])
qed

lemma nat_str_not_Nil [simp]: "nat_str n \<noteq> []"
  by (subst nat_str.simps) simp

lemma nat_str_chars: "c \<in> set (nat_str n) \<Longrightarrow> \<exists>k < 10. c = digit_char k"
proof (induction n rule: nat_str.induct)
  case (1 n)
  show ?case
  proof (cases "n < 10")
    case True
    with "1.prems" show ?thesis by (subst (asm) nat_str.simps) auto
  next
    case False
    with "1.prems" have "c \<in> set (nat_str (n div 10)) \<or> c = digit_char (n mod 10)"
      by (subst (asm) nat_str.simps) auto
    with False "1.IH" show ?thesis by (auto intro: exI [of _ "n mod 10"])
  qed
qed

lemma parse_digits_append:
  "parse_digits seen acc xs = Some m \<Longrightarrow> is_digit c \<Longrightarrow>
   parse_digits seen acc (xs @ [c]) = Some (10 * m + digit_val c)"
  by (induction seen acc xs rule: parse_digits.induct) (auto split: if_splits)

lemma parse_nat_str: "parse_digits False 0 (nat_str n) = Some n"
proof (induction n rule: nat_str.induct)
  case (1 n)
  show ?case
  proof (cases "n < 10")
    case True
    then show ?thesis by (subst nat_str.simps) simp
  next
    case False
    with "1.IH" have "parse_digits False 0 (nat_str (n div 10)) = Some (n div 10)" by simp
    then have "parse_digits False 0 (nat_str (n div 10) @ [digit_char (n mod 10)]) =
        Some (10 * (n div 10) + digit_val (digit_char (n mod 10)))"
      by (rule parse_digits_append) simp_all
    with False show ?thesis by (subst nat_str.simps) simp
  qed
qed

lemma dropWhile_none: "(\<forall>c \<in> set s. \<not> P c) \<Longrightarrow> dropWhile P s = s"
  by (cases s) auto

lemma py_strip_no_space: "(\<forall>c \<in> set s. \<not> py_isspace c) \<Longrightarrow> py_strip s = s"
  by (simp add: py_strip_def py_lstrip_def py_rstrip_def dropWhile_none)

lemma nat_str_no_space: "\<forall>c \<in> set (nat_str n). \<not> py_isspace c"
  using nat_str_chars by fastforce

lemma nat_str_digits: "filter is_digit (nat_str n) = nat_str n"
  using nat_str_chars by (intro filter_True) fastforce

lemma nat_str_first: "nat_str n = c # cs \<Longrightarrow> c \<noteq> CHR ''-'' \<and> c \<noteq> CHR ''+''"
proof -
  assume "nat_str n = c # cs"
  then have "c \<in> set (nat_str n)" by simp
  then obtain k where "k < 10" "c = digit_char k" using nat_str_chars by blast
  then show ?thesis by simp
qed

lemma parse_unsigned_nat_str: "length (nat_str n) \<le> 4300 \<Longrightarrow> parse_unsigned (nat_str n) = Some n"
  by (simp add: parse_unsigned_def nat_str_digits parse_nat_str)

text \<open>Printing and parsing an integer round-trips below CPython's digit limit.\<close>

lemma py_int_of_string_str:
  assumes "length (py_str_int i) \<le> 4300"
  shows "py_int_of_string (py_str_int i) = Some i"
proof (cases "i < 0")
  case True
  have "py_strip (CHR ''-'' # nat_str (nat (- i))) = CHR ''-'' # nat_str (nat (- i))"
    using nat_str_no_space by (intro py_strip_no_space) (auto simp: py_isspace_def)
  with True assms show ?thesis
    by (simp add: py_int_of_string_def py_str_int_def parse_unsigned_nat_str)
next
  case False
  obtain c cs where d: "nat_str (nat i) = c # cs" by (cases "nat_str (nat i)") auto
  have "py_strip (nat_str (nat i)) = nat_str (nat i)"
    by (intro py_strip_no_space nat_str_no_space)
  with False assms d nat_str_first [OF d] parse_unsigned_nat_str [of "nat i"] show ?thesis
    by (simp add: py_int_of_string_def py_str_int_def)
qed

section \<open>Rows of a table\<close>

text \<open>
  A table is the list of its rows in the order they were inserted. \<open>find_row\<close> is
  \<open>session.get\<close> (or \<open>filter_by(..).first()\<close> on a unique column), \<open>update_rows\<close> an
  \<open>UPDATE .. WHERE\<close>, \<open>count_rows\<close> and \<open>sum_rows\<close> the SQL aggregates, \<open>order_desc\<close> an
  \<open>ORDER BY .. DESC\<close> over a key without ties.
\<close>

definition find_row :: "('r \<Rightarrow> 'k) \<Rightarrow> 'k \<Rightarrow> 'r list \<Rightarrow> 'r option" where
  "find_row key k rows = find (\<lambda>r. key r = k) rows"

definition update_rows :: "('r \<Rightarrow> bool) \<Rightarrow> ('r \<Rightarrow> 'r) \<Rightarrow> 'r list \<Rightarrow> 'r list" where
  "update_rows p f rows = map (\<lambda>r. if p r then f r else r) rows"

definition count_rows :: "('r \<Rightarrow> bool) \<Rightarrow> 'r list \<Rightarrow> int" where
  "count_rows p rows = int (length (filter p rows))"

definition sum_rows :: "('r \<Rightarrow> int) \<Rightarrow> ('r \<Rightarrow> bool) \<Rightarrow> 'r list \<Rightarrow> int" where
  "sum_rows f p rows = sum_list (map f (filter p rows))"

definition order_desc :: "('r \<Rightarrow> 'k::linorder) \<Rightarrow> 'r list \<Rightarrow> 'r list" where
  "order_desc k rows = rev (sort_key k rows)"

text \<open>SQLite gives a new row the largest row id in use plus one.\<close>

definition next_id :: "('r \<Rightarrow> int) \<Rightarrow> 'r list \<Rightarrow> int" where
  "next_id key rows = fold (\<lambda>r m. max (key r) m) rows 0 + 1"

lemma find_row_Nil [simp]: "find_row key k [] = None"
  by (simp add: find_row_def)

lemma find_row_Cons [simp]:
  "find_row key k (r # rows) = (if key r = k then Some r else find_row key k rows)"
  by (simp add: find_row_def)

lemma find_row_SomeD: "find_row key k rows = Some r \<Longrightarrow> r \<in> set rows \<and> key r = k"
  by (auto simp: find_row_def find_Some_iff)

lemma find_row_None_iff: "find_row key k rows = None \<longleftrightarrow> k \<notin> key ` set rows"
  by (induction rows) auto

lemma find_row_key [simp]:
  "distinct (map key rows) \<Longrightarrow> r \<in> set rows \<Longrightarrow> find_row key (key r) rows = Some r"
  by (induction rows) auto

lemma find_row_append:
  "find_row key k (xs @ ys) =
     (case find_row key k xs of None \<Rightarrow> find_row key k ys | Some r \<Rightarrow> Some r)"
  by (induction xs) auto

lemma update_rows_Nil [simp]: "update_rows p f [] = []"
  by (simp add: update_rows_def)

lemma update_rows_Cons [simp]:
  "update_rows p f (r # rows) = (if p r then f r else r) # update_rows p f rows"
  by (simp add: update_rows_def)

lemma set_update_rows: "set (update_rows p f rows) = (\<lambda>r. if p r then f r else r) ` set rows"
  by (simp add: update_rows_def)

lemma length_update_rows [simp]: "length (update_rows p f rows) = length rows"
  by (simp add: update_rows_def)

lemma update_rows_none: "(\<forall>r \<in> set rows. \<not> p r) \<Longrightarrow> update_rows p f rows = rows"
  by (induction rows) auto

lemma map_update_rows [simp]: "(\<And>r. g (f r) = g r) \<Longrightarrow> map g (update_rows p f rows) = map g rows"
  by (induction rows) auto

lemma find_row_update:
  assumes "\<And>r. key (f r) = key r"
  shows "find_row key k (update_rows p f rows) =
     map_option (\<lambda>r. if p r then f r else r) (find_row key k rows)"
  using assms by (induction rows) auto

lemma count_rows_Nil [simp]: "count_rows p [] = 0"
  by (simp add: count_rows_def)

lemma count_rows_Cons [simp]: "count_rows p (r # rows) = (if p r then 1 else 0) + count_rows p rows"
  by (simp add: count_rows_def)

lemma count_rows_append [simp]: "count_rows p (xs @ ys) = count_rows p xs + count_rows p ys"
  by (simp add: count_rows_def)

lemma count_rows_nonneg [simp]: "0 \<le> count_rows p rows"
  by (simp add: count_rows_def)

lemma sum_rows_Nil [simp]: "sum_rows f p [] = 0"
  by (simp add: sum_rows_def)

lemma sum_rows_Cons [simp]: "sum_rows f p (r # rows) = (if p r then f r else 0) + sum_rows f p rows"
  by (simp add: sum_rows_def)

lemma sum_rows_append [simp]: "sum_rows f p (xs @ ys) = sum_rows f p xs + sum_rows f p ys"
  by (simp add: sum_rows_def)

lemma count_rows_zero: "(\<forall>r \<in> set rows. \<not> p r) \<Longrightarrow> count_rows p rows = 0"
  by (induction rows) auto

lemma sum_rows_zero: "(\<forall>r \<in> set rows. \<not> p r) \<Longrightarrow> sum_rows f p rows = 0"
  by (induction rows) auto

lemma count_rows_cong: "(\<And>r. r \<in> set rows \<Longrightarrow> p r = q r) \<Longrightarrow> count_rows p rows = count_rows q rows"
  by (induction rows) auto

lemma sum_rows_cong:
  "(\<And>r. r \<in> set rows \<Longrightarrow> p r = q r \<and> (q r \<longrightarrow> f r = g r)) \<Longrightarrow> sum_rows f p rows = sum_rows g q rows"
  by (induction rows) auto

lemma count_rows_update [simp]:
  "(\<And>r. p (f r) = p r) \<Longrightarrow> count_rows p (update_rows q f rows) = count_rows p rows"
  by (induction rows) auto

text \<open>Changing one row, found by its key, moves a sum by that row's difference.\<close>

lemma sum_rows_update_one:
  assumes "distinct (map key rows)" and "find_row key k rows = Some r"
    and "\<And>x. key (u x) = key x" and "\<And>x. p (u x) = p x"
  shows "sum_rows f p (update_rows (\<lambda>x. key x = k) u rows) =
    sum_rows f p rows + (if p r then f (u r) - f r else 0)"
  using assms(1,2)
proof (induction rows)
  case (Cons x rows)
  show ?case
  proof (cases "key x = k")
    case True
    with Cons.prems have "\<forall>y \<in> set rows. key y \<noteq> k" and "x = r"
      by (auto simp: image_iff)
    with True assms(4) show ?thesis by (auto simp: update_rows_none)
  next
    case False
    with Cons assms(4) show ?thesis by auto
  qed
qed simp

lemma fold_max_ge: "m \<le> fold (\<lambda>r m. max (key r) m) rows (m::int)"
proof (induction rows arbitrary: m)
  case (Cons x rows)
  from Cons.IH [of "max (key x) m"] show ?case by simp
qed simp

lemma fold_max_mem: "r \<in> set rows \<Longrightarrow> key r \<le> fold (\<lambda>r m. max (key r) m) rows (m::int)"
proof (induction rows arbitrary: m)
  case (Cons x rows)
  then show ?case
    using fold_max_ge [of "max (key x) m" key rows] by auto
qed simp

lemma next_id_gt: "r \<in> set rows \<Longrightarrow> key r < next_id key rows"
  using fold_max_mem [of r rows key 0] by (simp add: next_id_def)

lemma next_id_pos [simp]: "0 < next_id key rows"
  using fold_max_ge [of 0 key rows] by (simp add: next_id_def)

lemma next_id_fresh: "next_id key rows \<notin> key ` set rows"
  using next_id_gt [of _ rows key] by fastforce

lemma find_row_next_id [simp]: "find_row key (next_id key rows) rows = None"
  by (simp add: find_row_None_iff next_id_fresh)

lemma set_order_desc [simp]: "set (order_desc k rows) = set rows"
  by (simp add: order_desc_def)

lemma length_order_desc [simp]: "length (order_desc k rows) = length rows"
  by (simp add: order_desc_def)

lemma sorted_order_desc: "sorted_wrt (\<lambda>a b. k b \<le> k a) (order_desc k rows)"
proof -
  have "sorted_wrt (\<lambda>a b. k a \<le> k b) (sort_key k rows)"
    using sorted_sort_key [of k rows] by (simp add: sorted_wrt_map)
  then show ?thesis by (simp add: order_desc_def sorted_wrt_rev)
qed

lemma order_desc_filter: "order_desc k (filter p rows) = filter p (order_desc k rows)"
  by (simp add: order_desc_def filter_sort [symmetric] rev_filter)

lemma strict_order_desc:
  assumes "distinct (map k rows)"
  shows "sorted_wrt (\<lambda>a b. k b < k a) (order_desc k rows)"
proof -
  have "distinct (map k (order_desc k rows))"
    using assms by (simp add: order_desc_def distinct_map)
  then have "sorted_wrt (\<lambda>a b. k a \<noteq> k b) (order_desc k rows)"
    by (simp add: distinct_conv_nth sorted_wrt_iff_nth_less)
  with sorted_order_desc [of k rows] show ?thesis
    by (simp add: sorted_wrt_iff_nth_less) (metis le_neq_trans)
qed

text \<open>Below the key of its \<open>n\<close>-th row, a strictly descending list is what follows that row.\<close>

lemma filter_below_nth:
  assumes "sorted_wrt (\<lambda>a b. k b < (k a :: 'k::linorder)) xs" and "n < length xs"
  shows "filter (\<lambda>x. k x < k (xs ! n)) xs = drop (Suc n) xs"
  using assms
proof (induction xs arbitrary: n)
  case (Cons x xs)
  show ?case
  proof (cases n)
    case 0
    with Cons.prems show ?thesis by (auto simp: filter_id_conv)
  next
    case (Suc m)
    with Cons.prems have "k (xs ! m) < k x" by simp
    with Suc Cons show ?thesis by (simp add: not_less order.strict_implies_order)
  qed
qed simp

lemma count_rows_as_sum: "count_rows p rows = sum_rows (\<lambda>_. 1) p rows"
  by (induction rows) auto

lemma sum_rows_remove:
  assumes "distinct (map key rows)" and "r \<in> set rows"
  shows "sum_rows f p (filter (\<lambda>x. key x \<noteq> key r) rows) = sum_rows f p rows - (if p r then f r else 0)"
  using assms
proof (induction rows)
  case (Cons x rows)
  show ?case
  proof (cases "x = r")
    case True
    with Cons.prems have "filter (\<lambda>y. key y \<noteq> key r) rows = rows"
      by (intro filter_True) (auto simp: image_iff)
    with True show ?thesis by simp
  next
    case False
    with Cons show ?thesis by (auto simp: image_iff)
  qed
qed simp

lemmas count_rows_remove = sum_rows_remove [where f = "\<lambda>_. 1", folded count_rows_as_sum]

lemma distinct_map_filter_key: "distinct (map key rows) \<Longrightarrow> distinct (map key (filter p rows))"
  by (induction rows) auto

end
