(* ===== verification/Store.thy ===== *)
theory Store
  imports Prelude Complex_Main
begin

text \<open>
  The database the program keeps its state in (\<open>deaddit/models.py\<close>): one record per
  table, one record \<open>db\<close> holding every table the model uses, and the settings store. A
  nullable column is an \<open>option\<close>, a foreign key the key of the row it points to, a JSON
  column a value of type \<open>json\<close>. Operations of the program are functions from \<open>db\<close>
  to \<open>db\<close>; each committed transaction is one such step.
\<close>

section \<open>JSON values\<close>

datatype json =
    JNull
  | JBool bool
  | JInt int
  | JFloat rat
  | JStr string
  | JList "json list"
  | JObj "(string \<times> json) list"

definition trunc_rat :: "rat \<Rightarrow> int" where
  "trunc_rat q = (if q < 0 then - \<lfloor>- q\<rfloor> else \<lfloor>q\<rfloor>)"

text \<open>\<open>int(v)\<close>: \<open>None\<close> where Python raises \<open>TypeError\<close> or \<open>ValueError\<close>.\<close>

fun py_int :: "json \<Rightarrow> int option" where
  "py_int JNull = None"
| "py_int (JBool b) = Some (if b then 1 else 0)"
| "py_int (JInt i) = Some i"
| "py_int (JFloat q) = Some (trunc_rat q)"
| "py_int (JStr s) = py_int_of_string s"
| "py_int (JList _) = None"
| "py_int (JObj _) = None"

text \<open>Truth of a value, as in \<open>if v:\<close> or \<open>v or default\<close>.\<close>

fun py_truthy :: "json \<Rightarrow> bool" where
  "py_truthy JNull = False"
| "py_truthy (JBool b) = b"
| "py_truthy (JInt i) = (i \<noteq> 0)"
| "py_truthy (JFloat q) = (q \<noteq> 0)"
| "py_truthy (JStr s) = (s \<noteq> [])"
| "py_truthy (JList xs) = (xs \<noteq> [])"
| "py_truthy (JObj kvs) = (kvs \<noteq> [])"

text \<open>\<open>d.get(key)\<close> on a value that is a \<open>dict\<close>; \<open>None\<close> when it is not one.\<close>

fun json_get :: "string \<Rightarrow> json \<Rightarrow> json option" where
  "json_get k (JObj kvs) = map_of kvs k"
| "json_get k _ = None"

definition json_set :: "string \<Rightarrow> json \<Rightarrow> (string \<times> json) list \<Rightarrow> (string \<times> json) list" where
  "json_set k v kvs =
     (if k \<in> fst ` set kvs then map (\<lambda>(k', v'). if k' = k then (k', v) else (k', v')) kvs
      else kvs @ [(k, v)])"

definition json_remove :: "string \<Rightarrow> (string \<times> json) list \<Rightarrow> (string \<times> json) list" where
  "json_remove k kvs = filter (\<lambda>(k', _). k' \<noteq> k) kvs"

lemma map_of_json_set: "map_of (json_set k v kvs) = (map_of kvs)(k \<mapsto> v)"
proof -
  have "map_of (map (\<lambda>(k', v'). if k' = k then (k', v) else (k', v')) kvs) = (map_of kvs)(k \<mapsto> v)"
    if "k \<in> fst ` set kvs"
    using that
  proof (induction kvs)
    case (Cons kv kvs)
    obtain a b where kv: "kv = (a, b)" by (cases kv)
    show ?case
    proof (cases "k \<in> fst ` set kvs")
      case True
      with Cons.IH kv show ?thesis by (auto simp: fun_eq_iff)
    next
      case False
      then have "map (\<lambda>(k', v'). if k' = k then (k', v) else (k', v')) kvs = kvs"
        by (induction kvs) auto
      with Cons.prems False kv show ?thesis by (auto simp: fun_eq_iff)
    qed
  qed simp
  moreover have "map_of (kvs @ [(k, v)]) = (map_of kvs)(k \<mapsto> v)" if "k \<notin> fst ` set kvs"
    using that
  proof (induction kvs)
    case (Cons kv kvs)
    then show ?case by (cases kv) (auto simp: fun_eq_iff)
  qed (simp add: fun_eq_iff)
  ultimately show ?thesis by (simp add: json_set_def)
qed

lemma map_of_json_remove: "map_of (json_remove k kvs) = (map_of kvs)(k := None)"
  by (induction kvs) (auto simp: json_remove_def fun_eq_iff)

section \<open>Content\<close>

text \<open>The columns \<open>Post\<close> and \<open>Comment\<close> share, then what each adds.\<close>

record item =
  item_id :: int
  author :: username
  score :: int
  vote_count :: int
  created_at :: timestamp
  content :: "string option"
  provenance :: string
  llm_model :: "string option"

record post = item +
  title :: string
  subdeaddit_name :: string
  post_type :: "string option"
  comment_cap :: "int option"

record comment = item +
  post_id :: int
  parent_id :: "int option"

record subdeaddit =
  sub_name :: string
  sub_description :: string
  sub_post_types :: string
  sub_created_at :: "timestamp option"

record user =
  user_name :: username
  age :: "int option"
  gender :: "string option"
  bio :: string
  interests :: string
  occupation :: string
  education :: string
  writing_style :: string
  personality_traits :: string
  is_troll :: bool
  user_model :: string
  post_karma :: int
  comment_karma :: int
  user_created_at :: "timestamp option"
  agent_state :: json
  password_hash :: "string option"

definition is_human :: "user \<Rightarrow> bool" where
  "is_human u = (password_hash u \<noteq> None)"

record vote =
  vote_id :: int
  voter :: "username option"
  visitor_hash :: "string option"
  vote_post :: "int option"
  vote_comment :: "int option"
  vote_value :: int
  vote_source :: string
  vote_created_at :: timestamp

record notification =
  notif_id :: int
  recipient :: username
  kind :: string
  actor :: "username option"
  notif_post :: "int option"
  notif_comment :: "int option"
  snippet :: "string option"
  notif_created_at :: timestamp
  read_at :: "timestamp option"

record activity_event =
  event_id :: int
  occurred_at :: timestamp
  event_type :: string
  event_user :: "username option"
  event_post :: "int option"
  event_comment :: "int option"

record degeneracy_flag =
  flag_id :: int
  flag_kind :: string
  flag_user :: "username option"
  flag_sub :: "string option"
  flag_post :: "int option"
  flag_comment :: "int option"
  flag_metric :: rat
  flag_created_at :: timestamp

record post_image =
  image_post :: int
  original_path :: string
  thumbnail_path :: string
  mime_type :: string
  image_byte_size :: int
  width :: int
  height :: int
  alt_text :: string
  source_prompt :: string
  provider_snapshot :: string
  image_model_snapshot :: string
  provider_id :: "int option"
  request_snapshot :: "string option"

record generated_website =
  site_id :: int
  site_post :: int
  public_path :: string
  storage_path :: string
  hostname :: string
  page_name :: string
  source_description :: string
  site_byte_size :: int
  sha256 :: string
  site_agent :: "int option"
  creator_username_snapshot :: string
  site_run :: "int option"
  api_url_snapshot :: string
  site_model_snapshot :: string

section \<open>Jobs and agents\<close>

datatype job_type = Batch_Operation | Agent_Run_Job

datatype job_status = Pending | Running | Completed | Failed | Cancelled

record job =
  job_id :: int
  job_kind :: job_type
  job_status :: job_status
  priority :: int
  progress :: int
  total_items :: int
  parameters :: json
  job_result :: "json option"
  job_error :: "string option"
  job_created_at :: timestamp
  job_started_at :: "timestamp option"
  completed_at :: "timestamp option"
  claimed_at :: "timestamp option"
  worker_id :: "string option"
  heartbeat_at :: "timestamp option"

record job_log =
  log_job :: int
  log_seq :: int
  log_created_at :: timestamp
  log_level :: string
  log_message :: string

record agent =
  agent_id :: int
  persona_mode :: string
  user_username :: "username option"
  autonomy_tier :: string
  is_enabled :: bool
  agent_status :: string
  agent_config :: json
  run_state :: json
  last_run_at :: "timestamp option"
  next_run_at :: "timestamp option"
  consecutive_failures :: int

record agent_run =
  run_id :: int
  run_agent :: int
  persona_username :: username
  run_trigger :: string
  run_intent :: "string option"
  run_status :: string
  started_at :: timestamp
  finished_at :: "timestamp option"
  turn_count :: int
  action_count :: int
  token_usage :: json
  prompt_metadata :: "json option"
  run_error :: "string option"

record agent_turn =
  turn_id :: int
  turn_run :: int
  turn_seq :: int
  request_messages :: json
  response_message :: json

record tool_call =
  call_id :: int
  call_turn :: "int option"
  call_run :: int
  call_name :: string
  call_arguments :: json
  call_result :: json
  call_ok :: bool
  call_error :: "string option"
  call_created_at :: timestamp

section \<open>The database\<close>

text \<open>
  A \<open>Setting\<close> row may hold NULL, hence a map into \<open>string option\<close>.
\<close>

record image_provider =
  provider_key :: int
  provider_name :: string
  provider_type :: string
  default_model :: "string option"
  provider_enabled :: bool
  provider_default :: bool

text \<open>Policies of the vote simulator, and its counters for one hour and mode.\<close>

record cadence_policy =
  cadence_id :: int
  preset :: string
  algorithm_version :: int
  cadence_config :: json
  effective_at :: timestamp
  cadence_created_at :: timestamp

record simulation_hour =
  sim_hour :: timestamp
  sim_mode :: string
  sim_counters :: "(string \<times> int) list"
  sim_updated_at :: timestamp

text \<open>Where requests to language models go, what they cost, and what endpoints can do.\<close>

record llm_provider =
  llm_id :: int
  llm_name :: string
  llm_api_url :: string
  llm_api_key :: "string option"
  llm_default_model :: "string option"
  llm_is_default :: bool

record model_route =
  route_id :: int
  route_tier :: string
  route_api_url :: "string option"
  route_model :: string
  route_priority :: int
  route_active :: bool

record llm_usage =
  usage_id :: int
  usage_created_at :: timestamp
  usage_request :: string
  usage_attempt :: int
  usage_api_url :: string
  usage_model :: string
  usage_action :: "string option"
  usage_agent :: "string option"
  usage_status :: string
  usage_error :: "string option"
  usage_prompt :: json
  usage_completion :: json
  usage_total :: json
  usage_cost :: "rat option"

record model_price =
  price_id :: int
  price_pattern :: string
  prompt_price :: rat
  completion_price :: rat

record endpoint_capability =
  cap_api_url :: string
  cap_model :: string
  supports_tools :: bool
  supports_streaming :: "bool option"
  probed_at :: "timestamp option"
  probe_method :: "string option"
  supports_vision :: "bool option"
  vision_probed_at :: "timestamp option"
  vision_probe_method :: "string option"

record agent_memory =
  memory_id :: int
  memory_user :: username
  memory_kind :: string
  memory_content :: string
  memory_created_at :: timestamp

record db =
  posts :: "post list"
  comments :: "comment list"
  users :: "user list"
  subdeaddits :: "subdeaddit list"
  votes :: "vote list"
  images :: "post_image list"
  websites :: "generated_website list"
  settings :: "string \<rightharpoonup> string option"
  notifications :: "notification list"
  events :: "activity_event list"
  flags :: "degeneracy_flag list"
  jobs :: "job list"
  job_logs :: "job_log list"
  agents :: "agent list"
  runs :: "agent_run list"
  turns :: "agent_turn list"
  tool_calls :: "tool_call list"
  image_providers :: "image_provider list"
  cadence_policies :: "cadence_policy list"
  simulation_hours :: "simulation_hour list"
  llm_providers :: "llm_provider list"
  model_routes :: "model_route list"
  llm_usages :: "llm_usage list"
  model_prices :: "model_price list"
  capabilities :: "endpoint_capability list"
  memories :: "agent_memory list"

definition empty_db :: db where
  "empty_db = \<lparr>posts = [], comments = [], users = [], subdeaddits = [], votes = [], images = [],
     websites = [], settings = Map.empty, notifications = [], events = [], flags = [], jobs = [],
     job_logs = [], agents = [], runs = [], turns = [], tool_calls = [],
     image_providers = [], cadence_policies = [], simulation_hours = [], llm_providers = [], model_routes = [],
     llm_usages = [], model_prices = [], capabilities = [], memories = []\<rparr>"

text \<open>Rows to state examples with: a user, a post and a comment with the column defaults.\<close>

definition sample_user :: "username \<Rightarrow> user" where
  "sample_user n = \<lparr>user_name = n, age = None, gender = None, bio = [], interests = [], occupation = [],
     education = [], writing_style = [], personality_traits = [], is_troll = False, user_model = [],
     post_karma = 0, comment_karma = 0, user_created_at = None, agent_state = JObj [],
     password_hash = None\<rparr>"

definition sample_post :: "int \<Rightarrow> username \<Rightarrow> post" where
  "sample_post i who = \<lparr>item_id = i, author = who, score = 0, vote_count = 0, created_at = 0,
     content = Some ''text'', provenance = ''agent'', llm_model = None, title = ''hello'',
     subdeaddit_name = ''test'', post_type = None, comment_cap = None\<rparr>"

definition sample_comment :: "int \<Rightarrow> username \<Rightarrow> int \<Rightarrow> int option \<Rightarrow> comment" where
  "sample_comment i who pid par = \<lparr>item_id = i, author = who, score = 0, vote_count = 0, created_at = 0,
     content = Some ''reply'', provenance = ''agent'', llm_model = None, post_id = pid, parent_id = par\<rparr>"

text \<open>A human \<open>ann\<close>, two personas, a post of \<open>ann\<close> and a thread under it.\<close>

definition sample_db :: db where
  "sample_db = empty_db\<lparr>
     users := [(sample_user ''ann'')\<lparr>password_hash := Some ''hash''\<rparr>, sample_user ''bob'', sample_user ''cy''],
     posts := [sample_post 7 ''ann''],
     comments := [sample_comment 1 ''bob'' 7 None, sample_comment 2 ''ann'' 7 (Some 1),
       sample_comment 3 ''cy'' 7 (Some 1), sample_comment 4 ''bob'' 7 (Some 3)]\<rparr>"

definition setting_get :: "string \<Rightarrow> string option \<Rightarrow> db \<Rightarrow> string option" where
  "setting_get key dflt d = (case settings d key of None \<Rightarrow> dflt | Some v \<Rightarrow> v)"

definition setting_set :: "string \<Rightarrow> string option \<Rightarrow> db \<Rightarrow> db" where
  "setting_set key v d = d\<lparr>settings := (settings d)(key \<mapsto> v)\<rparr>"

lemma setting_get_set:
  "setting_get k def (setting_set k' v d) = (if k = k' then v else setting_get k def d)"
  by (simp add: setting_get_def setting_set_def)

text \<open>\<open>int(str(raw))\<close> of a setting's value: a NULL reads as the text \<open>None\<close>.\<close>

definition setting_as_int :: "string \<Rightarrow> string \<Rightarrow> db \<Rightarrow> int option" where
  "setting_as_int key dflt d =
     py_int_of_string (case setting_get key (Some dflt) d of None \<Rightarrow> ''None'' | Some s \<Rightarrow> s)"

text \<open>Python's \<open>str(x)\<close> of an optional string and of an optional integer.\<close>

definition py_str_opt :: "string option \<Rightarrow> string" where
  "py_str_opt v = (case v of None \<Rightarrow> ''None'' | Some s \<Rightarrow> s)"

section \<open>A table as a lens with a primary key\<close>

text \<open>
  What the components rely on when they read and write one table of the database: reading
  back what was stored, storing what was read, and a key that names a row. Facts about
  inserting and updating rows are proved once here and interpreted for every table.
\<close>

locale keyed_table =
  fixes rows :: "'d \<Rightarrow> 'r list"
    and put :: "'r list \<Rightarrow> 'd \<Rightarrow> 'd"
    and key :: "'r \<Rightarrow> int"
  assumes rows_put: "rows (put xs d) = xs"
    and put_rows: "put (rows d) d = d"
    and put_put: "put xs (put ys d) = put xs d"
begin

lemma fresh_not_stored: "r \<in> set (rows d) \<Longrightarrow> key r \<noteq> next_id key (rows d)"
  using next_id_gt [of r "rows d" key] by simp

lemma insert_keeps_keys:
  assumes "distinct (map key (rows d))" and "key r = next_id key (rows d)"
  shows "distinct (map key (rows (put (rows d @ [r]) d)))"
  using assms next_id_fresh [of key "rows d"] by (auto simp: rows_put)

lemma insert_found:
  assumes "key r = next_id key (rows d)"
  shows "find_row key (key r) (rows (put (rows d @ [r]) d)) = Some r"
  using assms by (simp add: rows_put find_row_append)

lemma insert_others:
  assumes "key r = next_id key (rows d)" and "k \<noteq> key r"
  shows "find_row key k (rows (put (rows d @ [r]) d)) = find_row key k (rows d)"
  using assms by (simp add: rows_put find_row_append split: option.splits)

lemma update_keeps_keys:
  assumes "\<And>r. key (f r) = key r"
  shows "map key (rows (put (update_rows p f (rows d)) d)) = map key (rows d)"
  using assms by (simp add: rows_put)

lemma no_update: "(\<forall>r \<in> set (rows d). \<not> p r) \<Longrightarrow> put (update_rows p f (rows d)) d = d"
  by (simp add: update_rows_none put_rows)

end

interpretation post_table: keyed_table posts "\<lambda>xs d. d\<lparr>posts := xs\<rparr>" item_id
  by unfold_locales auto

interpretation comment_table: keyed_table comments "\<lambda>xs d. d\<lparr>comments := xs\<rparr>" item_id
  by unfold_locales auto

interpretation vote_table: keyed_table votes "\<lambda>xs d. d\<lparr>votes := xs\<rparr>" vote_id
  by unfold_locales auto

interpretation notification_table:
  keyed_table notifications "\<lambda>xs d. d\<lparr>notifications := xs\<rparr>" notif_id
  by unfold_locales auto

interpretation job_table: keyed_table jobs "\<lambda>xs d. d\<lparr>jobs := xs\<rparr>" job_id
  by unfold_locales auto

interpretation agent_table: keyed_table agents "\<lambda>xs d. d\<lparr>agents := xs\<rparr>" agent_id
  by unfold_locales auto

interpretation run_table: keyed_table runs "\<lambda>xs d. d\<lparr>runs := xs\<rparr>" run_id
  by unfold_locales auto

end
