(* ===== verification/Activity.thy ===== *)
theory Activity
  imports Store
begin

text \<open>
  \<open>deaddit/dynamics/activity.py\<close>: the activity log, and the contract every side effect
  that runs after a content transaction keeps. The module headers of \<open>activity\<close>,
  \<open>notifications\<close> and \<open>degeneracy\<close> promise that such a hook never touches the content
  it reports on; the locale \<open>isolated_hook\<close> is that promise.
\<close>

definition record_event ::
  "string \<Rightarrow> username option \<Rightarrow> int option \<Rightarrow> int option \<Rightarrow> timestamp \<Rightarrow> db \<Rightarrow> db" where
  "record_event etype who pid cid now d =
     d\<lparr>events := events d @
        [\<lparr>event_id = next_id event_id (events d), occurred_at = now, event_type = etype,
          event_user = who, event_post = pid, event_comment = cid\<rparr>]\<rparr>"

section \<open>Hooks that leave the content alone\<close>

text \<open>The tables a reader of the site sees, and the ones the agents and jobs run on.\<close>

definition content_state where
  "content_state d = (posts d, comments d, users d, subdeaddits d, votes d, images d, websites d,
     settings d)"

definition runtime_state where
  "runtime_state d = (jobs d, job_logs d, agents d, runs d, turns d, tool_calls d)"

lemma content_stateD:
  assumes "content_state d = content_state d'"
  shows "posts d = posts d'" and "comments d = comments d'" and "users d = users d'"
    and "subdeaddits d = subdeaddits d'" and "votes d = votes d'" and "images d = images d'"
    and "websites d = websites d'" and "settings d = settings d'"
  using assms by (simp_all add: content_state_def)

locale isolated_hook =
  fixes hook :: "'a \<Rightarrow> db \<Rightarrow> db"
  assumes keeps_content: "content_state (hook x d) = content_state d"
    and keeps_runtime: "runtime_state (hook x d) = runtime_state d"
begin

lemma hook_posts [simp]: "posts (hook x d) = posts d"
  by (rule content_stateD(1) [OF keeps_content])

lemma hook_comments [simp]: "comments (hook x d) = comments d"
  by (rule content_stateD(2) [OF keeps_content])

lemma hook_users [simp]: "users (hook x d) = users d"
  by (rule content_stateD(3) [OF keeps_content])

lemma hook_subdeaddits [simp]: "subdeaddits (hook x d) = subdeaddits d"
  by (rule content_stateD(4) [OF keeps_content])

lemma hook_votes [simp]: "votes (hook x d) = votes d"
  by (rule content_stateD(5) [OF keeps_content])

lemma hook_images [simp]: "images (hook x d) = images d"
  by (rule content_stateD(6) [OF keeps_content])

lemma hook_websites [simp]: "websites (hook x d) = websites d"
  by (rule content_stateD(7) [OF keeps_content])

lemma hook_settings [simp]: "settings (hook x d) = settings d"
  by (rule content_stateD(8) [OF keeps_content])

lemma hook_invariant:
  assumes "\<And>d d'. content_state d = content_state d' \<Longrightarrow> P d = P d'"
  shows "P (hook x d) = P d"
  by (rule assms) (rule keeps_content)

end

text \<open>Two hooks run one after the other are again isolated, which is how the service chains them.\<close>

locale hook_pair = first: isolated_hook hook + second: isolated_hook hook'
  for hook :: "'a \<Rightarrow> db \<Rightarrow> db" and hook' :: "'b \<Rightarrow> db \<Rightarrow> db"
begin

lemma pair_keeps_content: "content_state (hook' y (hook x d)) = content_state d"
  by (simp add: second.keeps_content first.keeps_content)

lemma pair_keeps_runtime: "runtime_state (hook' y (hook x d)) = runtime_state d"
  by (simp add: second.keeps_runtime first.keeps_runtime)

end

sublocale hook_pair \<subseteq> chain: isolated_hook "\<lambda>(x, y) d. hook' y (hook x d)"
  by unfold_locales (auto simp: pair_keeps_content pair_keeps_runtime)

interpretation activity_log: isolated_hook
  "\<lambda>(etype, who, pid, cid, now). record_event etype who pid cid now"
  by unfold_locales (auto simp: record_event_def content_state_def runtime_state_def)

lemma record_event_frame [simp]:
  "content_state (record_event e u p c t d) = content_state d"
  "runtime_state (record_event e u p c t d) = runtime_state d"
  using activity_log.keeps_content [of "(e, u, p, c, t)" d]
    activity_log.keeps_runtime [of "(e, u, p, c, t)" d] by simp_all

lemma record_event_tables [simp]:
  "posts (record_event e u p c t d) = posts d"
  "comments (record_event e u p c t d) = comments d"
  "users (record_event e u p c t d) = users d"
  "subdeaddits (record_event e u p c t d) = subdeaddits d"
  "votes (record_event e u p c t d) = votes d"
  "images (record_event e u p c t d) = images d"
  "websites (record_event e u p c t d) = websites d"
  "settings (record_event e u p c t d) = settings d"
  "notifications (record_event e u p c t d) = notifications d"
  "flags (record_event e u p c t d) = flags d"
  by (simp_all add: record_event_def)

end
