(* ===== verification/Votes.thy ===== *)
theory Votes
  imports Activity
begin

text \<open>
  \<open>deaddit/dynamics/votes.py\<close>: casting, switching and clearing a vote, with the score,
  the vote count and the author's karma kept in step. The theory ends with the ledger
  invariant, which says that the denormalised columns are what the vote rows add up to,
  and with the abstract ballot box the service implements.
\<close>

section \<open>The service\<close>

datatype db_error = Integrity_Error | Multiple_Results_Found

datatype vote_outcome =
    Vote_Rejected string int
  | Vote_Ok int bool string
  | Vote_Raises db_error

definition truthy_words :: "string list" where
  "truthy_words = [''true'', ''1'', ''on'', ''yes'']"

definition downvotes_allowed :: "db \<Rightarrow> bool" where
  "downvotes_allowed d =
     (py_lower (py_strip (case setting_get ''allow_downvotes'' (Some ''true'') d of
         None \<Rightarrow> '''' | Some s \<Rightarrow> s)) \<in> set truthy_words)"

text \<open>\<open>filter_by\<close> on the identity and the target; \<open>one_or_none\<close> raises on a second row.\<close>

definition vote_matches ::
  "username option \<Rightarrow> string \<Rightarrow> int \<Rightarrow> string option \<Rightarrow> vote \<Rightarrow> bool" where
  "vote_matches who target tid vhash v =
     ((case vhash of
         Some h \<Rightarrow> if h \<noteq> [] then visitor_hash v = Some h else voter v = who
       | None \<Rightarrow> voter v = who) \<and>
      (if target = ''post'' then vote_post v = Some tid else vote_comment v = Some tid))"

definition find_vote ::
  "username option \<Rightarrow> string \<Rightarrow> int \<Rightarrow> string option \<Rightarrow> db \<Rightarrow> db_error + vote option" where
  "find_vote who target tid vhash d =
     (case filter (vote_matches who target tid vhash) (votes d) of
        [] \<Rightarrow> Inr None
      | [v] \<Rightarrow> Inr (Some v)
      | _ \<Rightarrow> Inl Multiple_Results_Found)"

text \<open>The CHECK and UNIQUE constraints of the \<open>vote\<close> table, tested when a row is written.\<close>

definition vote_row_ok :: "vote \<Rightarrow> bool" where
  "vote_row_ok v =
     ((vote_value v = 1 \<or> vote_value v = -1) \<and>
      (vote_post v = None) \<noteq> (vote_comment v = None) \<and>
      (voter v = None) \<noteq> (visitor_hash v = None))"

definition pair_keys :: "(vote \<Rightarrow> 'a option) \<Rightarrow> (vote \<Rightarrow> int option) \<Rightarrow> vote list \<Rightarrow> ('a \<times> int) list" where
  "pair_keys who col vs =
     List.map_filter (\<lambda>v. case (who v, col v) of (Some a, Some t) \<Rightarrow> Some (a, t) | _ \<Rightarrow> None) vs"

definition vote_constraints :: "vote list \<Rightarrow> bool" where
  "vote_constraints vs =
     (list_all vote_row_ok vs \<and>
      distinct (pair_keys voter vote_post vs) \<and> distinct (pair_keys voter vote_comment vs) \<and>
      distinct (pair_keys visitor_hash vote_post vs) \<and>
      distinct (pair_keys visitor_hash vote_comment vs))"

text \<open>What a request changes: score delta, count delta, the flag, its name, and the new rows.\<close>

definition vote_change ::
  "username option \<Rightarrow> string \<Rightarrow> int \<Rightarrow> int \<Rightarrow> string \<Rightarrow> bool \<Rightarrow> string option \<Rightarrow> timestamp \<Rightarrow>
   vote option \<Rightarrow> vote list \<Rightarrow> int \<times> int \<times> bool \<times> string \<times> vote list" where
  "vote_change who target tid val source recast vhash now existing vs =
     (if val = 0 then
        (case existing of
           Some v \<Rightarrow>
             if recast
             then (- vote_value v, -1, True, ''remove'', filter (\<lambda>w. vote_id w \<noteq> vote_id v) vs)
             else (0, 0, False, ''same_value_noop'', vs)
         | None \<Rightarrow> (0, 0, False, ''same_value_noop'', vs))
      else
        (case existing of
           None \<Rightarrow>
             (val, 1, True, ''insert'', vs @
               [\<lparr>vote_id = next_id vote_id vs, voter = who, visitor_hash = vhash,
                 vote_post = (if target = ''post'' then Some tid else None),
                 vote_comment = (if target = ''post'' then None else Some tid),
                 vote_value = val, vote_source = source, vote_created_at = now\<rparr>])
         | Some v \<Rightarrow>
             if \<not> recast then (0, 0, False, ''insert_only_collision'', vs)
             else if vote_value v \<noteq> val then
               (val - vote_value v, 0, True, ''direction_switch'',
                update_rows (\<lambda>w. vote_id w = vote_id v) (\<lambda>w. w\<lparr>vote_value := val\<rparr>) vs)
             else (0, 0, False, ''same_value_noop'', vs)))"

definition target_item :: "string \<Rightarrow> int \<Rightarrow> db \<Rightarrow> item option" where
  "target_item target tid d =
     (if target = ''post'' then map_option item.truncate (find_row item_id tid (posts d))
      else if target = ''comment'' then map_option item.truncate (find_row item_id tid (comments d))
      else None)"

definition add_tally :: "int \<Rightarrow> int \<Rightarrow> int \<Rightarrow> 'a item_scheme list \<Rightarrow> 'a item_scheme list" where
  "add_tally tid delta count_delta =
     update_rows (\<lambda>i. item_id i = tid)
       (\<lambda>i. i\<lparr>score := score i + delta, vote_count := vote_count i + count_delta\<rparr>)"

definition add_karma :: "bool \<Rightarrow> username \<Rightarrow> int \<Rightarrow> user list \<Rightarrow> user list" where
  "add_karma is_post who delta =
     update_rows (\<lambda>u. user_name u = who)
       (\<lambda>u. if is_post then u\<lparr>post_karma := post_karma u + delta\<rparr>
            else u\<lparr>comment_karma := comment_karma u + delta\<rparr>)"

definition apply_vote ::
  "string \<Rightarrow> int \<Rightarrow> username \<Rightarrow> int \<Rightarrow> int \<Rightarrow> vote list \<Rightarrow> db \<Rightarrow> db" where
  "apply_vote target tid owner delta count_delta vs d =
     (let d' = d\<lparr>votes := vs\<rparr> in
      if delta = 0 then d'
      else if target = ''post'' then
        d'\<lparr>posts := add_tally tid delta count_delta (posts d), users := add_karma True owner delta (users d)\<rparr>
      else
        d'\<lparr>comments := add_tally tid delta count_delta (comments d),
           users := add_karma False owner delta (users d)\<rparr>)"

text \<open>
  One attempt of \<open>cast_vote\<close>. The outcome \<open>None\<close> is an \<open>IntegrityError\<close> at the commit:
  the transaction is rolled back, so the state is the one the attempt started from.
\<close>

definition cast_vote_attempt ::
  "username option \<Rightarrow> string \<Rightarrow> int \<Rightarrow> int \<Rightarrow> string \<Rightarrow> bool \<Rightarrow> string option \<Rightarrow> timestamp \<Rightarrow>
   db \<Rightarrow> vote_outcome option \<times> db" where
  "cast_vote_attempt who target tid val source recast vhash now d =
     (case target_item target tid d of
        None \<Rightarrow> (Some (Vote_Rejected (target @ '' '' @ py_str_int tid @ '' does not exist'') 0), d)
      | Some it \<Rightarrow>
          if val \<notin> {1, -1, 0} then (Some (Vote_Rejected ''value must be 1 or -1'' (score it)), d)
          else if vhash = None \<and> (case who of None \<Rightarrow> True | Some u \<Rightarrow> find_row user_name u (users d) = None)
          then (Some (Vote_Rejected (''user '' @ quoted (py_str_opt who) @ '' does not exist'')
                        (score it)), d)
          else if Some (author it) = who
          then (Some (Vote_Rejected (''you cannot vote on your own '' @ target) (score it)), d)
          else if val = -1 \<and> \<not> downvotes_allowed d
          then (Some (Vote_Rejected ''downvotes are disabled'' (score it)), d)
          else
            (case find_vote who target tid vhash d of
               Inl e \<Rightarrow> (Some (Vote_Raises e), d)
             | Inr existing \<Rightarrow>
                 (case vote_change who target tid val source recast vhash now existing (votes d) of
                    (delta, count_delta, changed, change_kind, vs) \<Rightarrow>
                      if \<not> vote_constraints vs then (None, d)
                      else
                        (let d' = apply_vote target tid (author it) delta count_delta vs d;
                             d'' = (if changed then record_event ''vote''
                                      (if vhash = None then who else None)
                                      (if target = ''post'' then Some tid else None)
                                      (if target = ''post'' then None else Some tid) now d'
                                    else d')
                         in (Some (Vote_Ok (case target_item target tid d' of
                                              None \<Rightarrow> 0 | Some it' \<Rightarrow> score it')
                                    changed change_kind), d'')))))"

text \<open>A first \<open>IntegrityError\<close> is retried once; a second one is raised.\<close>

definition cast_vote ::
  "username option \<Rightarrow> string \<Rightarrow> int \<Rightarrow> int \<Rightarrow> string \<Rightarrow> bool \<Rightarrow> string option \<Rightarrow> timestamp \<Rightarrow>
   db \<Rightarrow> vote_outcome \<times> db" where
  "cast_vote who target tid val source recast vhash now d =
     (case cast_vote_attempt who target tid val source recast vhash now d of
        (Some r, d') \<Rightarrow> (r, d')
      | (None, d') \<Rightarrow>
          (case cast_vote_attempt who target tid val source recast vhash now d' of
             (Some r, d'') \<Rightarrow> (r, d'')
           | (None, d'') \<Rightarrow> (Vote_Raises Integrity_Error, d'')))"

section \<open>The ledger\<close>

text \<open>
  The denormalised columns: an item's score and vote count are the sum and the number of
  its vote rows, and a user's karma the sum of the scores of what the user wrote.
\<close>

definition tallied :: "(vote \<Rightarrow> int option) \<Rightarrow> vote list \<Rightarrow> 'a item_scheme list \<Rightarrow> bool" where
  "tallied col vs is = list_all (\<lambda>i.
     score i = sum_rows vote_value (\<lambda>v. col v = Some (item_id i)) vs \<and>
     vote_count i = count_rows (\<lambda>v. col v = Some (item_id i)) vs) is"

definition karma_total :: "'a item_scheme list \<Rightarrow> username \<Rightarrow> int" where
  "karma_total is u = sum_rows score (\<lambda>i. author i = u) is"

definition karma_settled :: "db \<Rightarrow> bool" where
  "karma_settled d = list_all (\<lambda>u. post_karma u = karma_total (posts d) (user_name u) \<and>
     comment_karma u = karma_total (comments d) (user_name u)) (users d)"

definition keys_ok :: "db \<Rightarrow> bool" where
  "keys_ok d = (distinct (map item_id (posts d)) \<and> distinct (map item_id (comments d)) \<and>
     distinct (map user_name (users d)) \<and> distinct (map vote_id (votes d)))"

definition vote_ledger :: "db \<Rightarrow> bool" where
  "vote_ledger d = (keys_ok d \<and> vote_constraints (votes d) \<and>
     tallied vote_post (votes d) (posts d) \<and> tallied vote_comment (votes d) (comments d) \<and>
     karma_settled d)"

lemmas ledger_defs = vote_ledger_def keys_ok_def karma_settled_def

definition target_col :: "string \<Rightarrow> vote \<Rightarrow> int option" where
  "target_col target = (if target = ''post'' then vote_post else vote_comment)"

lemma find_vote_SomeD:
  "find_vote who target tid vhash d = Inr (Some v) \<Longrightarrow>
   v \<in> set (votes d) \<and> vote_matches who target tid vhash v"
proof -
  assume "find_vote who target tid vhash d = Inr (Some v)"
  then have "filter (vote_matches who target tid vhash) (votes d) = [v]"
    by (auto simp: find_vote_def split: list.splits)
  then have "v \<in> set (filter (vote_matches who target tid vhash) (votes d))" by simp
  then show ?thesis by simp
qed

lemma find_vote_NoneD:
  "find_vote who target tid vhash d = Inr None \<Longrightarrow>
   \<forall>v \<in> set (votes d). \<not> vote_matches who target tid vhash v"
  by (auto simp: find_vote_def filter_empty_conv split: list.splits)

lemma vote_matches_col: "vote_matches who target tid vhash v \<Longrightarrow> target_col target v = Some tid"
  by (auto simp: vote_matches_def target_col_def)

lemma vote_constraints_row: "vote_constraints vs \<Longrightarrow> v \<in> set vs \<Longrightarrow> vote_row_ok v"
  by (simp add: vote_constraints_def list_all_iff)

lemma sum_votes_update:
  assumes "distinct (map vote_id vs)" and "v \<in> set vs" and "\<And>w x. p (w\<lparr>vote_value := x\<rparr>) = p w"
  shows "sum_rows vote_value p (update_rows (\<lambda>w. vote_id w = vote_id v) (\<lambda>w. w\<lparr>vote_value := y\<rparr>) vs) =
    sum_rows vote_value p vs + (if p v then y - vote_value v else 0)"
  using sum_rows_update_one [OF assms(1) find_row_key [OF assms(1,2)],
      of "\<lambda>w. w\<lparr>vote_value := y\<rparr>" p vote_value] assms(3) by simp

text \<open>What a change does to the sums of the target's column, and of the other one.\<close>

lemma vote_change_sums:
  assumes change: "vote_change who target tid val source recast vhash now existing vs =
      (delta, count_delta, changed, change_kind, vs')"
    and ids: "distinct (map vote_id vs)"
    and found: "\<And>v. existing = Some v \<Longrightarrow> v \<in> set vs \<and> target_col target v = Some tid"
    and col: "col = target_col target"
  shows "sum_rows vote_value (\<lambda>v. col v = Some k) vs' =
      sum_rows vote_value (\<lambda>v. col v = Some k) vs + (if k = tid then delta else 0)"
    and "count_rows (\<lambda>v. col v = Some k) vs' =
      count_rows (\<lambda>v. col v = Some k) vs + (if k = tid then count_delta else 0)"
proof -
  show "sum_rows vote_value (\<lambda>v. col v = Some k) vs' =
      sum_rows vote_value (\<lambda>v. col v = Some k) vs + (if k = tid then delta else 0)"
    using change ids found
    by (auto simp: vote_change_def col target_col_def sum_votes_update sum_rows_remove
        split: if_splits option.splits)
  show "count_rows (\<lambda>v. col v = Some k) vs' =
      count_rows (\<lambda>v. col v = Some k) vs + (if k = tid then count_delta else 0)"
    using change ids found
    by (auto simp: vote_change_def col target_col_def count_rows_remove
        split: if_splits option.splits)
qed

lemma vote_change_other:
  assumes change: "vote_change who target tid val source recast vhash now existing vs =
      (delta, count_delta, changed, change_kind, vs')"
    and ids: "distinct (map vote_id vs)"
    and found: "\<And>v. existing = Some v \<Longrightarrow> v \<in> set vs \<and> col v = None"
    and col: "col = (if target = ''post'' then vote_comment else vote_post)"
  shows "sum_rows vote_value (\<lambda>v. col v = Some k) vs' = sum_rows vote_value (\<lambda>v. col v = Some k) vs"
    and "count_rows (\<lambda>v. col v = Some k) vs' = count_rows (\<lambda>v. col v = Some k) vs"
proof -
  show "sum_rows vote_value (\<lambda>v. col v = Some k) vs' = sum_rows vote_value (\<lambda>v. col v = Some k) vs"
    using change ids found
    by (auto simp: vote_change_def col sum_votes_update sum_rows_remove
        split: if_splits option.splits)
  show "count_rows (\<lambda>v. col v = Some k) vs' = count_rows (\<lambda>v. col v = Some k) vs"
    using change ids found
    by (auto simp: vote_change_def col count_rows_remove
        split: if_splits option.splits)
qed

lemma vote_change_ids:
  assumes "vote_change who target tid val source recast vhash now existing vs =
      (delta, count_delta, changed, change_kind, vs')" and "distinct (map vote_id vs)"
  shows "distinct (map vote_id vs')"
  using assms next_id_fresh [of vote_id vs]
  by (auto simp: vote_change_def distinct_map_filter_key split: if_splits option.splits)

lemma vote_change_zero:
  assumes "vote_change who target tid val source recast vhash now existing vs =
      (delta, count_delta, changed, change_kind, vs')"
    and "\<And>v. existing = Some v \<Longrightarrow> vote_value v \<noteq> 0"
  shows "(delta = 0 \<longleftrightarrow> \<not> changed) \<and> (\<not> changed \<longrightarrow> count_delta = 0 \<and> vs' = vs)"
  using assms by (auto simp: vote_change_def split: if_splits option.splits)

lemma add_tally_keys [simp]: "map item_id (add_tally tid delta cd is) = map item_id is"
  by (simp add: add_tally_def)

lemma tallied_add_tally:
  assumes "tallied col vs is"
    and "\<And>k. sum_rows vote_value (\<lambda>v. col v = Some k) vs' =
        sum_rows vote_value (\<lambda>v. col v = Some k) vs + (if k = tid then delta else 0)"
    and "\<And>k. count_rows (\<lambda>v. col v = Some k) vs' =
        count_rows (\<lambda>v. col v = Some k) vs + (if k = tid then cd else 0)"
  shows "tallied col vs' (add_tally tid delta cd is)"
  using assms by (auto simp: tallied_def list_all_iff add_tally_def set_update_rows)

lemma tallied_same_sums:
  assumes "tallied col vs is"
    and "\<And>k. sum_rows vote_value (\<lambda>v. col v = Some k) vs' = sum_rows vote_value (\<lambda>v. col v = Some k) vs"
    and "\<And>k. count_rows (\<lambda>v. col v = Some k) vs' = count_rows (\<lambda>v. col v = Some k) vs"
  shows "tallied col vs' is"
  using assms by (auto simp: tallied_def list_all_iff)

lemma karma_total_add_tally:
  assumes "distinct (map item_id is)" and "find_row item_id tid is = Some i"
  shows "karma_total (add_tally tid delta cd is) u = karma_total is u + (if author i = u then delta else 0)"
  using sum_rows_update_one [OF assms,
      of "\<lambda>i. i\<lparr>score := score i + delta, vote_count := vote_count i + cd\<rparr>" "\<lambda>i. author i = u" score]
  by (simp add: karma_total_def add_tally_def)

lemma add_karma_names [simp]: "map user_name (add_karma b who delta us) = map user_name us"
  by (simp add: add_karma_def)

lemma karma_settled_post:
  assumes "karma_settled d" and "\<And>u. karma_total ps' u = karma_total (posts d) u + (if who = u then delta else 0)"
  shows "karma_settled (d\<lparr>votes := vs, posts := ps', users := add_karma True who delta (users d)\<rparr>)"
  using assms by (auto simp: karma_settled_def list_all_iff add_karma_def set_update_rows)

lemma karma_settled_comment:
  assumes "karma_settled d" and "\<And>u. karma_total cs' u = karma_total (comments d) u + (if who = u then delta else 0)"
  shows "karma_settled (d\<lparr>votes := vs, comments := cs', users := add_karma False who delta (users d)\<rparr>)"
  using assms by (auto simp: karma_settled_def list_all_iff add_karma_def set_update_rows)

lemma find_row_truncate:
  "map_option item.truncate (find_row item_id tid is) = Some it \<Longrightarrow>
   \<exists>i. find_row item_id tid is = Some i \<and> author i = author it \<and> score i = score it"
  by (auto simp: item.truncate_def)

text \<open>The bookkeeping of one vote keeps the ledger.\<close>

lemma apply_vote_ledger:
  assumes ledger: "vote_ledger d" and item: "target_item target tid d = Some it"
    and existing: "\<And>v. existing = Some v \<Longrightarrow> v \<in> set (votes d) \<and> target_col target v = Some tid"
    and change: "vote_change who target tid val source recast vhash now existing (votes d) =
      (delta, count_delta, changed, change_kind, vs)"
    and ok: "vote_constraints vs"
  shows "vote_ledger (apply_vote target tid (author it) delta count_delta vs d)"
proof -
  let ?other = "if target = ''post'' then vote_comment else vote_post"
  have ids: "distinct (map vote_id (votes d))" using ledger by (simp add: ledger_defs)
  have other: "v \<in> set (votes d) \<and> ?other v = None" and nonzero: "vote_value v \<noteq> 0"
    if "existing = Some v" for v
    using existing [OF that] vote_constraints_row [of "votes d" v] ledger
    by (auto simp: vote_row_ok_def target_col_def vote_ledger_def split: if_splits)
  note sums = vote_change_sums [OF change ids existing refl]
  note others = vote_change_other [OF change ids other refl]
  note zero = vote_change_zero [OF change nonzero]
  note ids' = vote_change_ids [OF change ids]
  show ?thesis
  proof (cases "delta = 0")
    case True
    with zero have "vs = votes d" by blast
    with True ledger show ?thesis by (simp add: apply_vote_def Let_def)
  next
    case False
    show ?thesis
    proof (cases "target = ''post''")
      case True
      then obtain i where i: "find_row item_id tid (posts d) = Some i" "author i = author it"
        using item find_row_truncate by (force simp: target_item_def)
      have col: "target_col target = vote_post" using True by (simp add: target_col_def)
      have "karma_settled (d\<lparr>votes := vs, posts := add_tally tid delta count_delta (posts d),
          users := add_karma True (author it) delta (users d)\<rparr>)"
        using ledger i by (intro karma_settled_post) (auto simp: karma_total_add_tally ledger_defs)
      moreover have "tallied vote_post vs (add_tally tid delta count_delta (posts d))"
        using ledger sums unfolding col vote_ledger_def by (intro tallied_add_tally) auto
      moreover have "tallied vote_comment vs (comments d)"
        using ledger others True unfolding vote_ledger_def by (auto intro: tallied_same_sums)
      ultimately show ?thesis using ledger ok ids' False True
        by (simp add: apply_vote_def Let_def vote_ledger_def keys_ok_def)
    next
      case nopost: False
      then have com: "target = ''comment''" and "\<exists>i. find_row item_id tid (comments d) = Some i \<and> author i = author it"
        using item find_row_truncate by (force simp: target_item_def split: if_splits)+
      then obtain i where i: "find_row item_id tid (comments d) = Some i" "author i = author it" by blast
      have col: "target_col target = vote_comment" using nopost by (simp add: target_col_def)
      have "karma_settled (d\<lparr>votes := vs, comments := add_tally tid delta count_delta (comments d),
          users := add_karma False (author it) delta (users d)\<rparr>)"
        using ledger i by (intro karma_settled_comment) (auto simp: karma_total_add_tally ledger_defs)
      moreover have "tallied vote_comment vs (add_tally tid delta count_delta (comments d))"
        using ledger sums unfolding col vote_ledger_def by (intro tallied_add_tally) auto
      moreover have "tallied vote_post vs (posts d)"
        using ledger others nopost unfolding vote_ledger_def by (auto intro: tallied_same_sums)
      ultimately show ?thesis using ledger ok ids' False nopost
        by (simp add: apply_vote_def Let_def vote_ledger_def keys_ok_def)
    qed
  qed
qed

lemma vote_ledger_cong:
  "content_state d = content_state d' \<Longrightarrow> vote_ledger d = vote_ledger d'"
  by (simp add: content_state_def ledger_defs)

lemma vote_ledger_event [simp]: "vote_ledger (record_event e u p c t d) = vote_ledger d"
  by (rule vote_ledger_cong) simp

text \<open>
  Every way one attempt can end: the state untouched (a rejection, a raise, a rolled back
  commit), or the applied change, logged when it changed something.
\<close>

lemma cast_vote_attempt_cases:
  assumes "cast_vote_attempt who target tid val source recast vhash now d = (r, d')"
  obtains (unchanged) "d' = d" and "\<forall>s b k. r \<noteq> Some (Vote_Ok s b k)"
  | (applied) it existing delta count_delta changed change_kind vs where
    "target_item target tid d = Some it" and
    "find_vote who target tid vhash d = Inr existing" and
    "vote_change who target tid val source recast vhash now existing (votes d) =
      (delta, count_delta, changed, change_kind, vs)" and
    "vote_constraints vs" and "val \<in> {1, -1, 0}" and "Some (author it) \<noteq> who" and
    "d' = (if changed then record_event ''vote'' (if vhash = None then who else None)
        (if target = ''post'' then Some tid else None) (if target = ''post'' then None else Some tid) now
        (apply_vote target tid (author it) delta count_delta vs d)
      else apply_vote target tid (author it) delta count_delta vs d)" and
    "r = Some (Vote_Ok (case target_item target tid (apply_vote target tid (author it) delta count_delta vs d) of
        None \<Rightarrow> 0 | Some it' \<Rightarrow> score it') changed change_kind)"
proof (cases "target_item target tid d")
  case None
  with assms show thesis by (intro unchanged) (auto simp: cast_vote_attempt_def)
next
  case (Some it)
  let ?unknown = "vhash = None \<and> (case who of None \<Rightarrow> True | Some u \<Rightarrow> find_row user_name u (users d) = None)"
  note attempt = assms [unfolded cast_vote_attempt_def Some option.case]
  consider "val \<notin> {1, -1, 0}" | "?unknown" | "Some (author it) = who" | "val = -1 \<and> \<not> downvotes_allowed d"
    | (pass) "val \<in> {1, -1, 0}" "\<not> ?unknown" "Some (author it) \<noteq> who" "\<not> (val = -1 \<and> \<not> downvotes_allowed d)"
    by blast
  then show thesis
  proof cases
    case pass
    note attempt = attempt [unfolded if_not_P [OF pass(2)] if_not_P [OF pass(3)] if_not_P [OF pass(4)]]
    show thesis
    proof (cases "find_vote who target tid vhash d")
      case (Inr existing)
      obtain delta cd ch k vs where change: "vote_change who target tid val source recast vhash now
          existing (votes d) = (delta, cd, ch, k, vs)" by (metis prod_cases5)
      show thesis
      proof (cases "vote_constraints vs")
        case True
        show thesis
          by (rule applied [OF Some Inr change True pass(1,3)])
            (use attempt pass(1) True in \<open>auto simp: Inr change Let_def split: if_splits\<close>)
      qed (use attempt pass(1) in \<open>intro unchanged; auto simp: Inr change\<close>)
    qed (use attempt pass(1) in \<open>intro unchanged; auto\<close>)
  qed (use attempt in \<open>intro unchanged; auto split: if_splits\<close>)+
qed

lemma cast_vote_attempt_ledger:
  assumes "vote_ledger d" and "cast_vote_attempt who target tid val source recast vhash now d = (r, d')"
  shows "vote_ledger d'"
  using assms(2)
proof (cases rule: cast_vote_attempt_cases)
  case unchanged
  with assms(1) show ?thesis by simp
next
  case (applied it existing delta count_delta changed change_kind vs)
  have "v \<in> set (votes d) \<and> target_col target v = Some tid" if "existing = Some v" for v
    using find_vote_SomeD applied(2) that vote_matches_col by blast
  from apply_vote_ledger [OF assms(1) applied(1) this applied(3,4)] applied(7) show ?thesis by simp
qed

section \<open>The ballot box\<close>

text \<open>
  The contract in the abstract: who may vote on what is a key, a ballot box maps keys to
  values, and a request either sets the key (\<open>recast\<close>) or fills it only when it is free.
\<close>

type_synonym ballot_key = "(username option \<times> string option) \<times> int option \<times> int option"

definition vote_key :: "vote \<Rightarrow> ballot_key" where
  "vote_key v = ((voter v, visitor_hash v), vote_post v, vote_comment v)"

definition request_key :: "username option \<Rightarrow> string option \<Rightarrow> string \<Rightarrow> int \<Rightarrow> ballot_key" where
  "request_key who vhash target tid =
     ((who, vhash), if target = ''post'' then (Some tid, None) else (None, Some tid))"

definition ballots :: "db \<Rightarrow> ballot_key \<rightharpoonup> int" where
  "ballots d = map_of (map (\<lambda>v. (vote_key v, vote_value v)) (votes d))"

definition box_cast :: "bool \<Rightarrow> ballot_key \<Rightarrow> int \<Rightarrow> (ballot_key \<rightharpoonup> int) \<Rightarrow> (ballot_key \<rightharpoonup> int)" where
  "box_cast recast k val box =
     (if recast then box(k := (if val = 0 then None else Some val))
      else if box k = None \<and> val \<noteq> 0 then box(k \<mapsto> val) else box)"

text \<open>The identities the callers pass: a user name, or a non-empty visitor hash.\<close>

definition one_identity :: "username option \<Rightarrow> string option \<Rightarrow> bool" where
  "one_identity who vhash = ((who = None) \<noteq> (vhash = None) \<and> vhash \<noteq> Some [])"

lemma pair_keys_Cons: "pair_keys who col (v # vs) =
  (case (who v, col v) of (Some a, Some t) \<Rightarrow> (a, t) # pair_keys who col vs | _ \<Rightarrow> pair_keys who col vs)"
  by (auto simp: pair_keys_def List.map_filter_def split: option.splits)

lemma pair_keys_Nil [simp]: "pair_keys who col [] = []"
  by (simp add: pair_keys_def List.map_filter_def)

lemma set_pair_keys: "(a, t) \<in> set (pair_keys who col vs) \<longleftrightarrow> (\<exists>w \<in> set vs. who w = Some a \<and> col w = Some t)"
  by (induction vs) (auto simp: pair_keys_Cons split: option.splits)

lemma same_key_iff:
  assumes "vote_row_ok v" and "vote_row_ok w"
  shows "vote_key w = vote_key v \<longleftrightarrow>
    (\<exists>a t. voter v = Some a \<and> vote_post v = Some t \<and> voter w = Some a \<and> vote_post w = Some t) \<or>
    (\<exists>a t. voter v = Some a \<and> vote_comment v = Some t \<and> voter w = Some a \<and> vote_comment w = Some t) \<or>
    (\<exists>a t. visitor_hash v = Some a \<and> vote_post v = Some t \<and> visitor_hash w = Some a \<and> vote_post w = Some t) \<or>
    (\<exists>a t. visitor_hash v = Some a \<and> vote_comment v = Some t \<and> visitor_hash w = Some a \<and>
      vote_comment w = Some t)"
  using assms
  by (cases "voter v"; cases "visitor_hash v"; cases "vote_post v"; cases "vote_comment v")
    (auto simp: vote_row_ok_def vote_key_def)

lemma constraints_iff_keys:
  "vote_constraints vs \<longleftrightarrow> list_all vote_row_ok vs \<and> distinct (map vote_key vs)"
proof (induction vs)
  case Nil
  show ?case by (simp add: vote_constraints_def)
next
  case (Cons v vs)
  show ?case
  proof (cases "list_all vote_row_ok (v # vs)")
    case True
    then have rows: "vote_row_ok v" "list_all vote_row_ok vs" by simp_all
    have fresh: "vote_key v \<notin> vote_key ` set vs \<longleftrightarrow>
        (\<forall>a t. voter v = Some a \<and> vote_post v = Some t \<longrightarrow> (a, t) \<notin> set (pair_keys voter vote_post vs)) \<and>
        (\<forall>a t. voter v = Some a \<and> vote_comment v = Some t \<longrightarrow> (a, t) \<notin> set (pair_keys voter vote_comment vs)) \<and>
        (\<forall>a t. visitor_hash v = Some a \<and> vote_post v = Some t \<longrightarrow> (a, t) \<notin> set (pair_keys visitor_hash vote_post vs)) \<and>
        (\<forall>a t. visitor_hash v = Some a \<and> vote_comment v = Some t \<longrightarrow> (a, t) \<notin> set (pair_keys visitor_hash vote_comment vs))"
    proof -
      have eq: "\<forall>w \<in> set vs. (vote_key v = vote_key w) =
          ((\<exists>a t. voter v = Some a \<and> vote_post v = Some t \<and> voter w = Some a \<and> vote_post w = Some t) \<or>
          (\<exists>a t. voter v = Some a \<and> vote_comment v = Some t \<and> voter w = Some a \<and> vote_comment w = Some t) \<or>
          (\<exists>a t. visitor_hash v = Some a \<and> vote_post v = Some t \<and> visitor_hash w = Some a \<and> vote_post w = Some t) \<or>
          (\<exists>a t. visitor_hash v = Some a \<and> vote_comment v = Some t \<and> visitor_hash w = Some a \<and>
            vote_comment w = Some t))"
        using rows(2) same_key_iff [OF rows(1)] by (auto simp: list_all_iff eq_commute [of "vote_key v"])
      show ?thesis
        unfolding set_pair_keys image_iff using eq rows(1)
        by (cases "voter v"; cases "visitor_hash v"; cases "vote_post v"; cases "vote_comment v")
          (simp_all add: vote_row_ok_def)
    qed
    have step: "distinct (pair_keys who col (v # vs)) \<longleftrightarrow> distinct (pair_keys who col vs) \<and>
        (\<forall>a t. who v = Some a \<and> col v = Some t \<longrightarrow> (a, t) \<notin> set (pair_keys who col vs))"
      for who :: "vote \<Rightarrow> string option" and col
      by (auto simp: pair_keys_Cons split: option.splits)
    from Cons.IH rows fresh show ?thesis
      by (auto simp: vote_constraints_def step)
  next
    case False
    then show ?thesis by (auto simp: vote_constraints_def)
  qed
qed

lemma matches_iff_key:
  assumes "vote_row_ok v" and "one_identity who vhash"
  shows "vote_matches who target tid vhash v \<longleftrightarrow> vote_key v = request_key who vhash target tid"
  using assms
  by (auto simp: vote_matches_def vote_key_def request_key_def vote_row_ok_def one_identity_def
      split: option.splits)

lemma filter_key:
  assumes "distinct (map key xs)"
  shows "filter (\<lambda>x. key x = k) xs = (case find_row key k xs of None \<Rightarrow> [] | Some x \<Rightarrow> [x])"
  using assms
proof (induction xs)
  case (Cons x xs)
  show ?case
  proof (cases "key x = k")
    case True
    with Cons.prems have "filter (\<lambda>x. key x = k) xs = []" by (auto simp: filter_empty_conv image_iff)
    with True show ?thesis by simp
  next
    case False
    with Cons show ?thesis by simp
  qed
qed simp

lemma find_vote_as_key:
  assumes "vote_constraints (votes d)" and "one_identity who vhash"
  shows "find_vote who target tid vhash d = Inr (find_row vote_key (request_key who vhash target tid) (votes d))"
proof -
  from assms(1) have rows: "\<forall>v \<in> set (votes d). vote_row_ok v" and keys: "distinct (map vote_key (votes d))"
    by (simp_all add: constraints_iff_keys list_all_iff)
  have "filter (vote_matches who target tid vhash) (votes d) =
      filter (\<lambda>v. vote_key v = request_key who vhash target tid) (votes d)"
    using rows assms(2) by (intro filter_cong) (auto simp: matches_iff_key)
  with keys show ?thesis
    by (simp add: find_vote_def filter_key split: option.splits)
qed

lemma ballots_as_find: "ballots d k = map_option vote_value (find_row vote_key k (votes d))"
proof -
  have "map_of (map (\<lambda>v. (vote_key v, vote_value v)) vs) k = map_option vote_value (find_row vote_key k vs)"
    for vs by (induction vs) auto
  then show ?thesis by (simp add: ballots_def)
qed

text \<open>On a box that keeps its constraints a request keeps them, and updates the box as specified.\<close>

lemma vote_change_box:
  assumes ok: "vote_constraints (votes d)" and ids: "distinct (map vote_id (votes d))"
    and who: "one_identity who vhash" and val: "val \<in> {1, -1, 0}"
    and change: "vote_change who target tid val source recast vhash now
      (find_row vote_key (request_key who vhash target tid) (votes d)) (votes d) =
      (delta, count_delta, changed, change_kind, vs)"
  shows "vote_constraints vs"
    and "ballots (d\<lparr>votes := vs\<rparr>) = box_cast recast (request_key who vhash target tid) val (ballots d)"
proof -
  let ?k = "request_key who vhash target tid"
  define new where "new = \<lparr>vote_id = next_id vote_id (votes d), voter = who, visitor_hash = vhash,
      vote_post = (if target = ''post'' then Some tid else None),
      vote_comment = (if target = ''post'' then None else Some tid),
      vote_value = val, vote_source = source, vote_created_at = now\<rparr>"
  have new: "vote_key new = ?k" "vote_value new = val"
    by (simp_all add: new_def vote_key_def request_key_def)
  have new_ok: "vote_row_ok new" if "val \<noteq> 0"
    using that val who by (auto simp: new_def vote_row_ok_def one_identity_def)
  have rows: "list_all vote_row_ok (votes d)" and keys: "distinct (map vote_key (votes d))"
    using ok by (simp_all add: constraints_iff_keys)
  have key_upd [simp]: "vote_key (w\<lparr>vote_value := x\<rparr>) = vote_key w" for w x
    by (simp add: vote_key_def)
  have same: "vote_id w = vote_id v \<longleftrightarrow> w = v" "vote_key w = vote_key v \<longleftrightarrow> w = v"
    if "w \<in> set (votes d)" "v \<in> set (votes d)" for v w
    using that ids keys by (auto simp: distinct_map inj_on_def)
  consider (None) "find_row vote_key ?k (votes d) = None"
    | (Some) v where "find_row vote_key ?k (votes d) = Some v" "v \<in> set (votes d)" "vote_key v = ?k"
    using find_row_SomeD [of vote_key ?k "votes d"] by (cases "find_row vote_key ?k (votes d)") auto
  then have "vote_constraints vs \<and>
      ballots (d\<lparr>votes := vs\<rparr>) = box_cast recast ?k val (ballots d)"
  proof cases
    case None
    then have free: "?k \<notin> vote_key ` set (votes d)" by (simp add: find_row_None_iff)
    show ?thesis
    proof (cases "val = 0")
      case True
      with None change ok show ?thesis
        by (auto simp: vote_change_def box_cast_def ballots_as_find fun_eq_iff)
    next
      case False
      with None change have vs: "vs = votes d @ [new]" by (auto simp: vote_change_def new_def)
      have "vote_constraints vs"
        using rows keys new new_ok [OF False] free by (auto simp: constraints_iff_keys vs)
      moreover have "ballots (d\<lparr>votes := vs\<rparr>) = box_cast recast ?k val (ballots d)"
        using None new False
        by (auto simp: ballots_as_find box_cast_def vs fun_eq_iff find_row_append split: option.splits)
      ultimately show ?thesis ..
    qed
  next
    case (Some v)
    have nonzero: "vote_value v \<noteq> 0" using rows Some(2) by (auto simp: list_all_iff vote_row_ok_def)
    have at_key: "vote_id w = vote_id v \<longleftrightarrow> vote_key w = ?k" if "w \<in> set (votes d)" for w
      using same [OF that Some(2)] Some(3) by simp
    have removed: "filter (\<lambda>w. vote_id w \<noteq> vote_id v) (votes d) = filter (\<lambda>w. vote_key w \<noteq> ?k) (votes d)"
      using at_key by (intro filter_cong) auto
    have switched: "update_rows (\<lambda>w. vote_id w = vote_id v) (\<lambda>w. w\<lparr>vote_value := val\<rparr>) (votes d) =
        update_rows (\<lambda>w. vote_key w = ?k) (\<lambda>w. w\<lparr>vote_value := val\<rparr>) (votes d)"
      unfolding update_rows_def using at_key by (intro map_cong) auto
    have find_removed: "find_row vote_key k (filter (\<lambda>w. vote_key w \<noteq> ?k) xs) =
        (if k = ?k then None else find_row vote_key k xs)" for k xs
      by (induction xs) auto
    have find_switched: "map_option vote_value (find_row vote_key k
          (update_rows (\<lambda>w. vote_key w = ?k) (\<lambda>w. w\<lparr>vote_value := val\<rparr>) xs)) =
        (if k = ?k then map_option (\<lambda>_. val) (find_row vote_key k xs)
         else map_option vote_value (find_row vote_key k xs))" for k xs
      by (induction xs) (auto simp: update_rows_def)
    have row_upd: "vote_row_ok (w\<lparr>vote_value := val\<rparr>)" if "vote_row_ok w" "val \<noteq> 0" for w
      using that val by (auto simp: vote_row_ok_def)
    have "vote_constraints vs"
      using rows keys Some(1) change row_upd
      by (auto simp: vote_change_def constraints_iff_keys removed switched distinct_map_filter_key
          list_all_iff set_update_rows split: if_splits)
    moreover have "ballots (d\<lparr>votes := vs\<rparr>) = box_cast recast ?k val (ballots d)"
    proof
      fix k
      show "ballots (d\<lparr>votes := vs\<rparr>) k = box_cast recast ?k val (ballots d) k"
        using Some(1) change find_switched [of k "votes d"]
        by (auto simp: vote_change_def ballots_as_find box_cast_def removed switched
            find_removed split: if_splits)
    qed
    ultimately show ?thesis ..
  qed
  then show "vote_constraints vs"
    and "ballots (d\<lparr>votes := vs\<rparr>) = box_cast recast ?k val (ballots d)" by simp_all
qed

lemma ballots_apply_vote [simp]:
  "ballots (apply_vote target tid owner delta cd vs d) = ballots (d\<lparr>votes := vs\<rparr>)"
  by (simp add: apply_vote_def ballots_def Let_def)

lemma ballots_event [simp]: "ballots (record_event e u p c t d) = ballots d"
  by (simp add: ballots_def)

text \<open>On a sound ledger and with one identity the first attempt always commits.\<close>

lemma cast_vote_first_attempt:
  assumes "vote_ledger d" and "one_identity who vhash"
  shows "cast_vote who target tid val source recast vhash now d =
    (case cast_vote_attempt who target tid val source recast vhash now d of (r, d') \<Rightarrow> (the r, d'))"
    and "\<exists>r. fst (cast_vote_attempt who target tid val source recast vhash now d) = Some r \<and>
      (\<forall>e. r \<noteq> Vote_Raises e)"
proof -
  have ok: "vote_constraints (votes d)" and ids: "distinct (map vote_id (votes d))"
    using assms(1) by (simp_all add: ledger_defs)
  note found = find_vote_as_key [OF ok assms(2)]
  note box = vote_change_box(1) [OF ok ids assms(2)]
  show "\<exists>r. fst (cast_vote_attempt who target tid val source recast vhash now d) = Some r \<and>
      (\<forall>e. r \<noteq> Vote_Raises e)"
  proof (cases "val \<in> {1, -1, 0}")
    case True
    obtain delta cd changed k vs where change: "vote_change who target tid val source recast vhash now
        (find_row vote_key (request_key who vhash target tid) (votes d)) (votes d) = (delta, cd, changed, k, vs)"
      by (metis prod_cases5)
    have ok: "vote_constraints vs" by (rule box [OF True change])
    have branch: "\<exists>r. fst (if b then x else y) = Some r \<and> (\<forall>e. r \<noteq> Vote_Raises e)"
      if "\<exists>r. fst x = Some r \<and> (\<forall>e. r \<noteq> Vote_Raises e)" "\<exists>r. fst y = Some r \<and> (\<forall>e. r \<noteq> Vote_Raises e)"
      for b and x y :: "vote_outcome option \<times> db" using that by simp
    show ?thesis
      unfolding cast_vote_attempt_def found sum.case change prod.case Let_def
      by (cases "target_item target tid d") (simp_all only: option.case ok not_True_eq_False if_False,
          simp, intro branch, simp_all)
  qed (simp add: cast_vote_attempt_def split: option.split)
  then show "cast_vote who target tid val source recast vhash now d =
    (case cast_vote_attempt who target tid val source recast vhash now d of (r, d') \<Rightarrow> (the r, d'))"
    by (auto simp: cast_vote_def split: prod.splits option.splits)
qed

section \<open>Properties\<close>

lemma cast_vote_attempt_ballots:
  assumes ledger: "vote_ledger d" and who: "one_identity who vhash"
    and att: "cast_vote_attempt who target tid val source recast vhash now d = (Some (Vote_Ok s b k), d')"
  shows "ballots d' = box_cast recast (request_key who vhash target tid) val (ballots d)"
  using att
proof (cases rule: cast_vote_attempt_cases)
  case unchanged
  then show ?thesis by blast
next
  case (applied it existing delta count_delta changed change_kind vs)
  have ok: "vote_constraints (votes d)" and ids: "distinct (map vote_id (votes d))"
    using ledger by (simp_all add: ledger_defs)
  have "existing = find_row vote_key (request_key who vhash target tid) (votes d)"
    using applied(2) find_vote_as_key [OF ok who] by simp
  from vote_change_box(2) [OF ok ids who applied(5) applied(3) [unfolded this]] applied(7)
  show ?thesis by simp
qed

lemma cast_vote_attempt_outcome:
  assumes "cast_vote_attempt who target tid val source recast vhash now d = (Some r, d')"
    and "\<forall>e. r \<noteq> Vote_Raises e"
  shows "case r of Vote_Rejected m s \<Rightarrow> d' = d | Vote_Ok s b k \<Rightarrow> True | Vote_Raises e \<Rightarrow> False"
  using assms(1)
  by (cases rule: cast_vote_attempt_cases) (use assms(2) in \<open>auto split: vote_outcome.splits\<close>)

definition vote_demo :: db where
  "vote_demo = empty_db\<lparr>
     users := [(sample_user ''ann'')\<lparr>post_karma := 1\<rparr>, sample_user ''bob'', sample_user ''cy''],
     posts := [(sample_post 7 ''ann'')\<lparr>score := 1, vote_count := 1\<rparr>],
     votes := [\<lparr>vote_id = 1, voter = Some ''bob'', visitor_hash = None, vote_post = Some 7,
         vote_comment = None, vote_value = 1, vote_source = ''agent'', vote_created_at = 0\<rparr>]\<rparr>"

lemma vote_demo_ledger: "vote_ledger vote_demo"
  by code_simp

lemma vote_demo_identity: "one_identity (Some ''bob'') None"
  by (simp add: one_identity_def)

text \<open>C1. Casting a vote keeps the ledger: whatever the request, its outcome and a retried
  commit, afterwards every item's score and vote count are the sum and the number of its vote
  rows, every author's karma is the sum of the scores of what the author wrote, and the vote
  table keeps its uniqueness and CHECK constraints.\<close>

theorem cast_vote_keeps_ledger:
  assumes "vote_ledger d"
  shows "vote_ledger (snd (cast_vote who target tid val source recast vhash now d))"
  using cast_vote_attempt_ledger [OF assms] cast_vote_attempt_ledger [OF cast_vote_attempt_ledger [OF assms]]
  by (force simp: cast_vote_def split: prod.splits option.splits)

theorem cast_vote_keeps_ledger_witness:
  "vote_ledger (snd (cast_vote (Some ''bob'') ''post'' 7 (-1) ''agent'' True None 5 vote_demo)) \<and>
   map score (posts (snd (cast_vote (Some ''bob'') ''post'' 7 (-1) ''agent'' True None 5 vote_demo))) = [-1]"
proof
  show "vote_ledger (snd (cast_vote (Some ''bob'') ''post'' 7 (-1) ''agent'' True None 5 vote_demo))"
    by (rule cast_vote_keeps_ledger [OF vote_demo_ledger])
  show "map score (posts (snd (cast_vote (Some ''bob'') ''post'' 7 (-1) ''agent'' True None 5 vote_demo))) = [-1]"
    by code_simp
qed

text \<open>C32. On a sound ledger \<open>cast_vote\<close> implements the ballot box. It never raises. A rejected
  request changes nothing. An accepted one does to the map from (identity, target) to value
  exactly what the abstract operation does: with \<open>recast\<close> it sets or clears the key, without
  it fills the key only when free, so an existing ballot is never altered.\<close>

theorem cast_vote_refines_ballot_box:
  assumes "vote_ledger d" and "one_identity who vhash"
  shows "case cast_vote who target tid val source recast vhash now d of
      (Vote_Ok s changed k, d') \<Rightarrow>
        ballots d' = box_cast recast (request_key who vhash target tid) val (ballots d)
    | (Vote_Rejected m s, d') \<Rightarrow> d' = d
    | (Vote_Raises e, d') \<Rightarrow> False"
proof -
  obtain r d' where att: "cast_vote_attempt who target tid val source recast vhash now d = (Some r, d')"
    and r: "\<forall>e. r \<noteq> Vote_Raises e"
    using cast_vote_first_attempt(2) [OF assms] by (metis prod.collapse)
  have "cast_vote who target tid val source recast vhash now d = (r, d')"
    using cast_vote_first_attempt(1) [OF assms] att by simp
  then show ?thesis
    using cast_vote_attempt_outcome [OF att r] cast_vote_attempt_ballots [OF assms] att
    by (cases r) auto
qed

theorem cast_vote_refines_ballot_box_witness:
  "case cast_vote (Some ''bob'') ''post'' 7 (-1) ''agent'' True None 5 vote_demo of
      (Vote_Ok s changed k, d') \<Rightarrow> ballots d' =
        box_cast True (request_key (Some ''bob'') None ''post'' 7) (-1) (ballots vote_demo)
    | (Vote_Rejected m s, d') \<Rightarrow> d' = vote_demo
    | (Vote_Raises e, d') \<Rightarrow> False"
  by (rule cast_vote_refines_ballot_box [OF vote_demo_ledger vote_demo_identity])

lemma vote_change_settled:
  assumes "map_option vote_value existing = box_cast recast k val box k" and "val = 0 \<or> val \<noteq> 0"
  shows "\<exists>name. vote_change who target tid val source recast vhash now existing vs = (0, 0, False, name, vs)"
  using assms by (auto simp: vote_change_def box_cast_def split: if_splits option.splits)

lemma target_item_event [simp]: "target_item target tid (record_event e u p c t d) = target_item target tid d"
  by (simp add: target_item_def)

lemma find_row_add_tally:
  "find_row item_id k (add_tally tid delta cd is) = map_option
     (\<lambda>i. if item_id i = tid then i\<lparr>score := score i + delta, vote_count := vote_count i + cd\<rparr> else i)
     (find_row item_id k is)"
  by (induction "is") (auto simp: add_tally_def update_rows_def)

lemma author_truncate [simp]: "author (item.truncate i) = author i"
  by (simp add: item.truncate_def)

lemma target_item_apply_vote:
  "map_option author (target_item target tid (apply_vote target tid owner delta cd vs d)) =
   map_option author (target_item target tid d)"
  by (cases "find_row item_id tid (posts d)"; cases "find_row item_id tid (comments d)")
    (simp_all add: apply_vote_def Let_def target_item_def find_row_add_tally)

lemma known_user_apply_vote [simp]:
  "(find_row user_name u (users (apply_vote target tid owner delta cd vs d)) = None) =
   (find_row user_name u (users d) = None)"
proof -
  have names: "(find_row user_name u us = None) = (u \<notin> set (map user_name us))" for us
    by (simp add: find_row_None_iff)
  show ?thesis unfolding names by (simp add: apply_vote_def Let_def del: set_map list.set_map)
qed

lemma downvotes_apply_vote [simp]:
  "downvotes_allowed (apply_vote target tid owner delta cd vs d) = downvotes_allowed d"
  "downvotes_allowed (record_event e u p c t d) = downvotes_allowed d"
  by (simp_all add: apply_vote_def Let_def downvotes_allowed_def setting_get_def)

text \<open>A vote is idempotent: an accepted request sent again (a double click, a replayed
  request) is accepted with the same score, reports no change, and leaves the database exactly
  as the first one did, for insert-only callers and for callers that may recast.\<close>

theorem cast_vote_again:
  assumes "vote_ledger d" and "one_identity who vhash"
    and "cast_vote who target tid val source recast vhash now d = (Vote_Ok s changed k, d')"
  shows "\<exists>k'. cast_vote who target tid val source recast vhash later d' = (Vote_Ok s False k', d')"
proof -
  let ?key = "request_key who vhash target tid"
  have first: "cast_vote_attempt who target tid val source recast vhash now d = (Some (Vote_Ok s changed k), d')"
  proof -
    obtain r where "fst (cast_vote_attempt who target tid val source recast vhash now d) = Some r"
      using cast_vote_first_attempt(2) [OF assms(1,2)] by blast
    then show ?thesis
      using cast_vote_first_attempt(1) [OF assms(1,2)] assms(3)
      by (cases "cast_vote_attempt who target tid val source recast vhash now d") simp
  qed
  have ledger': "vote_ledger d'" by (rule cast_vote_attempt_ledger [OF assms(1) first])
  have ok': "vote_constraints (votes d')" using ledger' by (simp add: ledger_defs)
  obtain name where settled: "vote_change who target tid val source recast vhash later
      (find_row vote_key ?key (votes d')) (votes d') = (0, 0, False, name, votes d')"
    using vote_change_settled [of "find_row vote_key ?key (votes d')" recast ?key val "ballots d" who target
        tid source vhash later "votes d'"]
      cast_vote_attempt_ballots [OF assms(1,2) first] ballots_as_find [of d' ?key]
    by auto
  note found' = find_vote_as_key [OF ok' assms(2)]
  from first obtain it where it: "target_item target tid d = Some it"
    by (auto simp: cast_vote_attempt_def split: option.splits)
  note cases = cast_vote_attempt_cases [OF first]
  have "map_option author (target_item target tid d') = map_option author (target_item target tid d)"
    by (rule cases) (simp_all only: target_item_apply_vote target_item_event split: if_split, simp_all)
  with it obtain it' where it': "target_item target tid d' = Some it'" "author it' = author it" by auto
  have score': "s = score it'" by (rule cases) (use it'(1) in \<open>blast | simp split: if_splits\<close>)+
  have users': "(find_row user_name u (users d') = None) = (find_row user_name u (users d) = None)" for u
    by (rule cases) auto
  have down': "downvotes_allowed d' = downvotes_allowed d"
    by (rule cases) auto
  have guards: "(val \<notin> {1, -1, 0}) = False"
    "(vhash = None \<and> (case who of None \<Rightarrow> True | Some u \<Rightarrow> find_row user_name u (users d) = None)) = False"
    "(Some (author it) = who) = False" "(val = -1 \<and> \<not> downvotes_allowed d) = False"
    using first it unfolding cast_vote_attempt_def by (auto split: if_splits)
  have "apply_vote target tid (author it') 0 0 (votes d') d' = d'" by (simp add: apply_vote_def)
  then have "cast_vote_attempt who target tid val source recast vhash later d' =
      (Some (Vote_Ok s False name), d')"
    using ok'
    unfolding cast_vote_attempt_def found' sum.case it'(1) option.case settled prod.case
      it'(2) score' users' down' guards
    by (simp add: it' Let_def)
  then show ?thesis by (auto simp: cast_vote_def)
qed

theorem cast_vote_again_witness:
  "\<exists>k'. cast_vote (Some ''bob'') ''post'' 7 (-1) ''agent'' True None 9
      (snd (cast_vote (Some ''bob'') ''post'' 7 (-1) ''agent'' True None 5 vote_demo)) =
    (Vote_Ok (-1) False k', snd (cast_vote (Some ''bob'') ''post'' 7 (-1) ''agent'' True None 5 vote_demo))"
proof -
  have "fst (cast_vote (Some ''bob'') ''post'' 7 (-1) ''agent'' True None 5 vote_demo) =
      Vote_Ok (-1) True ''direction_switch''"
    by code_simp
  then show ?thesis
    using cast_vote_again [OF vote_demo_ledger vote_demo_identity, of "''post''" 7 "-1" "''agent''" True 5
      "-1" True "''direction_switch''"] by (metis prod.collapse)
qed

end
