(* ===== verification/Karma.thy ===== *)
theory Karma
  imports Votes
begin

text \<open>
  \<open>deaddit/dynamics/karma.py\<close>: the nightly repair of the denormalised columns from the
  vote rows. Its specification is the ledger of \<open>Votes\<close>, so the theory shows that the repair
  and the incremental bookkeeping of \<open>cast_vote\<close> agree.
\<close>

section \<open>The repair\<close>

definition vote_aggregates :: "(vote \<Rightarrow> int option) \<Rightarrow> vote list \<Rightarrow> int \<rightharpoonup> int \<times> int" where
  "vote_aggregates col vs k =
     (if list_ex (\<lambda>v. col v = Some k) vs
      then Some (sum_rows vote_value (\<lambda>v. col v = Some k) vs, count_rows (\<lambda>v. col v = Some k) vs)
      else None)"

definition aggregate_of :: "(int \<rightharpoonup> int \<times> int) \<Rightarrow> 'a item_scheme \<Rightarrow> int \<times> int" where
  "aggregate_of agg i = (case agg (item_id i) of None \<Rightarrow> (0, 0) | Some a \<Rightarrow> a)"

text \<open>The loop over one table: the repaired rows, the rows repaired and the columns off.\<close>

definition repair_item :: "(int \<rightharpoonup> int \<times> int) \<Rightarrow> 'a item_scheme \<Rightarrow> 'a item_scheme" where
  "repair_item agg i = (case aggregate_of agg i of (tot, cnt) \<Rightarrow> i\<lparr>score := tot, vote_count := cnt\<rparr>)"

definition item_drift :: "(int \<rightharpoonup> int \<times> int) \<Rightarrow> 'a item_scheme \<Rightarrow> int" where
  "item_drift agg i = (case aggregate_of agg i of (tot, cnt) \<Rightarrow>
     of_bool (score i \<noteq> tot) + of_bool (vote_count i \<noteq> cnt))"

definition repair_items ::
  "(int \<rightharpoonup> int \<times> int) \<Rightarrow> 'a item_scheme list \<Rightarrow> 'a item_scheme list \<times> int \<times> int" where
  "repair_items agg is =
     (map (repair_item agg) is, count_rows (\<lambda>i. item_drift agg i \<noteq> 0) is, sum_list (map (item_drift agg) is))"

definition effective_scores :: "(int \<rightharpoonup> int \<times> int) \<Rightarrow> 'a item_scheme list \<Rightarrow> int \<rightharpoonup> int" where
  "effective_scores agg is = map_of (map (\<lambda>i. (item_id i, fst (aggregate_of agg i))) is)"

primrec karma_totals ::
  "(int \<rightharpoonup> int) \<Rightarrow> (username \<rightharpoonup> int) \<Rightarrow> 'a item_scheme list \<Rightarrow> username \<rightharpoonup> int" where
  "karma_totals eff totals [] = totals"
| "karma_totals eff totals (i # is) =
     (case eff (item_id i) of
        None \<Rightarrow> karma_totals eff totals is
      | Some e \<Rightarrow> karma_totals eff
          (totals(author i \<mapsto> (case totals (author i) of None \<Rightarrow> 0 | Some t \<Rightarrow> t) + e)) is)"

definition rebuild_karma :: "bool \<Rightarrow> (username \<rightharpoonup> int) \<Rightarrow> user list \<Rightarrow> user list \<times> int" where
  "rebuild_karma is_post totals us =
     (let tot = (\<lambda>u. case totals (user_name u) of None \<Rightarrow> 0 | Some t \<Rightarrow> t);
          col = (if is_post then post_karma else comment_karma)
      in (map (\<lambda>u. if is_post then u\<lparr>post_karma := tot u\<rparr> else u\<lparr>comment_karma := tot u\<rparr>) us,
          count_rows (\<lambda>u. col u \<noteq> tot u) us))"

record repair_summary =
  repaired :: int
  drift_votes :: int
  karma_updates :: int

definition recompute_scores_and_karma :: "db \<Rightarrow> db \<times> repair_summary" where
  "recompute_scores_and_karma d =
     (let pagg = vote_aggregates vote_post (votes d);
          cagg = vote_aggregates vote_comment (votes d);
          (ps, prep, pdrift) = repair_items pagg (posts d);
          (cs, crep, cdrift) = repair_items cagg (comments d);
          (us, pupd) = rebuild_karma True
             (karma_totals (effective_scores pagg (posts d)) Map.empty ps) (users d);
          (us', cupd) = rebuild_karma False
             (karma_totals (effective_scores cagg (comments d)) Map.empty cs) us
      in (d\<lparr>posts := ps, comments := cs, users := us'\<rparr>,
          \<lparr>repaired = prep + crep, drift_votes = pdrift + cdrift, karma_updates = pupd + cupd\<rparr>))"

section \<open>The repair restores the ledger\<close>

definition tally :: "(vote \<Rightarrow> int option) \<Rightarrow> vote list \<Rightarrow> int \<Rightarrow> int \<times> int" where
  "tally col vs k = (sum_rows vote_value (\<lambda>v. col v = Some k) vs, count_rows (\<lambda>v. col v = Some k) vs)"

lemma aggregate_of_votes: "aggregate_of (vote_aggregates col vs) i = tally col vs (item_id i)"
  by (auto simp: aggregate_of_def vote_aggregates_def tally_def list_ex_iff
      intro!: sum_rows_zero count_rows_zero)

lemma tallied_iff: "tallied col vs is \<longleftrightarrow> (\<forall>i \<in> set is. (score i, vote_count i) = tally col vs (item_id i))"
  by (auto simp: tallied_def tally_def list_all_iff)

lemma repair_item_keys [simp]:
  "item_id (repair_item agg i) = item_id i" "author (repair_item agg i) = author i"
  by (simp_all add: repair_item_def split: prod.split)

lemma score_repair_item [simp]: "score (repair_item agg i) = fst (aggregate_of agg i)"
  by (simp add: repair_item_def split: prod.split)

lemma item_drift_zero:
  "item_drift (vote_aggregates col vs) i = 0 \<longleftrightarrow> (score i, vote_count i) = tally col vs (item_id i)"
  by (auto simp: item_drift_def aggregate_of_votes split: prod.split)

lemma item_drift_nonneg: "0 \<le> item_drift agg i"
  by (simp add: item_drift_def split: prod.split)

lemma repair_item_id_iff:
  "repair_item (vote_aggregates col vs) i = i \<longleftrightarrow> (score i, vote_count i) = tally col vs (item_id i)"
proof -
  have "i\<lparr>score := a, vote_count := b\<rparr> = i \<longleftrightarrow> (score i, vote_count i) = (a, b)" for a b
    by (cases i) auto
  then show ?thesis by (auto simp: repair_item_def aggregate_of_votes split: prod.split)
qed

lemma repaired_tallied: "tallied col vs (map (repair_item (vote_aggregates col vs)) is)"
  unfolding tallied_iff by (auto simp: repair_item_def aggregate_of_votes split: prod.split)

lemma map_id_iff: "map f xs = xs \<longleftrightarrow> (\<forall>x \<in> set xs. f x = x)"
  by (induction xs) auto

lemma count_rows_zero_iff: "count_rows p rows = 0 \<longleftrightarrow> (\<forall>r \<in> set rows. \<not> p r)"
proof (induction rows)
  case (Cons r rows)
  then show ?case using count_rows_nonneg [of p rows] by (cases "p r") (simp_all add: add_nonneg_eq_0_iff)
qed simp

lemma repair_items_summary:
  "fst (snd (repair_items (vote_aggregates col vs) is)) = 0 \<longleftrightarrow> tallied col vs is"
  "snd (snd (repair_items (vote_aggregates col vs) is)) = 0 \<longleftrightarrow> tallied col vs is"
proof -
  have "sum_list (map (item_drift agg) is) = 0 \<longleftrightarrow> (\<forall>i \<in> set is. item_drift agg i = 0)" for agg
    using sum_list_nonneg_eq_0_iff [of "map (item_drift agg) is"] item_drift_nonneg [of agg] by auto
  then show "fst (snd (repair_items (vote_aggregates col vs) is)) = 0 \<longleftrightarrow> tallied col vs is"
    and "snd (snd (repair_items (vote_aggregates col vs) is)) = 0 \<longleftrightarrow> tallied col vs is"
    by (simp_all add: repair_items_def count_rows_zero_iff tallied_iff item_drift_zero)
qed

lemma karma_totals_sum:
  assumes "\<And>i. i \<in> set is \<Longrightarrow> eff (item_id i) = Some (score i)"
  shows "(case karma_totals eff totals is u of None \<Rightarrow> 0 | Some t \<Rightarrow> t) =
    (case totals u of None \<Rightarrow> 0 | Some t \<Rightarrow> t) + karma_total is u"
  using assms by (induction "is" arbitrary: totals) (auto simp: karma_total_def split: option.split)

lemma effective_scores_found:
  assumes "i \<in> set is"
  shows "effective_scores (vote_aggregates col vs) is (item_id i) = Some (fst (tally col vs (item_id i)))"
  using assms
proof (induction "is")
  case (Cons j js)
  then show ?case by (cases "item_id j = item_id i") (auto simp: effective_scores_def aggregate_of_votes)
qed simp

lemma karma_totals_repaired:
  "(case karma_totals (effective_scores (vote_aggregates col vs) is) Map.empty
      (map (repair_item (vote_aggregates col vs)) is) u of None \<Rightarrow> 0 | Some t \<Rightarrow> t) =
   karma_total (map (repair_item (vote_aggregates col vs)) is) u"
  by (subst karma_totals_sum) (auto simp: effective_scores_found aggregate_of_votes)

definition settled_users :: "(username \<Rightarrow> int) \<Rightarrow> (username \<Rightarrow> int) \<Rightarrow> user list \<Rightarrow> bool" where
  "settled_users pk ck us = (\<forall>u \<in> set us. post_karma u = pk (user_name u) \<and> comment_karma u = ck (user_name u))"

definition repair :: "(vote \<Rightarrow> int option) \<Rightarrow> vote list \<Rightarrow> 'a item_scheme list \<Rightarrow> 'a item_scheme list" where
  "repair col vs is = map (repair_item (vote_aggregates col vs)) is"

definition pk :: "db \<Rightarrow> username \<Rightarrow> int" where
  "pk d = karma_total (repair vote_post (votes d) (posts d))"

definition ck :: "db \<Rightarrow> username \<Rightarrow> int" where
  "ck d = karma_total (repair vote_comment (votes d) (comments d))"

lemma recompute_parts:
  shows "fst (recompute_scores_and_karma d) = d\<lparr>posts := repair vote_post (votes d) (posts d),
      comments := repair vote_comment (votes d) (comments d),
      users := map (\<lambda>u. u\<lparr>post_karma := pk d (user_name u), comment_karma := ck d (user_name u)\<rparr>) (users d)\<rparr>"
    and "repaired (snd (recompute_scores_and_karma d)) = 0 \<longleftrightarrow>
      tallied vote_post (votes d) (posts d) \<and> tallied vote_comment (votes d) (comments d)"
    and "drift_votes (snd (recompute_scores_and_karma d)) = 0 \<longleftrightarrow>
      tallied vote_post (votes d) (posts d) \<and> tallied vote_comment (votes d) (comments d)"
    and "karma_updates (snd (recompute_scores_and_karma d)) = 0 \<longleftrightarrow> settled_users (pk d) (ck d) (users d)"
proof -
  note defs = repair_def pk_def ck_def
  have nonneg: "0 \<le> fst (snd (repair_items agg is))" "0 \<le> snd (snd (repair_items agg is))"
    for agg and "is" :: "'z item_scheme list"
    using item_drift_nonneg by (auto simp: repair_items_def intro!: sum_list_nonneg)
  note parts = recompute_scores_and_karma_def Let_def repair_items_def rebuild_karma_def
    karma_totals_repaired prod.case fst_conv snd_conv if_True if_False
  show "fst (recompute_scores_and_karma d) = d\<lparr>posts := repair vote_post (votes d) (posts d),
      comments := repair vote_comment (votes d) (comments d),
      users := map (\<lambda>u. u\<lparr>post_karma := pk d (user_name u), comment_karma := ck d (user_name u)\<rparr>) (users d)\<rparr>"
    by (simp add: parts repair_def pk_def ck_def o_def)
  have "repaired (snd (recompute_scores_and_karma d)) =
      fst (snd (repair_items (vote_aggregates vote_post (votes d)) (posts d))) +
      fst (snd (repair_items (vote_aggregates vote_comment (votes d)) (comments d)))"
    and "drift_votes (snd (recompute_scores_and_karma d)) =
      snd (snd (repair_items (vote_aggregates vote_post (votes d)) (posts d))) +
      snd (snd (repair_items (vote_aggregates vote_comment (votes d)) (comments d)))"
    by (simp_all add: parts)
  then show "repaired (snd (recompute_scores_and_karma d)) = 0 \<longleftrightarrow>
      tallied vote_post (votes d) (posts d) \<and> tallied vote_comment (votes d) (comments d)"
    and "drift_votes (snd (recompute_scores_and_karma d)) = 0 \<longleftrightarrow>
      tallied vote_post (votes d) (posts d) \<and> tallied vote_comment (votes d) (comments d)"
    by (simp_all only: add_nonneg_eq_0_iff [OF nonneg(1) nonneg(1)] add_nonneg_eq_0_iff [OF nonneg(2) nonneg(2)]
      repair_items_summary)
  have "karma_updates (snd (recompute_scores_and_karma d)) =
      count_rows (\<lambda>u. post_karma u \<noteq> pk d (user_name u)) (users d) +
      count_rows (\<lambda>u. comment_karma u \<noteq> ck d (user_name u))
        (map (\<lambda>u. u\<lparr>post_karma := pk d (user_name u)\<rparr>) (users d))"
    by (simp add: parts repair_def pk_def ck_def)
  then show "karma_updates (snd (recompute_scores_and_karma d)) = 0 \<longleftrightarrow> settled_users (pk d) (ck d) (users d)"
    by (auto simp: add_nonneg_eq_0_iff count_rows_zero_iff settled_users_def)
qed

lemma repaired_ledger:
  assumes "keys_ok d" and "vote_constraints (votes d)"
  shows "vote_ledger (fst (recompute_scores_and_karma d))"
  using assms
  by (auto simp: recompute_parts(1) ledger_defs repair_def repaired_tallied o_def list_all_iff pk_def ck_def)

lemma repair_id_iff: "repair col vs is = is \<longleftrightarrow> tallied col vs is"
  by (simp add: repair_def map_id_iff repair_item_id_iff tallied_iff)

lemma ledger_as_settled:
  assumes "keys_ok d" and "vote_constraints (votes d)"
  shows "vote_ledger d \<longleftrightarrow> tallied vote_post (votes d) (posts d) \<and>
    tallied vote_comment (votes d) (comments d) \<and> settled_users (pk d) (ck d) (users d)"
proof -
  have "karma_settled d \<longleftrightarrow> settled_users (pk d) (ck d) (users d)"
    if "tallied vote_post (votes d) (posts d)" "tallied vote_comment (votes d) (comments d)"
    using that by (simp add: karma_settled_def settled_users_def list_all_iff pk_def ck_def
        repair_id_iff [THEN iffD2])
  then show ?thesis using assms by (auto simp: vote_ledger_def)
qed

definition karma_demo :: db where
  "karma_demo = vote_demo\<lparr>posts := map (\<lambda>p. p\<lparr>score := 4\<rparr>) (posts vote_demo)\<rparr>"

text \<open>The nightly recompute restores the ledger from any drift: on keys and vote rows that
  keep their constraints, whatever the stored scores, counts and karma are (users with no
  content left included), the result satisfies the ledger invariant, and it changes no vote.\<close>

lemma recompute_restores_ledger:
  assumes "keys_ok d" and "vote_constraints (votes d)"
  shows "vote_ledger (fst (recompute_scores_and_karma d)) \<and>
    votes (fst (recompute_scores_and_karma d)) = votes d"
  using repaired_ledger [OF assms] by (simp add: recompute_parts(1))

theorem recompute_restores_ledger_witness:
  "\<not> vote_ledger karma_demo \<and> vote_ledger (fst (recompute_scores_and_karma karma_demo)) \<and>
   votes (fst (recompute_scores_and_karma karma_demo)) = votes karma_demo"
proof -
  have "keys_ok karma_demo" and "vote_constraints (votes karma_demo)" and "\<not> vote_ledger karma_demo"
    by code_simp+
  with recompute_restores_ledger [of karma_demo] show ?thesis by blast
qed

text \<open>The recompute agrees with the incremental bookkeeping of \<open>cast_vote\<close>: on a
  database whose ledger is sound, and so after any vote cast on one, it changes nothing and
  reports no repair. Conversely a run that reports no drift and no karma update certifies that
  the ledger was sound.\<close>

theorem recompute_agrees_with_votes:
  assumes "keys_ok d" and "vote_constraints (votes d)"
  shows "(vote_ledger d \<longleftrightarrow> drift_votes (snd (recompute_scores_and_karma d)) = 0 \<and>
      karma_updates (snd (recompute_scores_and_karma d)) = 0) \<and>
    (vote_ledger d \<longleftrightarrow> fst (recompute_scores_and_karma d) = d)"
proof
  note ledger = ledger_as_settled [OF assms]
  show "vote_ledger d \<longleftrightarrow> drift_votes (snd (recompute_scores_and_karma d)) = 0 \<and>
      karma_updates (snd (recompute_scores_and_karma d)) = 0"
    by (auto simp: ledger recompute_parts)
  show "vote_ledger d \<longleftrightarrow> fst (recompute_scores_and_karma d) = d"
  proof
    assume l: "vote_ledger d"
    have "map (\<lambda>u. u\<lparr>post_karma := pk d (user_name u), comment_karma := ck d (user_name u)\<rparr>) (users d) = users d"
      using l by (auto simp: ledger settled_users_def intro!: map_idI)
    moreover have "repair vote_post (votes d) (posts d) = posts d"
      and "repair vote_comment (votes d) (comments d) = comments d"
      using l by (simp_all add: ledger repair_id_iff)
    ultimately show "fst (recompute_scores_and_karma d) = d" by (simp add: recompute_parts(1))
  next
    assume "fst (recompute_scores_and_karma d) = d"
    then show "vote_ledger d" using repaired_ledger [OF assms] by simp
  qed
qed

theorem recompute_agrees_with_votes_witness:
  "(vote_ledger vote_demo \<longleftrightarrow> drift_votes (snd (recompute_scores_and_karma vote_demo)) = 0 \<and>
      karma_updates (snd (recompute_scores_and_karma vote_demo)) = 0) \<and>
    (vote_ledger vote_demo \<longleftrightarrow> fst (recompute_scores_and_karma vote_demo) = vote_demo)"
  using vote_demo_ledger by (intro recompute_agrees_with_votes) (simp_all add: vote_ledger_def)

end
