(* ===== verification/Threads.thy ===== *)
theory Threads
  imports Activity "HOL-Library.Word"
begin

text \<open>
  \<open>deaddit/dynamics/threads.py\<close>: the reply-chain fatigue helpers. The cap of a pair is a
  CRC-32 of the post and the sorted pair mapped into the configured range, so it needs no
  stored state; the tail of a chain is read off the parent links of the comments.
\<close>

unbundle bit_operations_syntax

section \<open>\<open>zlib.crc32\<close> over the UTF-8 bytes of a text\<close>

definition utf8_char :: "char \<Rightarrow> 8 word list" where
  "utf8_char c = (let n = code_point c in
     if n < 128 then [word_of_nat n]
     else [word_of_nat (192 + n div 64), word_of_nat (128 + n mod 64)])"

definition crc_bit :: "32 word \<Rightarrow> 32 word" where
  "crc_bit crc = (if bit crc 0 then drop_bit 1 crc XOR 0xEDB88320 else drop_bit 1 crc)"

definition crc_byte :: "32 word \<Rightarrow> 8 word \<Rightarrow> 32 word" where
  "crc_byte crc b = (crc_bit ^^ 8) (crc XOR ucast b)"

definition crc32 :: "8 word list \<Rightarrow> 32 word" where
  "crc32 bs = foldl crc_byte 0xFFFFFFFF bs XOR 0xFFFFFFFF"

section \<open>The exchange cap of a pair\<close>

definition cap_bound :: "string \<Rightarrow> int \<Rightarrow> db \<Rightarrow> int" where
  "cap_bound key dflt d =
     (case setting_as_int key (py_str_int dflt) d of
        None \<Rightarrow> dflt
      | Some v \<Rightarrow> min (max v 1) 10)"

definition exchange_cap :: "int \<Rightarrow> username \<Rightarrow> username \<Rightarrow> db \<Rightarrow> int" where
  "exchange_cap pid a b d =
     (let lo = cap_bound ''reply_exchange_cap_min'' 2 d;
          hi = cap_bound ''reply_exchange_cap_max'' 3 d
      in if hi \<le> lo then lo
         else
           let pair = join_with '':'' (if a \<le> b then [a, b] else [b, a]);
               digest = uint (crc32 (concat (map utf8_char (py_str_int pid @ '':'' @ pair))))
           in lo + digest mod (hi - lo + 1))"

section \<open>The alternating tail\<close>

fun run_on :: "username \<Rightarrow> username \<Rightarrow> username list \<Rightarrow> int" where
  "run_on expected other [] = 0"
| "run_on expected other (a # as) = (if a \<noteq> expected then 0 else 1 + run_on other expected as)"

fun alternating_tail_length :: "username list \<Rightarrow> int" where
  "alternating_tail_length (a # b # rest) = (if a = b then 1 else 2 + run_on a b rest)"
| "alternating_tail_length as = int (length as)"

text \<open>
  The loop up the parent links. It stops at a root, at a comment that is gone, and at one
  already visited; every round adds the id of a stored comment to the visited ones, so it ends
  on any table, cyclic links included.
\<close>

function chain_authors :: "comment list \<Rightarrow> int list \<Rightarrow> int option \<Rightarrow> username list" where
  "chain_authors cs visited cid =
     (case cid of
        None \<Rightarrow> []
      | Some c \<Rightarrow>
          if c \<in> set visited then []
          else (case find_row item_id c cs of
                  None \<Rightarrow> []
                | Some r \<Rightarrow> author r # chain_authors cs (c # visited) (parent_id r)))"
  by pat_completeness auto
termination
proof (relation "measure (\<lambda>(cs, visited, _). card (item_id ` set cs - set visited))")
  fix cs :: "comment list" and visited cid c r
  assume "cid = Some c" and "c \<notin> set visited" and "find_row item_id c cs = Some r"
  then have "c \<in> item_id ` set cs - set visited" using find_row_SomeD by fastforce
  then have "item_id ` set cs - set (c # visited) \<subset> item_id ` set cs - set visited" by auto
  then show "((cs, c # visited, parent_id r), cs, visited, cid) \<in>
      measure (\<lambda>(cs, visited, _). card (item_id ` set cs - set visited))"
    by (auto intro: psubset_card_mono)
qed simp

declare chain_authors.simps [simp del]

definition exchange_tail_for_reply :: "int option \<Rightarrow> username \<Rightarrow> db \<Rightarrow> int" where
  "exchange_tail_for_reply pid who d = alternating_tail_length (who # chain_authors (comments d) [] pid)"

section \<open>Properties\<close>

lemma cap_bound_range: "1 \<le> dflt \<Longrightarrow> dflt \<le> 10 \<Longrightarrow> 1 \<le> cap_bound key dflt d \<and> cap_bound key dflt d \<le> 10"
  by (simp add: cap_bound_def split: option.split)

lemma exchange_cap_cases:
  "(let lo = cap_bound ''reply_exchange_cap_min'' 2 d; hi = cap_bound ''reply_exchange_cap_max'' 3 d
    in lo \<le> exchange_cap pid a b d \<and> exchange_cap pid a b d \<le> max lo hi)"
proof -
  have "lo \<le> lo + k mod (hi - lo + 1) \<and> lo + k mod (hi - lo + 1) \<le> max lo hi" if "\<not> hi \<le> lo" for k lo hi :: int
    using that pos_mod_bound [of "hi - lo + 1" k] pos_mod_sign [of "hi - lo + 1" k] by (auto simp: max_def)
  then show ?thesis by (simp add: exchange_cap_def Let_def)
qed

lemma exchange_cap_sym: "exchange_cap pid a b d = exchange_cap pid b a d"
  by (auto simp: exchange_cap_def Let_def dest: order_antisym intro: linorder_cases)

text \<open>The exchange cap needs no stored state and both sides compute the same one: it does
  not depend on the order of the pair, lies between 1 and the sanity ceiling 10 whatever the
  settings hold (unparsable, negative and huge values included), and is the configured minimum
  when the configured range is inverted.\<close>

theorem exchange_cap_agreed:
  "exchange_cap pid a b d = exchange_cap pid b a d \<and>
   1 \<le> exchange_cap pid a b d \<and> exchange_cap pid a b d \<le> 10 \<and>
   (cap_bound ''reply_exchange_cap_max'' 3 d \<le> cap_bound ''reply_exchange_cap_min'' 2 d \<longrightarrow>
    exchange_cap pid a b d = cap_bound ''reply_exchange_cap_min'' 2 d)"
proof -
  have "1 \<le> exchange_cap pid a b d \<and> exchange_cap pid a b d \<le> 10"
    using exchange_cap_cases [of d pid a b] cap_bound_range [of 2 "''reply_exchange_cap_min''" d]
      cap_bound_range [of 3 "''reply_exchange_cap_max''" d] by (auto simp: Let_def)
  then show ?thesis using exchange_cap_sym by (auto simp: exchange_cap_def Let_def)
qed

theorem exchange_cap_agreed_witness:
  "exchange_cap 3 ''bob'' ''ann'' empty_db = exchange_cap 3 ''ann'' ''bob'' empty_db \<and>
   exchange_cap 3 ''bob'' ''ann'' (setting_set ''reply_exchange_cap_max'' (Some ''1'') empty_db) = 2"
proof -
  have "cap_bound ''reply_exchange_cap_max'' 3 (setting_set ''reply_exchange_cap_max'' (Some ''1'') empty_db) = 1"
    and "cap_bound ''reply_exchange_cap_min'' 2 (setting_set ''reply_exchange_cap_max'' (Some ''1'') empty_db) = 2"
    by code_simp+
  then show ?thesis
    using exchange_cap_agreed [of 3 "''bob''" "''ann''" empty_db]
      exchange_cap_agreed [of 3 "''bob''" "''ann''" "setting_set ''reply_exchange_cap_max'' (Some ''1'') empty_db"]
    by simp
qed

text \<open>The specification of the tail: two distinct people taking turns.\<close>

definition taking_turns :: "username list \<Rightarrow> bool" where
  "taking_turns as = ((\<forall>i. Suc i < length as \<longrightarrow> as ! i \<noteq> as ! Suc i) \<and>
     (\<forall>i. Suc (Suc i) < length as \<longrightarrow> as ! i = as ! Suc (Suc i)))"

lemma taking_turns_short [simp]: "taking_turns []" "taking_turns [a]"
  by (simp_all add: taking_turns_def)

lemma taking_turns_two [simp]: "taking_turns [a, b] \<longleftrightarrow> a \<noteq> b"
  by (auto simp: taking_turns_def)

lemma all_less_Suc: "(\<forall>i. P i) \<longleftrightarrow> P 0 \<and> (\<forall>i. P (Suc i))"
  by (metis nat.exhaust)

lemma taking_turns_Cons [simp]:
  "taking_turns (a # b # c # as) \<longleftrightarrow> a \<noteq> b \<and> a = c \<and> taking_turns (b # c # as)"
  unfolding taking_turns_def
  by (subst all_less_Suc, subst (2) all_less_Suc) auto

lemma run_on_nonneg [simp]: "0 \<le> run_on a b as" and run_on_length: "run_on a b as \<le> int (length as)"
  by (induction a b as rule: run_on.induct) auto

lemma run_on_turns:
  assumes "a \<noteq> b"
  shows "taking_turns (a # b # take n as) \<longleftrightarrow> int (min n (length as)) \<le> run_on a b as"
  using assms
proof (induction a b as arbitrary: n rule: run_on.induct)
  case (2 a b c as)
  show ?case
  proof (cases n)
    case (Suc m)
    show ?thesis
    proof (cases "c = a")
      case True
      with 2(1) [of m] 2(2) Suc show ?thesis by (auto simp: min_def)
    next
      case False
      with Suc 2(2) show ?thesis by (auto simp: min_def)
    qed
  qed (use 2(2) in simp)
qed simp

text \<open>The alternating tail is the longest one: for every chain, a prefix of the chain
  (deepest comment first) consists of two distinct people taking turns exactly when it is no
  longer than the computed length.\<close>

lemma alternating_tail_is_longest:
  assumes "n \<le> length chain"
  shows "taking_turns (take n chain) \<longleftrightarrow> int n \<le> alternating_tail_length chain"
proof -
  consider a b rest where "chain = a # b # rest" | a where "chain = [a]" | "chain = []"
    by (cases chain rule: alternating_tail_length.cases) auto
  then show ?thesis
  proof cases
    case (1 a b rest)
    consider "n = 0" | "n = 1" | m where "n = Suc (Suc m)"
      by (metis One_nat_def not0_implies_Suc)
    then show ?thesis
    proof cases
      case (3 m)
      show ?thesis
      proof (cases "a = b")
        case True
        have "\<not> taking_turns (a # a # take m rest)" by (auto simp: taking_turns_def)
        with True 1 3 show ?thesis by simp
      next
        case False
        with 1 3 assms run_on_turns [OF False, of m rest] show ?thesis by (auto simp: min_def)
      qed
    qed (use 1 in \<open>simp_all add: add_nonneg_nonneg\<close>)
  next
    case (2 a)
    with assms show ?thesis by (cases n) auto
  qed (use assms in simp)
qed

theorem alternating_tail_is_longest_witness:
  "taking_turns (take 3 [''ann'', ''bob'', ''ann'', ''cy'']) \<longleftrightarrow>
   int 3 \<le> alternating_tail_length [''ann'', ''bob'', ''ann'', ''cy'']"
  by (rule alternating_tail_is_longest) simp

section \<open>The tail grows by one with each reply\<close>

text \<open>Replies are stored with links to older comments, so a chain never returns to a comment.\<close>

definition thread_ordered :: "comment list \<Rightarrow> bool" where
  "thread_ordered cs = list_all (\<lambda>c. case parent_id c of None \<Rightarrow> True | Some p \<Rightarrow> p < item_id c) cs"

lemma chain_authors_fresh:
  assumes "thread_ordered cs" and "case cid of None \<Rightarrow> True | Some c \<Rightarrow> \<forall>v \<in> set extra. c < v"
  shows "chain_authors cs (visited @ extra) cid = chain_authors cs visited cid"
  using assms
proof (induction cs visited cid rule: chain_authors.induct)
  case (1 cs visited cid)
  show ?case
  proof (cases cid)
    case (Some c)
    with 1(3) have notin: "c \<notin> set extra" by auto
    show ?thesis
    proof (cases "c \<in> set visited \<or> find_row item_id c cs = None")
      case True
      with Some notin show ?thesis
        by (auto simp: chain_authors.simps [of cs "visited @ extra"] chain_authors.simps [of cs visited])
    next
      case False
      then obtain r where r: "find_row item_id c cs = Some r" and new: "c \<notin> set visited" by auto
      then have "r \<in> set cs" "item_id r = c" using find_row_SomeD by metis+
      with 1(2) have "case parent_id r of None \<Rightarrow> True | Some p \<Rightarrow> p < c"
        by (auto simp: thread_ordered_def list_all_iff split: option.splits)
      with 1(3) Some have "case parent_id r of None \<Rightarrow> True | Some p \<Rightarrow> \<forall>v \<in> set extra. p < v"
        by (fastforce split: option.splits)
      with 1(1) [OF Some new r 1(2)] Some r new notin show ?thesis
        by (simp add: chain_authors.simps [of cs "visited @ extra"] chain_authors.simps [of cs visited])
    qed
  qed (simp add: chain_authors.simps)
qed

text \<open>Answering one's counterpart: the tail of the answer is one longer than that of the reply.\<close>

lemma tail_of_answer:
  assumes ordered: "thread_ordered (comments d)" and reply: "find_row item_id c (comments d) = Some r"
    and parent: "parent_id r = Some p" and found: "find_row item_id p (comments d) = Some q"
    and pair: "author q \<noteq> author r"
  shows "exchange_tail_for_reply (Some c) (author q) d = exchange_tail_for_reply (Some p) (author r) d + 1"
proof -
  have "r \<in> set (comments d)" "item_id r = c" using reply find_row_SomeD by metis+
  with ordered parent have "p < c" by (auto simp: thread_ordered_def list_all_iff)
  then have "chain_authors (comments d) [c] (Some p) = chain_authors (comments d) [] (Some p)"
    using chain_authors_fresh [OF ordered, where cid = "Some p" and extra = "[c]" and visited = "[]"] by simp
  then have "chain_authors (comments d) [] (Some c) = author r # chain_authors (comments d) [] (Some p)"
    using reply parent by (simp add: chain_authors.simps [of _ "[]" "Some c"])
  moreover obtain rest where "chain_authors (comments d) [] (Some p) = author q # rest"
    using found by (simp add: chain_authors.simps [of _ "[]" "Some p"])
  ultimately show ?thesis using pair by (simp add: exchange_tail_for_reply_def)
qed

end
