(* ===== verification/Notifications.thy ===== *)
theory Notifications
  imports Threads
begin

text \<open>
  \<open>deaddit/dynamics/notifications.py\<close>: reply and mention notifications, emitted after the
  content transaction. Both entry points are isolated hooks; the theory shows what they emit,
  how the rolling dedupe spaces them, and that a direct reply to a human always arrives.
\<close>

section \<open>Emission\<close>

definition is_human_name :: "username option \<Rightarrow> db \<Rightarrow> bool" where
  "is_human_name who d =
     (case who of None \<Rightarrow> False
      | Some n \<Rightarrow> n \<noteq> [] \<and> (case find_row user_name n (users d) of
          None \<Rightarrow> False | Some u \<Rightarrow> password_hash u \<noteq> None))"

definition dedupe_window :: int where
  "dedupe_window = hours 1"

definition is_duplicate ::
  "username \<Rightarrow> string \<Rightarrow> username option \<Rightarrow> int option \<Rightarrow> timestamp \<Rightarrow> notification \<Rightarrow> bool" where
  "is_duplicate who k act pid cutoff n =
     (recipient n = who \<and> kind n = k \<and> notif_post n = pid \<and> actor n = act \<and> cutoff < notif_created_at n)"

definition emit ::
  "username option \<Rightarrow> string \<Rightarrow> username option \<Rightarrow> int option \<Rightarrow> int option \<Rightarrow> string option \<Rightarrow>
   timestamp \<Rightarrow> db \<Rightarrow> db" where
  "emit who k act pid cid snip now d =
     (case who of
        None \<Rightarrow> d
      | Some r \<Rightarrow>
          if r = [] \<or> who = act then d
          else
            (let skip_dedupe = (k = ''reply'' \<and> is_human_name who d) in
             if \<not> skip_dedupe \<and>
               list_ex (is_duplicate r k act pid (now - dedupe_window)) (notifications d) then d
             else d\<lparr>notifications := notifications d @
               [\<lparr>notif_id = next_id notif_id (notifications d), recipient = r, kind = k, actor = act,
                 notif_post = pid, notif_comment = cid, snippet = snip, notif_created_at = now,
                 read_at = None\<rparr>]\<rparr>))"

section \<open>Mentions\<close>

definition name_char :: "char \<Rightarrow> bool" where
  "name_char c = (is_digit c \<or> is_lower_ascii c \<or> is_upper_ascii c \<or> c = CHR ''_'' \<or> c = CHR ''-'')"

text \<open>\<open>findall\<close> of the pattern \<open>@([A-Za-z0-9_-]+)\<close>: leftmost, longest, not overlapping.\<close>

function mention_tokens :: "string \<Rightarrow> string list" where
  "mention_tokens [] = []"
| "mention_tokens (c # cs) =
     (if c = CHR ''@'' \<and> takeWhile name_char cs \<noteq> []
      then takeWhile name_char cs # mention_tokens (dropWhile name_char cs)
      else mention_tokens cs)"
  by pat_completeness auto
termination by (relation "measure length") (auto simp: le_imp_less_Suc length_dropWhile_le)

fun collect_mentions :: "username list \<Rightarrow> username list \<Rightarrow> string list \<Rightarrow> username list" where
  "collect_mentions names found [] = found"
| "collect_mentions names found (t # ts) =
     (if t \<in> set names \<and> t \<notin> set found then collect_mentions names (found @ [t]) ts
      else collect_mentions names found ts)"

definition mentioned_usernames :: "string option \<Rightarrow> db \<Rightarrow> username list" where
  "mentioned_usernames text d =
     (case text of None \<Rightarrow> []
      | Some t \<Rightarrow> if t = [] then []
          else collect_mentions (map user_name (users d)) [] (mention_tokens t))"

section \<open>The two hooks\<close>

definition snippet_of :: "string option \<Rightarrow> string" where
  "snippet_of text = take 200 (case text of None \<Rightarrow> [] | Some t \<Rightarrow> t)"

definition reply_recipient :: "comment \<Rightarrow> db \<Rightarrow> username option" where
  "reply_recipient c d =
     (case parent_id c of
        Some p \<Rightarrow>
          (case find_row item_id p (comments d) of
             None \<Rightarrow> None
           | Some q \<Rightarrow>
               if author q \<noteq> author c \<and> \<not> is_human_name (Some (author q)) d \<and>
                 exchange_cap (post_id c) (author q) (author c) d
                   \<le> exchange_tail_for_reply (Some p) (author c) d
               then None else Some (author q))
      | None \<Rightarrow> map_option author (find_row item_id (post_id c) (posts d)))"

definition emit_mentions ::
  "username \<Rightarrow> int \<Rightarrow> int option \<Rightarrow> string \<Rightarrow> timestamp \<Rightarrow> username list \<Rightarrow> db \<Rightarrow> db" where
  "emit_mentions act pid cid snip now names d =
     fold (\<lambda>name. emit (Some name) ''mention'' (Some act) (Some pid) cid (Some snip) now) names d"

definition notify_comment_created :: "comment \<Rightarrow> timestamp \<Rightarrow> db \<Rightarrow> db" where
  "notify_comment_created c now d =
     (let snip = snippet_of (content c);
          d' = emit (reply_recipient c d) ''reply'' (Some (author c)) (Some (post_id c))
            (Some (item_id c)) (Some snip) now d
      in emit_mentions (author c) (post_id c) (Some (item_id c)) snip now
           (mentioned_usernames (content c) d') d')"

definition notify_post_created :: "post \<Rightarrow> timestamp \<Rightarrow> db \<Rightarrow> db" where
  "notify_post_created p now d =
     emit_mentions (author p) (item_id p) None (snippet_of (content p)) now
       (mentioned_usernames (content p) d) d"

section \<open>The hooks are isolated\<close>

lemma emit_frame [simp]:
  "content_state (emit r k a p c s now d) = content_state d"
  "runtime_state (emit r k a p c s now d) = runtime_state d"
  "events (emit r k a p c s now d) = events d" "flags (emit r k a p c s now d) = flags d"
  by (auto simp: emit_def content_state_def runtime_state_def Let_def split: option.split)

lemma emit_mentions_frame [simp]:
  "content_state (emit_mentions a p c s now names d) = content_state d"
  "runtime_state (emit_mentions a p c s now names d) = runtime_state d"
  "events (emit_mentions a p c s now names d) = events d"
  "flags (emit_mentions a p c s now names d) = flags d"
  by (induction names arbitrary: d) (simp_all add: emit_mentions_def)

interpretation comment_notices: isolated_hook "\<lambda>(c, now). notify_comment_created c now"
  by unfold_locales (auto simp: notify_comment_created_def Let_def)

interpretation post_notices: isolated_hook "\<lambda>(p, now). notify_post_created p now"
  by unfold_locales (auto simp: notify_post_created_def)

section \<open>What an emission adds\<close>

lemma emit_cases:
  obtains (nothing) "emit r k act pid cid snip now d = d"
  | (row) who n where "r = Some who" and "who \<noteq> []" and "Some who \<noteq> act" and
    "emit r k act pid cid snip now d = d\<lparr>notifications := notifications d @ [n]\<rparr>" and
    "recipient n = who" and "kind n = k" and "actor n = act" and "notif_post n = pid" and
    "notif_comment n = cid" and "notif_created_at n = now" and "read_at n = None" and
    "snippet n = snip" and "notif_id n = next_id notif_id (notifications d)" and
    "k = ''reply'' \<and> is_human_name r d \<or>
     (\<forall>m \<in> set (notifications d). \<not> is_duplicate who k act pid (now - dedupe_window) m)"
proof (cases "emit r k act pid cid snip now d = d")
  case False
  then obtain who where r: "r = Some who" and who: "who \<noteq> []" "Some who \<noteq> act"
    and new: "k = ''reply'' \<and> is_human_name r d \<or>
      (\<forall>m \<in> set (notifications d). \<not> is_duplicate who k act pid (now - dedupe_window) m)"
    by (auto simp: emit_def Let_def list_ex_iff split: option.splits if_splits)
  then have "emit r k act pid cid snip now d = d\<lparr>notifications := notifications d @
      [\<lparr>notif_id = next_id notif_id (notifications d), recipient = who, kind = k, actor = act,
        notif_post = pid, notif_comment = cid, snippet = snip, notif_created_at = now,
        read_at = None\<rparr>]\<rparr>"
    by (auto simp: emit_def Let_def list_ex_iff)
  from row [OF r who this] new show thesis by simp
qed (rule nothing)

definition good_notice ::
  "username \<Rightarrow> int \<Rightarrow> int option \<Rightarrow> timestamp \<Rightarrow> notification \<Rightarrow> bool" where
  "good_notice act pid cid now n =
     (recipient n \<noteq> act \<and> actor n = Some act \<and> notif_post n = Some pid \<and> notif_comment n = cid \<and>
      notif_created_at n = now \<and> read_at n = None)"

lemma emit_appends:
  "\<exists>new. notifications (emit r k (Some act) (Some pid) cid snip now d) = notifications d @ new \<and>
     (\<forall>n \<in> set new. good_notice act pid cid now n \<and> kind n = k \<and> Some (recipient n) = r)"
  by (rule emit_cases [of r k "Some act" "Some pid" cid snip now d]) (auto simp: good_notice_def)

lemma emit_mentions_appends:
  "\<exists>new. notifications (emit_mentions act pid cid snip now names d) = notifications d @ new \<and>
     (\<forall>n \<in> set new. good_notice act pid cid now n \<and> kind n = ''mention'' \<and> recipient n \<in> set names)"
proof (induction names arbitrary: d)
  case (Cons name names)
  let ?d = "emit (Some name) ''mention'' (Some act) (Some pid) cid (Some snip) now d"
  from Cons [of ?d] emit_appends [of "Some name" "''mention''" act pid cid "Some snip" now d]
  show ?case by (fastforce simp: emit_mentions_def)
qed (simp add: emit_mentions_def)

lemma collect_mentions_props:
  assumes "distinct found" and "set found \<subseteq> set names"
  shows "distinct (collect_mentions names found ts)"
    and "set (collect_mentions names found ts) = set found \<union> (set ts \<inter> set names)"
  using assms by (induction names found ts rule: collect_mentions.induct) auto

lemma mentioned_usernames_props:
  "distinct (mentioned_usernames text d)" "set (mentioned_usernames text d) \<subseteq> user_name ` set (users d)"
  using collect_mentions_props [of "[]"] by (auto simp: mentioned_usernames_def split: option.split)

section \<open>Properties\<close>

text \<open>
  The rolling dedupe as an invariant: of two notices to the same person of the same kind, from
  the same actor about the same post, the later one is at least the window younger, replies to
  humans excepted.
\<close>

definition same_notice :: "notification \<Rightarrow> notification \<Rightarrow> bool" where
  "same_notice m n =
     (recipient m = recipient n \<and> kind m = kind n \<and> actor m = actor n \<and> notif_post m = notif_post n)"

definition spaced :: "db \<Rightarrow> bool" where
  "spaced d = sorted_wrt (\<lambda>m n. same_notice m n \<and> \<not> (kind n = ''reply'' \<and> is_human_name (Some (recipient n)) d)
     \<longrightarrow> notif_created_at m + dedupe_window \<le> notif_created_at n) (notifications d)"

lemma is_human_name_cong: "users d = users d' \<Longrightarrow> is_human_name who d = is_human_name who d'"
  by (simp add: is_human_name_def split: option.split)

lemma emit_users [simp]: "users (emit r k a p c s now d) = users d"
  by (rule content_stateD(3)) simp

lemma emit_spaced:
  assumes "spaced d"
  shows "spaced (emit r k act pid cid snip now d)"
proof (cases rule: emit_cases [of r k act pid cid snip now d])
  case (row who n)
  have human: "is_human_name u (d\<lparr>notifications := ns\<rparr>) = is_human_name u d" for u ns
    by (rule is_human_name_cong) simp
  from assms row show ?thesis
    by (auto simp: spaced_def sorted_wrt_append human same_notice_def is_duplicate_def not_less)
qed (use assms in simp)

lemma emit_mentions_spaced: "spaced d \<Longrightarrow> spaced (emit_mentions act pid cid snip now names d)"
  by (induction names arbitrary: d) (simp_all add: emit_mentions_def emit_spaced)

definition from_comment :: "comment \<Rightarrow> timestamp \<Rightarrow> notification \<Rightarrow> bool" where
  "from_comment c now = good_notice (author c) (post_id c) (Some (item_id c)) now"

lemma notify_comment_appends:
  "\<exists>new. notifications (notify_comment_created c now d) = notifications d @ new \<and>
     (\<forall>n \<in> set new. from_comment c now n \<and>
       (kind n = ''reply'' \<and> Some (recipient n) = reply_recipient c d \<or>
        kind n = ''mention'' \<and> recipient n \<in> set (mentioned_usernames (content c) d)))"
proof -
  define d' where "d' = emit (reply_recipient c d) ''reply'' (Some (author c)) (Some (post_id c))
      (Some (item_id c)) (Some (snippet_of (content c))) now d"
  have "mentioned_usernames (content c) d' = mentioned_usernames (content c) d"
    by (simp add: mentioned_usernames_def d'_def split: option.split)
  then obtain ms rs where
    "notifications (notify_comment_created c now d) = notifications d' @ ms"
    "\<forall>n \<in> set ms. from_comment c now n \<and> kind n = ''mention'' \<and>
      recipient n \<in> set (mentioned_usernames (content c) d)"
    "notifications d' = notifications d @ rs"
    "\<forall>n \<in> set rs. from_comment c now n \<and> kind n = ''reply'' \<and> Some (recipient n) = reply_recipient c d"
    using emit_mentions_appends [of "author c" "post_id c" "Some (item_id c)" "snippet_of (content c)" now
        "mentioned_usernames (content c) d'" d']
      emit_appends [of "reply_recipient c d" "''reply''" "author c" "post_id c" "Some (item_id c)"
        "Some (snippet_of (content c))" now d]
    by (auto simp: notify_comment_created_def Let_def d'_def from_comment_def)
  then show ?thesis by (intro exI [of _ "rs @ ms"]) auto
qed

text \<open>The hook of a new comment only appends unread notices about that comment, by its
  author and to somebody else; each is the reply notice to the author of what the comment
  answers, or a mention of an existing user the text names. It leaves every other table alone.\<close>

theorem notify_comment_emits:
  "content_state (notify_comment_created c now d) = content_state d \<and>
   runtime_state (notify_comment_created c now d) = runtime_state d \<and>
   (\<exists>new. notifications (notify_comment_created c now d) = notifications d @ new \<and>
     list_all (\<lambda>n. recipient n \<noteq> author c \<and> actor n = Some (author c) \<and> read_at n = None \<and>
       notif_comment n = Some (item_id c) \<and> notif_post n = Some (post_id c) \<and>
       (kind n = ''reply'' \<and> Some (recipient n) = reply_recipient c d \<or>
        kind n = ''mention'' \<and> list_ex (\<lambda>u. user_name u = recipient n) (users d))) new)"
proof -
  obtain new where "notifications (notify_comment_created c now d) = notifications d @ new"
    and "\<forall>n \<in> set new. from_comment c now n \<and>
       (kind n = ''reply'' \<and> Some (recipient n) = reply_recipient c d \<or>
        kind n = ''mention'' \<and> recipient n \<in> set (mentioned_usernames (content c) d))"
    using notify_comment_appends by blast
  then show ?thesis
    using comment_notices.keeps_content [of "(c, now)" d] comment_notices.keeps_runtime [of "(c, now)" d]
      mentioned_usernames_props(2) [of "content c" d]
    by (fastforce simp: list_all_iff list_ex_iff from_comment_def good_notice_def)
qed

text \<open>The rolling dedupe: however many comments and posts are notified about, two notices
  to one person of the same kind, from the same actor and about the same post are at least an
  hour apart, except replies to humans, which bypass it.\<close>

lemma notices_stay_spaced:
  assumes "spaced d"
  shows "spaced (notify_comment_created c now d) \<and> spaced (notify_post_created p now d)"
  using assms by (simp add: notify_comment_created_def notify_post_created_def Let_def
      emit_mentions_spaced emit_spaced)

theorem notices_stay_spaced_witness:
  "spaced (notify_comment_created (sample_comment 4 ''bob'' 7 (Some 3)) 10
      (notify_comment_created (sample_comment 4 ''bob'' 7 (Some 3)) 5 sample_db)) \<and>
   length (notifications (notify_comment_created (sample_comment 4 ''bob'' 7 (Some 3)) 10
      (notify_comment_created (sample_comment 4 ''bob'' 7 (Some 3)) 5
        (setting_set ''reply_exchange_cap_min'' (Some ''9'') sample_db)))) = 1"
proof
  have "spaced sample_db" by (simp add: spaced_def sample_db_def empty_db_def)
  then show "spaced (notify_comment_created (sample_comment 4 ''bob'' 7 (Some 3)) 10
      (notify_comment_created (sample_comment 4 ''bob'' 7 (Some 3)) 5 sample_db))"
    using notices_stay_spaced by blast
  show "length (notifications (notify_comment_created (sample_comment 4 ''bob'' 7 (Some 3)) 10
      (notify_comment_created (sample_comment 4 ''bob'' 7 (Some 3)) 5
        (setting_set ''reply_exchange_cap_min'' (Some ''9'') sample_db)))) = 1"
    by code_simp
qed

text \<open>A direct reply to a human always arrives: neither the exchange cap nor the dedupe
  window suppresses it, whatever was emitted before.\<close>

theorem reply_to_human_arrives:
  assumes "parent_id c = Some p" and "find_row item_id p (comments d) = Some q"
    and "author q \<noteq> author c" and "is_human_name (Some (author q)) d"
  shows "list_ex (\<lambda>n. recipient n = author q \<and> kind n = ''reply'' \<and> notif_comment n = Some (item_id c) \<and>
    notif_created_at n = now \<and> read_at n = None) (notifications (notify_comment_created c now d))"
proof -
  let ?arrives = "\<lambda>n. recipient n = author q \<and> kind n = ''reply'' \<and> notif_comment n = Some (item_id c) \<and>
    notif_created_at n = now \<and> read_at n = None"
  let ?snip = "snippet_of (content c)"
  let ?d = "emit (Some (author q)) ''reply'' (Some (author c)) (Some (post_id c)) (Some (item_id c)) (Some ?snip) now d"
  have to: "reply_recipient c d = Some (author q)" using assms by (simp add: reply_recipient_def)
  have "author q \<noteq> []" using assms(4) by (simp add: is_human_name_def)
  then have "list_ex ?arrives (notifications ?d)" using assms(3,4) by (simp add: emit_def)
  moreover obtain new where "notifications (notify_comment_created c now d) = notifications ?d @ new"
    using emit_mentions_appends [of "author c" "post_id c" "Some (item_id c)" ?snip now
        "mentioned_usernames (content c) ?d" ?d]
    by (auto simp: notify_comment_created_def Let_def to)
  ultimately show ?thesis by simp
qed

theorem reply_to_human_arrives_witness:
  "list_ex (\<lambda>n. recipient n = ''ann'' \<and> kind n = ''reply'' \<and> notif_comment n = Some 9 \<and>
    notif_created_at n = 5 \<and> read_at n = None)
    (notifications (notify_comment_created (sample_comment 9 ''bob'' 7 (Some 2)) 5
      (notify_comment_created (sample_comment 8 ''bob'' 7 (Some 2)) 4 sample_db)))"
proof -
  let ?d = "notify_comment_created (sample_comment 8 ''bob'' 7 (Some 2)) 4 sample_db"
  have "comments ?d = comments sample_db" and "users ?d = users sample_db"
    using comment_notices.hook_comments [of "(sample_comment 8 ''bob'' 7 (Some 2), 4)" sample_db]
      comment_notices.hook_users [of "(sample_comment 8 ''bob'' 7 (Some 2), 4)" sample_db] by simp_all
  then have "find_row item_id 2 (comments ?d) = Some (sample_comment 2 ''ann'' 7 (Some 1))"
    and "is_human_name (Some ''ann'') ?d"
    by (simp_all add: is_human_name_def sample_db_def sample_comment_def sample_user_def)
  then show ?thesis
    using reply_to_human_arrives [of "sample_comment 9 ''bob'' 7 (Some 2)" 2 ?d "sample_comment 2 ''ann'' 7 (Some 1)" 5]
    by (simp add: sample_comment_def)
qed

end
