(* ===== verification/Inbox.thy ===== *)
theory Inbox
  imports Notifications
begin

text \<open>
  \<open>deaddit/dynamics/inbox.py\<close>: reading the notifications by keyset pages, marking them read
  and purging old ones. A cursor is the pair of timestamp and id its text encodes.
\<close>

section \<open>The service\<close>

definition clamp_limit :: "int \<Rightarrow> nat" where
  "clamp_limit limit = nat (max 1 (min limit 100))"

definition inbox_key :: "notification \<Rightarrow> timestamp \<times> int" where
  "inbox_key n = (notif_created_at n, notif_id n)"

definition inbox_matches :: "username \<Rightarrow> bool \<Rightarrow> notification \<Rightarrow> bool" where
  "inbox_matches who unread_only n = (recipient n = who \<and> (unread_only \<longrightarrow> read_at n = None))"

definition before_cursor :: "(timestamp \<times> int) option \<Rightarrow> notification \<Rightarrow> bool" where
  "before_cursor cur n =
     (case cur of None \<Rightarrow> True
      | Some (ts, i) \<Rightarrow> notif_created_at n < ts \<or> notif_created_at n = ts \<and> notif_id n < i)"

definition unread_count :: "username \<Rightarrow> db \<Rightarrow> int" where
  "unread_count who d = count_rows (\<lambda>n. recipient n = who \<and> read_at n = None) (notifications d)"

record inbox_page =
  page_items :: "notification list"
  page_unread :: int
  next_cursor :: "(timestamp \<times> int) option"

definition get_inbox ::
  "username \<Rightarrow> bool \<Rightarrow> int \<Rightarrow> (timestamp \<times> int) option \<Rightarrow> db \<Rightarrow> inbox_page" where
  "get_inbox who unread_only limit cur d =
     (let n = clamp_limit limit;
          rows = take (n + 1) (order_desc inbox_key
            (filter (\<lambda>r. inbox_matches who unread_only r \<and> before_cursor cur r) (notifications d)));
          has_more = n < length rows;
          page = take n rows
      in \<lparr>page_items = page, page_unread = unread_count who d,
          next_cursor = (if has_more \<and> page \<noteq> [] then Some (inbox_key (last page)) else None)\<rparr>)"

datatype read_target = All_Unread | These "int list"

definition mark_inbox_read :: "username \<Rightarrow> read_target \<Rightarrow> timestamp \<Rightarrow> db \<Rightarrow> db \<times> int" where
  "mark_inbox_read who which now d =
     (let hit = (\<lambda>n. recipient n = who \<and> read_at n = None \<and>
            (case which of All_Unread \<Rightarrow> True | These ids \<Rightarrow> notif_id n \<in> set ids))
      in (d\<lparr>notifications := update_rows hit (\<lambda>n. n\<lparr>read_at := Some now\<rparr>) (notifications d)\<rparr>,
          count_rows hit (notifications d)))"

definition purge_read_notifications :: "int \<Rightarrow> timestamp \<Rightarrow> db \<Rightarrow> db \<times> int" where
  "purge_read_notifications max_age_days now d =
     (let old = (\<lambda>n. case read_at n of None \<Rightarrow> False | Some t \<Rightarrow> t < now - days max_age_days)
      in (d\<lparr>notifications := filter (\<lambda>n. \<not> old n) (notifications d)\<rparr>,
          count_rows old (notifications d)))"

text \<open>The client's loop over the pages, one database state per page read; fuel is the list.\<close>

fun inbox_walk ::
  "username \<Rightarrow> bool \<Rightarrow> int \<Rightarrow> (timestamp \<times> int) option \<Rightarrow> db list \<Rightarrow> notification list" where
  "inbox_walk who unread_only limit cur [] = []"
| "inbox_walk who unread_only limit cur (d # ds) =
     (let page = get_inbox who unread_only limit cur d in
      page_items page @
        (case next_cursor page of None \<Rightarrow> [] | Some c \<Rightarrow> inbox_walk who unread_only limit (Some c) ds))"

section \<open>Keyset pages\<close>

lemma clamp_limit_pos [simp]: "0 < clamp_limit limit" "clamp_limit limit \<noteq> 0" "Suc 0 \<le> clamp_limit limit"
  by (simp_all add: clamp_limit_def)

lemma before_cursor_Some [simp]: "before_cursor (Some c) n \<longleftrightarrow> inbox_key n < c"
  by (cases c) (auto simp: before_cursor_def inbox_key_def)

lemma before_cursor_Some_eq: "before_cursor (Some c) = (\<lambda>n. inbox_key n < c)"
  by (simp add: fun_eq_iff)

lemma before_cursor_None [simp]: "before_cursor None n"
  by (simp add: before_cursor_def)

text \<open>Reading on from the last row shown gives the rows after it, whatever newer arrived.\<close>

definition arrived_later :: "notification list \<Rightarrow> notification list \<Rightarrow> bool" where
  "arrived_later old new = (\<forall>n \<in> set new. \<forall>m \<in> set old. inbox_key m < inbox_key n)"

definition inbox_rows :: "username \<Rightarrow> bool \<Rightarrow> db \<Rightarrow> notification list" where
  "inbox_rows who unread_only d = order_desc inbox_key (filter (inbox_matches who unread_only) (notifications d))"

lemma inbox_rows_strict:
  "distinct (map notif_id (notifications d)) \<Longrightarrow>
   sorted_wrt (\<lambda>m n. inbox_key n < inbox_key m) (inbox_rows who unread_only d)"
  unfolding inbox_rows_def
  by (intro strict_order_desc) (auto simp: distinct_map inbox_key_def inj_on_def)

lemma get_inbox_rows:
  "page_items (get_inbox who unread_only limit cur d) =
     take (clamp_limit limit) (filter (before_cursor cur) (inbox_rows who unread_only d))"
  "next_cursor (get_inbox who unread_only limit cur d) =
     (let rows = filter (before_cursor cur) (inbox_rows who unread_only d)
      in if clamp_limit limit < length rows then Some (inbox_key (rows ! (clamp_limit limit - 1))) else None)"
proof -
  have rows: "order_desc inbox_key (filter (\<lambda>r. inbox_matches who unread_only r \<and> before_cursor cur r) ns) =
      filter (before_cursor cur) (order_desc inbox_key (filter (inbox_matches who unread_only) ns))" for ns
    by (simp add: order_desc_filter conj_commute)
  show "page_items (get_inbox who unread_only limit cur d) =
     take (clamp_limit limit) (filter (before_cursor cur) (inbox_rows who unread_only d))"
    by (simp add: get_inbox_def Let_def rows inbox_rows_def min_def)
  show "next_cursor (get_inbox who unread_only limit cur d) =
     (let rows = filter (before_cursor cur) (inbox_rows who unread_only d)
      in if clamp_limit limit < length rows then Some (inbox_key (rows ! (clamp_limit limit - 1))) else None)"
    by (auto simp: get_inbox_def Let_def rows inbox_rows_def last_conv_nth min_def)
qed

lemma arrivals_in_front:
  assumes "notifications d' = notifications d @ new"
    and "arrived_later (inbox_rows who unread_only d) (filter (inbox_matches who unread_only) new)"
    and "m \<in> set (inbox_rows who unread_only d)"
  shows "filter (before_cursor (Some (inbox_key m))) (inbox_rows who unread_only d') =
    filter (before_cursor (Some (inbox_key m))) (inbox_rows who unread_only d)"
proof -
  have "filter (before_cursor (Some (inbox_key m))) (filter (inbox_matches who unread_only) new) = []"
    using assms(2,3) by (auto simp: filter_empty_conv arrived_later_def dest: order.strict_trans)
  then show ?thesis
    by (simp add: inbox_rows_def order_desc_filter [symmetric] assms(1))
qed

text \<open>The walk from row \<open>k\<close> on, over states that only gained newer rows, shows the rows from \<open>k\<close> on.\<close>

definition gained_newer :: "username \<Rightarrow> bool \<Rightarrow> db \<Rightarrow> db \<Rightarrow> bool" where
  "gained_newer who unread_only d d' = (\<exists>new. notifications d' = notifications d @ new \<and>
     arrived_later (inbox_rows who unread_only d) (filter (inbox_matches who unread_only) new))"

lemma inbox_walk_from:
  assumes "distinct (map notif_id (notifications d))"
    and "list_all (gained_newer who unread_only d) ds"
    and "0 < k" and "k < length (inbox_rows who unread_only d)"
    and "length (inbox_rows who unread_only d) \<le> k + length ds"
  shows "inbox_walk who unread_only limit (Some (inbox_key (inbox_rows who unread_only d ! (k - 1)))) ds =
    drop k (inbox_rows who unread_only d)"
  using assms(2-)
proof (induction ds arbitrary: k)
  case (Cons d' ds)
  let ?rows = "inbox_rows who unread_only d" and ?n = "clamp_limit limit"
  have mem: "?rows ! (k - 1) \<in> set ?rows" using Cons.prems by simp
  from Cons.prems obtain new where new: "notifications d' = notifications d @ new"
    "arrived_later ?rows (filter (inbox_matches who unread_only) new)"
    by (auto simp: gained_newer_def)
  have "filter (\<lambda>x. inbox_key x < inbox_key (?rows ! (k - 1))) ?rows = drop k ?rows"
    using filter_below_nth [OF inbox_rows_strict [OF assms(1)], of "k - 1" who unread_only] Cons.prems by simp
  with arrivals_in_front [OF new mem]
  have rows: "filter (before_cursor (Some (inbox_key (?rows ! (k - 1))))) (inbox_rows who unread_only d') = drop k ?rows"
    by (simp add: before_cursor_Some_eq)
  show ?case
  proof (cases "?n < length (drop k ?rows)")
    case True
    have index: "drop k ?rows ! (?n - Suc 0) = ?rows ! (k + ?n - 1)" using True by simp
    have "inbox_walk who unread_only limit (Some (inbox_key (?rows ! (k + ?n - 1)))) ds = drop (k + ?n) ?rows"
    proof (rule Cons.IH)
      show "length ?rows \<le> k + ?n + length ds"
        using Cons.prems(4) clamp_limit_pos(3) [of limit] by (simp only: list.size)
    qed (use Cons.prems True in auto)
    moreover have "take ?n (drop k ?rows) @ drop (k + ?n) ?rows = drop k ?rows"
      by (metis append_take_drop_id drop_drop add.commute)
    ultimately show ?thesis
      using True index by (simp add: get_inbox_rows rows [unfolded One_nat_def] Let_def)
  next
    case False
    then show ?thesis by (simp add: get_inbox_rows rows [unfolded One_nat_def] Let_def)
  qed
qed simp

section \<open>Properties\<close>

text \<open>C36. Following the cursors shows every row of the inbox exactly once, newest first, even
  when new notifications arrive between two page requests: if each later page is read from a
  state that only gained rows newer than those of the first, and there are enough requests for
  the list to be exhausted (one row per page suffices), the pages concatenate to the inbox as
  it was at the first request.\<close>

theorem inbox_pages_complete:
  assumes "distinct (map notif_id (notifications d))"
    and "list_all (gained_newer who unread_only d) ds"
    and "length (inbox_rows who unread_only d) \<le> length ds + 1"
  shows "inbox_walk who unread_only limit None (d # ds) = inbox_rows who unread_only d"
proof (cases "clamp_limit limit < length (inbox_rows who unread_only d)")
  case True
  then have "inbox_walk who unread_only limit
      (Some (inbox_key (inbox_rows who unread_only d ! (clamp_limit limit - 1)))) ds =
      drop (clamp_limit limit) (inbox_rows who unread_only d)"
    using assms(3) clamp_limit_pos(3) [of limit] by (intro inbox_walk_from [OF assms(1,2)]) linarith+
  with True show ?thesis by (simp add: get_inbox_rows Let_def)
qed (simp add: get_inbox_rows Let_def)

definition inbox_demo :: db where
  "inbox_demo = sample_db\<lparr>notifications := map (\<lambda>i. \<lparr>notif_id = i, recipient = ''ann'', kind = ''reply'',
     actor = Some ''bob'', notif_post = Some 7, notif_comment = None, snippet = None,
     notif_created_at = i div 2, read_at = None\<rparr>) [1, 2, 3]\<rparr>"

theorem inbox_pages_complete_witness:
  "inbox_walk ''ann'' True 1 None [inbox_demo, inbox_demo, inbox_demo] = inbox_rows ''ann'' True inbox_demo \<and>
   map notif_id (inbox_rows ''ann'' True inbox_demo) = [3, 2, 1]"
proof
  have "gained_newer ''ann'' True inbox_demo inbox_demo"
    by (auto simp: gained_newer_def arrived_later_def)
  then show "inbox_walk ''ann'' True 1 None [inbox_demo, inbox_demo, inbox_demo] = inbox_rows ''ann'' True inbox_demo"
    by (intro inbox_pages_complete) (simp_all add: inbox_demo_def inbox_rows_def)
  show "map notif_id (inbox_rows ''ann'' True inbox_demo) = [3, 2, 1]" by code_simp
qed

text \<open>Marking and purging: a second marking flips nothing, marking everything leaves no
  unread row, the rows of other people and rows already read are untouched, and neither an
  unread row nor one read within the retention period is ever purged.\<close>

theorem inbox_housekeeping:
  "snd (mark_inbox_read who which later (fst (mark_inbox_read who which now d))) = 0 \<and>
   unread_count who (fst (mark_inbox_read who All_Unread now d)) = 0 \<and>
   filter (\<lambda>n. recipient n \<noteq> who) (notifications (fst (mark_inbox_read who which now d))) =
     filter (\<lambda>n. recipient n \<noteq> who) (notifications d) \<and>
   (let kept = (\<lambda>n. case read_at n of None \<Rightarrow> True | Some t \<Rightarrow> now - days keep_days \<le> t) in
    filter kept (notifications (fst (purge_read_notifications keep_days now d))) = filter kept (notifications d) \<and>
    snd (purge_read_notifications keep_days now d) =
      int (length (notifications d)) - int (length (notifications (fst (purge_read_notifications keep_days now d)))))"
proof -
  have other: "filter p (update_rows q f ns) = filter p ns"
    if "\<And>n. q n \<Longrightarrow> \<not> p n \<and> \<not> p (f n)" for p q f and ns :: "notification list"
    using that by (induction ns) auto
  have none: "count_rows p (update_rows q f ns) = 0"
    if "\<And>n. q n \<Longrightarrow> \<not> p (f n)" "\<And>n. \<not> q n \<Longrightarrow> \<not> p n" for p q f and ns :: "notification list"
    using that by (intro count_rows_zero) (auto simp: set_update_rows)
  have gone: "count_rows p ns = int (length ns) - int (length (filter (\<lambda>n. \<not> p n) ns))"
    for p and ns :: "notification list" by (induction ns) auto
  have "snd (mark_inbox_read who which later (fst (mark_inbox_read who which now d))) = 0"
    and "unread_count who (fst (mark_inbox_read who All_Unread now d)) = 0"
    by (simp_all add: mark_inbox_read_def unread_count_def Let_def none)
  moreover have "filter (\<lambda>n. recipient n \<noteq> who) (notifications (fst (mark_inbox_read who which now d))) =
      filter (\<lambda>n. recipient n \<noteq> who) (notifications d)"
    unfolding mark_inbox_read_def Let_def by (simp, rule other) simp
  ultimately show ?thesis
    by (auto simp: purge_read_notifications_def Let_def gone intro!: filter_cong split: option.splits)
qed

end
