(* ===== verification/Metrics.thy ===== *)
theory Metrics
  imports Activity Complex_Main "HOL-Library.Multiset"
begin

text \<open>
  \<open>deaddit/dynamics/metrics.py\<close>: the measures of the nightly rollup that are computed from
  the content tables: the participation Gini, the vote provenance split, the event counts,
  the thread depths and the health averages. Quotients are exact rationals.
\<close>

section \<open>The Gini coefficient\<close>

definition weighted_sum :: "rat list \<Rightarrow> rat" where
  "weighted_sum vs = (\<Sum>(i, v) \<leftarrow> List.enumerate 0 vs. (of_nat i + 1) * v)"

definition gini_coefficient :: "rat list \<Rightarrow> rat option" where
  "gini_coefficient values =
     (let vals = sort values; n = of_nat (length vals); tot = sum_list vals in
      if vals = [] then None
      else if tot = 0 then None
      else Some ((2 * weighted_sum vals) / (n * tot) - (n + 1) / n))"

section \<open>Counts of one day\<close>

definition in_day :: "timestamp \<Rightarrow> timestamp \<Rightarrow> timestamp \<Rightarrow> bool" where
  "in_day lo hi t = (lo \<le> t \<and> t < hi)"

definition VOTE_SOURCES :: "string list" where
  "VOTE_SOURCES = [''simulated'', ''agent'', ''human'', ''backfill'']"

definition vote_source_counts :: "timestamp \<Rightarrow> timestamp \<Rightarrow> db \<Rightarrow> (string \<times> int) list" where
  "vote_source_counts lo hi d =
     map (\<lambda>s. (s, count_rows (\<lambda>v. in_day lo hi (vote_created_at v) \<and> vote_source v = s) (votes d))) VOTE_SOURCES"

record event_totals =
  day_posts :: int
  day_comments :: int
  day_votes :: int
  day_total :: int

definition event_counts :: "timestamp \<Rightarrow> timestamp \<Rightarrow> db \<Rightarrow> event_totals" where
  "event_counts lo hi d =
     (let n = (\<lambda>k. count_rows (\<lambda>e. in_day lo hi (occurred_at e) \<and> event_type e = k) (events d))
      in \<lparr>day_posts = n ''post'', day_comments = n ''comment'', day_votes = n ''vote'',
          day_total = count_rows (\<lambda>e. in_day lo hi (occurred_at e)) (events d)\<rparr>)"

definition active_agents :: "timestamp \<Rightarrow> timestamp \<Rightarrow> db \<Rightarrow> int" where
  "active_agents lo hi d =
     int (length (remdups (List.map_filter event_user (filter (\<lambda>e. in_day lo hi (occurred_at e)) (events d)))))"

definition provenance_bucket :: "string option \<Rightarrow> string" where
  "provenance_bucket m =
     (case m of None \<Rightarrow> ''other''
      | Some s \<Rightarrow> if starts_with ''agent:'' s then ''agent'' else if s = ''seed'' then ''seed'' else ''other'')"

definition provenance_counts :: "timestamp \<Rightarrow> timestamp \<Rightarrow> 'a item_scheme list \<Rightarrow> (string \<times> int) list" where
  "provenance_counts lo hi rows =
     map (\<lambda>b. (b, count_rows (\<lambda>i. in_day lo hi (created_at i) \<and> provenance_bucket (Some (provenance i)) = b) rows))
       [''agent'', ''seed'', ''other'']"

section \<open>Thread depths\<close>

text \<open>
  \<open>_depth\<close> walks up from a comment until it meets one whose depth is known, a missing parent
  or a cycle, and numbers the walked path from the depth it found there. \<open>parents\<close> is the
  fetched dictionary, in the order of the rows.
\<close>

function climb :: "(int \<times> int option) list \<Rightarrow> (int \<rightharpoonup> int) \<Rightarrow> int list \<Rightarrow> int option \<Rightarrow> int list \<times> int option" where
  "climb parents depths seen cur =
     (case cur of
        None \<Rightarrow> (seen, None)
      | Some c \<Rightarrow>
          if depths c \<noteq> None \<or> c \<in> set seen then (seen, Some c)
          else (case map_of parents c of
                  None \<Rightarrow> (seen, Some c)
                | Some p \<Rightarrow> climb parents depths (c # seen) p))"
  by pat_completeness auto
termination
proof (relation "measure (\<lambda>(parents, _, seen, _). card (fst ` set parents - set seen))")
  fix parents :: "(int \<times> int option) list" and depths :: "int \<rightharpoonup> int" and seen cur c p
  assume "cur = Some c" and "\<not> (depths c \<noteq> None \<or> c \<in> set seen)" and "map_of parents c = Some p"
  then have "c \<in> fst ` set parents - set seen" by (force dest: map_of_SomeD)
  then have "fst ` set parents - set (c # seen) \<subset> fst ` set parents - set seen" by auto
  then show "((parents, depths, c # seen, p), parents, depths, seen, cur) \<in>
      measure (\<lambda>(parents, _, seen, _). card (fst ` set parents - set seen))"
    by (auto intro: psubset_card_mono)
qed simp

declare climb.simps [simp del]

text \<open>The path is kept deepest last, which is the order \<open>reversed(path)\<close> numbers it in.\<close>

fun number_path :: "int \<Rightarrow> int list \<Rightarrow> (int \<rightharpoonup> int) \<Rightarrow> (int \<rightharpoonup> int)" where
  "number_path depth [] depths = depths"
| "number_path depth (c # cs) depths = number_path (depth + 1) cs (depths(c \<mapsto> depth))"

definition depth_step :: "(int \<times> int option) list \<Rightarrow> int \<Rightarrow> (int \<rightharpoonup> int) \<Rightarrow> (int \<rightharpoonup> int)" where
  "depth_step parents cid depths =
     (case climb parents depths [] (Some cid) of
        (path, cur) \<Rightarrow>
          number_path (case cur of None \<Rightarrow> 0 | Some c \<Rightarrow> (case depths c of None \<Rightarrow> 0 | Some k \<Rightarrow> k)) path depths)"

definition comment_depths :: "int list \<Rightarrow> db \<Rightarrow> int \<rightharpoonup> int" where
  "comment_depths post_ids d =
     (let parents = map (\<lambda>c. (item_id c, parent_id c)) (filter (\<lambda>c. post_id c \<in> set post_ids) (comments d))
      in fold (depth_step parents) (map fst parents) Map.empty)"

section \<open>Properties\<close>

lemma weighted_sum_nth: "weighted_sum vs = (\<Sum>i = 0..<length vs. (of_nat i + 1) * vs ! i)"
  by (simp add: weighted_sum_def sum_list_sum_nth nth_enumerate_eq)

lemma sum_ranks: "(\<Sum>i = 0..<n. of_nat i + 1) = of_nat n * (of_nat n + 1) / (2 :: rat)"
  by (induction n) (auto simp: field_simps)

lemma weighted_sum_lower:
  assumes "sorted vs"
  shows "(of_nat (length vs) + 1) * sum_list vs \<le> 2 * weighted_sum vs"
proof (cases "vs = []")
  case False
  let ?n = "of_nat (length vs) :: rat"
  have n: "0 < ?n" using False by simp
  have "?n * (\<Sum>i = 0..<length vs. (of_nat i + 1) * - (vs ! i)) \<le>
      (\<Sum>i = 0..<length vs. of_nat i + 1) * (\<Sum>i = 0..<length vs. - (vs ! i))"
    by (rule Chebyshev_sum_upper) (use assms in \<open>auto simp: sorted_nth_mono\<close>)
  then have "?n * - weighted_sum vs \<le> ?n * (?n + 1) / 2 * - sum_list vs"
    unfolding sum_ranks mult_minus_right sum_negf weighted_sum_nth [symmetric] sum_list_sum_nth [symmetric] .
  then have "?n * ((?n + 1) * sum_list vs) \<le> ?n * (2 * weighted_sum vs)"
    by (simp add: field_simps)
  with n show ?thesis by simp
qed (simp add: weighted_sum_def)

lemma weighted_sum_upper:
  assumes "\<forall>v \<in> set vs. 0 \<le> v"
  shows "weighted_sum vs \<le> of_nat (length vs) * sum_list vs"
proof -
  have "weighted_sum vs \<le> (\<Sum>i = 0..<length vs. of_nat (length vs) * vs ! i)"
    unfolding weighted_sum_nth using assms
    by (intro sum_mono mult_right_mono) (auto simp flip: of_nat_Suc simp: add.commute)
  then show ?thesis by (simp add: sum_list_sum_nth sum_distrib_left)
qed

text \<open>The Gini coefficient is defined exactly for populations with something to share,
  does not depend on the order of the values, and on non-negative values lies between 0 and
  \<open>1 - 1/n\<close>, so the alert threshold 0.7 is meaningful.\<close>

theorem gini_coefficient_range:
  assumes "\<forall>v \<in> set vs. 0 \<le> v" and "mset vs' = mset vs"
  shows "gini_coefficient vs' = gini_coefficient vs \<and>
    (case gini_coefficient vs of
       None \<Rightarrow> \<forall>v \<in> set vs. v = 0
     | Some g \<Rightarrow> 0 \<le> g \<and> g \<le> 1 - 1 / of_nat (length vs))"
proof
  have "sort vs' = sort vs" using assms(2) by (intro properties_for_sort) simp_all
  then show "gini_coefficient vs' = gini_coefficient vs"
    by (metis gini_coefficient_def length_sort)
  have same: "sum_list (sort vs) = sum_list vs" by (metis mset_sort sum_mset_sum_list)
  have pos: "\<forall>v \<in> set (sort vs). 0 \<le> v" using assms(1) by simp
  show "case gini_coefficient vs of
       None \<Rightarrow> \<forall>v \<in> set vs. v = 0
     | Some g \<Rightarrow> 0 \<le> g \<and> g \<le> 1 - 1 / of_nat (length vs)"
  proof (cases "sum_list vs = 0")
    case True
    then have "\<forall>v \<in> set vs. v = 0" using sum_list_nonneg_eq_0_iff [of vs] assms(1) by simp
    with True show ?thesis by (auto simp: gini_coefficient_def Let_def same)
  next
    case False
    let ?n = "of_nat (length vs) :: rat" and ?s = "sum_list vs" and ?w = "weighted_sum (sort vs)"
    have nonempty: "vs \<noteq> []" and s: "0 < ?s" using False sum_list_nonneg [of vs] assms(1) by (auto simp: order.strict_iff_order)
    then have n: "0 < ?n" by simp
    have g: "gini_coefficient vs = Some (2 * ?w / (?n * ?s) - (?n + 1) / ?n)"
      using False nonempty by (simp add: gini_coefficient_def Let_def same) (metis length_0_conv length_sort)
    have "(?n + 1) * ?s \<le> 2 * ?w" using weighted_sum_lower [of "sort vs"] by (simp add: same)
    moreover have "?w \<le> ?n * ?s" using weighted_sum_upper [OF pos] by (simp add: same)
    ultimately show ?thesis using n s by (simp add: g field_simps)
  qed
qed

theorem gini_coefficient_range_witness:
  "gini_coefficient [0, 10, 0, 0] = gini_coefficient [10, 0, 0, 0] \<and> gini_coefficient [10, 0, 0, 0] = Some (3 / 4)"
proof
  show "gini_coefficient [0, 10, 0, 0] = gini_coefficient [10, 0, 0, 0]"
    using gini_coefficient_range [of "[10, 0, 0, 0]" "[0, 10, 0, 0]"] by simp
  show "gini_coefficient [10, 0, 0, 0] = Some (3 / 4)"
    by (simp add: gini_coefficient_def weighted_sum_def)
qed

text \<open>Rows fetched in the order they were written: a comment after the one it answers.\<close>

fun parents_first :: "int list \<Rightarrow> (int \<times> int option) list \<Rightarrow> bool" where
  "parents_first known [] = True"
| "parents_first known ((c, p) # ps) =
     (c \<notin> set known \<and> (case p of None \<Rightarrow> True | Some q \<Rightarrow> q \<in> set known) \<and> parents_first (c # known) ps)"

lemma parents_first_distinct:
  "parents_first known ps \<Longrightarrow> distinct (map fst ps) \<and> set known \<inter> fst ` set ps = {}"
  by (induction known ps rule: parents_first.induct) auto

lemma depth_step_known_parent:
  assumes "map_of parents c = Some p" and "depths c = None"
    and "case p of None \<Rightarrow> True | Some q \<Rightarrow> depths q = Some 0"
  shows "depth_step parents c depths = depths(c \<mapsto> 0)"
  using assms by (cases p) (simp_all add: depth_step_def climb.simps)

lemma depths_in_order:
  assumes "parents_first known ps" and "\<forall>(c, p) \<in> set ps. map_of parents c = Some p"
    and "\<forall>c. depths c = (if c \<in> set known then Some 0 else None)"
  shows "fold (depth_step parents) (map fst ps) depths =
    (\<lambda>c. if c \<in> set known \<or> c \<in> fst ` set ps then Some 0 else None)"
  using assms
proof (induction known ps arbitrary: depths rule: parents_first.induct)
  case (2 don c p ps)
  have step: "depth_step parents c depths = depths(c \<mapsto> 0)"
    using 2(2-) by (intro depth_step_known_parent [where p = p]) (auto split: option.splits)
  have "fold (depth_step parents) (map fst ps) (depths(c \<mapsto> 0)) =
      (\<lambda>x. if x \<in> set (c # don) \<or> x \<in> fst ` set ps then Some 0 else None)"
    by (rule 2(1)) (use 2(2-) in auto)
  then show ?case by (simp add: step) (auto simp: fun_eq_iff)
qed (simp add: fun_eq_iff)

text \<open>The thread depths depend on the order the rows are fetched in. In the order the rows
  are written, every comment after its parent, the memo entry of the parent is reused without
  adding one, and every comment of every thread is reported at depth 0, so the rollup's
  median depth is 0 whatever the threads look like.\<close>

theorem comment_depths_collapse:
  assumes "parents_first [] (map (\<lambda>c. (item_id c, parent_id c)) (filter (\<lambda>c. post_id c \<in> set pids) (comments d)))"
  shows "comment_depths pids d =
    (\<lambda>i. if list_ex (\<lambda>c. item_id c = i \<and> post_id c \<in> set pids) (comments d) then Some 0 else None)"
proof -
  let ?ps = "map (\<lambda>c. (item_id c, parent_id c)) (filter (\<lambda>c. post_id c \<in> set pids) (comments d))"
  have "distinct (map fst ?ps)" using parents_first_distinct [OF assms] by blast
  then have "\<forall>(c, p) \<in> set ?ps. map_of ?ps c = Some p" by auto
  from depths_in_order [OF assms this, of Map.empty] show ?thesis
    by (auto simp: comment_depths_def Let_def fun_eq_iff list_ex_iff image_iff)
qed

theorem comment_depths_collapse_witness:
  "comment_depths [7] sample_db 4 = Some 0 \<and>
   comment_depths [7] (sample_db\<lparr>comments := rev (comments sample_db)\<rparr>) 4 = Some 2"
proof
  have "parents_first [] (map (\<lambda>c. (item_id c, parent_id c)) (filter (\<lambda>c. post_id c \<in> set [7]) (comments sample_db)))"
    by code_simp
  from comment_depths_collapse [OF this] show "comment_depths [7] sample_db 4 = Some 0"
    by (simp add: sample_db_def sample_comment_def)
  show "comment_depths [7] (sample_db\<lparr>comments := rev (comments sample_db)\<rparr>) 4 = Some 2"
    by code_simp
qed

end
