(* ===== verification/Ranking.thy ===== *)
theory Ranking
  imports Votes Complex_Main
begin

text \<open>
  \<open>deaddit/dynamics/ranking.py\<close>: the feed sorts and filters and the comment scores.
  The floating-point keys are modelled over the reals; timestamps are truncated to whole
  seconds as the code does.
\<close>

section \<open>Normalising what the client sent\<close>

definition POST_SORTS :: "string list" where
  "POST_SORTS = [''hot'', ''new'', ''top'', ''rising'']"

definition COMMENT_SORTS :: "string list" where
  "COMMENT_SORTS = [''top'', ''new'', ''best'', ''controversial'']"

definition POST_FILTERS :: "string list" where
  "POST_FILTERS = [''pictures'', ''links'', ''text'']"

definition POST_FILTER_ALIASES :: "(string \<times> string) list" where
  "POST_FILTER_ALIASES =
     [(''pictures'', ''pictures''), (''picture'', ''pictures''), (''images'', ''pictures''),
      (''image'', ''pictures''), (''links'', ''links''), (''link'', ''links''),
      (''website'', ''links''), (''websites'', ''links''), (''text'', ''text''), (''texts'', ''text'')]"

definition normalize_post_sort :: "string option \<Rightarrow> string" where
  "normalize_post_sort v = (case v of Some s \<Rightarrow> if s \<in> set POST_SORTS then s else ''hot'' | None \<Rightarrow> ''hot'')"

definition normalize_comment_sort :: "string option \<Rightarrow> string" where
  "normalize_comment_sort v = (case v of Some s \<Rightarrow> if s \<in> set COMMENT_SORTS then s else ''top'' | None \<Rightarrow> ''top'')"

text \<open>The query parameter: absent, one string, or the values of a repeated parameter.\<close>

datatype filter_param = No_Filter | One_Filter string | Many_Filters "string list"

definition filter_items :: "filter_param \<Rightarrow> string list" where
  "filter_items v =
     (case v of No_Filter \<Rightarrow> [] | One_Filter s \<Rightarrow> split_on CHR '','' s
      | Many_Filters vs \<Rightarrow> concat (map (split_on CHR '','') vs))"

definition canonical_filter :: "string \<Rightarrow> string option" where
  "canonical_filter item = map_of POST_FILTER_ALIASES (py_lower (py_strip item))"

definition normalize_post_filter :: "filter_param \<Rightarrow> string list" where
  "normalize_post_filter v = sort (remdups (List.map_filter canonical_filter (filter_items v)))"

section \<open>The filter clause\<close>

definition has_image :: "db \<Rightarrow> post \<Rightarrow> bool" where
  "has_image d p = list_ex (\<lambda>i. image_post i = item_id p) (images d)"

definition has_website :: "db \<Rightarrow> post \<Rightarrow> bool" where
  "has_website d p = list_ex (\<lambda>w. site_post w = item_id p) (websites d)"

definition post_filter_clause :: "string list \<Rightarrow> db \<Rightarrow> (post \<Rightarrow> bool) option" where
  "post_filter_clause filters d =
     (if filters = [] then None
      else if set POST_FILTERS \<subseteq> set filters then None
      else
        (let clauses =
           (if ''pictures'' \<in> set filters then [\<lambda>p. has_image d p \<and> \<not> has_website d p] else []) @
           (if ''links'' \<in> set filters then [has_website d] else []) @
           (if ''text'' \<in> set filters then [\<lambda>p. \<not> has_image d p \<and> \<not> has_website d p] else [])
         in if clauses = [] then None else Some (\<lambda>p. list_ex (\<lambda>c. c p) clauses)))"

definition filtered_posts :: "string list \<Rightarrow> db \<Rightarrow> post list" where
  "filtered_posts filters d =
     (case post_filter_clause filters d of None \<Rightarrow> posts d | Some c \<Rightarrow> filter c (posts d))"

section \<open>The post sorts\<close>

definition HOT_EPOCH :: int where
  "HOT_EPOCH = 1134028003"

definition unix_seconds :: "timestamp \<Rightarrow> int" where
  "unix_seconds t = t div 1000000"

definition post_rank_key :: "string \<Rightarrow> int \<Rightarrow> timestamp \<Rightarrow> timestamp \<Rightarrow> real" where
  "post_rank_key srt sc created now =
     (if srt = ''hot'' then
        log 10 (of_int (max \<bar>sc\<bar> 1)) * of_int (sgn sc) + of_int (unix_seconds created - HOT_EPOCH) / 45000
      else if srt = ''top'' then of_int sc
      else if srt = ''new'' then of_int (unix_seconds created)
      else of_int sc / (max (of_int (unix_seconds now - unix_seconds created) / 3600) 0 + 2) powr 1.8)"

text \<open>\<open>post_order_by\<close>: the rank, then the id. \<open>new\<close> sorts on the full timestamp.\<close>

definition post_order_by :: "string \<Rightarrow> timestamp \<Rightarrow> post list \<Rightarrow> post list" where
  "post_order_by raw now ps =
     (let srt = normalize_post_sort (Some raw) in
      if srt = ''new'' then order_desc (\<lambda>p. (created_at p, item_id p)) ps
      else if srt = ''top'' then order_desc (\<lambda>p. (score p, item_id p)) ps
      else order_desc (\<lambda>p. (post_rank_key srt (score p) (created_at p) now, item_id p)) ps)"

definition rising_filter :: "timestamp \<Rightarrow> post \<Rightarrow> bool" where
  "rising_filter now p = (now - hours 24 \<le> created_at p)"

section \<open>The comment scores\<close>

definition up_down_split :: "int \<Rightarrow> int \<Rightarrow> int \<times> int" where
  "up_down_split sc count = (let up = (count + sc) div 2 in (up, count - up))"

definition controversy :: "int \<Rightarrow> int \<Rightarrow> int" where
  "controversy up down = min up down"

definition wilson_lower_bound :: "int \<Rightarrow> int \<Rightarrow> real \<Rightarrow> real" where
  "wilson_lower_bound up down z =
     (let n = of_int (up + down) in
      if n = 0 then 1 / 2
      else
        (let phat = of_int up / n; z2 = z * z;
             centre = phat + z2 / (2 * n);
             margin = z * sqrt (phat * (1 - phat) / n + z2 / (4 * n * n))
         in (centre - margin) / (1 + z2 / n)))"

section \<open>Properties\<close>

lemma canonical_filter_valid: "canonical_filter s = Some t \<Longrightarrow> t \<in> set POST_FILTERS"
  by (auto simp: canonical_filter_def POST_FILTER_ALIASES_def POST_FILTERS_def split: if_splits)

lemma canonical_filter_fix: "t \<in> set POST_FILTERS \<Longrightarrow> canonical_filter t = Some t \<and> split_on CHR '','' t = [t]"
  unfolding POST_FILTERS_def canonical_filter_def by (auto; code_simp)

lemma normalize_post_filter_valid: "set (normalize_post_filter v) \<subseteq> set POST_FILTERS"
  using canonical_filter_valid by (auto simp: normalize_post_filter_def List.map_filter_def)

lemma map_filter_canonical: "set ts \<subseteq> set POST_FILTERS \<Longrightarrow> List.map_filter canonical_filter ts = ts"
  using canonical_filter_fix by (induction ts) (auto simp: List.map_filter_def)

lemma concat_split_canonical: "set ts \<subseteq> set POST_FILTERS \<Longrightarrow> concat (map (split_on CHR '','') ts) = ts"
  using canonical_filter_fix by (induction ts) auto

lemma POST_FILTERS_no_comma: "\<forall>t \<in> set POST_FILTERS. CHR '','' \<notin> set t"
  by (simp add: POST_FILTERS_def)

text \<open>Normalising a feed filter gives a sorted list of distinct canonical tokens for any
  input, and normalising its own output, sent back as a repeated parameter or as one
  comma-separated one, gives it again, so a link to the filtered feed means the same feed.\<close>

theorem normalize_post_filter_canonical:
  "sorted (normalize_post_filter v) \<and> distinct (normalize_post_filter v) \<and>
   set (normalize_post_filter v) \<subseteq> {''pictures'', ''links'', ''text''} \<and>
   normalize_post_filter (Many_Filters (normalize_post_filter v)) = normalize_post_filter v \<and>
   normalize_post_filter (One_Filter (join_with [CHR '',''] (normalize_post_filter v))) = normalize_post_filter v"
proof -
  let ?ts = "normalize_post_filter v"
  have sound: "sorted ?ts" "distinct ?ts" by (simp_all add: normalize_post_filter_def)
  note valid = normalize_post_filter_valid [of v]
  have again: "sort (remdups (List.map_filter canonical_filter ?ts)) = ?ts"
    using sound by (simp add: map_filter_canonical [OF valid] distinct_remdups_id sorted_sort_id)
  have "concat (map (split_on CHR '','') ?ts) = ?ts"
    using valid by (rule concat_split_canonical)
  moreover have "List.map_filter canonical_filter (split_on CHR '','' (join_with [CHR '',''] ?ts)) =
      List.map_filter canonical_filter ?ts"
  proof (cases "?ts = []")
    case True
    have "List.map_filter canonical_filter [[]] = []" by code_simp
    with True show ?thesis by simp
  next
    case False
    then show ?thesis using split_on_join [OF False, of "CHR '',''"] valid POST_FILTERS_no_comma by (simp add: subset_iff)
  qed
  ultimately show ?thesis
    using sound valid again
    by (auto simp: normalize_post_filter_def [of "Many_Filters _"] normalize_post_filter_def [of "One_Filter _"]
        filter_items_def POST_FILTERS_def)
qed

text \<open>What a post is to a reader: a website link wins over a picture.\<close>

definition media_kind :: "db \<Rightarrow> post \<Rightarrow> string" where
  "media_kind d p = (if has_website d p then ''links'' else if has_image d p then ''pictures'' else ''text'')"

text \<open>The filter clause classifies: for canonical tokens the filtered feed is exactly the
  posts whose kind is among them, every post having one kind; no filter, and all three filters,
  give the whole feed.\<close>

theorem post_filter_by_kind:
  assumes "set filters \<subseteq> {''pictures'', ''links'', ''text''}"
  shows "filtered_posts filters d = filter (\<lambda>p. filters = [] \<or> media_kind d p \<in> set filters) (posts d)"
proof (cases "filters = []")
  case False
  then obtain f where "f \<in> set filters" by (cases filters) auto
  with False assms show ?thesis
    by (auto simp: filtered_posts_def post_filter_clause_def media_kind_def POST_FILTERS_def Let_def
        intro!: filter_cong filter_True [symmetric])
qed (simp add: filtered_posts_def post_filter_clause_def)

theorem post_filter_by_kind_witness:
  "filtered_posts [''text'', ''links''] sample_db =
     filter (\<lambda>p. [''text'', ''links''] = [] \<or> media_kind sample_db p \<in> set [''text'', ''links'']) (posts sample_db)"
  by (rule post_filter_by_kind) simp

text \<open>The stored pair loses nothing: for any item of a sound ledger, splitting its score
  and vote count gives exactly the numbers of up-votes and of down-votes it received, which
  are what the comment scores \<open>best\<close> and \<open>controversial\<close> are computed from.\<close>

theorem up_down_split_exact:
  assumes "vote_ledger d" and "find_row item_id cid (comments d) = Some c"
  shows "up_down_split (score c) (vote_count c) =
    (count_rows (\<lambda>v. vote_comment v = Some cid \<and> vote_value v = 1) (votes d),
     count_rows (\<lambda>v. vote_comment v = Some cid \<and> vote_value v = -1) (votes d))"
proof -
  have c: "c \<in> set (comments d)" "item_id c = cid" using assms(2) find_row_SomeD by metis+
  have "sum_rows vote_value p vs = count_rows (\<lambda>v. p v \<and> vote_value v = 1) vs - count_rows (\<lambda>v. p v \<and> vote_value v = -1) vs \<and>
      count_rows p vs = count_rows (\<lambda>v. p v \<and> vote_value v = 1) vs + count_rows (\<lambda>v. p v \<and> vote_value v = -1) vs"
    if "list_all vote_row_ok vs" for p vs
    using that by (induction vs) (auto simp: vote_row_ok_def)
  from this [of "votes d" "\<lambda>v. vote_comment v = Some cid"] assms(1) c show ?thesis
    by (auto simp: up_down_split_def vote_ledger_def tallied_def list_all_iff vote_constraints_def)
qed

theorem up_down_split_exact_witness:
  "up_down_split 1 1 = (count_rows (\<lambda>v. vote_comment v = Some 1 \<and> vote_value v = 1)
      (votes (vote_demo\<lparr>comments := [(sample_comment 1 ''cy'' 7 None)\<lparr>score := 1, vote_count := 1\<rparr>],
        votes := map (\<lambda>v. v\<lparr>vote_post := None, vote_comment := Some 1\<rparr>) (votes vote_demo),
        posts := [sample_post 7 ''ann''], users := [(sample_user ''cy'')\<lparr>comment_karma := 1\<rparr>]\<rparr>)), 0)"
proof -
  define d where "d = vote_demo\<lparr>comments := [(sample_comment 1 ''cy'' 7 None)\<lparr>score := 1, vote_count := 1\<rparr>],
        votes := map (\<lambda>v. v\<lparr>vote_post := None, vote_comment := Some 1\<rparr>) (votes vote_demo),
        posts := [sample_post 7 ''ann''], users := [(sample_user ''cy'')\<lparr>comment_karma := 1\<rparr>]\<rparr>"
  have "vote_ledger d" unfolding d_def by code_simp
  moreover have "find_row item_id 1 (comments d) =
      Some ((sample_comment 1 ''cy'' 7 None)\<lparr>score := 1, vote_count := 1\<rparr>)"
    by (simp add: d_def sample_comment_def)
  moreover have "count_rows (\<lambda>v. vote_comment v = Some 1 \<and> vote_value v = -1) (votes d) = 0"
    unfolding d_def by code_simp
  ultimately show ?thesis
    using up_down_split_exact [of d 1] unfolding d_def by (simp add: sample_comment_def)
qed

text \<open>The Wilson score is a proper confidence bound: for any vote counts and any
  non-negative quantile it lies between 0 and the observed share of up-votes; with no votes it
  is the neutral prior one half.\<close>

theorem wilson_lower_bound_range:
  assumes "0 \<le> up" and "0 \<le> down" and "0 \<le> z"
  shows "0 \<le> wilson_lower_bound up down z \<and>
    (if up + down = 0 then wilson_lower_bound up down z = 1 / 2
     else wilson_lower_bound up down z \<le> of_int up / of_int (up + down))"
proof (cases "up + down = 0")
  case False
  define n :: real where "n = of_int (up + down)"
  define p where "p = of_int up / n"
  define centre where "centre = p + z * z / (2 * n)"
  define root where "root = sqrt (p * (1 - p) / n + z * z / (4 * n * n))"
  have n: "0 < n" using assms False unfolding n_def by linarith
  have p: "0 \<le> p" "p \<le> 1" using assms n by (simp_all add: p_def n_def field_simps)
  have w: "wilson_lower_bound up down z = (centre - z * root) / (1 + z * z / n)"
    using n by (simp add: wilson_lower_bound_def Let_def n_def p_def centre_def root_def)
  have den: "0 < 1 + z * z / n" using n assms(3) by (simp add: add_pos_nonneg)
  have inside: "0 \<le> p * (1 - p) / n + z * z / (4 * n * n)" using p n assms(3) by simp
  have "(z * root)\<^sup>2 = z\<^sup>2 * (p * (1 - p) / n + z * z / (4 * n * n))"
    using inside by (simp add: root_def power_mult_distrib)
  also have "\<dots> \<le> centre\<^sup>2"
  proof -
    have "centre\<^sup>2 - z\<^sup>2 * (p * (1 - p) / n + z * z / (4 * n * n)) = p\<^sup>2 * (1 + z\<^sup>2 / n)"
      using n by (simp add: centre_def power2_eq_square field_simps)
    moreover have "0 \<le> p\<^sup>2 * (1 + z\<^sup>2 / n)" using n by simp
    ultimately show ?thesis by linarith
  qed
  finally have "(z * root)\<^sup>2 \<le> centre\<^sup>2" .
  moreover have "0 \<le> centre" using p n by (simp add: centre_def)
  ultimately have "z * root \<le> centre" by (rule power2_le_imp_le)
  then have low: "0 \<le> wilson_lower_bound up down z" using den by (simp add: w)
  have "z / (2 * n) \<le> root"
  proof -
    have "0 \<le> p * (1 - p) / n" using p n by simp
    then have "sqrt ((z / (2 * n))\<^sup>2) \<le> root"
      unfolding root_def by (intro real_sqrt_le_mono) (simp add: power2_eq_square)
    then show ?thesis using n assms(3) by simp
  qed
  then have "z * (z / (2 * n)) \<le> z * root" using assms(3) by (rule mult_left_mono)
  then have "centre - z * root \<le> p" by (simp add: centre_def)
  also have "\<dots> \<le> p * (1 + z * z / n)" using p n by (simp add: field_simps)
  finally have "wilson_lower_bound up down z \<le> p" using den by (simp add: w pos_divide_le_eq mult.commute)
  with low False show ?thesis by (simp add: p_def n_def)
qed (simp add: wilson_lower_bound_def)

theorem wilson_lower_bound_range_witness:
  "0 \<le> wilson_lower_bound 3 1 2 \<and> wilson_lower_bound 3 1 2 \<le> 3 / 4"
  using wilson_lower_bound_range [of 3 1 2] by simp

text \<open>The hot key respects both its inputs: of two posts the one with no smaller score and
  no earlier creation never ranks lower, and one of a tenth of a positive score needs exactly
  45000 seconds more to catch up.\<close>

theorem hot_key_monotone:
  assumes "sc \<le> sc'" and "created \<le> created'"
  shows "post_rank_key ''hot'' sc created now \<le> post_rank_key ''hot'' sc' created' now \<and>
    (1 \<le> sc \<longrightarrow> post_rank_key ''hot'' (10 * sc) created now =
      post_rank_key ''hot'' sc (created + seconds 45000) now)"
proof
  have mono: "log 10 (of_int (max \<bar>sc\<bar> 1)) * of_int (sgn sc) \<le>
      log 10 (of_int (max \<bar>sc'\<bar> 1)) * (of_int (sgn sc') :: real)"
  proof -
    consider "0 < sc" | "sc \<le> 0" "0 \<le> sc'" | "sc' < 0" by linarith
    then show ?thesis
    proof cases
      case 2
      have "log 10 (of_int (max \<bar>sc\<bar> 1)) * of_int (sgn sc) \<le> (0 :: real)"
        using 2 by (auto simp: sgn_if mult_nonneg_nonpos)
      moreover have "(0 :: real) \<le> log 10 (of_int (max \<bar>sc'\<bar> 1)) * of_int (sgn sc')"
        using 2 by (auto simp: sgn_if)
      ultimately show ?thesis by linarith
    qed (use assms in \<open>auto simp: sgn_if max_def\<close>)
  qed
  have "unix_seconds created \<le> unix_seconds created'"
    using assms(2) by (simp add: unix_seconds_def zdiv_mono1)
  with mono show "post_rank_key ''hot'' sc created now \<le> post_rank_key ''hot'' sc' created' now"
    by (auto simp: post_rank_key_def intro!: add_mono divide_right_mono)
  have later: "unix_seconds (created + seconds 45000) = unix_seconds created + 45000"
    by (simp add: unix_seconds_def seconds_def)
  show "1 \<le> sc \<longrightarrow> post_rank_key ''hot'' (10 * sc) created now =
      post_rank_key ''hot'' sc (created + seconds 45000) now"
  proof
    assume "1 \<le> sc"
    then have "log 10 (real_of_int (10 * sc)) = 1 + log 10 (of_int sc)" by (simp add: log_mult)
    with \<open>1 \<le> sc\<close> show "post_rank_key ''hot'' (10 * sc) created now =
        post_rank_key ''hot'' sc (created + seconds 45000) now"
      by (simp add: post_rank_key_def later field_simps)
  qed
qed

theorem hot_key_monotone_witness:
  "post_rank_key ''hot'' 2 5 0 \<le> post_rank_key ''hot'' 3 9 0 \<and>
   post_rank_key ''hot'' (10 * 2) 5 0 = post_rank_key ''hot'' 2 (5 + seconds 45000) 0"
  using hot_key_monotone [of 2 3 5 9 0] by simp

end
