(* ===== verification/Degeneracy.thy ===== *)
theory Degeneracy
  imports Metrics Ranking
begin

text \<open>
  \<open>deaddit/dynamics/degeneracy.py\<close>: the repetition detector that runs after every creation,
  the demotion it leads to, and the nightly echo-chamber and brigading scans. Overlaps are
  exact rationals; the thresholds are 3/5, 7/10 and 4/5.
\<close>

section \<open>Trigram overlap\<close>

text \<open>\<open>re.sub\<close> of runs of white space by one blank, on the stripped lower-case text.\<close>

fun collapse_ws :: "bool \<Rightarrow> string \<Rightarrow> string" where
  "collapse_ws in_run [] = []"
| "collapse_ws in_run (c # cs) =
     (if py_isspace c then (if in_run then collapse_ws True cs else CHR '' '' # collapse_ws True cs)
      else c # collapse_ws False cs)"

definition normalize_text :: "string option \<Rightarrow> string" where
  "normalize_text v = collapse_ws False (py_lower (py_strip (case v of None \<Rightarrow> [] | Some s \<Rightarrow> s)))"

fun windows3 :: "string \<Rightarrow> string list" where
  "windows3 (a # b # c # cs) = [a, b, c] # windows3 (b # c # cs)"
| "windows3 _ = []"

definition trigrams :: "string option \<Rightarrow> string list" where
  "trigrams v = remdups (windows3 (normalize_text v))"

definition jaccard :: "'a list \<Rightarrow> 'a list \<Rightarrow> rat" where
  "jaccard as bs =
     (if as = [] \<or> bs = [] then 0
      else of_nat (length (filter (\<lambda>x. x \<in> set bs) as)) /
           of_nat (length as + length (filter (\<lambda>x. x \<notin> set as) bs)))"

definition trigram_jaccard :: "string option \<Rightarrow> string option \<Rightarrow> rat" where
  "trigram_jaccard a b = jaccard (trigrams a) (trigrams b)"

section \<open>The repetition detector\<close>

definition REPETITION_THRESHOLD :: rat where
  "REPETITION_THRESHOLD = 3 / 5"

definition recent_contents :: "(comment \<Rightarrow> bool) \<Rightarrow> int \<Rightarrow> nat \<Rightarrow> db \<Rightarrow> string list" where
  "recent_contents q exclude limit d =
     map (\<lambda>c. case content c of None \<Rightarrow> [] | Some s \<Rightarrow> s)
       (take limit (order_desc (\<lambda>c. (created_at c, item_id c))
         (filter (\<lambda>c. q c \<and> item_id c \<noteq> exclude) (comments d))))"

definition subdeaddit_of_post :: "int \<Rightarrow> db \<Rightarrow> string option" where
  "subdeaddit_of_post pid d = map_option subdeaddit_name (find_row item_id pid (posts d))"

definition best_overlap :: "string option \<Rightarrow> string list \<Rightarrow> rat" where
  "best_overlap text others =
     fold (\<lambda>other best. let s = trigram_jaccard text (Some other) in if best < s then s else best) others 0"

definition add_flag ::
  "string \<Rightarrow> string option \<Rightarrow> string option \<Rightarrow> int option \<Rightarrow> int option \<Rightarrow> rat \<Rightarrow> timestamp \<Rightarrow> db \<Rightarrow> db" where
  "add_flag k who sub pid cid m now d =
     d\<lparr>flags := flags d @ [\<lparr>flag_id = next_id flag_id (flags d), flag_kind = k, flag_user = who,
       flag_sub = sub, flag_post = pid, flag_comment = cid, flag_metric = m, flag_created_at = now\<rparr>]\<rparr>"

definition detect_repetition_for_comment :: "comment \<Rightarrow> timestamp \<Rightarrow> db \<Rightarrow> db" where
  "detect_repetition_for_comment c now d =
     (if list_ex (\<lambda>f. flag_kind f = ''repetition'' \<and> flag_comment f = Some (item_id c)) (flags d) then d
      else
        (let author_history = recent_contents (\<lambda>x. author x = author c) (item_id c) 10 d;
             thread_contents = recent_contents (\<lambda>x. post_id x = post_id c) (item_id c) 50 d;
             best = best_overlap (content c) (author_history @ thread_contents)
         in if best \<le> REPETITION_THRESHOLD then d
            else add_flag ''repetition'' (Some (author c)) (subdeaddit_of_post (post_id c) d)
                   (Some (post_id c)) (Some (item_id c)) best now d))"

definition post_text :: "post \<Rightarrow> string" where
  "post_text p = title p @ [CHR 0x0A] @ (case content p of None \<Rightarrow> [] | Some s \<Rightarrow> s)"

definition detect_repetition_for_post :: "post \<Rightarrow> timestamp \<Rightarrow> db \<Rightarrow> db" where
  "detect_repetition_for_post p now d =
     (if list_ex (\<lambda>f. flag_kind f = ''repetition'' \<and> flag_post f = Some (item_id p)) (flags d) then d
      else
        (let mine = (if title p = [] then Some [] else Some (post_text p));
             others = map post_text (take 10 (order_desc (\<lambda>x. (created_at x, item_id x))
               (filter (\<lambda>x. author x = author p \<and> item_id x \<noteq> item_id p) (posts d))));
             best = best_overlap mine others
         in if best \<le> REPETITION_THRESHOLD then d
            else add_flag ''repetition'' (Some (author p)) (Some (subdeaddit_name p))
                   (Some (item_id p)) None best now d))"

section \<open>Demotion\<close>

definition demotion_window_cutoff :: "timestamp \<Rightarrow> db \<Rightarrow> timestamp" where
  "demotion_window_cutoff now d =
     now - days (case setting_as_int ''degeneracy_demotion_window_days'' ''7'' d of
       None \<Rightarrow> 7 | Some n \<Rightarrow> max n 0)"

definition flagged_hot_authors :: "timestamp \<Rightarrow> db \<Rightarrow> username list" where
  "flagged_hot_authors cutoff d =
     sort (remdups (List.map_filter flag_user
       (filter (\<lambda>f. flag_kind f = ''repetition'' \<and> cutoff \<le> flag_created_at f) (flags d))))"

definition hot_rank_key_demoted :: "int \<Rightarrow> timestamp \<Rightarrow> timestamp \<Rightarrow> bool \<Rightarrow> real" where
  "hot_rank_key_demoted sc created now demoted =
     (let key = post_rank_key ''hot'' sc created now in if demoted then key * (1 / 2) else key)"

section \<open>The nightly scans\<close>

definition participation_by_user :: "string \<Rightarrow> timestamp \<Rightarrow> db \<Rightarrow> (username \<times> int) list" where
  "participation_by_user sub cutoff d =
     (let who = map author (filter (\<lambda>p. subdeaddit_name p = sub \<and> cutoff \<le> created_at p) (posts d)) @
            map author (filter (\<lambda>c. subdeaddit_of_post (post_id c) d = Some sub \<and> cutoff \<le> created_at c) (comments d))
      in map (\<lambda>u. (u, int (count_list who u))) (remdups who))"

definition has_recent_flag :: "string \<Rightarrow> string option \<Rightarrow> string option \<Rightarrow> timestamp \<Rightarrow> db \<Rightarrow> bool" where
  "has_recent_flag k who sub now d =
     list_ex (\<lambda>f. flag_kind f = k \<and> now - hours 24 \<le> flag_created_at f \<and> flag_user f = who \<and> flag_sub f = sub) (flags d)"

text \<open>The scans take the time twice: the \<open>now\<close> argument and the clock of the recent-flag check.\<close>

definition scan_sub :: "timestamp \<Rightarrow> timestamp \<Rightarrow> string \<Rightarrow> db \<times> int \<Rightarrow> db \<times> int" where
  "scan_sub now clock sub st =
     (case st of (d, flagged) \<Rightarrow>
       let counts = map snd (participation_by_user sub (now - days 7) d) in
       if length counts < 3 then st
       else (case gini_coefficient (map of_int counts) of
               None \<Rightarrow> st
             | Some g \<Rightarrow>
                 if g < 7 / 10 then st
                 else if has_recent_flag ''echo_chamber'' None (Some sub) clock d then st
                 else (add_flag ''echo_chamber'' None (Some sub) None None g now d, flagged + 1)))"

definition scan_echo_chambers :: "timestamp \<Rightarrow> timestamp \<Rightarrow> db \<Rightarrow> db \<times> int" where
  "scan_echo_chambers now clock d = fold (scan_sub now clock) (remdups (map subdeaddit_name (posts d))) (d, 0)"

definition voted_targets :: "timestamp \<Rightarrow> username \<Rightarrow> db \<Rightarrow> (int option \<times> int option) list" where
  "voted_targets cutoff who d =
     remdups (map (\<lambda>v. (vote_post v, if vote_post v = None then vote_comment v else None))
       (filter (\<lambda>v. voter v = Some who \<and> cutoff \<le> vote_created_at v) (votes d)))"

definition top_voters :: "timestamp \<Rightarrow> db \<Rightarrow> username list" where
  "top_voters cutoff d =
     (let who = List.map_filter voter (filter (\<lambda>v. cutoff \<le> vote_created_at v) (votes d))
      in take 200 (order_desc (count_list who) (remdups who)))"

definition scan_pair :: "timestamp \<Rightarrow> timestamp \<Rightarrow> username \<times> username \<Rightarrow> db \<times> int \<Rightarrow> db \<times> int" where
  "scan_pair now clock ab st =
     (case (ab, st) of ((a, b), (d, flagged)) \<Rightarrow>
       let as = voted_targets (now - days 7) a d; bs = voted_targets (now - days 7) b d;
           shared = length (filter (\<lambda>x. x \<in> set bs) as); pair_key = join_with ''|'' (sort [a, b])
       in if shared < 10 then st
          else if jaccard as bs < 4 / 5 then st
          else if has_recent_flag ''brigading'' (Some pair_key) None clock d then st
          else (add_flag ''brigading'' (Some pair_key) None None None (jaccard as bs) now d, flagged + 1))"

fun pairs_of :: "'a list \<Rightarrow> ('a \<times> 'a) list" where
  "pairs_of [] = []"
| "pairs_of (x # xs) = map (Pair x) xs @ pairs_of xs"

definition scan_brigading :: "timestamp \<Rightarrow> timestamp \<Rightarrow> db \<Rightarrow> db \<times> int" where
  "scan_brigading now clock d =
     (let tv = top_voters (now - days 7) d in
      if length tv < 2 then (d, 0) else fold (scan_pair now clock) (pairs_of (sort tv)) (d, 0))"

definition run_nightly_scans :: "timestamp \<Rightarrow> timestamp \<Rightarrow> db \<Rightarrow> db \<times> int \<times> int" where
  "run_nightly_scans now clock d =
     (case scan_echo_chambers now clock d of (d', echo) \<Rightarrow>
      case scan_brigading now clock d' of (d'', brigade) \<Rightarrow> (d'', echo, brigade))"

section \<open>The detectors are isolated hooks\<close>

lemma add_flag_frame [simp]:
  "content_state (add_flag k w s p c m now d) = content_state d"
  "runtime_state (add_flag k w s p c m now d) = runtime_state d"
  by (simp_all add: add_flag_def content_state_def runtime_state_def)

interpretation comment_detector: isolated_hook "\<lambda>(c, now). detect_repetition_for_comment c now"
  by unfold_locales (auto simp: detect_repetition_for_comment_def Let_def)

interpretation post_detector: isolated_hook "\<lambda>(p, now). detect_repetition_for_post p now"
  by unfold_locales (auto simp: detect_repetition_for_post_def Let_def)

section \<open>Properties\<close>

lemma jaccard_range: "0 \<le> jaccard as bs \<and> jaccard as bs \<le> 1"
proof -
  have "length (filter (\<lambda>x. x \<in> set bs) as) \<le> length as + length (filter (\<lambda>x. x \<notin> set as) bs)"
    by (rule trans_le_add1) simp
  then have "(of_nat (length (filter (\<lambda>x. x \<in> set bs) as)) :: rat) \<le>
      of_nat (length as + length (filter (\<lambda>x. x \<notin> set as) bs))" by (simp only: of_nat_le_iff)
  then show ?thesis by (simp add: jaccard_def divide_le_eq_1 del: of_nat_add)
qed

lemma jaccard_counts:
  assumes "distinct as" and "distinct bs" and "as \<noteq> []" and "bs \<noteq> []"
  shows "jaccard as bs = of_nat (card (set as \<inter> set bs)) / of_nat (card (set as \<union> set bs))"
proof -
  have "card (set as \<inter> set bs) = length (filter (\<lambda>x. x \<in> set bs) as)"
    using assms(1) by (simp add: distinct_length_filter Int_def conj_commute)
  moreover have "card (set as \<union> set bs) = length as + length (filter (\<lambda>x. x \<notin> set as) bs)"
  proof -
    have "set as \<union> set bs = set as \<union> set (filter (\<lambda>x. x \<notin> set as) bs)" by auto
    then have "card (set as \<union> set bs) = card (set as) + card (set (filter (\<lambda>x. x \<notin> set as) bs))"
      by (metis (no_types, lifting) List.finite_set card_Un_disjoint disjoint_iff mem_Collect_eq set_filter)
    with assms show ?thesis
      by (simp add: distinct_card distinct_length_filter Int_def conj_commute)
  qed
  ultimately show ?thesis using assms by (simp add: jaccard_def)
qed

lemma best_overlap_fold:
  "fold (\<lambda>other best. let s = trigram_jaccard text (Some other) in if best < s then s else best) others m =
    fold max (map (\<lambda>x. trigram_jaccard text (Some x)) others) m"
  by (induction others arbitrary: m) (auto simp: Let_def max_def)

lemma fold_max_gt: "t < fold max xs m \<longleftrightarrow> t < m \<or> (\<exists>x \<in> set xs. t < (x::rat))"
  by (induction xs arbitrary: m) (auto simp: less_max_iff_disj)

lemma best_overlap_gt:
  "0 \<le> t \<Longrightarrow> t < best_overlap text others \<longleftrightarrow> (\<exists>x \<in> set others. t < trigram_jaccard text (Some x))"
  by (auto simp: best_overlap_def best_overlap_fold fold_max_gt)

text \<open>The repetition hook flags exactly the repetitive comments: it adds one flag, for the
  comment and its author, when no repetition flag for the comment exists and some of the author's
  last ten comments or of the thread's last fifty overlaps the new one by more than 3/5 of the
  joint trigrams; otherwise it changes nothing. So a repeated run adds nothing.\<close>

theorem repetition_flag_exact:
  "(\<exists>m. detect_repetition_for_comment c now d =
     (if \<not> list_ex (\<lambda>f. flag_kind f = ''repetition'' \<and> flag_comment f = Some (item_id c)) (flags d) \<and>
        list_ex (\<lambda>x. 3 / 5 < trigram_jaccard (content c) (Some x))
          (recent_contents (\<lambda>x. author x = author c) (item_id c) 10 d @
           recent_contents (\<lambda>x. post_id x = post_id c) (item_id c) 50 d)
      then add_flag ''repetition'' (Some (author c)) (subdeaddit_of_post (post_id c) d)
        (Some (post_id c)) (Some (item_id c)) m now d
      else d)) \<and>
   detect_repetition_for_comment c later (detect_repetition_for_comment c now d) =
     detect_repetition_for_comment c now d"
proof
  let ?others = "recent_contents (\<lambda>x. author x = author c) (item_id c) 10 d @
    recent_contents (\<lambda>x. post_id x = post_id c) (item_id c) 50 d"
  have "best_overlap (content c) ?others \<le> REPETITION_THRESHOLD \<longleftrightarrow>
      \<not> list_ex (\<lambda>x. 3 / 5 < trigram_jaccard (content c) (Some x)) ?others"
    using best_overlap_gt [of "3 / 5" "content c" ?others]
    by (simp add: REPETITION_THRESHOLD_def list_ex_iff not_less [symmetric])
  then show "\<exists>m. detect_repetition_for_comment c now d =
     (if \<not> list_ex (\<lambda>f. flag_kind f = ''repetition'' \<and> flag_comment f = Some (item_id c)) (flags d) \<and>
        list_ex (\<lambda>x. 3 / 5 < trigram_jaccard (content c) (Some x)) ?others
      then add_flag ''repetition'' (Some (author c)) (subdeaddit_of_post (post_id c) d)
        (Some (post_id c)) (Some (item_id c)) m now d
      else d)"
    by (intro exI [of _ "best_overlap (content c) ?others"]) (simp add: detect_repetition_for_comment_def Let_def)
  have flagged: "list_ex (\<lambda>f. flag_kind f = ''repetition'' \<and> flag_comment f = Some (item_id c))
      (flags (add_flag ''repetition'' w s p (Some (item_id c)) m now d))" for w s p m
    by (simp add: add_flag_def)
  show "detect_repetition_for_comment c later (detect_repetition_for_comment c now d) =
      detect_repetition_for_comment c now d"
    by (cases "best_overlap (content c) ?others \<le> REPETITION_THRESHOLD";
        cases "list_ex (\<lambda>f. flag_kind f = ''repetition'' \<and> flag_comment f = Some (item_id c)) (flags d)")
      (simp_all add: detect_repetition_for_comment_def Let_def flagged recent_contents_def subdeaddit_of_post_def)
qed

section \<open>The nightly scans settle\<close>

text \<open>A scan step either leaves the state alone or reaches one on which it, and every step that
  had settled before, does nothing more.\<close>

locale settling_scan =
  fixes step :: "'x \<Rightarrow> 's \<times> int \<Rightarrow> 's \<times> int"
  assumes again: "step x (step x st) = step x st"
    and keep: "step x st = st \<Longrightarrow> step x (step y st) = step y st"
    and any_count: "step x (s, k) = (s, k) \<Longrightarrow> step x (s, k') = (s, k')"
begin

lemma settled_after: "x \<in> set xs \<or> step x st = st \<Longrightarrow> step x (fold step xs st) = fold step xs st"
proof (induction xs arbitrary: st)
  case (Cons y ys)
  then have "x \<in> set ys \<or> step x (step y st) = step y st" by (metis again keep set_ConsD)
  from Cons.IH [OF this] show ?case by simp
qed simp

lemma rescan: "fold step xs (fst (fold step xs st), 0) = (fst (fold step xs st), 0)"
proof -
  obtain s k where sk: "fold step xs st = (s, k)" by (metis surj_pair)
  have "step x (s, 0) = (s, 0)" if "x \<in> set xs" for x
    using any_count settled_after [of x xs st] that sk by auto
  then have "fold step ys (s, 0) = (s, 0)" if "set ys \<subseteq> set xs" for ys
    using that by (induction ys) auto
  with sk show ?thesis by simp
qed

end

definition echo_metric :: "timestamp \<Rightarrow> string \<Rightarrow> db \<Rightarrow> rat option" where
  "echo_metric now sub d =
     (let counts = map snd (participation_by_user sub (now - days 7) d) in
      if length counts < 3 then None
      else (case gini_coefficient (map of_int counts) of None \<Rightarrow> None
            | Some g \<Rightarrow> if g < 7 / 10 then None else Some g))"

definition pair_metric :: "timestamp \<Rightarrow> username \<times> username \<Rightarrow> db \<Rightarrow> rat option" where
  "pair_metric now ab d =
     (let as = voted_targets (now - days 7) (fst ab) d; bs = voted_targets (now - days 7) (snd ab) d in
      if length (filter (\<lambda>x. x \<in> set bs) as) < 10 then None
      else if jaccard as bs < 4 / 5 then None else Some (jaccard as bs))"

definition flag_step ::
  "string \<Rightarrow> string option \<Rightarrow> string option \<Rightarrow> timestamp \<Rightarrow> timestamp \<Rightarrow> (db \<Rightarrow> rat option) \<Rightarrow> db \<times> int \<Rightarrow> db \<times> int" where
  "flag_step k who sub now clock metric st =
     (case metric (fst st) of None \<Rightarrow> st
      | Some m \<Rightarrow> if has_recent_flag k who sub clock (fst st) then st
          else (add_flag k who sub None None m now (fst st), snd st + 1))"

lemma scan_sub_step:
  "scan_sub now clock sub = flag_step ''echo_chamber'' None (Some sub) now clock (echo_metric now sub)"
  by (auto simp: fun_eq_iff scan_sub_def flag_step_def echo_metric_def Let_def split: option.splits)

lemma scan_pair_step:
  "scan_pair now clock ab = flag_step ''brigading'' (Some (join_with ''|'' (sort [fst ab, snd ab]))) None now clock
     (pair_metric now ab)"
  by (cases ab) (auto simp: fun_eq_iff scan_pair_def flag_step_def pair_metric_def Let_def)

lemma metrics_content:
  assumes "content_state d = content_state d'"
  shows "echo_metric now sub d = echo_metric now sub d'" and "pair_metric now ab d = pair_metric now ab d'"
  using content_stateD [OF assms]
  by (simp_all add: echo_metric_def pair_metric_def participation_by_user_def subdeaddit_of_post_def voted_targets_def)

lemma has_recent_add_flag:
  "has_recent_flag k w s clock (add_flag k' w' s' p c m now d) \<longleftrightarrow>
     has_recent_flag k w s clock d \<or> k' = k \<and> w' = w \<and> s' = s \<and> clock - hours 24 \<le> now"
  by (auto simp: has_recent_flag_def add_flag_def list_ex_iff)

lemma flag_step_content: "content_state (fst (flag_step k w s now clock f st)) = content_state (fst st)"
  by (auto simp: flag_step_def split: option.split)

lemma flag_step_settles:
  assumes "\<And>d d'. content_state d = content_state d' \<Longrightarrow> f d = f d'" and "clock - hours 24 \<le> now"
  shows "flag_step k w s now clock f (flag_step k w s now clock f st) = flag_step k w s now clock f st"
proof -
  have "f (add_flag k w s None None m now d) = f d" for m d by (rule assms(1)) simp
  then show ?thesis using assms(2) by (auto simp: flag_step_def has_recent_add_flag split: option.split)
qed

lemma flag_step_stays:
  assumes "\<And>d d'. content_state d = content_state d' \<Longrightarrow> f d = f d'" and "flag_step k w s now clock f st = st"
  shows "flag_step k w s now clock f (flag_step k' w' s' now' clock' g st) = flag_step k' w' s' now' clock' g st"
proof -
  have same: "f (add_flag k' w' s' None None m now' d) = f d" for m d by (rule assms(1)) simp
  have "f (fst st) = None \<or> has_recent_flag k w s clock (fst st)"
    using assms(2) by (cases st) (auto simp: flag_step_def split: option.splits if_splits)
  then show ?thesis by (auto simp: flag_step_def same has_recent_add_flag split: option.split)
qed

lemma flag_step_count: "flag_step k w s now clock f (d, i) = (d, i) \<Longrightarrow> flag_step k w s now clock f (d, j) = (d, j)"
  by (auto simp: flag_step_def split: option.splits if_splits)

text \<open>Both scans are such steps, for any run whose clock is within a day of its \<open>now\<close>.\<close>

interpretation echo_scan: settling_scan "\<lambda>(now, lag, sub). scan_sub now (now + min lag (hours 24)) sub"
  by unfold_locales (auto simp: scan_sub_step flag_step_settles [OF metrics_content(1)]
      flag_step_stays [OF metrics_content(1)] elim: flag_step_count)

interpretation brigade_scan: settling_scan "\<lambda>(now, lag, ab). scan_pair now (now + min lag (hours 24)) ab"
  by unfold_locales (auto simp: scan_pair_step simp del: sort_key_simps join_with.simps
      simp: flag_step_settles [OF metrics_content(2)] flag_step_stays [OF metrics_content(2)] elim: flag_step_count)

lemma scan_echo_fold:
  "clock - hours 24 \<le> now \<Longrightarrow> scan_echo_chambers now clock d =
     fold (\<lambda>(now, lag, sub). scan_sub now (now + min lag (hours 24)) sub)
       (map (\<lambda>sub. (now, clock - now, sub)) (remdups (map subdeaddit_name (posts d)))) (d, 0)"
  by (simp add: scan_echo_chambers_def fold_map o_def min_def)

lemma scan_brigading_fold:
  "clock - hours 24 \<le> now \<Longrightarrow> scan_brigading now clock d =
     fold (\<lambda>(now, lag, ab). scan_pair now (now + min lag (hours 24)) ab)
       (map (\<lambda>ab. (now, clock - now, ab))
         (if length (top_voters (now - days 7) d) < 2 then [] else pairs_of (sort (top_voters (now - days 7) d)))) (d, 0)"
  by (simp add: scan_brigading_def Let_def fold_map o_def min_def)

lemma scans_content:
  "content_state (fst (fold (scan_sub now clock) subs st)) = content_state (fst st)"
  "content_state (fst (fold (scan_pair now clock) prs st)) = content_state (fst st)"
  by (induction subs arbitrary: st, simp_all add: scan_sub_step flag_step_content)
    (induction prs arbitrary: st, simp_all add: scan_pair_step flag_step_content)

lemma nightly_content:
  "content_state (fst (scan_echo_chambers now clock d)) = content_state d"
  "content_state (fst (scan_brigading now clock d)) = content_state d"
  by (simp_all add: scan_echo_chambers_def scan_brigading_def Let_def scans_content)

lemma echo_settled_through_pairs:
  "scan_sub now clock sub st = st \<Longrightarrow>
   scan_sub now clock sub (fold (scan_pair now' clock') prs st) = fold (scan_pair now' clock') prs st"
proof (induction prs arbitrary: st)
  case (Cons ab prs)
  have "scan_sub now clock sub (scan_pair now' clock' ab st) = scan_pair now' clock' ab st"
    using Cons.prems by (simp add: scan_sub_step scan_pair_step flag_step_stays [OF metrics_content(1)])
  from Cons.IH [OF this] show ?case by simp
qed simp

lemma echo_scan_settled_iff:
  "(\<forall>sub \<in> set (map subdeaddit_name (posts d)). scan_sub now clock sub (d, 0) = (d, 0)) \<Longrightarrow>
   scan_echo_chambers now clock d = (d, 0)"
proof -
  assume "\<forall>sub \<in> set (map subdeaddit_name (posts d)). scan_sub now clock sub (d, 0) = (d, 0)"
  then have "fold (scan_sub now clock) subs (d, 0) = (d, 0)" if "set subs \<subseteq> set (map subdeaddit_name (posts d))" for subs
    using that by (induction subs) auto
  then show ?thesis by (simp add: scan_echo_chambers_def)
qed

text \<open>The nightly scans can be repeated: neither touches the content, and a second run with
  the same clock reading, within a day of the window's end, finds every community and every
  pair settled and adds no flag, although the first run may have added several.\<close>

lemma nightly_scans_settle:
  assumes "clock - hours 24 \<le> now"
  shows "content_state (fst (run_nightly_scans now clock d)) = content_state d \<and>
    run_nightly_scans now clock (fst (run_nightly_scans now clock d)) =
      (fst (run_nightly_scans now clock d), 0, 0)"
proof -
  define d1 where "d1 = fst (scan_echo_chambers now clock d)"
  define d2 where "d2 = fst (scan_brigading now clock d1)"
  have run: "fst (run_nightly_scans now clock d) = d2"
    by (simp add: run_nightly_scans_def d1_def d2_def split: prod.split)
  have c1: "content_state d1 = content_state d" and c2: "content_state d2 = content_state d1"
    by (simp_all add: d1_def d2_def nightly_content)
  have "scan_sub now clock sub (d1, 0) = (d1, 0)" if "sub \<in> set (map subdeaddit_name (posts d))" for sub
  proof -
    let ?xs = "map (\<lambda>sub. (now, clock - now, sub)) (remdups (map subdeaddit_name (posts d)))"
    have "(now, clock - now, sub) \<in> set ?xs" using that by simp
    from echo_scan.settled_after [of _ ?xs "(d, 0)", OF disjI1, OF this]
    have "scan_sub now clock sub (scan_echo_chambers now clock d) = scan_echo_chambers now clock d"
      using assms by (simp add: scan_echo_fold min_def)
    then show ?thesis
      by (cases "scan_echo_chambers now clock d") (simp add: d1_def scan_sub_step flag_step_count)
  qed
  then have "scan_sub now clock sub (d2, 0) = (d2, 0)" if "sub \<in> set (map subdeaddit_name (posts d))" for sub
  proof -
    have "scan_sub now clock sub (scan_brigading now clock d1) = scan_brigading now clock d1"
      using echo_settled_through_pairs [of now clock sub "(d1, 0)"] that
        \<open>\<And>sub. sub \<in> set (map subdeaddit_name (posts d)) \<Longrightarrow> scan_sub now clock sub (d1, 0) = (d1, 0)\<close>
      by (simp add: scan_brigading_def Let_def)
    then show ?thesis
      by (cases "scan_brigading now clock d1") (simp add: d2_def scan_sub_step flag_step_count)
  qed
  then have echo: "scan_echo_chambers now clock d2 = (d2, 0)"
    using content_stateD(1) [OF c1] content_stateD(1) [OF c2] by (intro echo_scan_settled_iff) simp
  have "top_voters (now - days 7) d2 = top_voters (now - days 7) d1"
    using content_stateD(5) [OF c2] by (simp add: top_voters_def)
  then have brigade: "scan_brigading now clock d2 = (d2, 0)"
    using brigade_scan.rescan [of "map (\<lambda>ab. (now, clock - now, ab))
        (if length (top_voters (now - days 7) d1) < 2 then [] else pairs_of (sort (top_voters (now - days 7) d1)))" "(d1, 0)"]
    by (simp only: d2_def scan_brigading_fold [OF assms])
  show ?thesis unfolding run using c1 c2 echo brigade by (simp add: run_nightly_scans_def)
qed


theorem nightly_scans_settle_witness:
  "content_state (fst (run_nightly_scans 0 0 sample_db)) = content_state sample_db \<and>
   run_nightly_scans 0 0 (fst (run_nightly_scans 0 0 sample_db)) = (fst (run_nightly_scans 0 0 sample_db), 0, 0)"
  by (rule nightly_scans_settle) (simp add: duration_defs)

end
