(* ===== verification/Render.thy ===== *)
theory Render
  imports Prelude
begin

text \<open>
  The text functions of \<open>deaddit/utils.py\<close>: titles, the HTML rendering of posts and
  comments, and the check of redirect targets. \<open>format_content_html\<close> is the only producer of
  HTML that the templates mark safe, so its output language is what keeps the site from XSS.
\<close>

section \<open>Titles\<close>

function remove_title_tags :: "string \<Rightarrow> string" where
  "remove_title_tags s =
     (if starts_with ''<br>'' s then remove_title_tags (drop 4 s)
      else if starts_with ''<p>'' s then remove_title_tags (drop 3 s)
      else if starts_with ''</p>'' s then remove_title_tags (drop 4 s)
      else (case s of [] \<Rightarrow> [] | c # cs \<Rightarrow> c # remove_title_tags cs))"
  by pat_completeness auto
termination by (relation "measure length") (auto simp: starts_with_iff)

declare remove_title_tags.simps [simp del]

function replace_reddit :: "string \<Rightarrow> string" where
  "replace_reddit s =
     (if starts_with ''reddit'' (py_lower s) then ''deaddit'' @ replace_reddit (drop 6 s)
      else (case s of [] \<Rightarrow> [] | c # cs \<Rightarrow> c # replace_reddit cs))"
  by pat_completeness auto
termination by (relation "measure length") (auto simp: starts_with_iff py_lower_def map_eq_append_conv)

declare replace_reddit.simps [simp del]

definition process_post_title :: "string \<Rightarrow> string" where
  "process_post_title t = replace_reddit (remove_title_tags t)"

section \<open>Links\<close>

definition url_char :: "char \<Rightarrow> bool" where
  "url_char c = (\<not> py_isspace c \<and> c \<notin> {CHR ''<'', CHR ''>'', CHR 0x22, CHR 0x27})"

definition trailing_punct :: "char \<Rightarrow> bool" where
  "trailing_punct c = (c \<in> set ''.,;:!?'' \<or> c = CHR 0x27 \<or> c = CHR 0x22)"

text \<open>The loop of \<open>_anchor\<close> on the reversed URL: the link and the trail after it.\<close>

fun trim_url :: "string \<Rightarrow> string \<Rightarrow> string \<times> string" where
  "trim_url [] trail = ([], trail)"
| "trim_url (c # rurl) trail =
     (if trailing_punct c \<or>
         c = CHR '')'' \<and> count_list (c # rurl) CHR ''('' < count_list (c # rurl) CHR '')''
      then trim_url rurl (c # trail) else (rev (c # rurl), trail))"

definition anchor :: "string \<Rightarrow> string" where
  "anchor url = ''<a href='' @ [CHR 0x22] @ url @ [CHR 0x22] @ '' rel='' @ [CHR 0x22] @
     ''nofollow noopener noreferrer'' @ [CHR 0x22] @ ''>'' @ url @ ''</a>''"

text \<open>A match of \<open>https?://[^\s<>"']+\<close> at the head of the text.\<close>

definition url_match :: "string \<Rightarrow> nat option" where
  "url_match s =
     (let n = (if starts_with ''https://'' s then 8 else if starts_with ''http://'' s then 7 else 0);
          run = takeWhile url_char (drop n s)
      in if n = 0 \<or> run = [] then None else Some (n + length run))"

function linkify :: "string \<Rightarrow> string" where
  "linkify s =
     (case url_match s of
        Some n \<Rightarrow> (case trim_url (rev (take n s)) [] of
            (url, trail) \<Rightarrow> anchor url @ trail @ linkify (drop n s))
      | None \<Rightarrow> (case s of [] \<Rightarrow> [] | c # cs \<Rightarrow> c # linkify cs))"
  by pat_completeness auto
termination
  by (relation "measure length")
    (auto simp: url_match_def Let_def starts_with_iff split: if_splits)

declare linkify.simps [simp del]

section \<open>Blocks and quotes\<close>

definition escape_char :: "char \<Rightarrow> string" where
  "escape_char c =
     (if c = CHR ''&'' then ''&amp;'' else if c = CHR ''<'' then ''&lt;''
      else if c = CHR ''>'' then ''&gt;'' else if c = CHR 0x22 then ''&quot;''
      else if c = CHR 0x27 then ''&#x27;'' else [c])"

definition html_escape :: "string \<Rightarrow> string" where
  "html_escape s = concat (map escape_char s)"

text \<open>\<open>re.split\<close> on a line break, blanks and another line break.\<close>

definition blank_gap :: "string \<Rightarrow> string option" where
  "blank_gap s =
     (case s of [] \<Rightarrow> None
      | c # cs \<Rightarrow>
          if c \<noteq> CHR 0x0A then None
          else (case dropWhile (\<lambda>b. b = CHR '' '' \<or> b = CHR 0x09) cs of
                  [] \<Rightarrow> None | b # bs \<Rightarrow> if b = CHR 0x0A then Some bs else None))"

lemma blank_gap_shorter: "blank_gap s = Some rest \<Longrightarrow> length rest < length s"
proof (cases s)
  case (Cons c cs)
  assume "blank_gap s = Some rest"
  with Cons obtain b where "dropWhile (\<lambda>b. b = CHR '' '' \<or> b = CHR 0x09) cs = b # rest"
    by (auto simp: blank_gap_def split: list.splits if_splits)
  then have "length (b # rest) \<le> length cs" by (metis length_dropWhile_le)
  with Cons show ?thesis by simp
qed (simp add: blank_gap_def)

function split_blocks :: "string \<Rightarrow> string \<Rightarrow> string list" where
  "split_blocks acc s =
     (case blank_gap s of
        Some rest \<Rightarrow> rev acc # split_blocks [] rest
      | None \<Rightarrow> (case s of [] \<Rightarrow> [rev acc] | c # cs \<Rightarrow> split_blocks (c # acc) cs))"
  by pat_completeness auto
termination by (relation "measure (length \<circ> snd)") (auto dest: blank_gap_shorter)

declare split_blocks.simps [simp del]

function strip_quote_marks :: "string \<Rightarrow> string" where
  "strip_quote_marks s =
     (if starts_with ''&gt;'' s
      then strip_quote_marks (case drop 4 s of [] \<Rightarrow> [] | c # cs \<Rightarrow> if py_isspace c then cs else c # cs)
      else s)"
  by pat_completeness auto
termination by (relation "measure length") (auto simp: starts_with_iff split: list.split)

declare strip_quote_marks.simps [simp del]

definition quote_line :: "string \<Rightarrow> bool \<times> string" where
  "quote_line line =
     (let stripped = py_lstrip line; quote = starts_with ''&gt;'' stripped
      in (quote, py_rstrip (if quote then strip_quote_marks stripped else stripped)))"

fun add_to_runs :: "(bool \<times> string list) list \<Rightarrow> (bool \<times> string) list \<Rightarrow> (bool \<times> string list) list" where
  "add_to_runs runs [] = runs"
| "add_to_runs runs ((q, line) # ls) =
     add_to_runs
       (if runs \<noteq> [] \<and> fst (last runs) = q
        then butlast runs @ [(q, snd (last runs) @ [line])] else runs @ [(q, [line])]) ls"

definition render_run :: "bool \<times> string list \<Rightarrow> string" where
  "render_run r =
     (let body = join_with ''<br>'' (map linkify (filter (\<lambda>l. l \<noteq> []) (snd r)))
      in if body = [] then []
         else if fst r then ''<blockquote><p>'' @ body @ ''</p></blockquote>'' else ''<p>'' @ body @ ''</p>'')"

definition render_block :: "string \<Rightarrow> string" where
  "render_block block =
     concat (map render_run (add_to_runs [] (map quote_line (split_on CHR 0x0A block))))"

definition format_content_html :: "string option \<Rightarrow> string" where
  "format_content_html text =
     (case text of None \<Rightarrow> []
      | Some t \<Rightarrow> if t = [] then []
          else concat (map render_block (split_blocks [] (py_strip (html_escape t)))))"

section \<open>Redirect targets\<close>

definition safe_local_next :: "string option \<Rightarrow> string option" where
  "safe_local_next v =
     (case v of None \<Rightarrow> None
      | Some s \<Rightarrow>
          if \<not> starts_with ''/'' s then None
          else if starts_with ''//'' s \<or> CHR 0x5C \<in> set s \<or> contains_sub ''://'' s then None
          else if CHR 0x0D \<in> set s \<or> CHR 0x0A \<in> set s \<or> CHR 0x00 \<in> set s then None
          else Some s)"

section \<open>The output language\<close>

text \<open>
  What the renderer may emit, as a grammar: text free of the HTML metacharacters, line breaks
  and links to http(s) URLs inside paragraphs, and paragraphs, bare or quoted, in a sequence.
  Every tag is one of the listed ones and every opened tag is closed.
\<close>

definition inert :: "char \<Rightarrow> bool" where
  "inert c = (c \<notin> {CHR ''<'', CHR ''>'', CHR 0x22, CHR 0x27})"

definition safe_url :: "string \<Rightarrow> bool" where
  "safe_url u = ((starts_with ''http://'' u \<or> starts_with ''https://'' u) \<and> list_all url_char u)"

inductive inline_html :: "string \<Rightarrow> bool" where
  inline_end: "inline_html []"
| inline_char: "inert c \<Longrightarrow> inline_html s \<Longrightarrow> inline_html (c # s)"
| inline_break: "inline_html s \<Longrightarrow> inline_html (''<br>'' @ s)"
| inline_link: "safe_url u \<Longrightarrow> inline_html s \<Longrightarrow> inline_html (anchor u @ s)"

inductive block_html :: "string \<Rightarrow> bool" where
  block_end: "block_html []"
| block_para: "inline_html s \<Longrightarrow> block_html t \<Longrightarrow> block_html (''<p>'' @ s @ ''</p>'' @ t)"
| block_quote: "inline_html s \<Longrightarrow> block_html t \<Longrightarrow>
    block_html (''<blockquote><p>'' @ s @ ''</p></blockquote>'' @ t)"

lemma inline_append: "inline_html s \<Longrightarrow> inline_html t \<Longrightarrow> inline_html (s @ t)"
proof (induction rule: inline_html.induct)
  case (inline_break s)
  then show ?case using inline_html.inline_break [of "s @ t"] by simp
qed (auto intro: inline_html.intros)

lemma inline_text: "list_all inert s \<Longrightarrow> inline_html s"
  by (induction s) (auto intro: inline_html.intros)

lemma block_append: "block_html s \<Longrightarrow> block_html t \<Longrightarrow> block_html (s @ t)"
proof (induction rule: block_html.induct)
  case (block_para s u)
  then show ?case using block_html.block_para [of s "u @ t"] by simp
next
  case (block_quote s u)
  then show ?case using block_html.block_quote [of s "u @ t"] by simp
qed simp

lemma block_concat: "list_all block_html ss \<Longrightarrow> block_html (concat ss)"
  by (induction ss) (auto intro: block_append block_end)

lemma escape_inert: "list_all inert (html_escape s)"
proof -
  have "list_all inert (escape_char c)" for c by (auto simp: escape_char_def inert_def)
  then show ?thesis by (induction s) (auto simp: html_escape_def)
qed

text \<open>Trimming stops at the slashes of the scheme, so a link always keeps it.\<close>

lemma trim_url_keeps:
  "trim_url (r @ [CHR ''/''] @ p) trail = (url, t) \<Longrightarrow> list_all q (r @ trail) \<Longrightarrow>
   \<exists>k. url = rev p @ [CHR ''/''] @ k \<and> list_all q t \<and> set k \<subseteq> set r"
proof (induction r arbitrary: trail)
  case Nil
  then show ?case by (simp add: trailing_punct_def)
next
  case (Cons c r)
  show ?case
  proof (cases "trailing_punct c \<or> c = CHR '')'' \<and>
      count_list (c # r @ [CHR ''/''] @ p) CHR ''('' < count_list (c # r @ [CHR ''/''] @ p) CHR '')''")
    case True
    with Cons.prems(1) have "trim_url (r @ [CHR ''/''] @ p) (c # trail) = (url, t)" by simp
    from Cons.IH [OF this] Cons.prems(2) show ?thesis by auto
  next
    case False
    then have "trim_url ((c # r) @ [CHR ''/''] @ p) trail = (rev (c # r @ [CHR ''/''] @ p), trail)"
      by (subst append_Cons, subst trim_url.simps) (simp only: if_False)
    with Cons.prems show ?thesis by auto
  qed
qed

lemma url_match_split:
  assumes "url_match s = Some n"
  obtains scheme rest where "take n s = scheme @ ''//'' @ rest" and "scheme = ''http:'' \<or> scheme = ''https:''"
    and "list_all url_char rest"
proof -
  have run: "list_all url_char (takeWhile url_char t)" for t
    by (auto simp: list_all_iff dest: set_takeWhileD)
  have take_run: "take (length (takeWhile url_char t)) t = takeWhile url_char t" for t
    by (metis takeWhile_eq_take)
  from assms consider t where "s = ''https://'' @ t" "n = 8 + length (takeWhile url_char t)"
    | t where "s = ''http://'' @ t" "n = 7 + length (takeWhile url_char t)"
    by (auto simp: url_match_def Let_def starts_with_iff split: if_splits)
  then show thesis
  proof cases
    case (1 t)
    then have "take n s = ''https:'' @ ''//'' @ takeWhile url_char t" by (simp add: take_run numeral_eq_Suc)
    from that [OF this _ run] show thesis by simp
  next
    case (2 t)
    then have "take n s = ''http:'' @ ''//'' @ takeWhile url_char t" by (simp add: take_run numeral_eq_Suc)
    from that [OF this _ run] show thesis by simp
  qed
qed

lemma link_safe:
  assumes "url_match s = Some n" and "trim_url (rev (take n s)) [] = (url, trail)" and "list_all inert s"
  shows "safe_url url \<and> list_all inert trail"
proof -
  obtain scheme rest where split: "take n s = scheme @ ''//'' @ rest" "scheme = ''http:'' \<or> scheme = ''https:''"
    "list_all url_char rest" using url_match_split [OF assms(1)] .
  have rev_take: "rev (take n s) = rev rest @ [CHR ''/''] @ (CHR ''/'' # rev scheme)" by (simp add: split(1))
  have "list_all inert (rev rest)"
    using assms(3) split(1) by (metis append.assoc append_take_drop_id list_all_append list_all_rev)
  then obtain k where url: "url = rev (CHR ''/'' # rev scheme) @ [CHR ''/''] @ k" "list_all inert trail" "set k \<subseteq> set (rev rest)"
    using trim_url_keeps [of "rev rest" "CHR ''/'' # rev scheme" "[]" url trail inert] assms(2) rev_take by auto
  have "list_all url_char k" using url(3) split(3) by (auto simp: list_all_iff)
  moreover have "list_all url_char ''https://''" "list_all url_char ''http://''"
    by (simp_all add: url_char_def py_isspace_def)
  ultimately show ?thesis using url split(2) by (auto simp: safe_url_def)
qed

lemma linkify_inline: "list_all inert s \<Longrightarrow> inline_html (linkify s)"
proof (induction s rule: linkify.induct)
  case (1 s)
  show ?case
  proof (cases "url_match s")
    case None
    show ?thesis
    proof (cases s)
      case Nil
      with None show ?thesis by (simp add: linkify.simps inline_end)
    next
      case (Cons c cs)
      with None 1 show ?thesis by (simp add: linkify.simps [of "c # cs"] inline_char)
    qed
  next
    case (Some n)
    obtain url trail where trim: "trim_url (rev (take n s)) [] = (url, trail)" by (metis surj_pair)
    have "list_all inert (drop n s)" using 1(3) by (metis append_take_drop_id list_all_append)
    with 1 Some trim have "inline_html (linkify (drop n s))" by auto
    with link_safe [OF Some trim 1(3)] Some trim show ?thesis
      by (auto simp: linkify.simps [of s] intro: inline_link inline_append inline_text)
  qed
qed

lemma inline_join: "list_all inline_html ss \<Longrightarrow> inline_html (join_with ''<br>'' ss)"
proof (induction ss rule: induct_list012)
  case (3 a b ss)
  then show ?case using inline_break inline_append by (simp del: append_Cons)
qed (auto intro: inline_end)

lemma inert_dropWhile: "list_all q s \<Longrightarrow> list_all q (dropWhile p s)"
  by (auto simp: list_all_iff dest: set_dropWhileD)

lemma inert_strip: "list_all q s \<Longrightarrow> list_all q (py_strip s)" "list_all q s \<Longrightarrow> list_all q (py_lstrip s)"
  "list_all q s \<Longrightarrow> list_all q (py_rstrip s)"
  by (simp_all add: py_strip_def py_lstrip_def py_rstrip_def inert_dropWhile)

lemma inert_quote_marks: "list_all q s \<Longrightarrow> list_all q (strip_quote_marks s)"
proof (induction s rule: strip_quote_marks.induct)
  case (1 s)
  have "list_all q (drop 4 s)" using 1(2) by (metis append_take_drop_id list_all_append)
  then have "list_all q (case drop 4 s of [] \<Rightarrow> [] | c # cs \<Rightarrow> if py_isspace c then cs else c # cs)"
    by (auto split: list.split)
  with 1 show ?case by (simp add: strip_quote_marks.simps [of s])
qed

lemma inert_quote_line: "list_all q s \<Longrightarrow> list_all q (snd (quote_line s))"
  by (simp add: quote_line_def Let_def inert_strip inert_quote_marks)

lemma inert_split_on: "list_all q s \<Longrightarrow> list_all (list_all q) (split_on c s)"
  by (induction s) (auto split: list.split)

lemma inert_split_blocks: "list_all q acc \<Longrightarrow> list_all q s \<Longrightarrow> list_all (list_all q) (split_blocks acc s)"
proof (induction acc s rule: split_blocks.induct)
  case (1 acc s)
  show ?case
  proof (cases "blank_gap s")
    case (Some rest)
    then obtain b c cs where "s = c # cs" "dropWhile (\<lambda>b. b = CHR '' '' \<or> b = CHR 0x09) cs = b # rest"
      by (auto simp: blank_gap_def split: list.splits if_splits)
    then have "list_all q rest" using 1(4) inert_dropWhile [of q cs] by (metis list.pred_inject(2))
    with Some 1 show ?thesis by (simp add: split_blocks.simps [of acc s])
  next
    case None
    with 1 show ?thesis by (cases s) (simp_all add: split_blocks.simps [of acc])
  qed
qed

lemma inert_runs:
  "list_all (list_all (list_all q) \<circ> snd) runs \<Longrightarrow> list_all (list_all q \<circ> snd) ls \<Longrightarrow>
   list_all (list_all (list_all q) \<circ> snd) (add_to_runs runs ls)"
proof (induction runs ls rule: add_to_runs.induct)
  case (2 runs k line ls)
  have "list_all (list_all q) (snd (last runs))" if "runs \<noteq> []"
    using 2(2) last_in_set [OF that] by (simp add: list_all_iff)
  then have "list_all (list_all (list_all q) \<circ> snd)
      (if runs \<noteq> [] \<and> fst (last runs) = k then butlast runs @ [(k, snd (last runs) @ [line])] else runs @ [(k, [line])])"
    using 2(2,3) by (auto simp: list.pred_set dest: in_set_butlastD)
  from 2(1) [OF this] 2(3) show ?case by (simp only: add_to_runs.simps list.pred_inject)
qed simp

lemma render_run_block: "list_all (list_all inert) (snd r) \<Longrightarrow> block_html (render_run r)"
proof -
  assume "list_all (list_all inert) (snd r)"
  then have "inline_html (join_with ''<br>'' (map linkify (filter (\<lambda>l. l \<noteq> []) (snd r))))"
    by (intro inline_join) (auto simp: list_all_iff intro: linkify_inline)
  from block_para [OF this block_end] block_quote [OF this block_end] show ?thesis
    by (simp add: render_run_def Let_def block_end)
qed

lemma render_block_html: "list_all inert b \<Longrightarrow> block_html (render_block b)"
proof -
  assume "list_all inert b"
  then have "list_all (list_all inert \<circ> snd) (map quote_line (split_on CHR 0x0A b))"
    using inert_split_on [of inert b "CHR 0x0A"]
    by (auto simp: list.pred_map elim!: list.pred_mono_strong intro: inert_quote_line)
  from inert_runs [of inert "[]", OF _ this] show ?thesis
    unfolding render_block_def by (intro block_concat) (auto simp: list_all_iff intro!: render_run_block)
qed

text \<open>C30. No markup gets through: whatever text a user or a model submitted, the rendered HTML
  is a sequence of closed paragraphs and block quotes whose content is inert text, line breaks
  and links; every link target starts with \<open>http://\<close> or \<open>https://\<close> and contains no quote, angle
  bracket or white space that could end the attribute.\<close>

theorem format_content_html_safe:
  "block_html (format_content_html text)"
proof -
  have "block_html (concat (map render_block (split_blocks [] (py_strip (html_escape t)))))" for t
    using inert_split_blocks [of inert "[]" "py_strip (html_escape t)"] inert_strip(1) [OF escape_inert]
    by (intro block_concat) (auto simp: list_all_iff intro: render_block_html)
  then show ?thesis by (auto simp: format_content_html_def block_end split: option.split)
qed

section \<open>Two corners\<close>

text \<open>
  The text is escaped before URLs are looked for, so the quote that ends a quoted URL is the
  six characters \<open>&quot;\<close>: the trimming removes only the semicolon and the link swallows the rest.
\<close>

lemma link_swallows_quote:
  "linkify (html_escape (CHR 0x22 # ''http://a'' @ [CHR 0x22])) =
   ''&quot;'' @ anchor ''http://a&quot'' @ '';''"
  by code_simp

text \<open>One pass over the tags leaves a tag that removing another one put together.\<close>

lemma title_tags_reassembled: "process_post_title ''<<p>p>x'' = ''<p>x''"
  by code_simp

text \<open>A tab is not among the rejected control characters.\<close>

lemma tab_accepted_in_next:
  "safe_local_next (Some (''/'' @ [CHR 0x09] @ ''/evil.example'')) = Some (''/'' @ [CHR 0x09] @ ''/evil.example'')"
  by code_simp

end
