(* ===== verification/Content.thy ===== *)
theory Content
  imports Degeneracy Notifications Render
begin

text \<open>
  \<open>deaddit/services/content.py\<close>: the single persistence path for posts, image posts, website
  posts, comments, users and communities. An operation returns the error it raises or the row
  it created, and the state after it; \<open>now\<close> is the clock and \<open>u\<close> the random draw of the
  comment cap. The stored HTML files of website posts are a list of storage paths.
\<close>

section \<open>Settings and limits\<close>

datatype content_error = Validation_Error string | Db_Integrity_Error

definition setting_int :: "string \<Rightarrow> int \<Rightarrow> int \<Rightarrow> db \<Rightarrow> int" where
  "setting_int key dflt minimum d =
     (case setting_as_int key (py_str_int dflt) d of
        None \<Rightarrow> dflt
      | Some v \<Rightarrow> if minimum \<le> v then v else dflt)"

text \<open>\<open>random.triangular\<close> of a uniform draw, and \<open>round\<close>, which rounds halves to even.\<close>

definition triangular :: "real \<Rightarrow> real \<Rightarrow> real \<Rightarrow> real \<Rightarrow> real" where
  "triangular u low high mode =
     (let c = (mode - low) / (high - low) in
      if c < u then high + (low - high) * sqrt ((1 - u) * (1 - c))
      else low + (high - low) * sqrt (u * c))"

definition py_round :: "real \<Rightarrow> int" where
  "py_round x =
     (let f = floor x; r = x - of_int f in
      if r < 1 / 2 then f else if 1 / 2 < r then f + 1 else if even f then f else f + 1)"

definition sample_comment_cap :: "real \<Rightarrow> db \<Rightarrow> int" where
  "sample_comment_cap u d =
     (let lo = setting_int ''thread_comment_cap_min'' 20 1 d;
          hi = setting_int ''thread_comment_cap_max'' 39 1 d
      in if hi \<le> lo then lo
         else py_round (triangular u (of_int lo) (of_int hi) (of_int lo + of_int (hi - lo) * (1 / 4))))"

definition hourly_limit :: "bool \<Rightarrow> db \<Rightarrow> int" where
  "hourly_limit is_post d =
     (if is_post then
        (case setting_as_int ''rate_limit_posts_per_hour'' ''5'' d of None \<Rightarrow> 5 | Some v \<Rightarrow> v)
      else (case setting_as_int ''rate_limit_comments_per_hour'' ''30'' d of None \<Rightarrow> 30 | Some v \<Rightarrow> v))"

definition recent_count :: "username \<Rightarrow> timestamp \<Rightarrow> 'a item_scheme list \<Rightarrow> int" where
  "recent_count who now is = count_rows (\<lambda>i. author i = who \<and> now - hours 1 \<le> created_at i) is"

definition check_rate_limit :: "username \<Rightarrow> bool \<Rightarrow> timestamp \<Rightarrow> db \<Rightarrow> content_error option" where
  "check_rate_limit who is_post now d =
     (let limit = hourly_limit is_post d in
      if limit < 0 then None
      else if limit \<le> (if is_post then recent_count who now (posts d) else recent_count who now (comments d))
      then Some (Validation_Error ''rate_limited'') else None)"

section \<open>Posts\<close>

definition no_text :: "string option \<Rightarrow> bool" where
  "no_text v = (v = None \<or> v = Some [])"

definition validate_post_preflight ::
  "string \<Rightarrow> string option \<Rightarrow> username \<Rightarrow> string \<Rightarrow> bool \<Rightarrow> timestamp \<Rightarrow> db \<Rightarrow> content_error option" where
  "validate_post_preflight ttl text who sub require_content now d =
     (if ttl = [] \<or> require_content \<and> no_text text then Some (Validation_Error ''Invalid post data'')
      else if find_row user_name who (users d) = None
      then Some (Validation_Error (''User '' @ quoted who @ '' does not exist''))
      else if find_row sub_name sub (subdeaddits d) = None
      then Some (Validation_Error (''Subdeaddit '' @ quoted sub @ '' does not exist''))
      else check_rate_limit who True now d)"

definition run_post_hooks :: "post \<Rightarrow> timestamp \<Rightarrow> db \<Rightarrow> db" where
  "run_post_hooks p now d =
     detect_repetition_for_post p now
       (record_event ''post'' (Some (author p)) (Some (item_id p)) None now (notify_post_created p now d))"

text \<open>The keyword arguments the three creators share.\<close>

record post_request =
  req_title :: string
  req_content :: "string option"
  req_user :: username
  req_sub :: string
  req_score :: int
  req_model :: string
  req_llm_model :: "string option"
  req_post_type :: "string option"
  req_created_at :: "timestamp option"

definition built_post :: "post_request \<Rightarrow> string option \<Rightarrow> timestamp \<Rightarrow> real \<Rightarrow> db \<Rightarrow> post" where
  "built_post r text now u d =
     \<lparr>item_id = next_id item_id (posts d), author = req_user r, score = req_score r, vote_count = 0,
      created_at = (case req_created_at r of None \<Rightarrow> now | Some t \<Rightarrow> t), content = text,
      provenance = req_model r, llm_model = req_llm_model r, title = process_post_title (req_title r),
      subdeaddit_name = req_sub r, post_type = req_post_type r, comment_cap = Some (sample_comment_cap u d)\<rparr>"

definition create_post :: "post_request \<Rightarrow> timestamp \<Rightarrow> real \<Rightarrow> db \<Rightarrow> (content_error + post) \<times> db" where
  "create_post r now u d =
     (case validate_post_preflight (req_title r) (req_content r) (req_user r) (req_sub r) True now d of
        Some e \<Rightarrow> (Inl e, d)
      | None \<Rightarrow>
          let p = built_post r (req_content r) now u d
          in (Inr p, run_post_hooks p now (d\<lparr>posts := posts d @ [p]\<rparr>)))"

definition or_none :: "string option \<Rightarrow> string option" where
  "or_none v = (if no_text v then None else v)"

definition preflight_image_post :: "username \<Rightarrow> string \<Rightarrow> string \<Rightarrow> timestamp \<Rightarrow> db \<Rightarrow> content_error option" where
  "preflight_image_post who sub ttl now d = validate_post_preflight ttl None who sub False now d"

text \<open>A pending image is the row it becomes, less the post it is attached to.\<close>

type_synonym pending_post_image = post_image

definition create_image_post ::
  "post_request \<Rightarrow> pending_post_image \<Rightarrow> timestamp \<Rightarrow> real \<Rightarrow> db \<Rightarrow> (content_error + post) \<times> db" where
  "create_image_post r img now u d =
     (case validate_post_preflight (req_title r) None (req_user r) (req_sub r) False now d of
        Some e \<Rightarrow> (Inl e, d)
      | None \<Rightarrow>
          let p = built_post r (or_none (req_content r)) now u d in
          if list_ex (\<lambda>i. image_post i = item_id p) (images d) then (Inl Db_Integrity_Error, d)
          else (Inr p, run_post_hooks p now
             (d\<lparr>posts := posts d @ [p], images := images d @ [img\<lparr>image_post := item_id p\<rparr>]\<rparr>)))"

definition preflight_website_post :: "username \<Rightarrow> string \<Rightarrow> string \<Rightarrow> timestamp \<Rightarrow> db \<Rightarrow> content_error option" where
  "preflight_website_post who sub ttl now d = validate_post_preflight ttl None who sub False now d"

type_synonym pending_generated_website = generated_website

text \<open>\<open>shot\<close> is the captured preview, \<open>None\<close> when the capture is skipped or fails.\<close>

definition attach_website_screenshot :: "int \<Rightarrow> post_image option \<Rightarrow> db \<Rightarrow> db" where
  "attach_website_screenshot pid shot d =
     (if list_ex (\<lambda>i. image_post i = pid) (images d) then d
      else (case shot of None \<Rightarrow> d | Some img \<Rightarrow> d\<lparr>images := images d @ [img\<lparr>image_post := pid\<rparr>]\<rparr>))"

text \<open>The columns of \<open>generated_website\<close> with a UNIQUE constraint.\<close>

definition site_taken :: "int \<Rightarrow> pending_generated_website \<Rightarrow> db \<Rightarrow> bool" where
  "site_taken pid w d = list_ex (\<lambda>s. site_post s = pid \<or> public_path s = public_path w \<or>
     storage_path s = storage_path w) (websites d)"

definition create_website_post ::
  "post_request \<Rightarrow> pending_generated_website \<Rightarrow> post_image option \<Rightarrow> timestamp \<Rightarrow> real \<Rightarrow>
   db \<times> string list \<Rightarrow> (content_error + post) \<times> db \<times> string list" where
  "create_website_post r w shot now u st =
     (case st of (d, files) \<Rightarrow>
        case validate_post_preflight (req_title r) None (req_user r) (req_sub r) False now d of
          Some e \<Rightarrow> (Inl e, d, removeAll (storage_path w) files)
        | None \<Rightarrow>
            let p = built_post r (or_none (req_content r)) now u d in
            if site_taken (item_id p) w d then (Inl Db_Integrity_Error, d, removeAll (storage_path w) files)
            else
              (let site = w\<lparr>site_id := next_id site_id (websites d), site_post := item_id p\<rparr>;
                   d' = run_post_hooks p now (d\<lparr>posts := posts d @ [p], websites := websites d @ [site]\<rparr>)
               in (Inr p, attach_website_screenshot (item_id p) shot d', files)))"

section \<open>Comments, users and communities\<close>

record comment_request =
  creq_post :: int
  creq_content :: string
  creq_user :: username
  creq_parent :: "int option"
  creq_score :: int
  creq_model :: string
  creq_llm_model :: "string option"
  creq_created_at :: "timestamp option"

definition validate_comment :: "comment_request \<Rightarrow> timestamp \<Rightarrow> db \<Rightarrow> content_error option" where
  "validate_comment r now d =
     (if creq_content r = [] then Some (Validation_Error ''Comment missing required fields: content'')
      else if find_row user_name (creq_user r) (users d) = None
      then Some (Validation_Error (''User '' @ quoted (creq_user r) @ '' does not exist''))
      else if find_row item_id (creq_post r) (posts d) = None
      then Some (Validation_Error (''Post '' @ quoted (py_str_int (creq_post r)) @ '' does not exist''))
      else
        (case creq_parent r of
           None \<Rightarrow> check_rate_limit (creq_user r) False now d
         | Some pid \<Rightarrow>
             (case find_row item_id pid (comments d) of
                None \<Rightarrow> Some (Validation_Error (''Comment '' @ quoted (py_str_int pid) @ '' does not exist''))
              | Some par \<Rightarrow>
                  if post_id par \<noteq> creq_post r
                  then Some (Validation_Error (''Comment '' @ quoted (py_str_int pid) @
                    '' does not belong to post '' @ quoted (py_str_int (creq_post r))))
                  else check_rate_limit (creq_user r) False now d)))"

definition run_comment_hooks :: "comment \<Rightarrow> timestamp \<Rightarrow> db \<Rightarrow> db" where
  "run_comment_hooks c now d =
     detect_repetition_for_comment c now
       (record_event ''comment'' (Some (author c)) (Some (post_id c)) (Some (item_id c)) now
         (notify_comment_created c now d))"

definition built_comment :: "comment_request \<Rightarrow> timestamp \<Rightarrow> db \<Rightarrow> comment" where
  "built_comment r now d =
     \<lparr>item_id = next_id item_id (comments d), author = creq_user r, score = creq_score r, vote_count = 0,
      created_at = (case creq_created_at r of None \<Rightarrow> now | Some t \<Rightarrow> t), content = Some (creq_content r),
      provenance = creq_model r, llm_model = creq_llm_model r, post_id = creq_post r,
      parent_id = creq_parent r\<rparr>"

definition create_comment :: "comment_request \<Rightarrow> timestamp \<Rightarrow> db \<Rightarrow> (content_error + comment) \<times> db" where
  "create_comment r now d =
     (case validate_comment r now d of
        Some e \<Rightarrow> (Inl e, d)
      | None \<Rightarrow>
          let c = built_comment r now d
          in (Inr c, run_comment_hooks c now (d\<lparr>comments := comments d @ [c]\<rparr>)))"

text \<open>
  The list columns arrive as the JSON text they are stored as. The primary key and the unique
  index on \<open>lower(username)\<close> refuse a name that differs from a stored one in case only.
\<close>

definition create_user ::
  "username \<Rightarrow> int option \<Rightarrow> string \<Rightarrow> string \<Rightarrow> string \<Rightarrow> string \<Rightarrow> string \<Rightarrow> string \<Rightarrow> string \<Rightarrow>
   string \<Rightarrow> bool \<Rightarrow> timestamp option \<Rightarrow> db \<Rightarrow> (content_error + user) \<times> db" where
  "create_user name ag gend b ints occ edu sty traits mdl troll created d =
     (if list_ex (\<lambda>u. sql_lower (user_name u) = sql_lower name) (users d) then (Inl Db_Integrity_Error, d)
      else
        (let u = \<lparr>user_name = name, age = ag,
              gender = Some (if gend = ''Male'' \<or> gend = ''Female'' then gend else ''Male''),
              bio = b, interests = ints, occupation = occ, education = edu, writing_style = sty,
              personality_traits = traits, is_troll = troll, user_model = mdl, post_karma = 0,
              comment_karma = 0, user_created_at = created, agent_state = JObj [], password_hash = None\<rparr>
         in (Inr u, d\<lparr>users := users d @ [u]\<rparr>)))"

definition create_subdeaddit ::
  "string \<Rightarrow> string \<Rightarrow> string \<Rightarrow> bool \<Rightarrow> timestamp option \<Rightarrow> db \<Rightarrow> (content_error + subdeaddit) \<times> db" where
  "create_subdeaddit name descr types update_if_exists created d =
     (if name = [] \<or> descr = []
      then (Inl (Validation_Error (''Subdeaddit missing required fields: '' @
              join_with '', '' ((if name = [] then [''name''] else []) @
                (if descr = [] then [''description''] else [])))), d)
      else
        (case find_row sub_name name (subdeaddits d) of
           Some s \<Rightarrow>
             if \<not> update_if_exists
             then (Inl (Validation_Error (''Subdeaddit '' @ quoted name @ '' already exists'')), d)
             else (let s' = s\<lparr>sub_description := descr, sub_post_types := types\<rparr>
                   in (Inr s', d\<lparr>subdeaddits := update_rows (\<lambda>x. sub_name x = name)
                        (\<lambda>x. x\<lparr>sub_description := descr, sub_post_types := types\<rparr>) (subdeaddits d)\<rparr>))
         | None \<Rightarrow>
             (let s = \<lparr>sub_name = name, sub_description = descr, sub_post_types = types, sub_created_at = created\<rparr>
              in (Inr s, d\<lparr>subdeaddits := subdeaddits d @ [s]\<rparr>))))"

section \<open>The hooks after a commit\<close>

interpretation first_two_hooks: hook_pair "\<lambda>(p, now). notify_post_created p now"
    "\<lambda>(etype, who, pid, cid, now). record_event etype who pid cid now" ..

interpretation post_hooks: isolated_hook "\<lambda>(p, now). run_post_hooks p now"
proof
  fix x :: "post \<times> timestamp" and d :: db
  obtain p now where x: "x = (p, now)" by (metis surj_pair)
  let ?y = "(''post'', Some (author p), Some (item_id p), None, now)"
  show "content_state ((\<lambda>(p, now). run_post_hooks p now) x d) = content_state d"
    using first_two_hooks.chain.keeps_content [of "((p, now), ?y)" d]
      post_detector.keeps_content [of "(p, now)"] by (simp add: x run_post_hooks_def)
  show "runtime_state ((\<lambda>(p, now). run_post_hooks p now) x d) = runtime_state d"
    using first_two_hooks.chain.keeps_runtime [of "((p, now), ?y)" d]
      post_detector.keeps_runtime [of "(p, now)"] by (simp add: x run_post_hooks_def)
qed

interpretation comment_hooks: isolated_hook "\<lambda>(c, now). run_comment_hooks c now"
proof
  fix x :: "comment \<times> timestamp" and d :: db
  obtain c now where x: "x = (c, now)" by (metis surj_pair)
  show "content_state ((\<lambda>(c, now). run_comment_hooks c now) x d) = content_state d"
    using comment_notices.keeps_content [of "(c, now)"] comment_detector.keeps_content [of "(c, now)"]
    by (simp add: x run_comment_hooks_def)
  show "runtime_state ((\<lambda>(c, now). run_comment_hooks c now) x d) = runtime_state d"
    using comment_notices.keeps_runtime [of "(c, now)"] comment_detector.keeps_runtime [of "(c, now)"]
    by (simp add: x run_comment_hooks_def)
qed

lemma hooks_content [simp]:
  "content_state (run_post_hooks p now d) = content_state d"
  "content_state (run_comment_hooks c now d) = content_state d"
  using post_hooks.keeps_content [of "(p, now)" d] comment_hooks.keeps_content [of "(c, now)" d] by simp_all

section \<open>References\<close>

text \<open>
  Every author exists, every vote has a target, every comment a post, and a reply answers an
  older comment under the same post.
\<close>

definition known_user :: "db \<Rightarrow> username \<Rightarrow> bool" where
  "known_user d who = (find_row user_name who (users d) \<noteq> None)"

definition reply_ok :: "comment list \<Rightarrow> comment \<Rightarrow> bool" where
  "reply_ok cs c = (case parent_id c of None \<Rightarrow> True
     | Some q \<Rightarrow> (case find_row item_id q cs of None \<Rightarrow> False
         | Some par \<Rightarrow> post_id par = post_id c \<and> q < item_id c))"

definition refers :: "'a item_scheme list \<Rightarrow> int option \<Rightarrow> bool" where
  "refers is k = (case k of None \<Rightarrow> True | Some i \<Rightarrow> find_row item_id i is \<noteq> None)"

definition refs_ok :: "db \<Rightarrow> bool" where
  "refs_ok d =
     (list_all (\<lambda>p. known_user d (author p)) (posts d) \<and>
      list_all (\<lambda>c. known_user d (author c) \<and> find_row item_id (post_id c) (posts d) \<noteq> None \<and>
        reply_ok (comments d) c) (comments d) \<and>
      list_all (\<lambda>v. refers (posts d) (vote_post v) \<and> refers (comments d) (vote_comment v)) (votes d))"

definition sound :: "db \<Rightarrow> bool" where
  "sound d = (vote_ledger d \<and> refs_ok d)"

lemma sound_cong: "content_state d = content_state d' \<Longrightarrow> sound d = sound d'"
  using vote_ledger_cong [of d d'] by (simp add: sound_def refs_ok_def known_user_def content_state_def)

lemma found_append: "find_row key k rows \<noteq> None \<Longrightarrow> find_row key k (rows @ rows') = find_row key k rows"
  by (auto simp: find_row_append split: option.split)

lemma refers_append: "refers is k \<Longrightarrow> refers (is @ is') k"
  by (auto simp: refers_def found_append split: option.splits)

lemma refers_next [simp]: "\<not> refers is (Some (next_id item_id is))"
  by (simp add: refers_def)

lemma reply_ok_append: "reply_ok cs c \<Longrightarrow> reply_ok (cs @ cs') c"
  by (auto simp: reply_ok_def found_append split: option.splits)

lemma no_votes_for_next:
  assumes "refs_ok d"
  shows "\<forall>v \<in> set (votes d). vote_post v \<noteq> Some (next_id item_id (posts d))"
    and "\<forall>v \<in> set (votes d). vote_comment v \<noteq> Some (next_id item_id (comments d))"
  using assms refers_next unfolding refs_ok_def list_all_iff by metis+

lemma tallied_append:
  assumes "tallied col vs is" and "\<forall>v \<in> set vs. col v \<noteq> Some (item_id i)" and "score i = 0" and "vote_count i = 0"
  shows "tallied col vs (is @ [i])"
  using assms by (simp add: tallied_def sum_rows_zero count_rows_zero)

lemma karma_total_append [simp]: "karma_total (is @ is') u = karma_total is u + karma_total is' u"
  by (simp add: karma_total_def)

lemma next_id_distinct: "distinct (map key rows) \<Longrightarrow> key r = next_id key rows \<Longrightarrow> distinct (map key (rows @ [r]))"
  by (simp add: next_id_fresh)

lemma sound_add_post:
  assumes "sound d" and "item_id p = next_id item_id (posts d)" and "score p = 0" and "vote_count p = 0"
    and "known_user d (author p)"
  shows "sound (d\<lparr>posts := posts d @ [p], images := is, websites := ws\<rparr>)"
proof -
  have "refs_ok d" and "vote_ledger d" using assms(1) by (simp_all add: sound_def)
  then have "tallied vote_post (votes d) (posts d @ [p])"
    using assms no_votes_for_next by (intro tallied_append) (auto simp: vote_ledger_def)
  moreover have "karma_total [p] u = 0" for u using assms(3) by (simp add: karma_total_def)
  ultimately show ?thesis
    using \<open>refs_ok d\<close> \<open>vote_ledger d\<close> assms(2,5) next_id_distinct [of item_id "posts d" p]
    by (auto simp: sound_def ledger_defs refs_ok_def known_user_def found_append refers_append list_all_iff)
qed

lemma sound_add_comment:
  assumes "sound d" and "item_id c = next_id item_id (comments d)" and "score c = 0" and "vote_count c = 0"
    and "known_user d (author c)" and "find_row item_id (post_id c) (posts d) \<noteq> None" and "reply_ok (comments d) c"
  shows "sound (d\<lparr>comments := comments d @ [c]\<rparr>)"
proof -
  have "refs_ok d" and "vote_ledger d" using assms(1) by (simp_all add: sound_def)
  then have "tallied vote_comment (votes d) (comments d @ [c])"
    using assms no_votes_for_next by (intro tallied_append) (auto simp: vote_ledger_def)
  moreover have "karma_total [c] u = 0" for u using assms(3) by (simp add: karma_total_def)
  ultimately show ?thesis
    using \<open>refs_ok d\<close> \<open>vote_ledger d\<close> assms(2,5-) next_id_distinct [of item_id "comments d" c]
    by (auto simp: sound_def ledger_defs refs_ok_def known_user_def found_append reply_ok_append refers_append list_all_iff)
qed

lemma sound_add_user:
  assumes "sound d" and "find_row user_name (user_name u) (users d) = None" and "post_karma u = 0" and "comment_karma u = 0"
  shows "sound (d\<lparr>users := users d @ [u]\<rparr>)"
proof -
  have refs: "refs_ok d" and ledger: "vote_ledger d" using assms(1) by (simp_all add: sound_def)
  have "author i \<noteq> user_name u" if "i \<in> set (posts d)" for i
    using refs that assms(2) by (auto simp: refs_ok_def known_user_def list_all_iff)
  moreover have "author i \<noteq> user_name u" if "i \<in> set (comments d)" for i
    using refs that assms(2) by (auto simp: refs_ok_def known_user_def list_all_iff)
  ultimately have "karma_total (posts d) (user_name u) = 0" "karma_total (comments d) (user_name u) = 0"
    by (auto simp: karma_total_def intro!: sum_rows_zero)
  then show ?thesis
    using refs ledger assms
    by (auto simp: sound_def ledger_defs refs_ok_def known_user_def found_append list_all_iff find_row_None_iff)
qed

lemma preflight_passed:
  "validate_post_preflight ttl text who sub req now d = None \<Longrightarrow>
   known_user d who \<and> find_row sub_name sub (subdeaddits d) \<noteq> None \<and> ttl \<noteq> [] \<and>
   check_rate_limit who True now d = None"
  by (auto simp: validate_post_preflight_def known_user_def split: if_splits)

lemma validate_comment_passed:
  "validate_comment r now d = None \<Longrightarrow>
   known_user d (creq_user r) \<and> find_row item_id (creq_post r) (posts d) \<noteq> None \<and>
   check_rate_limit (creq_user r) False now d = None \<and>
   (case creq_parent r of None \<Rightarrow> True
    | Some q \<Rightarrow> (case find_row item_id q (comments d) of None \<Rightarrow> False | Some par \<Rightarrow> post_id par = creq_post r))"
  by (auto simp: validate_comment_def known_user_def split: if_splits option.splits)

lemma built_post_simps [simp]:
  "item_id (built_post r text now u d) = next_id item_id (posts d)"
  "author (built_post r text now u d) = req_user r" "score (built_post r text now u d) = req_score r"
  "vote_count (built_post r text now u d) = 0" "title (built_post r text now u d) = process_post_title (req_title r)"
  "created_at (built_post r text now u d) = (case req_created_at r of None \<Rightarrow> now | Some t \<Rightarrow> t)"
  "comment_cap (built_post r text now u d) = Some (sample_comment_cap u d)"
  by (simp_all add: built_post_def)

lemma built_comment_simps [simp]:
  "item_id (built_comment r now d) = next_id item_id (comments d)"
  "author (built_comment r now d) = creq_user r" "score (built_comment r now d) = creq_score r"
  "vote_count (built_comment r now d) = 0" "post_id (built_comment r now d) = creq_post r"
  "parent_id (built_comment r now d) = creq_parent r"
  "created_at (built_comment r now d) = (case creq_created_at r of None \<Rightarrow> now | Some t \<Rightarrow> t)"
  by (simp_all add: built_comment_def)

text \<open>The content each creator leaves behind: none on an error, the new rows otherwise.\<close>

lemma screenshot_content:
  "\<exists>is. content_state (attach_website_screenshot pid shot d) = content_state (d\<lparr>images := is\<rparr>)"
proof (cases "list_ex (\<lambda>i. image_post i = pid) (images d)")
  case True
  then show ?thesis by (intro exI [of _ "images d"]) (simp add: attach_website_screenshot_def)
next
  case False
  then show ?thesis
    by (cases shot) (auto simp: attach_website_screenshot_def intro: exI [of _ "images d"])
qed

lemma content_update_images:
  "content_state d = content_state d' \<Longrightarrow> content_state (d\<lparr>images := is\<rparr>) = content_state (d'\<lparr>images := is\<rparr>)"
  by (simp add: content_state_def)

lemma website_content:
  "\<exists>is. content_state (attach_website_screenshot pid shot (run_post_hooks p now d)) = content_state (d\<lparr>images := is\<rparr>)"
  using screenshot_content [of pid shot "run_post_hooks p now d"] content_update_images [OF hooks_content(1)] by metis

lemma create_user_fresh:
  "\<not> list_ex (\<lambda>u. sql_lower (user_name u) = sql_lower name) us \<Longrightarrow> find_row user_name name us = None"
  by (auto simp: list_ex_iff find_row_None_iff)

text \<open>C31. Creating content keeps the database sound: whichever creator runs, with whatever input
  and outcome, the vote ledger stays exact and no reference dangles: every author and every vote
  target exists, and every reply answers an older comment of its own post. New content starts
  with score 0, which is the default every caller on the request paths uses.\<close>

theorem creators_keep_sound:
  assumes "sound d" and "req_score r = 0" and "creq_score cr = 0"
  shows "sound (snd (create_post r now u d)) \<and> sound (snd (create_image_post r img now u d)) \<and>
    sound (fst (snd (create_website_post r w shot now u (d, files)))) \<and>
    sound (snd (create_comment cr now d)) \<and>
    sound (snd (create_user name ag gend b ints occ edu sty traits mdl troll created d))"
proof (intro conjI)
  have post: "sound (d\<lparr>posts := posts d @ [built_post r t now u d], images := imgs, websites := ws\<rparr>)"
    if "known_user d (req_user r)" for t imgs ws
    using assms that by (intro sound_add_post) simp_all
  note passed = preflight_passed [of "req_title r" _ "req_user r" "req_sub r" _ now d]
  have "sound (d\<lparr>posts := posts d @ [built_post r t now u d]\<rparr>)" if "known_user d (req_user r)" for t
    using post [OF that, where t = t and imgs = "images d" and ws = "websites d"] by simp
  then show "sound (snd (create_post r now u d))"
    using passed assms(1)
    by (auto simp: create_post_def Let_def sound_cong [OF hooks_content(1)] split: option.split)
  have "sound (d\<lparr>posts := posts d @ [built_post r t now u d], images := imgs\<rparr>)" if "known_user d (req_user r)" for t imgs
    using post [OF that, where t = t and imgs = imgs and ws = "websites d"] by simp
  then show "sound (snd (create_image_post r img now u d))"
    using passed assms(1)
    by (auto simp: create_image_post_def Let_def sound_cong [OF hooks_content(1)] split: option.split)
  show "sound (fst (snd (create_website_post r w shot now u (d, files))))"
  proof (cases "validate_post_preflight (req_title r) None (req_user r) (req_sub r) False now d")
    case None
    let ?p = "built_post r (or_none (req_content r)) now u d"
    let ?d = "d\<lparr>posts := posts d @ [?p], websites := websites d @ [w\<lparr>site_id := next_id site_id (websites d), site_post := item_id ?p\<rparr>]\<rparr>"
    have order: "?d\<lparr>images := imgs\<rparr> = d\<lparr>posts := posts d @ [?p], images := imgs, websites := websites ?d\<rparr>" for imgs
      by (cases d) simp
    obtain imgs where "content_state (attach_website_screenshot (item_id ?p) shot (run_post_hooks ?p now ?d)) =
        content_state (?d\<lparr>images := imgs\<rparr>)"
      using website_content by blast
    moreover have "sound (?d\<lparr>images := imgs\<rparr>)"
      unfolding order by (rule post) (use passed [OF None] in blast)
    ultimately have "sound (attach_website_screenshot (item_id ?p) shot (run_post_hooks ?p now ?d))"
      using sound_cong by blast
    with None assms(1) show ?thesis by (simp add: create_website_post_def Let_def)
  qed (simp add: create_website_post_def assms(1))
  show "sound (snd (create_comment cr now d))"
  proof (cases "validate_comment cr now d")
    case None
    note ok = validate_comment_passed [OF None]
    have "reply_ok (comments d) (built_comment cr now d)"
    proof (cases "creq_parent cr")
      case (Some q)
      then obtain par where par: "find_row item_id q (comments d) = Some par" "post_id par = creq_post cr"
        using ok by (auto split: option.splits)
      then have "q < next_id item_id (comments d)" using find_row_SomeD next_id_gt by metis
      with Some par show ?thesis by (simp add: reply_ok_def)
    qed (simp add: reply_ok_def)
    then have "sound (d\<lparr>comments := comments d @ [built_comment cr now d]\<rparr>)"
      using assms ok by (intro sound_add_comment) simp_all
    with None show ?thesis by (simp add: create_comment_def Let_def sound_cong [OF hooks_content(2)])
  qed (simp add: create_comment_def assms(1))
  show "sound (snd (create_user name ag gend b ints occ edu sty traits mdl troll created d))"
  proof (cases "list_ex (\<lambda>u. sql_lower (user_name u) = sql_lower name) (users d)")
    case False
    then show ?thesis
      unfolding create_user_def Let_def if_not_P [OF False] snd_conv
      by (intro sound_add_user [OF assms(1)]) (simp_all add: create_user_fresh)
  qed (simp add: create_user_def assms(1))
qed

definition content_demo :: db where
  "content_demo = vote_demo\<lparr>subdeaddits := [\<lparr>sub_name = ''test'', sub_description = ''d'', sub_post_types = ''[]'',
     sub_created_at = None\<rparr>]\<rparr>"

definition demo_request :: post_request where
  "demo_request = \<lparr>req_title = ''a reddit post'', req_content = Some ''text'', req_user = ''bob'', req_sub = ''test'',
     req_score = 0, req_model = ''agent:bob'', req_llm_model = None, req_post_type = None, req_created_at = None\<rparr>"

definition demo_reply :: comment_request where
  "demo_reply = \<lparr>creq_post = 7, creq_content = ''hello'', creq_user = ''cy'', creq_parent = None,
     creq_score = 0, creq_model = ''agent:cy'', creq_llm_model = None, creq_created_at = None\<rparr>"

lemma content_demo_sound: "sound content_demo"
  by code_simp

theorem creators_keep_sound_witness:
  "sound (snd (create_post demo_request 9 0 content_demo)) \<and>
   sound (snd (create_comment demo_reply 9 content_demo)) \<and>
   length (comments (snd (create_comment demo_reply 9 content_demo))) = 1"
proof -
  have "length (comments (snd (create_comment demo_reply 9 content_demo))) = 1" by code_simp
  then show ?thesis
    using creators_keep_sound [OF content_demo_sound, of demo_request demo_reply 9 0]
    by (simp add: demo_request_def demo_reply_def)
qed

section \<open>The rate limits\<close>

text \<open>Nobody has more than \<open>limit\<close> items within any hour that ends with one of them.\<close>

definition within_hour :: "'a item_scheme list \<Rightarrow> 'a item_scheme \<Rightarrow> int" where
  "within_hour is i =
     count_rows (\<lambda>j. author j = author i \<and> created_at i - hours 1 \<le> created_at j \<and> created_at j \<le> created_at i) is"

definition paced :: "int \<Rightarrow> 'a item_scheme list \<Rightarrow> bool" where
  "paced limit is = list_all (\<lambda>i. within_hour is i \<le> limit) is"

lemma hours_pos [simp]: "0 \<le> k \<Longrightarrow> 0 \<le> hours k"
  by (simp add: duration_defs)

lemma paced_append:
  assumes "paced limit is" and "\<forall>j \<in> set is. created_at j \<le> now" and "created_at i = now"
    and "recent_count (author i) now is < limit"
  shows "paced limit (is @ [i])"
proof -
  have new: "within_hour (is @ [i]) k = recent_count (author i) now is + 1"
    if "author k = author i" "created_at k = now" for k
  proof -
    have "count_rows (\<lambda>j. author j = author i \<and> now - hours 1 \<le> created_at j \<and> created_at j \<le> now) is =
        recent_count (author i) now is"
      using assms(2) by (auto simp: recent_count_def intro!: count_rows_cong)
    with that assms(3) show ?thesis by (simp add: within_hour_def)
  qed
  have "within_hour (is @ [i]) j \<le> limit" if "j \<in> set is" for j
  proof (cases "author j = author i \<and> created_at j = now")
    case True
    with new assms(4) show ?thesis by auto
  next
    case False
    with that assms(2,3) have "within_hour (is @ [i]) j = within_hour is j" by (auto simp: within_hour_def)
    with that assms(1) show ?thesis by (simp add: paced_def list_all_iff)
  qed
  with new [OF refl assms(3)] assms(4) show ?thesis by (simp add: paced_def list_all_iff)
qed

lemma rate_limit_passed:
  "check_rate_limit who True now d = None \<Longrightarrow> 0 \<le> hourly_limit True d \<Longrightarrow> recent_count who now (posts d) < hourly_limit True d"
  "check_rate_limit who False now d = None \<Longrightarrow> 0 \<le> hourly_limit False d \<Longrightarrow> recent_count who now (comments d) < hourly_limit False d"
  by (simp_all add: check_rate_limit_def Let_def split: if_splits)

lemma hook_posts_comments [simp]:
  "posts (run_post_hooks p now d) = posts d" "comments (run_post_hooks p now d) = comments d"
  "posts (run_comment_hooks c now d) = posts d" "comments (run_comment_hooks c now d) = comments d"
  using post_hooks.hook_posts [of "(p, now)" d] post_hooks.hook_comments [of "(p, now)" d]
    comment_hooks.hook_posts [of "(c, now)" d] comment_hooks.hook_comments [of "(c, now)" d] by simp_all

lemma screenshot_posts [simp]: "posts (attach_website_screenshot pid shot d) = posts d"
  by (simp add: attach_website_screenshot_def split: option.split)

text \<open>The posts each creator leaves: the same, or one more that passed the checks.\<close>

lemma created_posts:
  "posts (snd (create_post r now u d)) = posts d \<or>
     (\<exists>t. posts (snd (create_post r now u d)) = posts d @ [built_post r t now u d] \<and>
       check_rate_limit (req_user r) True now d = None)"
  "posts (snd (create_image_post r img now u d)) = posts d \<or>
     (\<exists>t. posts (snd (create_image_post r img now u d)) = posts d @ [built_post r t now u d] \<and>
       check_rate_limit (req_user r) True now d = None)"
  "posts (fst (snd (create_website_post r w shot now u (d, files)))) = posts d \<or>
     (\<exists>t. posts (fst (snd (create_website_post r w shot now u (d, files)))) = posts d @ [built_post r t now u d] \<and>
       check_rate_limit (req_user r) True now d = None)"
  by (auto simp: create_post_def create_image_post_def create_website_post_def Let_def
      dest!: preflight_passed split: option.split)

text \<open>C33. The hourly limits bind across all creators: if nobody has exceeded them, then after any
  text, image or website post, whatever its outcome, no user has more posts within an hour than
  the configured limit, and after any comment no more comments. Negative limits disable the
  check; content without an explicit creation date is dated now, and nothing is in the future.\<close>

theorem hourly_limits_bind:
  assumes "0 \<le> hourly_limit True d" and "0 \<le> hourly_limit False d"
    and "paced (hourly_limit True d) (posts d)" and "paced (hourly_limit False d) (comments d)"
    and "\<forall>p \<in> set (posts d). created_at p \<le> now" and "\<forall>c \<in> set (comments d). created_at c \<le> now"
    and "req_created_at r = None" and "creq_created_at cr = None"
  shows "paced (hourly_limit True d) (posts (snd (create_post r now u d))) \<and>
    paced (hourly_limit True d) (posts (snd (create_image_post r img now u d))) \<and>
    paced (hourly_limit True d) (posts (fst (snd (create_website_post r w shot now u (d, files))))) \<and>
    paced (hourly_limit False d) (comments (snd (create_comment cr now d)))"
proof (intro conjI)
  have post: "paced (hourly_limit True d) (posts d @ [built_post r t now u d])"
    if "check_rate_limit (req_user r) True now d = None" for t
    using assms rate_limit_passed(1) [OF that] by (intro paced_append [where now = now]) simp_all
  show "paced (hourly_limit True d) (posts (snd (create_post r now u d)))"
    using created_posts(1) [of r now u d] post assms(3) by auto
  show "paced (hourly_limit True d) (posts (snd (create_image_post r img now u d)))"
    using created_posts(2) [of r img now u d] post assms(3) by auto
  show "paced (hourly_limit True d) (posts (fst (snd (create_website_post r w shot now u (d, files)))))"
    using created_posts(3) [of r w shot now u d files] post assms(3) by auto
  show "paced (hourly_limit False d) (comments (snd (create_comment cr now d)))"
  proof (cases "validate_comment cr now d")
    case None
    then have "check_rate_limit (creq_user cr) False now d = None" using validate_comment_passed by blast
    then have "paced (hourly_limit False d) (comments d @ [built_comment cr now d])"
      using assms rate_limit_passed(2) by (intro paced_append [where now = now]) simp_all
    with None show ?thesis by (simp add: create_comment_def Let_def)
  qed (simp add: create_comment_def assms(4))
qed

theorem hourly_limits_bind_witness:
  "paced 5 (posts (snd (create_post demo_request 9 0 content_demo)))"
proof -
  have "hourly_limit True content_demo = 5" and "hourly_limit False content_demo = 30" by code_simp+
  moreover have "paced 5 (posts content_demo)" and "paced 30 (comments content_demo)" by code_simp+
  moreover have "\<forall>p \<in> set (posts content_demo). created_at p \<le> 9" and "comments content_demo = []" by code_simp+
  ultimately show ?thesis
    using hourly_limits_bind [of content_demo 9 demo_request demo_reply 0]
    by (simp add: demo_request_def demo_reply_def)
qed

section \<open>Publication is all or nothing\<close>

lemma hook_tables [simp]:
  "images (run_post_hooks p now d) = images d" "websites (run_post_hooks p now d) = websites d"
  "websites (attach_website_screenshot pid shot d) = websites d"
  using post_hooks.hook_images [of "(p, now)" d] post_hooks.hook_websites [of "(p, now)" d]
  by (simp_all add: attach_website_screenshot_def split: option.split)

text \<open>Publication is all or nothing. A failed image or website post leaves the database as
  it was, and for a website also removes the stored file; a successful one leaves exactly one
  new post with exactly one image row, respectively one website row carrying the stored paths,
  and keeps the file. And what the preflight rejects before the generation is paid for is
  exactly what the creation would reject in that state.\<close>

lemma publication_atomic:
  "(case create_website_post r w shot now u (d, files) of
      (Inl e, d', files') \<Rightarrow> d' = d \<and> files' = removeAll (storage_path w) files
    | (Inr p, d', files') \<Rightarrow> files' = files \<and> posts d' = posts d @ [p] \<and>
        websites d' = websites d @ [w\<lparr>site_id := next_id site_id (websites d), site_post := item_id p\<rparr>]) \<and>
   (case create_image_post r img now u d of
      (Inl e, d') \<Rightarrow> d' = d
    | (Inr p, d') \<Rightarrow> posts d' = posts d @ [p] \<and> images d' = images d @ [img\<lparr>image_post := item_id p\<rparr>]) \<and>
   (preflight_image_post (req_user r) (req_sub r) (req_title r) now d = Some (Validation_Error m) \<longleftrightarrow>
      fst (create_image_post r img now u d) = Inl (Validation_Error m)) \<and>
   (preflight_website_post (req_user r) (req_sub r) (req_title r) now d = Some (Validation_Error m) \<longleftrightarrow>
      fst (create_website_post r w shot now u (d, files)) = Inl (Validation_Error m))"
  by (auto simp: create_website_post_def create_image_post_def preflight_image_post_def
      preflight_website_post_def Let_def split: option.split)

section \<open>The comment cap\<close>

lemma py_round_between: "of_int a \<le> x \<Longrightarrow> x \<le> of_int b \<Longrightarrow> a \<le> py_round x \<and> py_round x \<le> b"
proof -
  assume x: "of_int a \<le> x" "x \<le> of_int b"
  have "a \<le> floor x" using x(1) by (simp add: le_floor_iff)
  moreover have "floor x \<le> b" using x(2) by linarith
  moreover have "floor x < b" if "\<not> x - of_int (floor x) < 1 / 2" using that x(2) by linarith
  ultimately show ?thesis by (auto simp: py_round_def Let_def)
qed

lemma triangular_between:
  assumes "low < high" and "0 \<le> u" and "u \<le> 1"
  shows "low \<le> triangular u low high (low + (high - low) * (1 / 4)) \<and>
    triangular u low high (low + (high - low) * (1 / 4)) \<le> high"
proof -
  have c: "(low + (high - low) * (1 / 4) - low) / (high - low) = 1 / 4" using assms(1) by simp
  have unit: "0 \<le> s * (high - low)" "s * (high - low) \<le> high - low" if "0 \<le> s" "s \<le> 1" for s
    using that assms(1) by (simp_all add: mult_left_le_one_le)
  have root: "0 \<le> sqrt (a * b)" "sqrt (a * b) \<le> 1" if "0 \<le> a" "a \<le> 1" "0 \<le> b" "b \<le> 1" for a b
    using that by (simp_all add: mult_le_one)
  have "low \<le> high + (low - high) * s \<and> high + (low - high) * s \<le> high"
    if "0 \<le> s" "s \<le> 1" for s using unit [OF that] by (simp add: algebra_simps)
  moreover have "low \<le> low + (high - low) * s \<and> low + (high - low) * s \<le> high"
    if "0 \<le> s" "s \<le> 1" for s using unit [OF that] by (simp add: algebra_simps)
  ultimately show ?thesis
    unfolding triangular_def c Let_def using assms(2,3) root by simp
qed

text \<open>The popularity lottery respects its bounds: every draw gives a cap between the
  configured minimum and maximum, both taken as at least 1 whatever the settings hold; an
  inverted range collapses to the minimum. Every created post carries such a cap.\<close>

theorem sample_comment_cap_bounds:
  assumes "0 \<le> u" and "u \<le> 1"
  shows "1 \<le> sample_comment_cap u d \<and>
    setting_int ''thread_comment_cap_min'' 20 1 d \<le> sample_comment_cap u d \<and>
    sample_comment_cap u d \<le> max (setting_int ''thread_comment_cap_min'' 20 1 d)
      (setting_int ''thread_comment_cap_max'' 39 1 d) \<and>
    list_all (\<lambda>p. comment_cap p = Some (sample_comment_cap u d))
      (drop (length (posts d)) (posts (snd (create_post r now u d))))"
proof -
  let ?lo = "setting_int ''thread_comment_cap_min'' 20 1 d" and ?hi = "setting_int ''thread_comment_cap_max'' 39 1 d"
  have "1 \<le> ?lo" by (simp add: setting_int_def split: option.split)
  moreover have "?lo \<le> sample_comment_cap u d \<and> sample_comment_cap u d \<le> max ?lo ?hi"
  proof (cases "?hi \<le> ?lo")
    case False
    then have "(of_int ?lo :: real) < of_int ?hi" by simp
    from py_round_between [of ?lo "triangular u (of_int ?lo) (of_int ?hi) (of_int ?lo + (of_int ?hi - of_int ?lo) * (1 / 4))" ?hi]
      triangular_between [OF this assms] False show ?thesis
      by (simp add: sample_comment_cap_def Let_def)
  qed (simp add: sample_comment_cap_def Let_def)
  ultimately show ?thesis using created_posts(1) [of r now u d] by auto
qed

theorem sample_comment_cap_bounds_witness:
  "1 \<le> sample_comment_cap (1 / 3) content_demo \<and> sample_comment_cap (1 / 3) content_demo \<le> 39"
proof -
  have "setting_int ''thread_comment_cap_min'' 20 1 content_demo = 20"
    and "setting_int ''thread_comment_cap_max'' 39 1 content_demo = 39" by code_simp+
  then show ?thesis using sample_comment_cap_bounds [of "1 / 3" content_demo] by simp
qed

end
