(* ===== verification/Settings.thy ===== *)
theory Settings
  imports Store
begin

text \<open>
  \<open>deaddit/config.py\<close> with the process-local cache of \<open>deaddit/settings/service.py\<close>: how a
  configuration value is resolved, which keys may be stored, and how stale a read can be.
  A process has the database, its environment and its cache; times are microseconds of the
  monotonic clock.
\<close>

section \<open>Keys\<close>

definition SECRET_KEYS :: "string list" where
  "SECRET_KEYS = [''API_TOKEN'', ''SECRET_KEY'', ''OPENAI_KEY'']"

definition DEPLOY_KEYS :: "string list" where
  "DEPLOY_KEYS = [''PRODUCTION'']"

definition is_secret_key :: "string \<Rightarrow> bool" where
  "is_secret_key k = (k \<in> set SECRET_KEYS \<or> starts_with ''API_KEY_'' k)"

definition is_deploy_key :: "string \<Rightarrow> bool" where
  "is_deploy_key k = (k \<in> set DEPLOY_KEYS)"

definition DEFAULTS :: "(string \<times> string option) list" where
  "DEFAULTS =
     [(''OPENAI_API_URL'', Some ''http://localhost/v1''), (''OPENAI_KEY'', None),
      (''OPENAI_MODEL'', Some ''llama3''), (''SECRET_KEY'', Some ''dev-secret-key-change-in-production''),
      (''API_TOKEN'', None), (''PRODUCTION'', Some ''false''), (''SEED_VOTE_MAX'', Some ''150''),
      (''SEED_VOTE_PROBABILITY'', Some ''1.0''), (''SEED_DECAY_DAYS'', Some ''30''), (''SEED_ANCHOR_AT'', None),
      (''AGENT_RUNTIME_ENABLED'', Some ''false''), (''NIGHT_LULL_ENABLED'', Some ''true''),
      (''NIGHT_LULL_START_HOUR'', Some ''1''), (''NIGHT_LULL_END_HOUR'', Some ''7''),
      (''NIGHT_LULL_DELAY_MULTIPLIER'', Some ''4.0''), (''WEBSITE_MAX_OUTPUT_TOKENS'', Some ''32768''),
      (''WEBSITE_GENERATION_TIMEOUT_SECONDS'', Some ''300''), (''WEBSITE_MAX_HTML_BYTES'', Some ''1048576''),
      (''WEBSITE_BANNED_WORDS'', Some ''ledger''),
      (''IMAGE_BANNED_WORDS'', Some (''paper, logbook, notebook, notepad, journal, diary, receipt, '' @
        ''ledger, document, paperwork, clipboard, flyer, pamphlet, leaflet, '' @
        ''printout, invoice, manuscript, parchment, note, handwritten'')),
      (''TROLL_USER_CHANCE'', Some ''0.1''), (''HUMAN_ACCOUNTS_ENABLED'', Some ''true'')]"

definition default_value :: "string \<Rightarrow> string option" where
  "default_value k = (case map_of DEFAULTS k of None \<Rightarrow> None | Some v \<Rightarrow> v)"

section \<open>The process\<close>

record process =
  proc_db :: db
  environ :: "string \<rightharpoonup> string"
  setting_cache :: "string \<rightharpoonup> timestamp \<times> string option"
  ttl :: int

definition first_some :: "'a option \<Rightarrow> 'a option \<Rightarrow> 'a option" where
  "first_some a b = (case a of None \<Rightarrow> b | Some _ \<Rightarrow> a)"

text \<open>The resolution of an ordinary key: database, environment, default.\<close>

definition resolve_setting :: "string \<Rightarrow> process \<Rightarrow> string option" where
  "resolve_setting k p =
     first_some (setting_get k None (proc_db p)) (first_some (environ p k) (default_value k))"

definition cached_setting :: "string \<Rightarrow> timestamp \<Rightarrow> process \<Rightarrow> string option \<times> process" where
  "cached_setting k now p =
     (case setting_cache p k of
        Some (expiry, v) \<Rightarrow>
          if now < expiry then (v, p)
          else (resolve_setting k p,
                p\<lparr>setting_cache := (setting_cache p)(k \<mapsto> (now + ttl p, resolve_setting k p))\<rparr>)
      | None \<Rightarrow> (resolve_setting k p,
                p\<lparr>setting_cache := (setting_cache p)(k \<mapsto> (now + ttl p, resolve_setting k p))\<rparr>))"

definition invalidate :: "string \<Rightarrow> process \<Rightarrow> process" where
  "invalidate k p = p\<lparr>setting_cache := (setting_cache p)(k := None)\<rparr>"

definition get_from_environment :: "string \<Rightarrow> string option \<Rightarrow> process \<Rightarrow> string option" where
  "get_from_environment k dflt p = first_some (environ p k) (first_some (default_value k) dflt)"

definition config_get :: "string \<Rightarrow> string option \<Rightarrow> timestamp \<Rightarrow> process \<Rightarrow> string option \<times> process" where
  "config_get k dflt now p =
     (if is_secret_key k \<or> is_deploy_key k then (get_from_environment k dflt p, p)
      else (case cached_setting k now p of (v, p') \<Rightarrow> (first_some v dflt, p')))"

datatype config_error = Secret_Not_Persistable | Deploy_Flag_Not_Persistable

definition refuse_key :: "string \<Rightarrow> config_error option" where
  "refuse_key k =
     (if is_secret_key k then Some Secret_Not_Persistable
      else if is_deploy_key k then Some Deploy_Flag_Not_Persistable else None)"

definition store_setting :: "string \<Rightarrow> string option \<Rightarrow> process \<Rightarrow> process" where
  "store_setting k v p = invalidate k (p\<lparr>proc_db := setting_set k v (proc_db p)\<rparr>)"

definition config_set :: "string \<Rightarrow> string \<Rightarrow> process \<Rightarrow> config_error option \<times> process" where
  "config_set k v p =
     (case refuse_key k of Some e \<Rightarrow> (Some e, p) | None \<Rightarrow> (None, store_setting k (Some v) p))"

definition config_set_many :: "(string \<times> string) list \<Rightarrow> process \<Rightarrow> config_error option \<times> process" where
  "config_set_many kvs p =
     (case List.map_filter (refuse_key \<circ> fst) kvs of
        e # _ \<Rightarrow> (Some e, p)
      | [] \<Rightarrow> (None, fold (\<lambda>(k, v). store_setting k (Some v)) kvs p))"

definition drop_setting :: "string \<Rightarrow> process \<Rightarrow> process" where
  "drop_setting k p =
     (if settings (proc_db p) k = None then p
      else invalidate k (p\<lparr>proc_db := (proc_db p)\<lparr>settings := (settings (proc_db p))(k := None)\<rparr>\<rparr>))"

definition initialize_default :: "string \<times> string option \<Rightarrow> process \<Rightarrow> process" where
  "initialize_default kv p =
     (case kv of (k, v) \<Rightarrow>
        if is_secret_key k \<or> is_deploy_key k then p
        else if settings (proc_db p) k \<noteq> None then p
        else if environ p k \<noteq> None then p
        else store_setting k v p)"

definition initialize_defaults :: "process \<Rightarrow> process" where
  "initialize_defaults p = fold initialize_default DEFAULTS (fold drop_setting DEPLOY_KEYS p)"

definition config_source :: "string \<Rightarrow> process \<Rightarrow> string" where
  "config_source k p =
     (if is_secret_key k \<or> is_deploy_key k then
        (if environ p k \<noteq> None then ''environment''
         else if default_value k \<noteq> None then ''default'' else ''none'')
      else if setting_get k None (proc_db p) \<noteq> None then ''database''
      else if environ p k \<noteq> None then ''environment''
      else if k \<in> set (map fst DEFAULTS) then ''default'' else ''none'')"

definition has_value :: "string option \<Rightarrow> bool" where
  "has_value v = (case v of None \<Rightarrow> False | Some s \<Rightarrow> py_strip s \<noteq> [])"

text \<open>What the settings page shows: the value of every key, with secrets masked.\<close>

definition shown_setting :: "string \<Rightarrow> timestamp \<Rightarrow> process \<Rightarrow> string option \<times> process" where
  "shown_setting k now p =
     (if is_secret_key k
      then (Some (if has_value (get_from_environment k None p) then ''***set***'' else ''***not set***''), p)
      else config_get k None now p)"

fun all_settings :: "string list \<Rightarrow> timestamp \<Rightarrow> process \<Rightarrow> (string \<times> string option \<times> string) list \<times> process" where
  "all_settings [] now p = ([], p)"
| "all_settings (k # ks) now p =
     (case shown_setting k now p of (v, p') \<Rightarrow>
      case all_settings ks now p' of (rows, p'') \<Rightarrow> ((k, v, config_source k p) # rows, p''))"

definition get_all_settings :: "timestamp \<Rightarrow> process \<Rightarrow> (string \<times> string option \<times> string) list \<times> process" where
  "get_all_settings now p = all_settings (map fst DEFAULTS) now p"

definition is_api_token_set :: "timestamp \<Rightarrow> process \<Rightarrow> bool" where
  "is_api_token_set now p = has_value (fst (config_get ''API_TOKEN'' None now p))"

section \<open>Properties\<close>

definition no_protected_rows :: "process \<Rightarrow> bool" where
  "no_protected_rows p = (\<forall>k. settings (proc_db p) k \<noteq> None \<longrightarrow> refuse_key k = None)"

lemma store_setting_rows [simp]:
  "settings (proc_db (store_setting k v p)) = (settings (proc_db p))(k \<mapsto> v)"
  "environ (store_setting k v p) = environ p" "ttl (store_setting k v p) = ttl p"
  by (simp_all add: store_setting_def invalidate_def setting_set_def)

lemma store_many_rows:
  "settings (proc_db (fold (\<lambda>(k, v). store_setting k (Some v)) kvs p)) k \<noteq> None \<Longrightarrow>
   settings (proc_db p) k \<noteq> None \<or> k \<in> fst ` set kvs"
proof (induction kvs arbitrary: p)
  case (Cons kv kvs)
  from Cons.IH [of "store_setting (fst kv) (Some (snd kv)) p"] Cons.prems show ?case
    by (cases kv) (auto split: if_splits)
qed simp

lemma initialize_fold_rows:
  "settings (proc_db (fold initialize_default kvs p)) k \<noteq> None \<Longrightarrow>
   settings (proc_db p) k \<noteq> None \<or> refuse_key k = None"
proof (induction kvs arbitrary: p)
  case (Cons kv kvs)
  from Cons.IH [of "initialize_default kv p"] Cons.prems show ?case
    by (cases kv) (auto simp: initialize_default_def refuse_key_def split: if_splits)
qed simp

definition demo_process :: process where
  "demo_process = \<lparr>proc_db = empty_db, environ = [''API_TOKEN'' \<mapsto> ''token''],
     setting_cache = [''OPENAI_MODEL'' \<mapsto> (15, Some ''old'')], ttl = 10\<rparr>"

text \<open>Credentials and deploy flags live in the environment only. Reading one gives the same
  value whatever the database and the cache hold; no way of writing settings ever stores one,
  a batch with a protected key stores nothing at all; initialisation removes a stale deploy
  row; and the settings page never shows a credential.\<close>

theorem protected_keys_environment_only:
  "(is_secret_key k \<or> is_deploy_key k \<longrightarrow>
      fst (config_get k dflt now (p\<lparr>proc_db := d, setting_cache := c\<rparr>)) = fst (config_get k dflt now p)) \<and>
   (no_protected_rows p \<longrightarrow>
      no_protected_rows (snd (config_set k v p)) \<and> no_protected_rows (snd (config_set_many kvs p)) \<and>
      no_protected_rows (initialize_defaults p)) \<and>
   (list_ex (\<lambda>kv. refuse_key (fst kv) \<noteq> None) kvs \<longrightarrow> snd (config_set_many kvs p) = p) \<and>
   settings (proc_db (initialize_defaults p)) ''PRODUCTION'' = None \<and>
   (is_secret_key k \<longrightarrow> fst (shown_setting k now p) \<in> {Some ''***set***'', Some ''***not set***''})"
proof (intro conjI impI)
  have many: "k \<in> fst ` set kvs \<Longrightarrow> List.map_filter (refuse_key \<circ> fst) kvs = [] \<Longrightarrow> refuse_key k = None" for k
    by (auto simp: List.map_filter_def filter_empty_conv)
  show "fst (config_get k dflt now (p\<lparr>proc_db := d, setting_cache := c\<rparr>)) = fst (config_get k dflt now p)"
    if "is_secret_key k \<or> is_deploy_key k"
    using that by (simp add: config_get_def get_from_environment_def)
  assume none: "no_protected_rows p"
  then show "no_protected_rows (snd (config_set k v p))"
    by (auto simp: no_protected_rows_def config_set_def split: option.split if_splits)
  show "no_protected_rows (snd (config_set_many kvs p))"
  proof (cases "List.map_filter (refuse_key \<circ> fst) kvs")
    case Nil
    show ?thesis
      unfolding no_protected_rows_def config_set_many_def Nil list.case snd_conv
      using none many [OF _ Nil] store_many_rows [of kvs p] unfolding no_protected_rows_def by metis
  qed (simp add: config_set_many_def none)
  have "settings (proc_db (fold drop_setting ks q)) j \<noteq> None \<Longrightarrow> settings (proc_db q) j \<noteq> None" for ks q j
  proof (induction ks arbitrary: q)
    case (Cons x ks)
    from Cons.IH [of "drop_setting x q"] Cons.prems show ?case
      by (auto simp: drop_setting_def invalidate_def split: if_splits)
  qed simp
  then show "no_protected_rows (initialize_defaults p)"
    using none initialize_fold_rows unfolding no_protected_rows_def initialize_defaults_def by blast
next
  assume "list_ex (\<lambda>kv. refuse_key (fst kv) \<noteq> None) kvs"
  then have "List.map_filter (refuse_key \<circ> fst) kvs \<noteq> []"
    by (induction kvs) (auto simp: List.map_filter_def)
  then show "snd (config_set_many kvs p) = p" by (auto simp: config_set_many_def split: list.split)
next
  have "settings (proc_db (fold drop_setting DEPLOY_KEYS p)) ''PRODUCTION'' = None"
    by (simp add: DEPLOY_KEYS_def drop_setting_def invalidate_def)
  moreover have "refuse_key ''PRODUCTION'' \<noteq> None" by code_simp
  ultimately show "settings (proc_db (initialize_defaults p)) ''PRODUCTION'' = None"
    unfolding initialize_defaults_def by (meson initialize_fold_rows)
next
  assume "is_secret_key k"
  then show "fst (shown_setting k now p) \<in> {Some ''***set***'', Some ''***not set***''}"
    by (simp add: shown_setting_def)
qed

theorem protected_keys_environment_only_witness:
  "fst (config_get ''API_TOKEN'' None 0 (demo_process\<lparr>proc_db := setting_set ''API_TOKEN'' (Some ''stolen'') empty_db,
      setting_cache := Map.empty\<rparr>)) = Some ''token'' \<and>
   no_protected_rows (initialize_defaults demo_process) \<and>
   snd (config_set_many [(''OPENAI_MODEL'', ''m''), (''API_KEY_GROQ'', ''k'')] demo_process) = demo_process \<and>
   fst (shown_setting ''API_TOKEN'' 0 demo_process) \<noteq> Some ''token''"
proof -
  have token: "is_secret_key ''API_TOKEN''" by code_simp
  have own: "fst (config_get ''API_TOKEN'' None 0 demo_process) = Some ''token''"
    by (simp add: config_get_def token get_from_environment_def demo_process_def first_some_def)
  have rows: "no_protected_rows demo_process" by (simp add: no_protected_rows_def demo_process_def empty_db_def)
  have bad: "list_ex (\<lambda>kv. refuse_key (fst kv) \<noteq> None) [(''OPENAI_MODEL'', ''m''), (''API_KEY_GROQ'', ''k'')]"
    by code_simp
  show ?thesis
    using protected_keys_environment_only [where k = "''API_TOKEN''" and dflt = None and now = 0 and p = demo_process
        and d = "setting_set ''API_TOKEN'' (Some ''stolen'') empty_db" and c = Map.empty
        and kvs = "[(''OPENAI_MODEL'', ''m''), (''API_KEY_GROQ'', ''k'')]"] token own rows bad
    by auto
qed

text \<open>Cross-process staleness is bounded: if another process stored a value at time \<open>t\<close>, when
  this one's cache held only entries resolved by then, every read from \<open>t + ttl\<close> on returns the
  new value; and a process reads its own writes at once.\<close>

theorem setting_staleness_bounded:
  assumes "\<not> is_secret_key k" and "\<not> is_deploy_key k"
    and "\<forall>j e v. setting_cache p j = Some (e, v) \<longrightarrow> e \<le> t + ttl p" and "t + ttl p \<le> now"
  shows "fst (config_get k dflt now (p\<lparr>proc_db := setting_set k (Some new) (proc_db p)\<rparr>)) = Some new \<and>
    fst (config_get k dflt t (snd (config_set k own p))) = Some own"
proof
  have "setting_cache p k = None \<or> (\<exists>e v. setting_cache p k = Some (e, v) \<and> \<not> now < e)"
    using assms(3) [rule_format, of k] assms(4) by (cases "setting_cache p k") fastforce+
  then show "fst (config_get k dflt now (p\<lparr>proc_db := setting_set k (Some new) (proc_db p)\<rparr>)) = Some new"
    using assms(1,2)
    by (auto simp: config_get_def cached_setting_def resolve_setting_def setting_get_set first_some_def)
  show "fst (config_get k dflt t (snd (config_set k own p))) = Some own"
    using assms(1,2)
    by (simp add: config_get_def cached_setting_def resolve_setting_def setting_get_set first_some_def
        config_set_def refuse_key_def store_setting_def invalidate_def)
qed

theorem setting_staleness_bounded_witness:
  "fst (config_get ''OPENAI_MODEL'' None 15 (demo_process\<lparr>proc_db := setting_set ''OPENAI_MODEL'' (Some ''new'') empty_db\<rparr>)) =
     Some ''new'' \<and>
   fst (config_get ''OPENAI_MODEL'' None 12 (demo_process\<lparr>proc_db := setting_set ''OPENAI_MODEL'' (Some ''new'') empty_db\<rparr>)) =
     Some ''old''"
proof
  have "\<not> is_secret_key ''OPENAI_MODEL''" and "\<not> is_deploy_key ''OPENAI_MODEL''" by code_simp+
  then show "fst (config_get ''OPENAI_MODEL'' None 15
      (demo_process\<lparr>proc_db := setting_set ''OPENAI_MODEL'' (Some ''new'') empty_db\<rparr>)) = Some ''new''"
    using setting_staleness_bounded [of "''OPENAI_MODEL''" demo_process 5 15 None "''new''"]
    by (simp add: demo_process_def)
  show "fst (config_get ''OPENAI_MODEL'' None 12
      (demo_process\<lparr>proc_db := setting_set ''OPENAI_MODEL'' (Some ''new'') empty_db\<rparr>)) = Some ''old''"
    by (simp add: config_get_def cached_setting_def demo_process_def first_some_def
        is_secret_key_def is_deploy_key_def SECRET_KEYS_def DEPLOY_KEYS_def)
qed

end
