(* ===== verification/Accounts.thy ===== *)
theory Accounts
  imports Settings Render Content
begin

text \<open>
  \<open>deaddit/human_auth.py\<close>: registration, sign-in and the session of human users. The request
  sees the process (database, environment, cache) and its session; the password hash of
  Werkzeug is a pair of parameters, of which only this is used: a generated hash accepts
  exactly its own password.
\<close>

record web_state =
  web_process :: process
  session_user :: "username option"
  g_human :: "user option"

definition TRUTHY_VALUES :: "string list" where
  "TRUTHY_VALUES = [''true'', ''1'', ''yes'', ''on'']"

definition FALSY_VALUES :: "string list" where
  "FALSY_VALUES = [''false'', ''0'', ''no'', ''off'']"

definition human_accounts_enabled :: "timestamp \<Rightarrow> process \<Rightarrow> bool \<times> process" where
  "human_accounts_enabled now p =
     (case environ p ''HUMAN_ACCOUNTS_ENABLED'' of
        Some raw \<Rightarrow> (py_lower (py_strip raw) \<in> set TRUTHY_VALUES, p)
      | None \<Rightarrow>
          (case config_get ''HUMAN_ACCOUNTS_ENABLED'' (Some ''true'') now p of
             (None, p') \<Rightarrow> (False, p')
           | (Some raw, p') \<Rightarrow> (py_lower (py_strip raw) \<in> set TRUTHY_VALUES, p')))"

definition current_human :: "timestamp \<Rightarrow> web_state \<Rightarrow> user option \<times> web_state" where
  "current_human now w =
     (case session_user w of
        None \<Rightarrow> (None, w\<lparr>g_human := None\<rparr>)
      | Some name \<Rightarrow>
          if name = [] then (None, w\<lparr>g_human := None\<rparr>)
          else if (case g_human w of None \<Rightarrow> False | Some u \<Rightarrow> user_name u = name) then (g_human w, w)
          else
            (case find_row user_name name (users (proc_db (web_process w))) of
               None \<Rightarrow> (None, w\<lparr>session_user := None, g_human := None\<rparr>)
             | Some u \<Rightarrow>
                 if \<not> is_human u then (None, w\<lparr>session_user := None, g_human := None\<rparr>)
                 else (case human_accounts_enabled now (web_process w) of
                         (True, p) \<Rightarrow> (Some u, w\<lparr>web_process := p, g_human := Some u\<rparr>)
                       | (False, p) \<Rightarrow> (None, w\<lparr>web_process := p, session_user := None, g_human := None\<rparr>))))"

text \<open>\<open>human_login_required\<close>: not found, a redirect to the sign-in page, or the view.\<close>

datatype gate = Not_Found | To_Login "string option" | Pass user

definition login_gate :: "string \<Rightarrow> timestamp \<Rightarrow> web_state \<Rightarrow> gate \<times> web_state" where
  "login_gate target now w =
     (case human_accounts_enabled now (web_process w) of
        (False, p) \<Rightarrow> (Not_Found, w\<lparr>web_process := p\<rparr>)
      | (True, p) \<Rightarrow>
          (case current_human now (w\<lparr>web_process := p\<rparr>) of
             (None, w') \<Rightarrow> (To_Login (safe_local_next (Some target)), w')
           | (Some u, w') \<Rightarrow> (Pass u, w')))"

definition canonical_name :: "string \<Rightarrow> string" where
  "canonical_name name = py_lower (py_strip name)"

definition valid_name :: "string \<Rightarrow> bool" where
  "valid_name name = (3 \<le> length name \<and> length name \<le> 30 \<and>
     list_all (\<lambda>c. is_lower_ascii c \<or> is_digit c \<or> c = CHR ''_'' \<or> c = CHR ''-'') name)"

definition new_human :: "string \<Rightarrow> string \<Rightarrow> timestamp \<Rightarrow> user" where
  "new_human name hashed now =
     \<lparr>user_name = name, age = None, gender = None, bio = [], interests = ''[]'', occupation = [],
      education = [], writing_style = [], personality_traits = ''[]'', is_troll = False,
      user_model = ''human'', post_karma = 0, comment_karma = 0, user_created_at = Some now,
      agent_state = JObj [], password_hash = Some hashed\<rparr>"

text \<open>The unique index makes the insert fail where the collision check missed a name.\<close>

definition register_human ::
  "(string \<Rightarrow> string) \<Rightarrow> string \<Rightarrow> string \<Rightarrow> string \<Rightarrow> timestamp \<Rightarrow> web_state \<Rightarrow>
   (string + user) \<times> web_state" where
  "register_human generate name pw confirm now w =
     (case human_accounts_enabled now (web_process w) of
        (False, p) \<Rightarrow> (Inl ''Human accounts are disabled'', w\<lparr>web_process := p\<rparr>)
      | (True, p) \<Rightarrow>
          let w = w\<lparr>web_process := p\<rparr>; canonical = canonical_name name; us = users (proc_db p) in
          if \<not> valid_name canonical
          then (Inl (''Username must be between 3 and 30 characters and contain only letters, numbers, '' @
                  ''underscores, and hyphens.''), w)
          else if length pw < 8 \<or> 256 < length pw
          then (Inl ''Password must be between 8 and 256 characters.'', w)
          else if pw \<noteq> confirm then (Inl ''Passwords do not match.'', w)
          else if list_ex (\<lambda>u. sql_lower (user_name u) = canonical) us
          then (Inl ''Username is already taken'', w)
          else if list_ex (\<lambda>u. sql_lower (user_name u) = sql_lower canonical) us
          then (Inl ''Username is already taken'', w)
          else
            (let u = new_human canonical (generate pw) now
             in (Inr u, w\<lparr>web_process := p\<lparr>proc_db := (proc_db p)\<lparr>users := us @ [u]\<rparr>\<rparr>,
                   session_user := Some canonical, g_human := Some u\<rparr>)))"

text \<open>The result carries the hash the password was checked against, dummy or stored.\<close>

definition authenticate_human ::
  "(string \<Rightarrow> string \<Rightarrow> bool) \<Rightarrow> string \<Rightarrow> string \<Rightarrow> string \<Rightarrow> timestamp \<Rightarrow> web_state \<Rightarrow>
   (string + user) \<times> string option \<times> web_state" where
  "authenticate_human check dummy name pw now w =
     (case human_accounts_enabled now (web_process w) of
        (False, p) \<Rightarrow> (Inl ''Human accounts are disabled'', None, w\<lparr>web_process := p\<rparr>)
      | (True, p) \<Rightarrow>
          let w = w\<lparr>web_process := p\<rparr> in
          (case find (\<lambda>u. sql_lower (user_name u) = canonical_name name) (users (proc_db p)) of
             None \<Rightarrow> (Inl ''Invalid username or password'', Some dummy, w)
           | Some u \<Rightarrow>
               (case password_hash u of
                  None \<Rightarrow> (Inl ''Invalid username or password'', Some dummy, w)
                | Some h \<Rightarrow>
                    if h = [] then (Inl ''Invalid username or password'', Some dummy, w)
                    else if \<not> check h pw then (Inl ''Invalid username or password'', Some h, w)
                    else (Inr u, Some h, w\<lparr>session_user := Some (user_name u), g_human := Some u\<rparr>))))"

definition logout_human :: "web_state \<Rightarrow> web_state" where
  "logout_human w = w\<lparr>session_user := None, g_human := None\<rparr>"

section \<open>Properties\<close>

lemma enabled_db [simp]: "proc_db (snd (human_accounts_enabled now p)) = proc_db p"
  by (auto simp: human_accounts_enabled_def config_get_def cached_setting_def split: option.split prod.split)

lemma enabled_pair: "human_accounts_enabled now p = (b, p') \<Longrightarrow> proc_db p' = proc_db p"
  using enabled_db [of now p] by simp

lemma lower_ascii_name: "valid_name name \<Longrightarrow> sql_lower name = name \<and> py_lower name = name \<and> py_strip name = name"
proof -
  assume "valid_name name"
  then have "\<forall>c \<in> set name. is_lower_ascii c \<or> is_digit c \<or> c = CHR ''_'' \<or> c = CHR ''-''"
    by (simp add: valid_name_def list_all_iff)
  then have c: "\<forall>c \<in> set name. \<not> is_upper_ascii c \<and> lower_char c = c \<and> \<not> py_isspace c"
    by (auto simp: is_lower_ascii_def is_digit_def is_upper_ascii_def lower_char_def py_isspace_def Let_def)
  then have "sql_lower name = name" and "py_lower name = name"
    by (auto simp: sql_lower_def py_lower_def intro!: map_idI)
  with c show ?thesis by (simp add: py_strip_no_space)
qed

lemma find_appended: "find P xs = None \<Longrightarrow> P x \<Longrightarrow> find P (xs @ [x]) = Some x"
  by (induction xs) (auto split: if_splits)

text \<open>C37. A registered human can sign in, and only with the password: after a successful
  registration the same name, in any spelling with the same canonical form, and the same
  password open a session as that user; any other password is refused with the very answer an
  unknown name gets, without touching the session; and a refused registration adds no user.\<close>

theorem register_then_authenticate:
  assumes hash: "\<And>p q. check (generate p) q \<longleftrightarrow> p = q" "\<And>p. generate p \<noteq> []"
    and reg: "register_human generate name pw confirm now w = (r, w')"
    and enabled: "fst (human_accounts_enabled later (web_process w'))"
    and same: "canonical_name name' = canonical_name name"
  shows "case r of
      Inl e \<Rightarrow> proc_db (web_process w') = proc_db (web_process w) \<and> session_user w' = session_user w
    | Inr u \<Rightarrow> user_name u = canonical_name name \<and> is_human u \<and> session_user w' = Some (user_name u) \<and>
        fst (authenticate_human check dummy name' pw later w') = Inr u \<and>
        session_user (snd (snd (authenticate_human check dummy name' pw later w'))) = Some (user_name u) \<and>
        (\<forall>bad. bad \<noteq> pw \<longrightarrow>
          fst (authenticate_human check dummy name' bad later w') = Inl ''Invalid username or password'' \<and>
          session_user (snd (snd (authenticate_human check dummy name' bad later w'))) = session_user w')"
proof (cases r)
  case (Inl e)
  with reg show ?thesis
    by (auto simp: register_human_def Let_def split: prod.splits bool.splits if_splits dest: enabled_pair)
next
  case (Inr u)
  from reg Inr obtain p where p: "human_accounts_enabled now (web_process w) = (True, p)"
    and valid: "valid_name (canonical_name name)"
    and fresh: "\<not> list_ex (\<lambda>u. sql_lower (user_name u) = canonical_name name) (users (proc_db p))"
    and u: "u = new_human (canonical_name name) (generate pw) now"
    and w': "w' = w\<lparr>web_process := p\<lparr>proc_db := (proc_db p)\<lparr>users := users (proc_db p) @ [u]\<rparr>\<rparr>,
      session_user := Some (canonical_name name), g_human := Some u\<rparr>"
    by (auto simp: register_human_def Let_def split: prod.splits bool.splits if_splits)
  obtain q where q: "human_accounts_enabled later (web_process w') = (True, q)"
    using enabled by (metis (full_types) prod.collapse)
  have "users (proc_db q) = users (proc_db p) @ [u]" using enabled_pair [OF q] by (simp add: w')
  moreover have "sql_lower (user_name u) = canonical_name name"
    using lower_ascii_name [OF valid] by (simp add: u new_human_def)
  moreover have "find (\<lambda>u. sql_lower (user_name u) = canonical_name name) (users (proc_db p)) = None"
    using fresh by (auto simp: find_None_iff list_ex_iff)
  ultimately have found: "find (\<lambda>u. sql_lower (user_name u) = canonical_name name') (users (proc_db q)) = Some u"
    by (simp add: same find_appended)
  have "password_hash u = Some (generate pw)" by (simp add: u new_human_def)
  with Inr q found hash show ?thesis
    by (simp add: authenticate_human_def Let_def w' u new_human_def is_human_def)
qed

definition demo_web :: web_state where
  "demo_web = \<lparr>web_process = demo_process\<lparr>proc_db := sample_db\<rparr>, session_user = None, g_human = None\<rparr>"

definition demo_hash :: "string \<Rightarrow> string" where
  "demo_hash p = ''pbkdf2:'' @ p"

theorem register_then_authenticate_witness:
  "case register_human demo_hash '' NewUser '' ''longpassword'' ''longpassword'' 5 demo_web of (r, w') \<Rightarrow>
     (\<exists>u. r = Inr u \<and> user_name u = ''newuser'' \<and>
       fst (authenticate_human (\<lambda>h q. h = demo_hash q) ''dummy'' ''NEWUSER'' ''longpassword'' 9 w') = Inr u)"
proof -
  define rw where "rw = register_human demo_hash '' NewUser '' ''longpassword'' ''longpassword'' 5 demo_web"
  have name: "(case fst rw of Inl e \<Rightarrow> [] | Inr u \<Rightarrow> user_name u) = ''newuser''" unfolding rw_def by code_simp
  then obtain u w' where u: "rw = (Inr u, w')" "user_name u = ''newuser''"
    by (cases rw; cases "fst rw") auto
  have "fst (human_accounts_enabled 9 (web_process (snd rw)))" unfolding rw_def by code_simp
  moreover have "canonical_name ''NEWUSER'' = canonical_name '' NewUser ''" by code_simp
  ultimately have "fst (authenticate_human (\<lambda>h q. h = demo_hash q) ''dummy'' ''NEWUSER'' ''longpassword'' 9 w') = Inr u"
    using register_then_authenticate [of "\<lambda>h q. h = demo_hash q" demo_hash "'' NewUser ''" "''longpassword''"
        "''longpassword''" 5 demo_web "Inr u" w' 9 "''NEWUSER''" "''dummy''"] u(1)
    by (simp add: rw_def [symmetric] demo_hash_def)
  with u show ?thesis by (simp add: rw_def [symmetric])
qed

definition fresh_request :: "web_state \<Rightarrow> bool" where
  "fresh_request w = (g_human w = None)"

text \<open>C38. Only a human with a live session passes the gate: the view runs as exactly the stored
  human the session names while accounts are enabled, an account without a password never
  passes and its session is cleared, with accounts disabled nothing is found, and a redirect
  to the sign-in page only carries a return path that stays on the site.\<close>

theorem login_gate_sound:
  assumes "fresh_request w"
  shows "case login_gate target now w of
      (Pass u, w') \<Rightarrow> session_user w = Some (user_name u) \<and> is_human u \<and>
        find_row user_name (user_name u) (users (proc_db (web_process w))) = Some u \<and>
        fst (human_accounts_enabled now (web_process w)) \<and> session_user w' = session_user w
    | (To_Login nxt, w') \<Rightarrow> fst (human_accounts_enabled now (web_process w)) \<and>
        (session_user w = None \<or> session_user w = Some [] \<or> session_user w' = None) \<and>
        (case nxt of None \<Rightarrow> True | Some path \<Rightarrow> path = target \<and> starts_with ''/'' path \<and> \<not> starts_with ''//'' path)
    | (Not_Found, w') \<Rightarrow> \<not> fst (human_accounts_enabled now (web_process w)) \<and> session_user w' = session_user w"
proof -
  have next_local: "case safe_local_next (Some t) of None \<Rightarrow> True
      | Some path \<Rightarrow> path = t \<and> starts_with ''/'' path \<and> \<not> starts_with ''//'' path" for t
    by (simp add: safe_local_next_def del: starts_with.simps)
  obtain b p where p: "human_accounts_enabled now (web_process w) = (b, p)" by (metis surj_pair)
  note same_db = enabled_pair [OF p]
  show ?thesis
  proof (cases b)
    case True
    show ?thesis
      using assms p True same_db next_local [of target]
      by (auto simp: login_gate_def current_human_def fresh_request_def
          dest: find_row_SomeD split: option.splits prod.splits bool.splits)
  qed (simp add: login_gate_def p)
qed

theorem login_gate_sound_witness:
  "(case login_gate ''/inbox'' 0 (demo_web\<lparr>session_user := Some ''ann''\<rparr>) of
      (Pass u, w') \<Rightarrow> user_name u = ''ann'' \<and> is_human u | _ \<Rightarrow> False) \<and>
   (case login_gate ''/inbox'' 0 demo_web of (Pass u, w') \<Rightarrow> False | (To_Login nxt, w') \<Rightarrow> True | (Not_Found, w') \<Rightarrow> False)"
proof -
  have fresh: "fresh_request (demo_web\<lparr>session_user := Some ''ann''\<rparr>)" "fresh_request demo_web"
    by (simp_all add: fresh_request_def demo_web_def)
  have "fst (human_accounts_enabled 0 (web_process demo_web))" by code_simp
  moreover have "(case fst (login_gate ''/inbox'' 0 (demo_web\<lparr>session_user := Some ''ann''\<rparr>)) of Pass u \<Rightarrow> True | _ \<Rightarrow> False)"
    by code_simp
  ultimately show ?thesis
    using login_gate_sound [OF fresh(1), where target = "''/inbox''" and now = 0] login_gate_sound [OF fresh(2), where target = "''/inbox''" and now = 0]
    by (auto simp: demo_web_def split: prod.splits gate.splits)
qed

end
