(* ===== verification/Queue.thy ===== *)
theory Queue
  imports Store "HOL-Library.Sublist"
begin

text \<open>
  The job queue the web process and the workers share: \<open>deaddit/runtime/claim.py\<close> (claims,
  heartbeats, the sweep of stale jobs), the job rows of \<open>deaddit/jobs.py\<close>, the poller of
  \<open>deaddit/runtime/runner.py\<close> and the log capture of \<open>deaddit/runtime/joblog.py\<close>. Each
  function is one transaction, so processes interleave between them.
\<close>

section \<open>Jobs\<close>

definition create_job :: "job_type \<Rightarrow> json \<Rightarrow> int \<Rightarrow> int \<Rightarrow> timestamp \<Rightarrow> db \<Rightarrow> job \<times> db" where
  "create_job jtype params prio items now d =
     (let j = \<lparr>job_id = next_id job_id (jobs d), job_kind = jtype, job_status = Pending, priority = prio,
                progress = 0, total_items = items, parameters = params, job_result = None, job_error = None,
                job_created_at = now, job_started_at = None, completed_at = None, claimed_at = None,
                worker_id = None, heartbeat_at = None\<rparr>
      in (j, d\<lparr>jobs := jobs d @ [j]\<rparr>))"

definition on_job :: "int \<Rightarrow> (job \<Rightarrow> job) \<Rightarrow> db \<Rightarrow> db" where
  "on_job i f d = d\<lparr>jobs := update_rows (\<lambda>j. job_id j = i) f (jobs d)\<rparr>"

text \<open>The conditional update of a claim, and the number of rows it reports.\<close>

definition claim_job :: "int \<Rightarrow> string \<Rightarrow> timestamp \<Rightarrow> db \<Rightarrow> bool \<times> db" where
  "claim_job i worker now d =
     (count_rows (\<lambda>j. job_id j = i \<and> job_status j = Pending) (jobs d) = 1,
      d\<lparr>jobs := update_rows (\<lambda>j. job_id j = i \<and> job_status j = Pending)
          (\<lambda>j. j\<lparr>job_status := Running, job_started_at := Some now, claimed_at := Some now,
                 worker_id := Some worker, heartbeat_at := Some now\<rparr>) (jobs d)\<rparr>)"

definition heartbeat :: "int \<Rightarrow> timestamp \<Rightarrow> db \<Rightarrow> db" where
  "heartbeat i now d = on_job i (\<lambda>j. j\<lparr>heartbeat_at := Some now\<rparr>) d"

definition HEARTBEAT_STALE_MINUTES :: int where
  "HEARTBEAT_STALE_MINUTES = 5"

definition stale_job :: "timestamp \<Rightarrow> job \<Rightarrow> bool" where
  "stale_job cutoff j =
     (job_status j = Running \<and> (case heartbeat_at j of None \<Rightarrow> True | Some t \<Rightarrow> t < cutoff))"

definition sweep_stale_jobs :: "int \<Rightarrow> timestamp \<Rightarrow> db \<Rightarrow> int \<times> db" where
  "sweep_stale_jobs stale now d =
     (let cutoff = now - minutes stale in
      (count_rows (stale_job cutoff) (jobs d),
       d\<lparr>jobs := update_rows (stale_job cutoff)
           (\<lambda>j. j\<lparr>job_status := Pending, claimed_at := None, worker_id := None, heartbeat_at := None\<rparr>)
           (jobs d)\<rparr>))"

text \<open>The job row around an execution: its start, and its two outcomes.\<close>

definition start_job :: "int \<Rightarrow> timestamp \<Rightarrow> db \<Rightarrow> db" where
  "start_job i now d = on_job i (\<lambda>j. j\<lparr>job_status := Running, job_started_at := Some now\<rparr>) d"

definition complete_job :: "int \<Rightarrow> json \<Rightarrow> timestamp \<Rightarrow> db \<Rightarrow> db" where
  "complete_job i res now d =
     on_job i (\<lambda>j. j\<lparr>job_status := Completed, completed_at := Some now, progress := total_items j,
       job_result := Some res\<rparr>) d"

definition fail_job :: "int \<Rightarrow> string \<Rightarrow> timestamp \<Rightarrow> db \<Rightarrow> db" where
  "fail_job i message now d =
     on_job i (\<lambda>j. j\<lparr>job_status := Failed, completed_at := Some now, job_error := Some message\<rparr>) d"

definition update_job_progress :: "int \<Rightarrow> int \<Rightarrow> db \<Rightarrow> db" where
  "update_job_progress i n d = on_job i (\<lambda>j. j\<lparr>progress := n\<rparr>) d"

section \<open>The poller\<close>

definition poll_order :: "db \<Rightarrow> (int \<times> int) list" where
  "poll_order d =
     map (\<lambda>j. (job_id j, priority j))
       (sort_key (\<lambda>j. (- priority j, job_id j)) (filter (\<lambda>j. job_status j = Pending) (jobs d)))"

definition lane_for :: "int \<Rightarrow> string" where
  "lane_for prio =
     (if prio \<ge> 8 then ''high_priority'' else if prio \<le> 3 then ''low_priority'' else ''default'')"

text \<open>
  The claims of one poll. \<open>others n\<close> is what the rest of the system does to the database
  before the \<open>n\<close>-th claim, \<open>stopping n\<close> whether the stop event is set by then. The result
  lists the jobs this worker won, with the lane each is submitted to.
\<close>

fun claim_all :: "string \<Rightarrow> timestamp \<Rightarrow> (nat \<Rightarrow> db \<Rightarrow> db) \<Rightarrow> (nat \<Rightarrow> bool) \<Rightarrow> nat \<Rightarrow> (int \<times> int) list \<Rightarrow> db \<Rightarrow>
    (int \<times> string) list \<times> db" where
  "claim_all worker now others stopping n [] d = ([], d)"
| "claim_all worker now others stopping n ((i, prio) # rows) d =
     (if stopping n then ([], d)
      else case claim_job i worker now (others n d) of (won, d') \<Rightarrow>
        case claim_all worker now others stopping (Suc n) rows d' of (taken, d'') \<Rightarrow>
          (if won then (i, lane_for prio) # taken else taken, d''))"

definition poll_once :: "string \<Rightarrow> timestamp \<Rightarrow> (nat \<Rightarrow> db \<Rightarrow> db) \<Rightarrow> (nat \<Rightarrow> bool) \<Rightarrow> db \<Rightarrow>
    (int \<times> string) list \<times> db" where
  "poll_once worker now others stopping d = claim_all worker now others stopping 0 (poll_order d) d"

section \<open>Captured log lines\<close>

text \<open>The surrogate key of \<open>JobLog\<close> is not modelled: rows are addressed by job and sequence number.\<close>

definition FLUSH_BATCH_LINES :: nat where
  "FLUSH_BATCH_LINES = 10"

definition FLUSH_INTERVAL_SECONDS :: int where
  "FLUSH_INTERVAL_SECONDS = seconds 1"

definition MAX_JOB_LOG_LINES :: int where
  "MAX_JOB_LOG_LINES = 500"

record log_entry =
  entry_level :: string
  entry_message :: string
  entry_created_at :: timestamp

record log_handler =
  handler_job :: int
  log_buffer :: "log_entry list"
  last_flush :: timestamp
  in_flush :: bool

definition capture_job_logs :: "int \<Rightarrow> timestamp \<Rightarrow> log_handler" where
  "capture_job_logs i tick = \<lparr>handler_job = i, log_buffer = [], last_flush = tick, in_flush = False\<rparr>"

definition last_seq :: "int \<Rightarrow> db \<Rightarrow> int" where
  "last_seq i d =
     (case order_desc log_seq (filter (\<lambda>r. log_job r = i) (job_logs d)) of [] \<Rightarrow> 0 | r # _ \<Rightarrow> log_seq r)"

definition log_row :: "int \<Rightarrow> int \<Rightarrow> log_entry \<Rightarrow> job_log" where
  "log_row i s e =
     \<lparr>log_job = i, log_seq = s, log_created_at = entry_created_at e, log_level = entry_level e,
      log_message = entry_message e\<rparr>"

fun number_rows :: "int \<Rightarrow> int \<Rightarrow> log_entry list \<Rightarrow> job_log list" where
  "number_rows i s [] = []"
| "number_rows i s (e # es) = log_row i (s + 1) e # number_rows i (s + 1) es"

definition write_batch :: "int \<Rightarrow> log_entry list \<Rightarrow> db \<Rightarrow> db" where
  "write_batch i batch d =
     (let rows = job_logs d @ number_rows i (last_seq i d) batch;
          max_seq = last_seq i d + int (length batch)
      in d\<lparr>job_logs := filter (\<lambda>r. \<not> (log_job r = i \<and> log_seq r \<le> max_seq - MAX_JOB_LOG_LINES)) rows\<rparr>)"

text \<open>\<open>stored\<close> says whether the batch's own transaction goes through; if it does not, the
  exception is printed and the batch is lost.\<close>

definition flush_log :: "bool \<Rightarrow> timestamp \<Rightarrow> log_handler \<times> db \<Rightarrow> log_handler \<times> db" where
  "flush_log stored tick st =
     (case st of (h, d) \<Rightarrow>
        if log_buffer h = [] then (h, d)
        else (h\<lparr>log_buffer := [], last_flush := tick, in_flush := False\<rparr>,
              if stored then write_batch (handler_job h) (log_buffer h) d else d))"

definition emit_log :: "bool \<Rightarrow> timestamp \<Rightarrow> log_entry \<Rightarrow> log_handler \<times> db \<Rightarrow> log_handler \<times> db" where
  "emit_log stored tick e st =
     (case st of (h, d) \<Rightarrow>
        if in_flush h then (h, d)
        else let h' = h\<lparr>log_buffer := log_buffer h @ [e]\<rparr> in
          if length (log_buffer h') \<ge> FLUSH_BATCH_LINES \<or> tick - last_flush h' \<ge> FLUSH_INTERVAL_SECONDS
          then flush_log stored tick (h', d) else (h', d))"

section \<open>Facts about the queue\<close>

lemma job_id_update_rows [simp]:
  "(\<And>j. job_id (f j) = job_id j) \<Longrightarrow> map job_id (update_rows p f js) = map job_id js"
  by simp

definition job_of :: "int \<Rightarrow> db \<Rightarrow> job option" where
  "job_of i d = find_row job_id i (jobs d)"

definition pending :: "int \<Rightarrow> db \<Rightarrow> bool" where
  "pending i d = (\<exists>j \<in> set (jobs d). job_id j = i \<and> job_status j = Pending)"

lemma claim_lost: "\<not> pending i d \<Longrightarrow> claim_job i w now d = (False, d)"
  by (auto simp: claim_job_def pending_def update_rows_none count_rows_zero)

lemma claim_won_pending: "fst (claim_job i w now d) \<Longrightarrow> pending i d"
  using claim_lost by fastforce

lemma count_key_one:
  "distinct (map key rows) \<Longrightarrow> r \<in> set rows \<Longrightarrow> p r \<Longrightarrow>
   count_rows (\<lambda>x. key x = key r \<and> p x) rows = 1"
proof (induction rows)
  case (Cons x rows)
  show ?case
  proof (cases "x = r")
    case True
    with Cons.prems have "\<forall>y \<in> set rows. \<not> (key y = key r \<and> p y)" by (auto simp: image_iff)
    with True Cons.prems show ?thesis by (simp add: count_rows_zero)
  next
    case False
    with Cons.prems have "r \<in> set rows" "key x \<noteq> key r" by auto
    with Cons.IH Cons.prems show ?thesis by simp
  qed
qed simp

lemma claim_wins:
  "distinct (map job_id (jobs d)) \<Longrightarrow> pending i d \<Longrightarrow> fst (claim_job i w now d)"
  using count_key_one [of job_id "jobs d" _ "\<lambda>j. job_status j = Pending"]
  by (auto simp: claim_job_def pending_def)

lemma update_rows_mem:
  "r \<in> set (update_rows p f rows) \<longleftrightarrow> (\<exists>x \<in> set rows. r = (if p x then f x else x))"
  by (auto simp: set_update_rows)

lemma update_rows_applied: "x \<in> set rows \<Longrightarrow> p x \<Longrightarrow> f x \<in> set (update_rows p f rows)"
  by (auto simp: update_rows_mem)

lemma pending_claim: "pending k (snd (claim_job i w now d)) \<longleftrightarrow> pending k d \<and> k \<noteq> i"
  by (auto simp: pending_def claim_job_def set_update_rows)

lemma claim_keeps_keys [simp]: "map job_id (jobs (snd (claim_job i w now d))) = map job_id (jobs d)"
  by (simp add: claim_job_def)

section \<open>Facts about captured lines\<close>

definition job_rows :: "int \<Rightarrow> db \<Rightarrow> job_log list" where
  "job_rows i d = filter (\<lambda>r. log_job r = i) (job_logs d)"

definition row_entry :: "job_log \<Rightarrow> log_entry" where
  "row_entry r = \<lparr>entry_level = log_level r, entry_message = log_message r, entry_created_at = log_created_at r\<rparr>"

definition log_ok :: "int \<Rightarrow> db \<Rightarrow> bool" where
  "log_ok i d =
     (map log_seq (job_rows i d) = [last_seq i d - int (length (job_rows i d)) + 1 .. last_seq i d] \<and>
      int (length (job_rows i d)) \<le> MAX_JOB_LOG_LINES)"

definition last_n :: "nat \<Rightarrow> 'a list \<Rightarrow> 'a list" where
  "last_n n xs = drop (length xs - n) xs"

lemma last_n_append: "last_n n (last_n n xs @ ys) = last_n n (xs @ ys)"
  by (cases "length xs \<le> n") (auto simp: last_n_def add.commute)

lemma length_number_rows [simp]: "length (number_rows i s es) = length es"
  by (induction es arbitrary: s) auto

lemma number_rows_job [simp]:
  "filter (\<lambda>r. log_job r = k) (number_rows i s es) = (if k = i then number_rows i s es else [])"
  by (induction es arbitrary: s) (auto simp: log_row_def)

lemma number_rows_entries [simp]: "map row_entry (number_rows i s es) = es"
  by (induction es arbitrary: s) (auto simp: log_row_def row_entry_def)

lemma number_rows_seq [simp]: "map log_seq (number_rows i s es) = [s + 1 .. s + int (length es)]"
proof (induction es arbitrary: s)
  case (Cons e es)
  have "[s + 1 .. s + int (length (e # es))] = (s + 1) # [s + 1 + 1 .. s + 1 + int (length es)]"
    by (subst upto_rec1) (simp_all add: ac_simps)
  with Cons [of "s + 1"] show ?case by (simp add: log_row_def)
qed simp

lemma drop_below:
  "map log_seq rs = [b .. b + int (length rs) - 1] \<Longrightarrow>
   filter (\<lambda>r. \<not> log_seq r \<le> c) rs = drop (nat (c - b + 1)) rs"
proof (induction rs arbitrary: b)
  case (Cons r rs)
  have "[b .. b + int (length (r # rs)) - 1] = b # [b + 1 .. b + 1 + int (length rs) - 1]"
    by (subst upto_rec1) (simp_all add: ac_simps)
  with Cons.prems have r: "log_seq r = b" and rs: "map log_seq rs = [b + 1 .. b + 1 + int (length rs) - 1]"
    by auto
  have tail: "filter (\<lambda>r. \<not> log_seq r \<le> c) rs = drop (nat (c - b)) rs" using Cons.IH [OF rs] by simp
  show ?case
  proof (cases "b \<le> c")
    case True
    then have "nat (c - b + 1) = Suc (nat (c - b))" by simp
    with True r tail show ?thesis by simp
  qed (use r tail in simp)
qed simp

lemma last_seq_of:
  assumes "map log_seq (job_rows i d) = [b .. m]" and "job_rows i d \<noteq> []"
  shows "last_seq i d = m"
proof -
  have "sorted (map log_seq (job_rows i d))" using assms(1) by simp
  then have "order_desc log_seq (job_rows i d) = rev (job_rows i d)"
    by (simp add: order_desc_def sort_key_id_if_sorted)
  moreover have "b \<le> m" using assms by (metis list.map_disc_iff upto_empty not_le)
  then have "last (map log_seq (job_rows i d)) = m" using assms(1) by (simp add: upto_rec2)
  moreover obtain r rs where "rev (job_rows i d) = r # rs" using assms(2) by (cases "rev (job_rows i d)") auto
  moreover from this have "last (map log_seq (job_rows i d)) = log_seq r"
    by (metis assms(2) hd_rev last_map list.sel(1))
  ultimately show ?thesis by (simp add: last_seq_def job_rows_def)
qed

definition job_entries :: "int \<Rightarrow> db \<Rightarrow> log_entry list" where
  "job_entries i d = map row_entry (job_rows i d)"

lemma filter_trimmed:
  "filter (\<lambda>r. log_job r = k) (filter (\<lambda>r. \<not> (log_job r = i \<and> P r)) xs) =
   (if k = i then filter (\<lambda>r. \<not> P r) (filter (\<lambda>r. log_job r = i) xs) else filter (\<lambda>r. log_job r = k) xs)"
  by (induction xs) auto

lemma write_batch_rows:
  "job_rows k (write_batch i b d) =
     (if k = i then filter (\<lambda>r. \<not> log_seq r \<le> last_seq i d + int (length b) - MAX_JOB_LOG_LINES)
        (job_rows i d @ number_rows i (last_seq i d) b) else job_rows k d)"
proof -
  have "job_logs (write_batch i b d) =
      filter (\<lambda>r. \<not> (log_job r = i \<and> log_seq r \<le> last_seq i d + int (length b) - MAX_JOB_LOG_LINES))
        (job_logs d @ number_rows i (last_seq i d) b)"
    by (simp add: write_batch_def Let_def)
  then show ?thesis by (simp only: job_rows_def filter_trimmed) simp
qed

lemma write_batch_log:
  assumes "log_ok i d"
  shows "log_ok i (write_batch i b d)"
    and "job_entries i (write_batch i b d) = last_n 500 (job_entries i d @ b)"
proof -
  let ?rs = "job_rows i d @ number_rows i (last_seq i d) b"
  let ?n = "length (job_rows i d)" and ?m = "last_seq i d + int (length b)"
  have old: "map log_seq (job_rows i d) = [last_seq i d - int ?n + 1 .. last_seq i d]"
    and small: "int ?n \<le> 500"
    using assms by (simp_all add: log_ok_def MAX_JOB_LOG_LINES_def)
  have seqs: "map log_seq ?rs = [last_seq i d - int ?n + 1 .. ?m]"
    using old upto_split1 [of "last_seq i d - int ?n + 1" "last_seq i d + 1" ?m]
    by (cases "b = []") (auto simp: Suc_le_eq simp flip: length_greater_0_conv)
  moreover have "?m = last_seq i d - int ?n + 1 + int (length ?rs) - 1" by simp
  ultimately have "filter (\<lambda>r. \<not> log_seq r \<le> ?m - 500) ?rs =
      drop (nat (?m - 500 - (last_seq i d - int ?n + 1) + 1)) ?rs"
    by (metis drop_below)
  moreover have "nat (?m - 500 - (last_seq i d - int ?n + 1) + 1) = length ?rs - 500" by simp
  ultimately have rows: "job_rows i (write_batch i b d) = last_n 500 ?rs"
    by (simp add: write_batch_rows MAX_JOB_LOG_LINES_def last_n_def)
  show "job_entries i (write_batch i b d) = last_n 500 (job_entries i d @ b)"
    by (simp add: job_entries_def rows last_n_def flip: drop_map)
  have drop_upto: "drop k [x .. y] = [x + int k .. y]" for k x y
  proof (induction k arbitrary: x)
    case (Suc k)
    show ?case
    proof (cases "x \<le> y")
      case True
      then show ?thesis using Suc [of "x + 1"] by (subst upto_rec1) (simp_all add: ac_simps)
    qed simp
  qed simp
  let ?k = "length ?rs - 500"
  have new: "map log_seq (job_rows i (write_batch i b d)) = [last_seq i d - int ?n + 1 + int ?k .. ?m]"
    by (simp only: rows last_n_def drop_map [symmetric] seqs drop_upto)
  show "log_ok i (write_batch i b d)"
  proof (cases "job_rows i (write_batch i b d) = []")
    case True
    then show ?thesis by (simp add: log_ok_def MAX_JOB_LOG_LINES_def)
  next
    case False
    then have last: "last_seq i (write_batch i b d) = ?m" using last_seq_of [OF new] by simp
    have len: "length (job_rows i (write_batch i b d)) = length ?rs - ?k" by (simp add: rows last_n_def)
    have low: "last_seq i (write_batch i b d) - int (length (job_rows i (write_batch i b d))) + 1 =
        last_seq i d - int ?n + 1 + int ?k"
      unfolding last len by simp
    have "int (length (job_rows i (write_batch i b d))) \<le> 500" unfolding len by simp
    then show ?thesis unfolding log_ok_def MAX_JOB_LOG_LINES_def low new by (simp add: last)
  qed
qed

definition log_session :: "int \<Rightarrow> (timestamp \<times> log_entry) list \<Rightarrow> timestamp \<Rightarrow> timestamp \<Rightarrow> db \<Rightarrow> log_handler \<times> db" where
  "log_session i es start fin d =
     flush_log True fin (fold (\<lambda>(t, e). emit_log True t e) es (capture_job_logs i start, d))"

definition capturing :: "int \<Rightarrow> db \<Rightarrow> log_entry list \<Rightarrow> log_handler \<times> db \<Rightarrow> bool" where
  "capturing i d0 said st =
     (case st of (h, d) \<Rightarrow> handler_job h = i \<and> \<not> in_flush h \<and> log_ok i d \<and>
        last_n 500 (job_entries i d @ log_buffer h) = last_n 500 (job_entries i d0 @ said) \<and>
        length (log_buffer h) < FLUSH_BATCH_LINES \<and> (\<forall>k. k \<noteq> i \<longrightarrow> job_rows k d = job_rows k d0))"

lemma flush_capturing:
  assumes "handler_job h = i" and "\<not> in_flush h" and "log_ok i d"
    and "last_n 500 (job_entries i d @ log_buffer h) = last_n 500 (job_entries i d0 @ said)"
    and "\<forall>k. k \<noteq> i \<longrightarrow> job_rows k d = job_rows k d0"
  shows "capturing i d0 said (flush_log True t (h, d)) \<and> log_buffer (fst (flush_log True t (h, d))) = []"
proof (cases "log_buffer h = []")
  case True
  with assms show ?thesis by (simp add: capturing_def flush_log_def FLUSH_BATCH_LINES_def)
next
  case False
  have "last_n 500 (last_n 500 (job_entries i d @ log_buffer h)) = last_n 500 (job_entries i d0 @ said)"
    using assms(4) last_n_append [of 500 "job_entries i d @ log_buffer h" "[]"] by simp
  with False assms show ?thesis
    by (simp add: capturing_def flush_log_def FLUSH_BATCH_LINES_def write_batch_log write_batch_rows)
qed

lemma emit_capturing:
  assumes "capturing i d0 said st"
  shows "capturing i d0 (said @ [e]) (emit_log True t e st)"
proof -
  obtain h d where st: "st = (h, d)" by (cases st)
  let ?h = "h\<lparr>log_buffer := log_buffer h @ [e]\<rparr>"
  have all: "last_n 500 (job_entries i d @ log_buffer ?h) = last_n 500 (job_entries i d0 @ said @ [e])"
    using assms st last_n_append [of 500 "job_entries i d @ log_buffer h" "[e]"]
      last_n_append [of 500 "job_entries i d0 @ said" "[e]"]
    by (simp add: capturing_def)
  show ?thesis
    using assms st flush_capturing [of ?h i d d0 "said @ [e]" t] all
    by (auto simp: capturing_def emit_log_def Let_def split del: if_split split: if_split)
qed

lemma session_capturing:
  "capturing i d0 said st \<Longrightarrow>
   capturing i d0 (said @ map snd es) (fold (\<lambda>(t, e). emit_log True t e) es st)"
proof (induction es arbitrary: said st)
  case (Cons te es)
  obtain t e where te: "te = (t, e)" by (cases te)
  from Cons.IH [OF emit_capturing [OF Cons.prems, of e t]] te show ?case by simp
qed simp

section \<open>Interleaved workers\<close>

text \<open>The transactions of the queue, in whatever order the processes commit them.\<close>

datatype queue_event =
    Create job_type json int int timestamp
  | Claim int string timestamp
  | Beat int timestamp
  | Sweep timestamp
  | Start int timestamp
  | Complete int json timestamp
  | Give_Up int string timestamp
  | Progress int int

fun queue_step :: "queue_event \<Rightarrow> db \<Rightarrow> db" where
  "queue_step (Create k p prio n now) d = snd (create_job k p prio n now d)"
| "queue_step (Claim i w now) d = snd (claim_job i w now d)"
| "queue_step (Beat i now) d = heartbeat i now d"
| "queue_step (Sweep now) d = snd (sweep_stale_jobs HEARTBEAT_STALE_MINUTES now d)"
| "queue_step (Start i now) d = start_job i now d"
| "queue_step (Complete i r now) d = complete_job i r now d"
| "queue_step (Give_Up i m now) d = fail_job i m now d"
| "queue_step (Progress i n) d = update_job_progress i n d"

definition queue_run :: "queue_event list \<Rightarrow> db \<Rightarrow> db" where
  "queue_run es d = fold queue_step es d"

fun wins :: "int \<Rightarrow> queue_event list \<Rightarrow> db \<Rightarrow> nat" where
  "wins i [] d = 0"
| "wins i (e # es) d =
     (case e of Claim k w now \<Rightarrow> (if k = i \<and> fst (claim_job k w now d) then 1 else 0) | _ \<Rightarrow> 0) +
     wins i es (queue_step e d)"

text \<open>\<open>beat\<close> is the time of the job's last heartbeat: no sweep comes more than the staleness
  limit after it.\<close>

fun kept_alive :: "int \<Rightarrow> timestamp \<Rightarrow> queue_event list \<Rightarrow> bool" where
  "kept_alive i beat [] = True"
| "kept_alive i beat (e # es) =
     (case e of
        Beat k now \<Rightarrow> kept_alive i (if k = i then now else beat) es
      | Sweep now \<Rightarrow> now - minutes HEARTBEAT_STALE_MINUTES \<le> beat \<and> kept_alive i beat es
      | _ \<Rightarrow> kept_alive i beat es)"

definition held :: "int \<Rightarrow> timestamp \<Rightarrow> db \<Rightarrow> bool" where
  "held i beat d =
     (i \<in> job_id ` set (jobs d) \<and>
      (\<forall>j \<in> set (jobs d). job_id j = i \<longrightarrow>
job_status j \<noteq> Pending \<and> heartbeat_at j = Some beat))"

lemmas job_row_defs = create_job_def claim_job_def heartbeat_def sweep_stale_jobs_def start_job_def
  complete_job_def fail_job_def update_job_progress_def on_job_def

lemma held_not_pending: "held i beat d \<Longrightarrow> \<not> pending i d"
  by (auto simp: held_def pending_def)

lemma held_update:
  assumes "held i beat d" and "\<And>j. job_id (f j) = job_id j"
    and "\<And>j. p j \<Longrightarrow> job_id j = i \<Longrightarrow> job_status j \<noteq> Pending \<Longrightarrow> heartbeat_at j = Some beat \<Longrightarrow>
      job_status (f j) \<noteq> Pending \<and> heartbeat_at (f j) = Some beat'"
    and "beat' = beat \<or> (\<forall>j. job_id j = i \<longrightarrow> p j)"
  shows "held i beat' (d\<lparr>jobs := update_rows p f (jobs d)\<rparr>)"
  unfolding held_def
proof (intro conjI ballI impI)
  show "i \<in> job_id ` set (jobs (d\<lparr>jobs := update_rows p f (jobs d)\<rparr>))"
    using assms(1,2) by (simp add: held_def image_set del: set_map)
next
  fix j assume "j \<in> set (jobs (d\<lparr>jobs := update_rows p f (jobs d)\<rparr>))" and i: "job_id j = i"
  then obtain j0 where j0: "j0 \<in> set (jobs d)" "j = (if p j0 then f j0 else j0)"
    by (auto simp: set_update_rows)
  with assms(2) i have "job_id j0 = i" by (simp split: if_splits)
  moreover from this assms(1) j0 have "job_status j0 \<noteq> Pending" "heartbeat_at j0 = Some beat"
    by (auto simp: held_def)
  ultimately show "job_status j \<noteq> Pending" and "heartbeat_at j = Some beat'"
    using assms(3) [of j0] assms(4) j0(2) by auto
qed

lemma held_step:
  assumes "held i beat d" and "kept_alive i beat (e # es)"
  shows "held i (case e of Beat k now \<Rightarrow> if k = i then now else beat | _ \<Rightarrow> beat) (queue_step e d)"
proof (cases e)
  case (Create k p prio n now)
  have "next_id job_id (jobs d) \<noteq> i" using assms(1) next_id_fresh [of job_id "jobs d"] by (auto simp: held_def)
  with Create assms(1) show ?thesis by (auto simp: held_def create_job_def Let_def)
next
  case (Claim k w now)
  show ?thesis
  proof (cases "k = i")
    case True
    with Claim assms(1) claim_lost [OF held_not_pending] show ?thesis by simp
  next
    case False
    with Claim assms(1) show ?thesis by (simp add: claim_job_def held_update)
  qed
next
  case (Beat k now)
  with assms(1) show ?thesis by (auto simp: heartbeat_def on_job_def intro: held_update)
next
  case (Sweep now)
  with assms(2) have "\<not> (stale_job (now - minutes HEARTBEAT_STALE_MINUTES) j \<and> heartbeat_at j = Some beat)" for j
    by (auto simp: stale_job_def)
  with Sweep assms(1) show ?thesis by (auto simp: sweep_stale_jobs_def Let_def intro: held_update)
qed (use assms(1) in \<open>auto simp: start_job_def complete_job_def fail_job_def update_job_progress_def on_job_def
      intro: held_update\<close>)

lemma kept_alive_tl:
  "kept_alive i beat (e # es) \<Longrightarrow> kept_alive i (case e of Beat k now \<Rightarrow> if k = i then now else beat | _ \<Rightarrow> beat) es"
  by (cases e) auto

lemma held_run:
  "held i beat d \<Longrightarrow> kept_alive i beat es \<Longrightarrow> wins i es d = 0 \<and> \<not> pending i (queue_run es d)"
proof (induction es arbitrary: beat d)
  case Nil
  then show ?case by (simp add: queue_run_def held_not_pending)
next
  case (Cons e es)
  have "wins i (e # es) d = wins i es (queue_step e d)"
    using claim_lost [OF held_not_pending [OF Cons.prems(1)]] by (auto split: queue_event.split)
  with Cons.IH [OF held_step [OF Cons.prems] kept_alive_tl [OF Cons.prems(2)]] show ?case
    by (simp add: queue_run_def)
qed

lemma claim_holds:
  assumes "distinct (map job_id (jobs d))" and "fst (claim_job i w now d)"
  shows "held i now (snd (claim_job i w now d))"
proof -
  obtain j where j: "j \<in> set (jobs d)" "job_id j = i" "job_status j = Pending"
    using claim_won_pending [OF assms(2)] by (auto simp: pending_def)
  then have only: "k = j" if "k \<in> set (jobs d)" "job_id k = i" for k
    using assms(1) that by (metis distinct_map inj_onD)
  have "i \<in> job_id ` set (jobs (snd (claim_job i w now d)))"
    using j by (metis claim_keeps_keys image_eqI image_set)
  moreover have "job_status k \<noteq> Pending \<and> heartbeat_at k = Some now"
    if "k \<in> set (jobs (snd (claim_job i w now d)))" "job_id k = i" for k
  proof -
    have "\<exists>k0 \<in> set (jobs d). k = (if job_id k0 = i \<and> job_status k0 = Pending
            then k0\<lparr>job_status := Running, job_started_at := Some now, claimed_at := Some now,
                    worker_id := Some w, heartbeat_at := Some now\<rparr> else k0)"
      using that(1) unfolding claim_job_def snd_conv by (simp add: update_rows_mem)
    then obtain k0 where k0: "k0 \<in> set (jobs d)" "k = (if job_id k0 = i \<and> job_status k0 = Pending
            then k0\<lparr>job_status := Running, job_started_at := Some now, claimed_at := Some now,
                    worker_id := Some w, heartbeat_at := Some now\<rparr> else k0)"
      by blast
    then have "job_id k0 = i" using that(2) by (simp split: if_splits)
    with only [of k0] k0 j show ?thesis by simp
  qed
  ultimately show ?thesis by (simp add: held_def)
qed

text \<open>C39. Execution is exclusive. A pending job is won by whichever claim comes first, and from then
  on, however the transactions of all processes interleave, nobody else wins it and it never
  returns to the queue, as long as its worker's heartbeats keep every sweep within the
  staleness limit; once it misses that limit, a sweep makes the job claimable again.\<close>

theorem claim_exclusive:
  assumes "distinct (map job_id (jobs d))" and "pending i d"
  shows "fst (claim_job i w now d) \<and>
    (kept_alive i now es \<longrightarrow>
       wins i es (snd (claim_job i w now d)) = 0 \<and> \<not> pending i (queue_run es (snd (claim_job i w now d)))) \<and>
    (now + minutes HEARTBEAT_STALE_MINUTES < later \<longrightarrow>
       fst (claim_job i w' t (queue_run [Sweep later] (snd (claim_job i w now d)))))"
proof (intro conjI impI)
  show won: "fst (claim_job i w now d)" by (rule claim_wins [OF assms])
  note held = claim_holds [OF assms(1) won]
  show "wins i es (snd (claim_job i w now d)) = 0" "\<not> pending i (queue_run es (snd (claim_job i w now d)))"
    if "kept_alive i now es"
    using held_run [OF held that] by simp_all
  assume late: "now + minutes HEARTBEAT_STALE_MINUTES < later"
  let ?d = "queue_run [Sweep later] (snd (claim_job i w now d))"
  have "distinct (map job_id (jobs ?d))"
    using assms(1) by (simp add: queue_run_def sweep_stale_jobs_def Let_def)
  obtain j where j: "j \<in> set (jobs d)" "job_id j = i" "job_status j = Pending"
    using assms(2) by (auto simp: pending_def)
  let ?won = "\<lambda>j. j\<lparr>job_status := Running, job_started_at := Some now, claimed_at := Some now,
    worker_id := Some w, heartbeat_at := Some now\<rparr>"
  have "?won j \<in> set (jobs (snd (claim_job i w now d)))"
    using update_rows_applied [of j "jobs d" "\<lambda>j. job_id j = i \<and> job_status j = Pending" ?won] j
    by (simp add: claim_job_def)
  moreover have "stale_job (later - minutes HEARTBEAT_STALE_MINUTES) (?won j)"
    using late by (simp add: stale_job_def)
  ultimately have "pending i ?d"
    using update_rows_applied [of "?won j" "jobs (snd (claim_job i w now d))"
        "stale_job (later - minutes HEARTBEAT_STALE_MINUTES)"
        "\<lambda>j. j\<lparr>job_status := Pending, claimed_at := None, worker_id := None, heartbeat_at := None\<rparr>"] j(2)
    unfolding pending_def queue_run_def
    by (intro bexI [where x = "(?won j)\<lparr>job_status := Pending, claimed_at := None, worker_id := None,
        heartbeat_at := None\<rparr>"]) (simp_all add: sweep_stale_jobs_def Let_def)
  with \<open>distinct (map job_id (jobs ?d))\<close> show "fst (claim_job i w' t ?d)" by (rule claim_wins)
qed

definition demo_job :: "int \<Rightarrow> int \<Rightarrow> job" where
  "demo_job i prio = \<lparr>job_id = i, job_kind = Batch_Operation, job_status = Pending, priority = prio,
     progress = 0, total_items = 1, parameters = JObj [], job_result = None, job_error = None,
     job_created_at = 0, job_started_at = None, completed_at = None, claimed_at = None,
     worker_id = None, heartbeat_at = None\<rparr>"

definition demo_queue :: db where
  "demo_queue = empty_db\<lparr>jobs := [demo_job 1 5, demo_job 2 9, demo_job 3 5]\<rparr>"

theorem claim_exclusive_witness:
  "wins 2 [Claim 2 ''w2'' 1, Beat 2 (seconds 30), Sweep (minutes 5), Claim 2 ''w3'' (minutes 5)]
     (snd (claim_job 2 ''w1'' 0 demo_queue)) = 0 \<and>
   fst (claim_job 2 ''w2'' (minutes 7) (queue_run [Sweep (minutes 6)] (snd (claim_job 2 ''w1'' 0 demo_queue))))"
proof -
  have "distinct (map job_id (jobs demo_queue))" and "pending 2 demo_queue"
    by (simp_all add: demo_queue_def demo_job_def empty_db_def pending_def)
  then show ?thesis
    using claim_exclusive [of demo_queue 2 "''w1''" 0
        "[Claim 2 ''w2'' 1, Beat 2 (seconds 30), Sweep (minutes 5), Claim 2 ''w3'' (minutes 5)]"
        "minutes 6" "''w2''" "minutes 7"]
    by (simp add: HEARTBEAT_STALE_MINUTES_def duration_defs)
qed

text \<open>
  The sweep runs once, when a worker starts. If the worker that held a job died and its
  successor starts within the staleness limit, the sweep passes the job over, and as long as
  no later sweep runs nothing the living processes do frees it: the row stays as it was.
\<close>

fun orphaned :: "int \<Rightarrow> queue_event list \<Rightarrow> bool" where
  "orphaned i [] = True"
| "orphaned i (e # es) =
     ((case e of Beat k _ \<Rightarrow> k \<noteq> i | Sweep _ \<Rightarrow> False | Start k _ \<Rightarrow> k \<noteq> i | Complete k _ _ \<Rightarrow> k \<noteq> i
       | Give_Up k _ _ \<Rightarrow> k \<noteq> i | Progress k _ \<Rightarrow> k \<noteq> i | _ \<Rightarrow> True) \<and> orphaned i es)"

lemma orphan_row_kept:
  "orphaned i es \<Longrightarrow> job_of i d = Some j \<Longrightarrow> job_status j = Running \<Longrightarrow> job_of i (queue_run es d) = Some j"
proof (induction es arbitrary: d)
  case (Cons e es)
  have others: "job_of i (d\<lparr>jobs := update_rows p f (jobs d)\<rparr>) = Some j"
    if "\<And>j. job_id (f j) = job_id j" "\<not> p j" for p f
    using Cons.prems(2) that by (simp add: job_of_def find_row_update)
  have "job_of i (queue_step e d) = Some j"
  proof (cases e)
    case (Create k p prio n now)
    then show ?thesis using Cons.prems(2) by (simp add: job_of_def create_job_def Let_def find_row_append)
  next
    case (Claim k w now)
    then show ?thesis using others Cons.prems(3) by (simp add: claim_job_def)
  qed (use Cons.prems others find_row_SomeD [of job_id i "jobs d" j] in
      \<open>auto simp: job_of_def heartbeat_def start_job_def complete_job_def fail_job_def
        update_job_progress_def on_job_def\<close>)
  with Cons show ?case by (simp add: queue_run_def)
qed (simp add: queue_run_def)

lemma early_restart_strands_job:
  assumes "job_of i d = Some j" and "job_status j = Running" and "heartbeat_at j = Some beat"
    and "restart \<le> beat + minutes HEARTBEAT_STALE_MINUTES" and "orphaned i es"
  shows "job_of i (queue_run (Sweep restart # es) d) = Some j"
proof -
  have "job_of i (queue_step (Sweep restart) d) = Some j"
    using assms(1-4) by (simp add: job_of_def sweep_stale_jobs_def Let_def find_row_update stale_job_def)
  from orphan_row_kept [OF assms(5) this assms(2)] show ?thesis by (simp add: queue_run_def)
qed

section \<open>The order of a poll\<close>

definition poll_plan :: "db \<Rightarrow> (int \<times> string) list" where
  "poll_plan d = map (\<lambda>(i, prio). (i, lane_for prio)) (poll_order d)"

lemma claim_all_subseq:
  "subseq (fst (claim_all w now others stopping n rows d)) (map (\<lambda>(i, prio). (i, lane_for prio)) rows)"
proof (induction w now others stopping n rows d rule: claim_all.induct)
  case (2 w now others stopping n i prio rows d)
  then show ?case by (auto split: prod.split)
qed simp

lemma claim_all_everything:
  assumes "distinct (map job_id (jobs d))" and "\<forall>(i, prio) \<in> set rows. pending i d" and "distinct (map fst rows)"
  shows "fst (claim_all w now (\<lambda>_ d. d) (\<lambda>_. False) n rows d) = map (\<lambda>(i, prio). (i, lane_for prio)) rows \<and>
    (\<forall>i. pending i (snd (claim_all w now (\<lambda>_ d. d) (\<lambda>_. False) n rows d)) \<longleftrightarrow>
       pending i d \<and> i \<notin> fst ` set rows)"
  using assms
proof (induction rows arbitrary: d n)
  case (Cons row rows)
  obtain i prio where row: "row = (i, prio)" by (cases row)
  let ?d = "snd (claim_job i w now d)"
  have won: "fst (claim_job i w now d)" using Cons.prems row by (intro claim_wins) auto
  have "\<forall>(k, prio) \<in> set rows. pending k ?d"
    using Cons.prems row by (force simp: pending_claim)
  then have "fst (claim_all w now (\<lambda>_ d. d) (\<lambda>_. False) (Suc n) rows ?d) = map (\<lambda>(i, prio). (i, lane_for prio)) rows \<and>
      (\<forall>k. pending k (snd (claim_all w now (\<lambda>_ d. d) (\<lambda>_. False) (Suc n) rows ?d)) \<longleftrightarrow>
         pending k ?d \<and> k \<notin> fst ` set rows)"
    using Cons.prems by (intro Cons.IH) auto
  with won row show ?case by (auto simp: pending_claim split: prod.split)
qed simp

lemma poll_order_props:
  assumes "distinct (map job_id (jobs d))"
  shows "distinct (map fst (poll_order d))" and "fst ` set (poll_order d) = {i. pending i d}"
    and "sorted_wrt (\<lambda>(i, p) (k, q). q < p \<or> q = p \<and> i < k) (poll_order d)"
proof -
  let ?key = "\<lambda>j. (- priority j, job_id j)"
  let ?js = "sort_key ?key (filter (\<lambda>j. job_status j = Pending) (jobs d))"
  have ids: "map fst (poll_order d) = map job_id ?js" by (simp add: poll_order_def)
  have "inj_on job_id (set (jobs d))" and "distinct (jobs d)" using assms by (simp_all add: distinct_map)
  then show dist: "distinct (map fst (poll_order d))"
    unfolding ids by (auto simp: distinct_map intro: inj_on_subset)
  show "fst ` set (poll_order d) = {i. pending i d}"
    by (auto simp: poll_order_def pending_def image_iff)
  have "sorted (map ?key ?js)" by simp
  moreover have "distinct (map ?key ?js)"
    using dist unfolding ids by (simp add: distinct_map inj_on_def)
  ultimately have "sorted_wrt (<) (map ?key ?js)" by (simp add: strict_sorted_iff)
  then show "sorted_wrt (\<lambda>(i, p) (k, q). q < p \<or> q = p \<and> i < k) (poll_order d)"
    by (auto simp: poll_order_def sorted_wrt_map less_prod_def elim!: sorted_wrt_mono_rel [rotated])
qed

text \<open>A poll serves the most urgent jobs first and, among equals, the oldest; whatever other
  workers do in between and whenever it is stopped, it submits a subsequence of that plan, each
  job to its lane; undisturbed it takes every pending job and leaves none.\<close>

lemma poll_serves_by_priority:
  assumes "distinct (map job_id (jobs d))"
  shows "sorted_wrt (\<lambda>(i, p) (k, q). q < p \<or> q = p \<and> i < k) (poll_order d) \<and>
    subseq (fst (poll_once w now others stopping d)) (poll_plan d) \<and>
    fst (poll_once w now (\<lambda>_ d. d) (\<lambda>_. False) d) = poll_plan d \<and>
    \<not> pending i (snd (poll_once w now (\<lambda>_ d. d) (\<lambda>_. False) d))"
proof -
  note order = poll_order_props [OF assms]
  have "\<forall>(i, prio) \<in> set (poll_order d). pending i d" using order(2) by force
  then show ?thesis
    using claim_all_everything [OF assms _ order(1)] order claim_all_subseq
    by (auto simp: poll_once_def poll_plan_def)
qed

theorem poll_serves_by_priority_witness:
  "fst (poll_once ''w'' 0 (\<lambda>_ d. d) (\<lambda>_. False) demo_queue) =
     [(2, ''high_priority''), (1, ''default''), (3, ''default'')]"
proof -
  have "distinct (map job_id (jobs demo_queue))" by (simp add: demo_queue_def demo_job_def)
  moreover have "poll_plan demo_queue = [(2, ''high_priority''), (1, ''default''), (3, ''default'')]"
    by code_simp
  ultimately show ?thesis using poll_serves_by_priority [of demo_queue "''w''" 0] by simp
qed

section \<open>What a job's log keeps\<close>



end
