(* ===== verification/Lull.thy ===== *)
theory Lull
  imports Settings
begin

text \<open>
  \<open>deaddit/runtime/lull.py\<close>: the night-time stretching of every wake delay, and the float
  arithmetic between a setting's text and the wake time stored with it. Finite floats are exact
  rationals; infinities and NaN are kept, because \<open>float\<close> accepts them as texts.
\<close>

section \<open>Floats\<close>

datatype py_float = Finite rat | Inf | Neg_Inf | NaN

text \<open>\<open>float(s)\<close>: \<open>None\<close> where Python raises \<open>ValueError\<close>.\<close>

definition float_limit :: rat where
  "float_limit = 2 ^ 1024 - 2 ^ 970"

definition float_of_rat :: "rat \<Rightarrow> py_float" where
  "float_of_rat q = (if q \<ge> float_limit then Inf else if q \<le> - float_limit then Neg_Inf else Finite q)"

definition digit_run :: "string \<Rightarrow> nat option" where
  "digit_run s = (if s = [] then Some 0 else parse_digits False 0 s)"

definition parse_mantissa :: "string \<Rightarrow> rat option" where
  "parse_mantissa s =
     (let whole = takeWhile (\<lambda>c. c \<noteq> CHR ''.'') s; frac = drop 1 (dropWhile (\<lambda>c. c \<noteq> CHR ''.'') s) in
      if whole = [] \<and> frac = [] then None
      else case (digit_run whole, digit_run frac) of
          (Some a, Some b) \<Rightarrow> Some (of_nat a + of_nat b / 10 ^ length (filter is_digit frac))
        | _ \<Rightarrow> None)"

definition scale_ten :: "int \<Rightarrow> rat \<Rightarrow> rat" where
  "scale_ten e q = (if e \<ge> 0 then q * 10 ^ nat e else q / 10 ^ nat (- e))"

definition parse_unsigned_float :: "string \<Rightarrow> py_float option" where
  "parse_unsigned_float s =
     (if s = ''inf'' \<or> s = ''infinity'' then Some Inf
      else if s = ''nan'' then Some NaN
      else
        let mant = takeWhile (\<lambda>c. c \<noteq> CHR ''e'') s; rest = dropWhile (\<lambda>c. c \<noteq> CHR ''e'') s in
        case parse_mantissa mant of
          None \<Rightarrow> None
        | Some q \<Rightarrow>
            (case rest of
               [] \<Rightarrow> Some (float_of_rat q)
             | _ # [] \<Rightarrow> None
             | _ # c # cs \<Rightarrow>
                 map_option (\<lambda>n. float_of_rat (scale_ten (if c = CHR ''-'' then - int n else int n) q))
                   (parse_digits False 0 (if c = CHR ''-'' \<or> c = CHR ''+'' then cs else c # cs))))"

definition float_neg :: "py_float \<Rightarrow> py_float" where
  "float_neg x = (case x of Finite q \<Rightarrow> Finite (- q) | Inf \<Rightarrow> Neg_Inf | Neg_Inf \<Rightarrow> Inf | NaN \<Rightarrow> NaN)"

definition py_float_of_string :: "string \<Rightarrow> py_float option" where
  "py_float_of_string s =
     (case py_lower (py_strip s) of
        [] \<Rightarrow> None
      | c # cs \<Rightarrow>
          if c = CHR ''-'' then map_option float_neg (parse_unsigned_float cs)
          else if c = CHR ''+'' then parse_unsigned_float cs
          else parse_unsigned_float (c # cs))"

text \<open>The product with a finite float, and \<open>x <= 1.0\<close>, which NaN answers with false.\<close>

definition float_times :: "rat \<Rightarrow> py_float \<Rightarrow> py_float" where
  "float_times a x =
     (case x of
        Finite q \<Rightarrow> float_of_rat (a * q)
      | NaN \<Rightarrow> NaN
      | Inf \<Rightarrow> (if a > 0 then Inf else if a < 0 then Neg_Inf else NaN)
      | Neg_Inf \<Rightarrow> (if a > 0 then Neg_Inf else if a < 0 then Inf else NaN))"

definition at_most_one :: "py_float \<Rightarrow> bool" where
  "at_most_one x = (case x of Finite q \<Rightarrow> q \<le> 1 | Neg_Inf \<Rightarrow> True | _ \<Rightarrow> False)"

text \<open>
  \<open>now + timedelta(seconds=x)\<close>: microseconds are rounded with halves to even; an infinite or NaN
  argument, a \<open>timedelta\<close> of more than 999999999 days and a date outside the years 1 to 9999
  raise, which is \<open>None\<close>.
\<close>

definition round_even :: "rat \<Rightarrow> int" where
  "round_even x =
     (let f = \<lfloor>x\<rfloor>; r = x - of_int f in
      if r < 1 / 2 then f else if r > 1 / 2 then f + 1 else if even f then f else f + 1)"

definition datetime_min :: timestamp where
  "datetime_min = - seconds 62135596800"

definition datetime_max :: timestamp where
  "datetime_max = seconds 253402300800 - 1"

definition add_seconds :: "timestamp \<Rightarrow> py_float \<Rightarrow> timestamp option" where
  "add_seconds now x =
     (case x of
        Finite q \<Rightarrow>
          let us = round_even (q * 1000000) in
          if \<bar>us div days 1\<bar> \<le> 999999999 \<and> datetime_min \<le> now + us \<and> now + us \<le> datetime_max
          then Some (now + us) else None
      | _ \<Rightarrow> None)"

section \<open>The lull\<close>

definition hour_of :: "timestamp \<Rightarrow> int" where
  "hour_of now = (now div hours 1) mod 24"

text \<open>What \<open>Config.get\<close> answers in a process at one moment; its effect on the cache is that of
  \<open>config_get\<close> and is not repeated here.\<close>

definition config_reader :: "process \<Rightarrow> timestamp \<Rightarrow> string \<Rightarrow> string option" where
  "config_reader p tick k = fst (config_get k None tick p)"

definition lull_hours :: "(string \<Rightarrow> string option) \<Rightarrow> int \<times> int" where
  "lull_hours cfg =
     (case (case cfg ''NIGHT_LULL_START_HOUR'' of None \<Rightarrow> Some 1 | Some s \<Rightarrow> py_int_of_string s,
            case cfg ''NIGHT_LULL_END_HOUR'' of None \<Rightarrow> Some 7 | Some s \<Rightarrow> py_int_of_string s) of
        (Some a, Some b) \<Rightarrow> (a, b)
      | _ \<Rightarrow> (1, 7))"

definition lull_multiplier_setting :: "(string \<Rightarrow> string option) \<Rightarrow> py_float" where
  "lull_multiplier_setting cfg =
     (case cfg ''NIGHT_LULL_DELAY_MULTIPLIER'' of
        None \<Rightarrow> Finite 4
      | Some s \<Rightarrow> (case py_float_of_string s of None \<Rightarrow> Finite 4 | Some x \<Rightarrow> x))"

text \<open>The conditional expression of the code: without a wrap only the start hour counts.\<close>

definition in_lull :: "int \<Rightarrow> int \<Rightarrow> int \<Rightarrow> bool" where
  "in_lull start fin hour = (if start < fin then start \<le> hour else start \<le> hour \<or> hour < fin)"

definition night_lull_multiplier :: "(string \<Rightarrow> string option) \<Rightarrow> timestamp \<Rightarrow> py_float" where
  "night_lull_multiplier cfg now =
     (let enabled = (case cfg ''NIGHT_LULL_ENABLED'' of None \<Rightarrow> ''true'' | Some s \<Rightarrow> s);
          start = fst (lull_hours cfg); fin = snd (lull_hours cfg) in
      if py_lower (py_strip enabled) \<noteq> ''true'' then Finite 1
      else if \<not> (0 \<le> start \<and> start \<le> 23 \<and> 0 \<le> fin \<and> fin \<le> 23) \<or> start = fin then Finite 1
      else if at_most_one (lull_multiplier_setting cfg) then Finite 1
      else if in_lull start fin (hour_of now) then lull_multiplier_setting cfg else Finite 1)"

definition scaled_wake_delay :: "(string \<Rightarrow> string option) \<Rightarrow> rat \<Rightarrow> timestamp \<Rightarrow> py_float" where
  "scaled_wake_delay cfg base now = float_times base (night_lull_multiplier cfg now)"

section \<open>Properties\<close>

lemma night_lull_split:
  "night_lull_multiplier cfg now = Finite 1 \<or>
   (night_lull_multiplier cfg now = lull_multiplier_setting cfg \<and>
    in_lull (fst (lull_hours cfg)) (snd (lull_hours cfg)) (hour_of now) \<and>
    \<not> at_most_one (lull_multiplier_setting cfg))"
  unfolding night_lull_multiplier_def Let_def by (simp del: fst_conv snd_conv)

lemmas night_lull_cases = night_lull_split [THEN disjE]

lemma float_of_rat_small:
  assumes "- 1000000 < q" and "q < 1000000"
  shows "float_of_rat q = Finite q"
proof -
  have "1000000 \<le> float_limit" by (simp add: float_limit_def)
  with assms show ?thesis by (simp add: float_of_rat_def)
qed

lemma hour_of_range: "0 \<le> hour_of now \<and> hour_of now < 24"
  by (simp add: hour_of_def)

lemma lull_window_size:
  assumes "0 \<le> s" "s \<le> 23" "0 \<le> e" "e \<le> 23" "s \<noteq> e"
  shows "int (card {h. 0 \<le> h \<and> h < 24 \<and> in_lull s e h}) = 24 - s + (if s < e then 0 else e)"
proof (cases "s < e")
  case True
  then have "{h. 0 \<le> h \<and> h < 24 \<and> in_lull s e h} = {s..<24}" using assms by (auto simp: in_lull_def)
  with True assms show ?thesis by simp
next
  case False
  then have "{h. 0 \<le> h \<and> h < 24 \<and> in_lull s e h} = {s..<24} \<union> {0..<e}"
    using assms by (auto simp: in_lull_def)
  then show ?thesis using False assms by (simp add: card_Un_disjoint)
qed

lemma scaled_delay_ge:
  assumes "0 \<le> base" and q: "scaled_wake_delay cfg base now = Finite q"
  shows "base \<le> q"
proof (rule night_lull_cases [of cfg now])
  assume one: "night_lull_multiplier cfg now = Finite 1"
  from q show ?thesis by (simp add: one scaled_wake_delay_def float_times_def float_of_rat_def split: if_splits)
next
  assume set: "night_lull_multiplier cfg now = lull_multiplier_setting cfg \<and>
    in_lull (fst (lull_hours cfg)) (snd (lull_hours cfg)) (hour_of now) \<and>
    \<not> at_most_one (lull_multiplier_setting cfg)"
  then have own: "night_lull_multiplier cfg now = lull_multiplier_setting cfg"
    and big: "\<not> at_most_one (lull_multiplier_setting cfg)" by simp_all
  show ?thesis
  proof (cases "lull_multiplier_setting cfg")
    case (Finite m)
    with big have "1 < m" by (simp add: at_most_one_def)
    with Finite own q assms show ?thesis
      using mult_left_mono [of 1 m base]
      by (simp add: scaled_wake_delay_def float_times_def float_of_rat_def split: if_splits)
  qed (use own q big in \<open>auto simp: scaled_wake_delay_def float_times_def at_most_one_def split: if_splits\<close>)
qed

lemma round_even_ge: "of_int n \<le> x \<Longrightarrow> n \<le> round_even x"
  using le_floor_iff [of n x] by (auto simp: round_even_def Let_def)

lemma add_seconds_ge:
  assumes "0 \<le> n" and "of_int n \<le> base" and "add_seconds now (scaled_wake_delay cfg base now) = Some t"
  shows "now + seconds n \<le> t"
proof -
  obtain q where q: "scaled_wake_delay cfg base now = Finite q" "t = now + round_even (q * 1000000)"
    using assms(3) by (auto simp: add_seconds_def Let_def split: py_float.splits if_splits)
  have "0 \<le> base" using assms(1,2) by (meson of_int_0_le_iff order_trans)
  with q have "of_int n \<le> q" using scaled_delay_ge [of base cfg now q] assms(2) by simp
  then have "of_int (n * 1000000) \<le> q * 1000000" by simp
  from round_even_ge [OF this] q(2) show ?thesis by (simp add: seconds_def)
qed

text \<open>The lull only ever slows the community down. Whatever the settings hold, a wake delay
  is unchanged or, in the configured window alone, stretched by the configured multiplier;
  with finite settings no delay shrinks; and the lull lasts from its start hour to midnight, and,
  only when the end hour lies below the start, on to the end hour of the next day.\<close>

theorem lull_never_speeds_up:
  assumes "0 \<le> base"
  shows "(scaled_wake_delay cfg base now = float_of_rat base \<or>
      in_lull (fst (lull_hours cfg)) (snd (lull_hours cfg)) (hour_of now) \<and>
      scaled_wake_delay cfg base now = float_times base (lull_multiplier_setting cfg)) \<and>
    (\<forall>q. scaled_wake_delay cfg base now = Finite q \<longrightarrow> base \<le> q) \<and>
    (lull_hours cfg = (s, e) \<and> 0 \<le> s \<and> s \<le> 23 \<and> 0 \<le> e \<and> e \<le> 23 \<and> s \<noteq> e \<longrightarrow>
       int (card {h. 0 \<le> h \<and> h < 24 \<and> in_lull (fst (lull_hours cfg)) (snd (lull_hours cfg)) h}) =
         24 - s + (if s < e then 0 else e))"
proof (intro conjI allI impI)
  show "scaled_wake_delay cfg base now = float_of_rat base \<or>
      in_lull (fst (lull_hours cfg)) (snd (lull_hours cfg)) (hour_of now) \<and>
      scaled_wake_delay cfg base now = float_times base (lull_multiplier_setting cfg)"
    using night_lull_split [of cfg now] by (auto simp: scaled_wake_delay_def float_times_def)
  show "base \<le> q" if "scaled_wake_delay cfg base now = Finite q" for q
    using scaled_delay_ge [OF assms that] .
  show "int (card {h. 0 \<le> h \<and> h < 24 \<and> in_lull (fst (lull_hours cfg)) (snd (lull_hours cfg)) h}) =
      24 - s + (if s < e then 0 else e)"
    if "lull_hours cfg = (s, e) \<and> 0 \<le> s \<and> s \<le> 23 \<and> 0 \<le> e \<and> e \<le> 23 \<and> s \<noteq> e"
    using that lull_window_size by simp
qed

definition demo_config :: "string \<Rightarrow> string option" where
  "demo_config = [''NIGHT_LULL_START_HOUR'' \<mapsto> ''23'', ''NIGHT_LULL_END_HOUR'' \<mapsto> '' 5 '',
     ''NIGHT_LULL_DELAY_MULTIPLIER'' \<mapsto> ''2.5'']"

theorem lull_never_speeds_up_witness:
  "scaled_wake_delay demo_config 60 (hours 23) = Finite 150 \<and>
   int (card {h. 0 \<le> h \<and> h < 24 \<and> in_lull (fst (lull_hours demo_config)) (snd (lull_hours demo_config)) h}) = 6"
proof -
  have window: "lull_hours demo_config = (23, 5)" by code_simp
  have "parse_mantissa ''2.5'' = Some (5 / 2)" by code_simp
  then have "py_float_of_string ''2.5'' = Some (Finite (5 / 2))"
    by (simp add: py_float_of_string_def py_lower_def lower_char_def py_strip_def py_lstrip_def py_rstrip_def
        py_isspace_def parse_unsigned_float_def float_of_rat_small Let_def)
  then have mult: "lull_multiplier_setting demo_config = Finite (5 / 2)"
    by (simp add: lull_multiplier_setting_def demo_config_def)
  have "py_lower (py_strip ''true'') = ''true''" and "hour_of (hours 23) = 23"
    and "demo_config ''NIGHT_LULL_ENABLED'' = None" by code_simp+
  then have own: "scaled_wake_delay demo_config 60 (hours 23) = Finite 150"
    by (simp add: scaled_wake_delay_def night_lull_multiplier_def window mult at_most_one_def in_lull_def
        Let_def float_times_def float_of_rat_small)
  show ?thesis
    using lull_never_speeds_up [of 60 demo_config "hours 23" 23 5] window own by simp
qed

text \<open>So the end of the default window, seven in the morning, never takes effect: at noon every
  wake delay is still four times as long.\<close>

lemma lull_ignores_its_end: "scaled_wake_delay (\<lambda>_. None) 60 (hours 12) = Finite 240"
proof -
  have "py_lower (py_strip ''true'') = ''true''" and "hour_of (hours 12) = 12" by code_simp+
  then show ?thesis
    by (simp add: scaled_wake_delay_def night_lull_multiplier_def lull_hours_def lull_multiplier_setting_def
        at_most_one_def in_lull_def Let_def float_times_def float_of_rat_small)
qed

text \<open>A multiplier of \<open>nan\<close> or \<open>inf\<close> is neither rejected nor replaced by the default: it
  reaches the wake time, and adding it to a date raises.\<close>

lemma lull_nan_escapes:
  assumes "cfg ''NIGHT_LULL_DELAY_MULTIPLIER'' = Some s" and "s \<in> {''nan'', ''inf''}"
    and "night_lull_multiplier cfg now \<noteq> Finite 1" and "0 < base"
  shows "add_seconds now (scaled_wake_delay cfg base now) = None"
proof -
  have "py_float_of_string ''nan'' = Some NaN" and "py_float_of_string ''inf'' = Some Inf" by code_simp+
  with assms(1,2) have "lull_multiplier_setting cfg \<in> {NaN, Inf}"
    by (auto simp: lull_multiplier_setting_def)
  moreover have "night_lull_multiplier cfg now = lull_multiplier_setting cfg"
    using night_lull_split [of cfg now] assms(3) by blast
  ultimately show ?thesis using assms(4) by (auto simp: scaled_wake_delay_def add_seconds_def float_times_def)
qed

end
