(* ===== verification/Runs.thy ===== *)
theory Runs
  imports Lull
begin

text \<open>
  \<open>deaddit/agents/loop.py\<close> without its LLM loop: how a run of an agent is recovered, reserved
  and closed. A run is a row of \<open>AgentRun\<close>; two partial unique indexes allow one running
  row per agent and one per persona. \<open>Visits\<close> adds the loop in between.
\<close>

section \<open>Budgets\<close>

definition DEFAULT_CONFIG :: "(string \<times> json) list" where
  "DEFAULT_CONFIG =
     [(''max_actions_per_run'', JInt 30), (''max_run_seconds'', JInt 300), (''seconds_between_turns'', JInt 0),
      (''min_delay'', JInt 60), (''max_delay'', JInt 900)]"

definition CONSECUTIVE_FAILURE_DISABLE_THRESHOLD :: int where
  "CONSECUTIVE_FAILURE_DISABLE_THRESHOLD = 5"

definition FAILURE_BACKOFF_SECONDS :: int where
  "FAILURE_BACKOFF_SECONDS = 300"

definition RESERVATION_ATTEMPTS :: nat where
  "RESERVATION_ATTEMPTS = 5"

text \<open>The column \<open>config\<close> holds an object; anything falsy reads as the empty one.\<close>

definition config_items :: "json \<Rightarrow> (string \<times> json) list" where
  "config_items c = (case c of JObj kvs \<Rightarrow> kvs | _ \<Rightarrow> [])"

definition effective_config :: "agent \<Rightarrow> (string \<times> json) list" where
  "effective_config a = fold (\<lambda>(k, v). json_set k v) (config_items (agent_config a)) DEFAULT_CONFIG"

definition default_budget :: "string \<Rightarrow> int" where
  "default_budget key = (case map_of DEFAULT_CONFIG key of Some (JInt i) \<Rightarrow> i | _ \<Rightarrow> 0)"

definition int_budget :: "(string \<times> json) list \<Rightarrow> string \<Rightarrow> int" where
  "int_budget cfg key =
     (case map_of cfg key of
        None \<Rightarrow> default_budget key
      | Some v \<Rightarrow> (case py_int v of None \<Rightarrow> default_budget key | Some i \<Rightarrow> i))"

definition is_runtime_enabled :: "db \<Rightarrow> bool" where
  "is_runtime_enabled d =
     (let v = setting_get ''AGENT_RUNTIME_ENABLED'' (Some ''false'') d in
      py_lower (py_strip (case v of None \<Rightarrow> ''false'' | Some [] \<Rightarrow> ''false'' | Some s \<Rightarrow> s)) = ''true'')"

section \<open>Running rows\<close>

definition running :: "agent_run \<Rightarrow> bool" where
  "running r = (run_status r = ''running'')"

definition agent_busy :: "int \<Rightarrow> db \<Rightarrow> bool" where
  "agent_busy a d = list_ex (\<lambda>r. run_agent r = a \<and> running r) (runs d)"

definition persona_busy :: "username \<Rightarrow> db \<Rightarrow> bool" where
  "persona_busy p d = list_ex (\<lambda>r. persona_username r = p \<and> running r) (runs d)"

definition find_run :: "int \<Rightarrow> db \<Rightarrow> agent_run option" where
  "find_run i d = find_row run_id i (runs d)"

definition find_agent :: "int \<Rightarrow> db \<Rightarrow> agent option" where
  "find_agent i d = find_row agent_id i (agents d)"

definition run_is_active :: "int \<Rightarrow> db \<Rightarrow> bool" where
  "run_is_active i d = (case find_run i d of None \<Rightarrow> False | Some r \<Rightarrow> running r)"

definition on_agent :: "int \<Rightarrow> (agent \<Rightarrow> agent) \<Rightarrow> db \<Rightarrow> db" where
  "on_agent i f d = d\<lparr>agents := update_rows (\<lambda>a. agent_id a = i) f (agents d)\<rparr>"

text \<open>A conditional update: it reaches the row only while the run is still running.\<close>

definition on_running_run :: "int \<Rightarrow> (agent_run \<Rightarrow> agent_run) \<Rightarrow> db \<Rightarrow> db" where
  "on_running_run i f d = d\<lparr>runs := update_rows (\<lambda>r. run_id r = i \<and> running r) f (runs d)\<rparr>"

section \<open>Recovery of stale runs\<close>

text \<open>Budgets beyond a \<open>timedelta\<close>'s range of 999999999 days are taken as they are.\<close>

definition recovery_message :: string where
  "recovery_message = ''Recovered: run exceeded wall-clock budget plus grace.''"

definition release_agent :: "int \<Rightarrow> db \<Rightarrow> db" where
  "release_agent a d =
     d\<lparr>agents := update_rows (\<lambda>x. agent_id x = a \<and> agent_status x = ''running'')
         (\<lambda>x. x\<lparr>agent_status := ''idle''\<rparr>) (agents d)\<rparr>"

definition interrupt_run :: "int \<Rightarrow> int \<Rightarrow> timestamp \<Rightarrow> db \<Rightarrow> db" where
  "interrupt_run i a now d =
     (if run_is_active i d
      then release_agent a
        (on_running_run i (\<lambda>r. r\<lparr>run_status := ''interrupted'', finished_at := Some now,
           run_error := Some recovery_message\<rparr>) d)
      else d)"

definition stale_grace :: "agent \<Rightarrow> int" where
  "stale_grace a = seconds (int_budget (effective_config a) ''max_run_seconds'' + 60)"

definition recover_stale_runs :: "agent \<Rightarrow> timestamp \<Rightarrow> db \<Rightarrow> bool \<times> db" where
  "recover_stale_runs a now d =
     (let stuck = map run_id (filter (\<lambda>r. run_agent r = agent_id a \<and> running r \<and>
                    started_at r < now - stale_grace a) (runs d));
          d' = fold (\<lambda>i. interrupt_run i (agent_id a) now) stuck d
      in (agent_busy (agent_id a) d', d'))"

section \<open>Reservation\<close>

datatype run_error =
    No_Such_Agent int
  | Already_Running int
  | Fixed_Without_User int
  | Fixed_Human int
  | No_Eligible_Persona int
  | Could_Not_Reserve int
  | Planning_Raised string
  | Closing_Raised

definition previous_persona :: "int \<Rightarrow> db \<Rightarrow> username option" where
  "previous_persona a d =
     (case order_desc run_id (filter (\<lambda>r. run_agent r = a) (runs d)) of
        [] \<Rightarrow> None
      | r # _ \<Rightarrow> Some (persona_username r))"

definition eligible_personas :: "int \<Rightarrow> db \<Rightarrow> username list" where
  "eligible_personas a d =
     (let fixed = List.map_filter user_username (agents d);
          busy = map persona_username (filter running (runs d));
          pool = filter (\<lambda>n. n \<notin> set fixed \<and> n \<notin> set busy)
            (map user_name (sort_key user_name (filter (\<lambda>u. password_hash u = None) (users d))))
      in case previous_persona a d of
           None \<Rightarrow> pool
         | Some p \<Rightarrow> if p \<in> set pool \<and> 1 < length pool then remove1 p pool else pool)"

definition last_used :: "username \<Rightarrow> db \<Rightarrow> timestamp option" where
  "last_used n d =
     (case order_desc started_at (filter (\<lambda>r. persona_username r = n) (runs d)) of
        [] \<Rightarrow> None
      | r # _ \<Rightarrow> Some (started_at r))"

text \<open>\<open>random.choice\<close>, with the draw as an argument.\<close>

definition py_choice :: "nat \<Rightarrow> 'a list \<Rightarrow> 'a" where
  "py_choice draw xs = xs ! (draw mod length xs)"

definition pick_lru_persona :: "nat \<Rightarrow> username list \<Rightarrow> db \<Rightarrow> username" where
  "pick_lru_persona draw pool d =
     (let never = filter (\<lambda>n. last_used n d = None) pool in
      if never \<noteq> [] then py_choice draw never
      else
        let by_use = sort_key (\<lambda>n. case last_used n d of None \<Rightarrow> datetime_min | Some t \<Rightarrow> t) pool;
            window = min (max 3 (length pool div 5)) (length pool)
        in py_choice draw (take window by_use))"

definition select_persona :: "agent \<Rightarrow> nat \<Rightarrow> db \<Rightarrow> run_error + username" where
  "select_persona a draw d =
     (if persona_mode a \<noteq> ''random'' then
        (case user_username a of
           None \<Rightarrow> Inl (Fixed_Without_User (agent_id a))
         | Some n \<Rightarrow>
             (case find_row user_name n (users d) of
                None \<Rightarrow> Inl (Fixed_Without_User (agent_id a))
              | Some u \<Rightarrow> if password_hash u \<noteq> None then Inl (Fixed_Human (agent_id a)) else Inr n))
      else if eligible_personas (agent_id a) d = [] then Inl (No_Eligible_Persona (agent_id a))
      else Inr (pick_lru_persona draw (eligible_personas (agent_id a) d) d))"

definition new_run :: "int \<Rightarrow> username \<Rightarrow> string \<Rightarrow> timestamp \<Rightarrow> db \<Rightarrow> agent_run" where
  "new_run a persona trig now d =
     \<lparr>run_id = next_id run_id (runs d), run_agent = a, persona_username = persona, run_trigger = trig,
      run_intent = None, run_status = ''running'', started_at = now, finished_at = None, turn_count = 0,
      action_count = 0, token_usage = JObj [], prompt_metadata = None, run_error = None\<rparr>"

text \<open>
  The commit of a reservation: the agent becomes running and the row is inserted, unless one of
  the partial unique indexes refuses it.
\<close>

definition index_refuses :: "int \<Rightarrow> username \<Rightarrow> db \<Rightarrow> bool" where
  "index_refuses a persona d = (agent_busy a d \<or> persona_busy persona d)"

definition insert_run :: "agent_run \<Rightarrow> db \<Rightarrow> db" where
  "insert_run r d =
     (on_agent (run_agent r) (\<lambda>x. x\<lparr>agent_status := ''running''\<rparr>) d)\<lparr>runs := runs d @ [r]\<rparr>"

text \<open>
  One attempt reads the database, other processes commit (\<open>others n\<close>), and the commit is tried
  on what they left. The agent's persona mode and name are those of the loaded row.
\<close>

fun reserve_attempts :: "nat \<Rightarrow> agent \<Rightarrow> string \<Rightarrow> (nat \<Rightarrow> db \<Rightarrow> db) \<Rightarrow> (nat \<Rightarrow> nat) \<Rightarrow> (nat \<Rightarrow> timestamp) \<Rightarrow>
    db \<Rightarrow> (run_error + agent_run) \<times> db" where
  "reserve_attempts 0 a trig others draw clock d = (Inl (Could_Not_Reserve (agent_id a)), d)"
| "reserve_attempts (Suc n) a trig others draw clock d =
     (if agent_busy (agent_id a) d then (Inl (Already_Running (agent_id a)), d)
      else case select_persona a (draw n) d of
          Inl e \<Rightarrow> (Inl e, d)
        | Inr persona \<Rightarrow>
            let d' = others n d; r = new_run (agent_id a) persona trig (clock n) d' in
            if \<not> index_refuses (agent_id a) persona d' then (Inr r, insert_run r d')
            else if agent_busy (agent_id a) d' then (Inl (Already_Running (agent_id a)), d')
            else reserve_attempts n a trig others draw clock d')"

definition reserve_persona_run :: "agent \<Rightarrow> string \<Rightarrow> (nat \<Rightarrow> db \<Rightarrow> db) \<Rightarrow> (nat \<Rightarrow> nat) \<Rightarrow> (nat \<Rightarrow> timestamp) \<Rightarrow>
    db \<Rightarrow> (run_error + agent_run) \<times> db" where
  "reserve_persona_run a trig others draw clock d = reserve_attempts RESERVATION_ATTEMPTS a trig others draw clock d"

definition backoff_without_strike :: "int \<Rightarrow> timestamp \<Rightarrow> db \<Rightarrow> db" where
  "backoff_without_strike a now d =
     on_agent a (\<lambda>x. x\<lparr>agent_status := ''error'', last_run_at := Some now,
       next_run_at := (if is_enabled x then Some (now + seconds FAILURE_BACKOFF_SECONDS) else next_run_at x)\<rparr>) d"

section \<open>Closing a run\<close>

definition fail_agent :: "bool \<Rightarrow> timestamp \<Rightarrow> agent \<Rightarrow> agent" where
  "fail_agent strike now x =
     (let y = x\<lparr>agent_status := ''error'', last_run_at := Some now,
                next_run_at := (if is_enabled x then Some (now + seconds FAILURE_BACKOFF_SECONDS) else next_run_at x)\<rparr>;
          z = y\<lparr>consecutive_failures := consecutive_failures y + 1\<rparr>
      in if \<not> strike then y
         else if consecutive_failures z \<ge> CONSECUTIVE_FAILURE_DISABLE_THRESHOLD
         then z\<lparr>is_enabled := False, agent_status := ''disabled'', next_run_at := None\<rparr>
         else z)"

definition on_running_agent :: "int \<Rightarrow> (agent \<Rightarrow> agent) \<Rightarrow> db \<Rightarrow> db" where
  "on_running_agent i f d =
     d\<lparr>agents := update_rows (\<lambda>x. agent_id x = i \<and> agent_status x = ''running'') f (agents d)\<rparr>"

definition fail_run :: "int \<Rightarrow> int \<Rightarrow> int \<Rightarrow> int \<Rightarrow> json \<Rightarrow> string \<Rightarrow> bool \<Rightarrow> timestamp \<Rightarrow> db \<Rightarrow> db" where
  "fail_run i a nturns nactions usage message strike now d =
     (if run_is_active i d
      then on_running_agent a (fail_agent strike now)
        (on_running_run i (\<lambda>r. r\<lparr>run_status := ''failed'', finished_at := Some now, turn_count := nturns,
           action_count := nactions, token_usage := usage, run_error := Some (take 2000 message)\<rparr>) d)
      else d)"

text \<open>
  A completed run schedules the agent's next wake, if the agent is still running and enabled;
  \<open>u\<close> is the draw of \<open>random.uniform\<close>. \<open>None\<close>: computing the wake time raised, nothing is
  committed and the exception leaves \<open>run_once\<close>.
\<close>

definition base_delay :: "(string \<times> json) list \<Rightarrow> rat \<Rightarrow> rat" where
  "base_delay cfg u =
     (let lo = int_budget cfg ''min_delay''; hi = max lo (int_budget cfg ''max_delay'')
      in of_int lo + of_int (hi - lo) * u)"

definition cadence_metadata :: "json option \<Rightarrow> rat \<Rightarrow> rat \<Rightarrow> json" where
  "cadence_metadata md base scheduled =
     JObj (json_set ''cadence_sample''
       (JObj [(''base_delay_seconds'', JFloat base), (''scheduled_delay_seconds'', JFloat scheduled)])
       (case md of Some (JObj kvs) \<Rightarrow> kvs | _ \<Rightarrow> []))"

definition plain_metadata :: "json option \<Rightarrow> json" where
  "plain_metadata md = (case md of Some (JObj kvs) \<Rightarrow> JObj kvs | _ \<Rightarrow> JObj [])"

definition completed :: "int \<Rightarrow> int \<Rightarrow> json \<Rightarrow> timestamp \<Rightarrow> (json option \<Rightarrow> json option) \<Rightarrow> agent_run \<Rightarrow> agent_run" where
  "completed nturns nactions usage now md r =
     r\<lparr>run_status := ''completed'', finished_at := Some now, turn_count := nturns, action_count := nactions,
       token_usage := usage, prompt_metadata := md (prompt_metadata r)\<rparr>"

definition complete_run :: "int \<Rightarrow> int \<Rightarrow> (string \<times> json) list \<Rightarrow> (string \<Rightarrow> string option) \<Rightarrow> rat \<Rightarrow>
    int \<Rightarrow> int \<Rightarrow> json \<Rightarrow> timestamp \<Rightarrow> db \<Rightarrow> db option" where
  "complete_run i a cfg reader u nturns nactions usage now d =
     (if \<not> run_is_active i d then Some d
      else case find_agent a d of
          None \<Rightarrow> Some (on_running_run i (completed nturns nactions usage now (\<lambda>md. md)) d)
        | Some x \<Rightarrow>
            if agent_status x = ''running'' \<and> is_enabled x then
              let base = base_delay cfg u; delay = scaled_wake_delay reader base now in
              (case (delay, add_seconds now delay) of
                 (Finite q, Some wake) \<Rightarrow>
                   Some (on_running_agent a (\<lambda>x. x\<lparr>consecutive_failures := 0, agent_status := ''idle'',
                       last_run_at := Some now, next_run_at := Some wake\<rparr>)
                     (on_running_run i (completed nturns nactions usage now
                       (\<lambda>md. Some (cadence_metadata md base q))) d))
               | _ \<Rightarrow> None)
            else
              Some (on_running_agent a (\<lambda>x. x\<lparr>consecutive_failures := 0, agent_status := ''idle'',
                  last_run_at := Some now, next_run_at := (if is_enabled x then next_run_at x else None)\<rparr>)
                (on_running_run i (completed nturns nactions usage now (\<lambda>md. Some (plain_metadata md))) d)))"

section \<open>The invariant of runs and agents\<close>

text \<open>
  \<open>runs_ok\<close>: keys are keys; no agent and no persona has two running runs; and an agent marked
  running has a running run, so that closing or recovering that run frees it.
\<close>

definition one_run_each :: "db \<Rightarrow> bool" where
  "one_run_each d =
     (distinct (map run_agent (filter running (runs d))) \<and>
      distinct (map persona_username (filter running (runs d))))"

definition nobody_stranded :: "db \<Rightarrow> bool" where
  "nobody_stranded d = (\<forall>a \<in> set (agents d). agent_status a = ''running'' \<longrightarrow> agent_busy (agent_id a) d)"

definition keys_ok :: "db \<Rightarrow> bool" where
  "keys_ok d = (distinct (map run_id (runs d)) \<and> distinct (map agent_id (agents d)))"

definition runs_ok :: "db \<Rightarrow> bool" where
  "runs_ok d = (keys_ok d \<and> one_run_each d \<and> nobody_stranded d)"

lemma agent_busy_iff: "agent_busy a d \<longleftrightarrow> a \<in> run_agent ` set (filter running (runs d))"
  by (auto simp: agent_busy_def list_ex_iff)

lemma persona_busy_iff: "persona_busy p d \<longleftrightarrow> p \<in> persona_username ` set (filter running (runs d))"
  by (auto simp: persona_busy_def list_ex_iff)

text \<open>Ending a run: every closing operation turns exactly one running row into a finished one.\<close>

lemma filter_running_close:
  assumes "\<And>r. \<not> running (f r)"
  shows "filter running (update_rows (\<lambda>r. run_id r = i \<and> running r) f rs) =
    filter (\<lambda>r. running r \<and> run_id r \<noteq> i) rs"
  using assms by (induction rs) auto

lemma on_running_run_fields [simp]:
  "agents (on_running_run i f d) = agents d" "users (on_running_run i f d) = users d"
  "runs (on_running_agent a g d) = runs d" "users (on_running_agent a g d) = users d"
  "runs (on_agent a g d) = runs d" "users (on_agent a g d) = users d"
  by (simp_all add: on_running_run_def on_running_agent_def on_agent_def)

lemma one_run_filter:
  "one_run_each d \<Longrightarrow> distinct (map run_agent (filter (\<lambda>r. running r \<and> P r) (runs d))) \<and>
     distinct (map persona_username (filter (\<lambda>r. running r \<and> P r) (runs d)))"
proof -
  assume "one_run_each d"
  then have "distinct (map run_agent (filter P (filter running (runs d)))) \<and>
      distinct (map persona_username (filter P (filter running (runs d))))"
    using distinct_map_filter_key [of run_agent "filter running (runs d)" P]
      distinct_map_filter_key [of persona_username "filter running (runs d)" P]
    by (simp add: one_run_each_def)
  then show ?thesis by (simp add: conj_commute)
qed

lemma close_keeps_ok:
  assumes ok: "runs_ok d" and active: "run_is_active i d"
    and run: "find_run i d = Some r" "run_agent r = a"
    and f: "\<And>r. \<not> running (f r)" "\<And>r. run_id (f r) = run_id r"
    and g: "\<And>x. agent_id (g x) = agent_id x" "\<And>x. agent_status x = ''running'' \<Longrightarrow> agent_status (g x) \<noteq> ''running''"
  shows "runs_ok (on_running_agent a g (on_running_run i f d))"
proof -
  let ?d = "on_running_agent a g (on_running_run i f d)"
  have still: "filter running (runs ?d) = filter (\<lambda>r. running r \<and> run_id r \<noteq> i) (runs d)"
    using f(1) by (simp add: on_running_run_def filter_running_close)
  have "keys_ok ?d"
    using ok f(2) g(1) by (simp add: runs_ok_def keys_ok_def on_running_run_def on_running_agent_def)
  moreover have "one_run_each ?d"
    unfolding one_run_each_def still using ok one_run_filter [of d "\<lambda>r. run_id r \<noteq> i"] by (simp add: runs_ok_def)
  moreover have "nobody_stranded ?d"
    unfolding nobody_stranded_def
  proof (intro ballI impI)
    fix y assume "y \<in> set (agents ?d)" and status: "agent_status y = ''running''"
    then have "\<exists>x \<in> set (agents d). y = (if agent_id x = a \<and> agent_status x = ''running'' then g x else x)"
      by (auto simp: on_running_agent_def set_update_rows)
    then obtain x where x: "x \<in> set (agents d)"
      "y = (if agent_id x = a \<and> agent_status x = ''running'' then g x else x)" by blast
    with status g(2) have y: "y = x" "agent_id x \<noteq> a" by (auto split: if_splits)
    with ok x(1) status have "agent_busy (agent_id x) d" by (simp add: runs_ok_def nobody_stranded_def)
    then obtain s where s: "s \<in> set (runs d)" "running s" "run_agent s = agent_id x"
      by (auto simp: agent_busy_def list_ex_iff)
    have "run_id s \<noteq> i"
    proof
      assume "run_id s = i"
      with s ok run(1) have "s = r"
        using find_row_key [of run_id "runs d" s] by (simp add: runs_ok_def keys_ok_def find_run_def)
      with s y run(2) show False by simp
    qed
    with s show "agent_busy (agent_id y) ?d"
      unfolding agent_busy_iff still y by force
  qed
  ultimately show ?thesis by (simp add: runs_ok_def)
qed

lemmas run_closing_defs = interrupt_run_def fail_run_def complete_run_def release_agent_def

lemma release_agent_alt: "release_agent a d = on_running_agent a (\<lambda>x. x\<lparr>agent_status := ''idle''\<rparr>) d"
  by (simp add: release_agent_def on_running_agent_def)

lemma fail_agent_props [simp]:
  "agent_id (fail_agent strike now x) = agent_id x"
  "agent_status (fail_agent strike now x) \<noteq> ''running''"
  by (simp_all add: fail_agent_def Let_def)

lemma active_run: "run_is_active i d \<Longrightarrow> \<exists>r. find_run i d = Some r \<and> running r"
  by (auto simp: run_is_active_def split: option.splits)

text \<open>\<open>owns i a d\<close>: the run \<open>i\<close>, if there is one, is a run of agent \<open>a\<close>.\<close>

definition owns :: "int \<Rightarrow> int \<Rightarrow> db \<Rightarrow> bool" where
  "owns i a d = (\<forall>r. find_run i d = Some r \<longrightarrow> run_agent r = a)"

lemma interrupt_keeps_ok:
  assumes "runs_ok d" and "owns i a d"
  shows "runs_ok (interrupt_run i a now d)"
proof (cases "run_is_active i d")
  case True
  obtain r where "find_run i d = Some r" using active_run [OF True] by blast
  with True assms show ?thesis
    unfolding interrupt_run_def release_agent_alt
    by (simp add: owns_def) (rule close_keeps_ok [of d i r]; simp add: running_def)
qed (simp add: interrupt_run_def assms)

lemma fail_keeps_ok:
  assumes "runs_ok d" and "owns i a d"
  shows "runs_ok (fail_run i a n m usage msg strike now d)"
proof (cases "run_is_active i d")
  case True
  obtain r where "find_run i d = Some r" using active_run [OF True] by blast
  with True assms show ?thesis
    unfolding fail_run_def
    by (simp add: owns_def) (rule close_keeps_ok [of d i r]; simp add: running_def)
qed (simp add: fail_run_def assms)

lemma on_no_agent:
  assumes "find_agent a d = None"
  shows "on_running_agent a g (on_running_run i f d) = on_running_run i f d"
proof -
  have "update_rows (\<lambda>x. agent_id x = a \<and> agent_status x = ''running'') g (agents d) = agents d"
    using assms by (intro update_rows_none) (auto simp: find_agent_def find_row_None_iff)
  then show ?thesis by (cases d) (simp add: on_running_agent_def on_running_run_def)
qed

lemma complete_keeps_ok:
  assumes "runs_ok d" and "owns i a d" and "complete_run i a cfg reader u n m usage now d = Some d'"
  shows "runs_ok d'"
proof (cases "run_is_active i d")
  case True
  obtain r where r: "find_run i d = Some r" using active_run [OF True] by blast
  have close: "runs_ok (on_running_agent a g (on_running_run i (completed n m usage now md) d))"
    if "\<And>x. agent_id (g x) = agent_id x" "\<And>x. agent_status (g x) \<noteq> ''running''" for g md
    using assms(1,2) True r that
    by (intro close_keeps_ok [of d i r]) (simp_all add: owns_def running_def completed_def)
  show ?thesis
  proof (cases "find_agent a d")
    case None
    then have "runs_ok (on_running_run i (completed n m usage now (\<lambda>md. md)) d)"
      using close [of "\<lambda>x. x\<lparr>agent_status := ''idle''\<rparr>" "\<lambda>md. md"] by (simp add: on_no_agent)
    with assms(3) True None show ?thesis by (simp add: complete_run_def)
  next
    case (Some x)
    with assms(3) True show ?thesis
      by (auto simp: complete_run_def Let_def intro!: close split: if_splits option.splits py_float.splits)
  qed
qed (use assms in \<open>simp add: complete_run_def\<close>)

lemma find_run_interrupt: "find_run i d = Some r \<Longrightarrow> \<exists>r'. find_run i (interrupt_run k a now d) = Some r' \<and> run_agent r' = run_agent r"
  by (auto simp: find_run_def interrupt_run_def release_agent_def on_running_run_def find_row_update)

lemma owns_interrupt: "owns i a d \<Longrightarrow> owns i a (interrupt_run k b now d)"
  by (auto simp: owns_def find_run_def interrupt_run_def release_agent_def on_running_run_def find_row_update
      split: option.splits if_splits)

lemma owns_row: "keys_ok d \<Longrightarrow> r \<in> set (runs d) \<Longrightarrow> owns (run_id r) (run_agent r) d"
  using find_row_key [of run_id "runs d" r] by (auto simp: owns_def find_run_def keys_ok_def)

lemma interrupt_all_ok:
  assumes "runs_ok d" and "\<forall>(i, a) \<in> set ias. owns i a d"
  shows "runs_ok (fold (\<lambda>(i, a). interrupt_run i a now) ias d)"
  using assms
proof (induction ias arbitrary: d)
  case (Cons ia ias)
  obtain i a where ia: "ia = (i, a)" by (cases ia)
  have "runs_ok (interrupt_run i a now d)" using Cons.prems ia by (intro interrupt_keeps_ok) auto
  moreover have "\<forall>(k, b) \<in> set ias. owns k b (interrupt_run i a now d)"
    using Cons.prems owns_interrupt by fastforce
  ultimately show ?case using Cons.IH ia by simp
qed simp

lemma recover_keeps_ok:
  assumes "runs_ok d"
  shows "runs_ok (snd (recover_stale_runs a now d))"
proof -
  let ?stuck = "filter (\<lambda>r. run_agent r = agent_id a \<and> running r \<and> started_at r < now - stale_grace a) (runs d)"
  have fold: "fold (\<lambda>i. interrupt_run i (agent_id a) now) ids d =
      fold (\<lambda>(i, a). interrupt_run i a now) (map (\<lambda>i. (i, agent_id a)) ids) d" for ids d
    by (induction ids arbitrary: d) auto
  have "\<forall>(i, b) \<in> set (map (\<lambda>i. (i, agent_id a)) (map run_id ?stuck)). owns i b d"
    using assms owns_row [of d] by (fastforce simp: runs_ok_def)
  with assms show ?thesis
    unfolding recover_stale_runs_def Let_def snd_conv fold by (intro interrupt_all_ok)
qed

section \<open>Selection and reservation\<close>

definition simulated :: "username \<Rightarrow> db \<Rightarrow> bool" where
  "simulated n d = (case find_row user_name n (users d) of None \<Rightarrow> False | Some u \<Rightarrow> password_hash u = None)"

definition names_ok :: "db \<Rightarrow> bool" where
  "names_ok d = distinct (map user_name (users d))"

lemma simulatedI: "names_ok d \<Longrightarrow> u \<in> set (users d) \<Longrightarrow> password_hash u = None \<Longrightarrow> simulated (user_name u) d"
  by (simp add: simulated_def names_ok_def)

lemma eligible_personas_sound:
  assumes "names_ok d" and "n \<in> set (eligible_personas a d)"
  shows "simulated n d \<and> \<not> persona_busy n d \<and> (\<forall>x \<in> set (agents d). user_username x \<noteq> Some n)"
proof -
  let ?fixed = "List.map_filter user_username (agents d)"
  have "n \<in> user_name ` {u \<in> set (users d). password_hash u = None} \<and> n \<notin> set ?fixed \<and>
      n \<notin> persona_username ` set (filter running (runs d))"
    using assms(2) notin_set_remove1
    by (auto simp: eligible_personas_def Let_def split: option.splits if_splits)
  moreover have "n \<in> set ?fixed" if "x \<in> set (agents d)" "user_username x = Some n" for x
    using that by (force simp: List.map_filter_def)
  ultimately show ?thesis using simulatedI [OF assms(1)] by (auto simp: persona_busy_iff)
qed

lemma py_choice_mem: "xs \<noteq> [] \<Longrightarrow> py_choice draw xs \<in> set xs"
  by (simp add: py_choice_def)

lemma pick_lru_mem:
  assumes "pool \<noteq> []"
  shows "pick_lru_persona draw pool d \<in> set pool"
proof (cases "filter (\<lambda>n. last_used n d = None) pool = []")
  case True
  let ?by = "sort_key (\<lambda>n. case last_used n d of None \<Rightarrow> datetime_min | Some t \<Rightarrow> t) pool"
  have "take (min (max 3 (length pool div 5)) (length pool)) ?by \<noteq> []"
    using assms by (simp flip: length_greater_0_conv)
  from py_choice_mem [OF this, of draw] have "pick_lru_persona draw pool d \<in> set ?by"
    using in_set_takeD True unfolding pick_lru_persona_def Let_def by fastforce
  then show ?thesis by simp
next
  case False
  from py_choice_mem [OF this] False show ?thesis by (auto simp: pick_lru_persona_def)
qed

lemma select_persona_sound:
  assumes "names_ok d" and "select_persona a draw d = Inr n"
  shows "simulated n d"
proof (cases "persona_mode a = ''random''")
  case True
  with assms(2) have "eligible_personas (agent_id a) d \<noteq> []"
    and n: "n = pick_lru_persona draw (eligible_personas (agent_id a) d) d"
    by (auto simp: select_persona_def split: if_splits)
  then have "n \<in> set (eligible_personas (agent_id a) d)" by (simp add: pick_lru_mem)
  with eligible_personas_sound [OF assms(1)] show ?thesis by blast
next
  case False
  with assms(2) show ?thesis
    by (auto simp: select_persona_def simulated_def split: option.splits if_splits)
qed

lemma insert_keeps_ok:
  assumes "runs_ok d" and "\<not> index_refuses a p d"
  shows "runs_ok (insert_run (new_run a p trig now d) d)"
proof -
  let ?r = "new_run a p trig now d" and ?d = "insert_run (new_run a p trig now d) d"
  have r: "running ?r" "run_agent ?r = a" "persona_username ?r = p" "run_id ?r = next_id run_id (runs d)"
    by (simp_all add: new_run_def running_def)
  have "keys_ok ?d"
    using assms(1) run_table.insert_keeps_keys [of d ?r] r(4)
    by (simp add: runs_ok_def keys_ok_def insert_run_def on_agent_def)
  moreover have "one_run_each ?d"
    using assms r by (simp add: runs_ok_def one_run_each_def insert_run_def index_refuses_def
        agent_busy_iff persona_busy_iff)
  moreover have "nobody_stranded ?d"
    using assms(1) r
    by (force simp: runs_ok_def nobody_stranded_def insert_run_def on_agent_def set_update_rows agent_busy_def)
  ultimately show ?thesis by (simp add: runs_ok_def)
qed

definition polite :: "(nat \<Rightarrow> db \<Rightarrow> db) \<Rightarrow> bool" where
  "polite others =
     (\<forall>n d. runs_ok d \<and> names_ok d \<longrightarrow>
        runs_ok (others n d) \<and> names_ok (others n d) \<and> (\<forall>p. simulated p d \<longrightarrow> simulated p (others n d)))"

lemma reserve_attempts_sound:
  assumes "polite others" and "runs_ok d" and "names_ok d"
    and "reserve_attempts n a trig others draw clock d = (res, d')"
  shows "runs_ok d' \<and> names_ok d' \<and>
    (\<forall>r. res = Inr r \<longrightarrow> find_run (run_id r) d' = Some r \<and> running r \<and> run_agent r = agent_id a \<and>
       simulated (persona_username r) d')"
  using assms(2-4)
proof (induction n arbitrary: d)
  case (Suc n)
  show ?case
  proof (cases "agent_busy (agent_id a) d \<or> (\<exists>e. select_persona a (draw n) d = Inl e)")
    case True
    with Suc.prems show ?thesis by (auto split: if_splits)
  next
    case False
    then obtain p where p: "select_persona a (draw n) d = Inr p" by (cases "select_persona a (draw n) d") auto
    let ?d = "others n d"
    let ?r = "new_run (agent_id a) p trig (clock n) ?d"
    have sim: "simulated p ?d" and ok: "runs_ok ?d" "names_ok ?d"
      using assms(1) Suc.prems select_persona_sound [OF Suc.prems(2) p] by (auto simp: polite_def)
    show ?thesis
    proof (cases "index_refuses (agent_id a) p ?d")
      case True
      with False p Suc.prems Suc.IH [OF ok] ok show ?thesis
        by (auto simp: Let_def split: if_splits)
    next
      case free: False
      have "find_run (run_id ?r) (insert_run ?r ?d) = Some ?r"
        using run_table.insert_found [of ?r ?d] by (simp add: find_run_def insert_run_def new_run_def)
      moreover have "names_ok (insert_run ?r ?d)" "simulated p (insert_run ?r ?d)"
        using ok(2) sim by (simp_all add: names_ok_def simulated_def insert_run_def)
      ultimately show ?thesis
        using False free p Suc.prems insert_keeps_ok [OF ok(1) free]
        by (auto simp: Let_def new_run_def running_def)
    qed
  qed
qed auto

text \<open>Among personas that have all run before, fewer than the window ran longer ago.\<close>

lemma sorted_prefix_count:
  assumes "sorted (map f xs)" and "k < length xs"
  shows "length (filter (\<lambda>x. f x < f (xs ! k)) xs) \<le> k"
proof -
  have "filter (\<lambda>x. f x < f (xs ! k)) (drop k xs) = []"
    using assms by (auto simp: filter_empty_conv in_set_conv_nth sorted_iff_nth_mono not_less)
  moreover have "filter P xs = filter P (take k xs) @ filter P (drop k xs)" for P
    by (metis append_take_drop_id filter_append)
  ultimately have "filter (\<lambda>x. f x < f (xs ! k)) xs = filter (\<lambda>x. f x < f (xs ! k)) (take k xs)" by simp
  then have "length (filter (\<lambda>x. f x < f (xs ! k)) xs) \<le> length (take k xs)"
    by (metis length_filter_le)
  then show ?thesis using assms(2) by simp
qed

definition used_at :: "db \<Rightarrow> username \<Rightarrow> timestamp" where
  "used_at d n = (case last_used n d of None \<Rightarrow> datetime_min | Some t \<Rightarrow> t)"

text \<open>Selection is fair. For a random agent the chosen persona is a simulated account that no
  fixed agent owns and no running run uses; a persona that has never run is preferred; and once
  all have run, fewer than a fifth of the pool (or fewer than three) were idle for longer.\<close>

lemma selection_is_fair:
  assumes "names_ok d" and "persona_mode a = ''random''" and "select_persona a draw d = Inr n"
  shows "simulated n d \<and> \<not> persona_busy n d \<and> (\<forall>x \<in> set (agents d). user_username x \<noteq> Some n) \<and>
    (let pool = eligible_personas (agent_id a) d in
       if \<exists>m \<in> set pool. last_used m d = None then last_used n d = None
       else length (filter (\<lambda>m. used_at d m < used_at d n) pool) < max 3 (length pool div 5))"
proof -
  let ?pool = "eligible_personas (agent_id a) d"
  have pool: "?pool \<noteq> []" and n: "n = pick_lru_persona draw ?pool d"
    using assms(2,3) by (auto simp: select_persona_def split: if_splits)
  have "n \<in> set ?pool" using pool n by (simp add: pick_lru_mem)
  moreover have "if \<exists>m \<in> set ?pool. last_used m d = None then last_used n d = None
      else length (filter (\<lambda>m. used_at d m < used_at d n) ?pool) < max 3 (length ?pool div 5)"
  proof (cases "\<exists>m \<in> set ?pool. last_used m d = None")
    case True
    then have "filter (\<lambda>m. last_used m d = None) ?pool \<noteq> []" by (auto simp: filter_empty_conv)
    from py_choice_mem [OF this, of draw] this True show ?thesis by (simp add: n pick_lru_persona_def)
  next
    case False
    then have never: "filter (\<lambda>m. last_used m d = None) ?pool = []" by (auto simp: filter_empty_conv)
    let ?by = "sort_key (used_at d) ?pool" and ?w = "min (max 3 (length ?pool div 5)) (length ?pool)"
    let ?k = "draw mod ?w"
    have "0 < ?w" using pool by simp
    then have k: "?k < ?w" by (rule mod_less_divisor)
    have "n = ?by ! ?k"
      using never k by (simp add: n pick_lru_persona_def py_choice_def Let_def used_at_def [abs_def])
    moreover have "length (filter (\<lambda>m. used_at d m < used_at d (?by ! ?k)) ?by) \<le> ?k"
      using k by (intro sorted_prefix_count) auto
    moreover have "length (filter P ?by) = length (filter P ?pool)" for P by (simp add: filter_sort)
    ultimately have "length (filter (\<lambda>m. used_at d m < used_at d n) ?pool) < max 3 (length ?pool div 5)"
      using k by simp
    then show ?thesis by (subst if_not_P [OF False])
  qed
  ultimately show ?thesis using eligible_personas_sound [OF assms(1)] by (simp add: Let_def)
qed

text \<open>Reservation under contention. Whatever other processes commit between an attempt's
  reads and its commit (as long as they respect the same indexes), at most one running run per
  agent and per persona survives and no agent is left marked running without one; a run that
  is returned is stored, running, the agent's own, and its persona is a simulated account; a
  refused reservation leaves the database exactly as the others left it.\<close>

theorem reservation_exclusive:
  assumes "polite others" and "runs_ok d" and "names_ok d"
    and "reserve_persona_run a trig others draw clock d = (res, d')"
  shows "runs_ok d' \<and>
    (case res of
       Inr r \<Rightarrow> find_run (run_id r) d' = Some r \<and> running r \<and> run_agent r = agent_id a \<and>
         simulated (persona_username r) d'
     | Inl e \<Rightarrow> \<exists>ns. d' = fold others ns d)"
proof -
  have refused: "reserve_attempts n a trig others draw clock d = (Inl e, d') \<Longrightarrow> \<exists>ns. d' = fold others ns d" for n e d d'
  proof (induction n arbitrary: d)
    case 0
    then show ?case by (auto intro: exI [where x = "[]"])
  next
    case (Suc n)
    let ?d = "others n d"
    consider "d' = d" | "d' = ?d" | "reserve_attempts n a trig others draw clock ?d = (Inl e, d')"
      using Suc.prems by (auto simp: Let_def split: if_splits sum.splits)
    then show ?case
    proof cases
      case 1
      then show ?thesis by (intro exI [where x = "[]"]) simp
    next
      case 2
      then show ?thesis by (intro exI [where x = "[n]"]) simp
    next
      case 3
      then obtain ns where "d' = fold others ns ?d" using Suc.IH by blast
      then show ?thesis by (intro exI [where x = "n # ns"]) simp
    qed
  qed
  show ?thesis
    using reserve_attempts_sound [OF assms(1-3), of RESERVATION_ATTEMPTS a trig draw clock res d']
      assms(4) refused
    by (auto simp: reserve_persona_run_def split: sum.split)
qed

definition demo_agent :: "int \<Rightarrow> username option \<Rightarrow> agent" where
  "demo_agent i who = \<lparr>agent_id = i, persona_mode = (if who = None then ''random'' else ''fixed''),
     user_username = who, autonomy_tier = ''regular'', is_enabled = True, agent_status = ''idle'',
     agent_config = JObj [], run_state = JObj [], last_run_at = None, next_run_at = Some 0,
     consecutive_failures = 0\<rparr>"

definition demo_agents :: db where
  "demo_agents = sample_db\<lparr>agents := [demo_agent 1 None, demo_agent 2 (Some ''bob'')]\<rparr>"

lemma demo_agents_ok: "runs_ok demo_agents" "names_ok demo_agents"
  by (simp_all add: demo_agents_def demo_agent_def runs_ok_def keys_ok_def one_run_each_def nobody_stranded_def
      names_ok_def sample_db_def sample_user_def empty_db_def)

theorem selection_is_fair_witness: "simulated ''cy'' demo_agents \<and> \<not> persona_busy ''cy'' demo_agents"
proof -
  have "select_persona (demo_agent 1 None) 0 demo_agents = Inr ''cy''" by code_simp
  moreover have "persona_mode (demo_agent 1 None) = ''random''" by (simp add: demo_agent_def)
  ultimately show ?thesis using selection_is_fair demo_agents_ok(2) by blast
qed

theorem reservation_exclusive_witness:
  "let res = reserve_persona_run (demo_agent 1 None) ''manual'' (\<lambda>_ d. d) (\<lambda>_. 0) (\<lambda>_. 5) demo_agents in
     runs_ok (snd res) \<and> (\<exists>r. fst res = Inr r \<and> persona_username r = ''cy'' \<and> find_run 1 (snd res) = Some r)"
proof -
  let ?res = "reserve_persona_run (demo_agent 1 None) ''manual'' (\<lambda>_ d. d) (\<lambda>_. 0) (\<lambda>_. 5) demo_agents"
  have pol: "polite (\<lambda>_ d. d)" by (simp add: polite_def)
  have fst: "fst ?res = Inr (new_run 1 ''cy'' ''manual'' 5 demo_agents)" by code_simp
  obtain res d' where res: "?res = (res, d')" by fastforce
  with fst show ?thesis
    using reservation_exclusive [OF pol demo_agents_ok res]
    by (auto simp: Let_def new_run_def demo_agents_def sample_db_def empty_db_def next_id_def)
qed

section \<open>Fenced closing\<close>

definition closed_only :: "int \<Rightarrow> int \<Rightarrow> db \<Rightarrow> db \<Rightarrow> bool" where
  "closed_only i a d d' =
     (\<not> run_is_active i d' \<and> \<not> agent_busy a d' \<and>
      list_all (\<lambda>x. agent_id x = a \<longrightarrow> agent_status x \<noteq> ''running'') (agents d') \<and>
      (\<forall>k. k \<noteq> i \<longrightarrow> find_run k d' = find_run k d) \<and> (\<forall>b. b \<noteq> a \<longrightarrow> find_agent b d' = find_agent b d) \<and>
      (\<exists>rs as. d' = d\<lparr>runs := rs, agents := as\<rparr>))"

lemma close_closes:
  assumes ok: "runs_ok d" and active: "run_is_active i d" and own: "owns i a d"
    and f: "\<And>r. \<not> running (f r)" "\<And>r. run_id (f r) = run_id r" "\<And>r. run_agent (f r) = run_agent r"
    and g: "\<And>x. agent_id (g x) = agent_id x" "\<And>x. agent_status (g x) \<noteq> ''running''"
  shows "closed_only i a d (on_running_agent a g (on_running_run i f d))"
proof -
  let ?d = "on_running_agent a g (on_running_run i f d)"
  obtain r where r: "find_run i d = Some r" "running r" using active_run [OF active] by blast
  then have ra: "r \<in> set (runs d)" "run_id r = i" "run_agent r = a"
    using own find_row_SomeD [of run_id i "runs d" r] by (auto simp: owns_def find_run_def)
  have still: "filter running (runs ?d) = filter (\<lambda>r. running r \<and> run_id r \<noteq> i) (runs d)"
    using f(1) by (simp add: on_running_run_def filter_running_close)
  have "\<not> agent_busy a ?d"
  proof
    assume "agent_busy a ?d"
    then obtain s where s: "s \<in> set (filter running (runs d))" "run_agent s = a" "run_id s \<noteq> i"
      unfolding agent_busy_iff still by auto
    moreover have "r \<in> set (filter running (runs d))" using r ra by simp
    moreover have "inj_on run_agent (set (filter running (runs d)))"
      using ok by (simp add: runs_ok_def one_run_each_def distinct_map)
    ultimately have "s = r" using ra by (metis inj_onD)
    with s ra show False by simp
  qed
  moreover have "\<not> run_is_active i ?d"
    using f r ra by (simp add: run_is_active_def find_run_def on_running_run_def find_row_update)
  moreover have "list_all (\<lambda>x. agent_id x = a \<longrightarrow> agent_status x \<noteq> ''running'') (agents ?d)"
    using g(2) by (auto simp: list_all_iff on_running_agent_def set_update_rows)
  moreover have "find_run k ?d = find_run k d" if "k \<noteq> i" for k
    using that f(2) find_row_SomeD [of run_id k "runs d"]
    by (cases "find_row run_id k (runs d)") (auto simp: find_run_def on_running_run_def find_row_update)
  moreover have "find_agent b ?d = find_agent b d" if "b \<noteq> a" for b
    using that g(1) find_row_SomeD [of agent_id b "agents d"]
    by (cases "find_row agent_id b (agents d)")
      (auto simp: find_agent_def on_running_agent_def on_running_run_def find_row_update)
  moreover have "\<exists>rs as. ?d = d\<lparr>runs := rs, agents := as\<rparr>"
    by (intro exI) (simp add: on_running_agent_def on_running_run_def)
  ultimately show ?thesis by (simp add: closed_only_def)
qed

text \<open>Closing is fenced. Interrupting, failing or completing a run that is no longer running
  changes nothing at all, so a visit that outlived its recovery cannot touch its successor.
  Otherwise the operation ends exactly that run, leaves its agent with no running run and not
  marked running, and changes no other run, no other agent and no other table; and the
  invariant of runs and agents is kept.\<close>

lemma closing_is_fenced:
  assumes "runs_ok d" and "owns i a d"
    and "d' = interrupt_run i a now d \<or> d' = fail_run i a n m usage msg strike now d \<or>
      complete_run i a cfg reader u n m usage now d = Some d'"
  shows "(if run_is_active i d then closed_only i a d d' else d' = d) \<and> runs_ok d'"
proof
  show "runs_ok d'"
    using assms by (elim disjE) (simp_all add: interrupt_keeps_ok fail_keeps_ok complete_keeps_ok)
  show "if run_is_active i d then closed_only i a d d' else d' = d"
  proof (cases "run_is_active i d")
    case True
    have close: "closed_only i a d (on_running_agent a g (on_running_run i (completed n m usage now md) d))"
      if "\<And>x. agent_id (g x) = agent_id x" "\<And>x. agent_status (g x) \<noteq> ''running''" for g md
      using assms(1,2) True that by (intro close_closes) (simp_all add: running_def completed_def)
    have "closed_only i a d (interrupt_run i a now d)"
      unfolding interrupt_run_def release_agent_alt using True assms(1,2)
      by (simp) (rule close_closes; simp add: running_def)
    moreover have "closed_only i a d (fail_run i a n m usage msg strike now d)"
      unfolding fail_run_def using True assms(1,2)
      by (simp) (rule close_closes; simp add: running_def)
    moreover have "closed_only i a d d'" if "complete_run i a cfg reader u n m usage now d = Some d'"
    proof (cases "find_agent a d")
      case None
      then have "closed_only i a d (on_running_run i (completed n m usage now (\<lambda>md. md)) d)"
        using close [of "\<lambda>x. x\<lparr>agent_status := ''idle''\<rparr>" "\<lambda>md. md"] by (simp add: on_no_agent)
      with that True None show ?thesis by (simp add: complete_run_def)
    next
      case (Some x)
      with that True show ?thesis
        by (auto simp: complete_run_def Let_def intro!: close split: if_splits option.splits py_float.splits)
    qed
    ultimately show ?thesis using assms(3) True by auto
  next
    case False
    with assms(3) show ?thesis by (auto simp: interrupt_run_def fail_run_def complete_run_def)
  qed
qed

definition demo_running :: db where
  "demo_running = insert_run (new_run 1 ''cy'' ''schedule'' 5 demo_agents) demo_agents"

lemma demo_running_ok: "runs_ok demo_running"
  unfolding demo_running_def
  by (rule insert_keeps_ok [OF demo_agents_ok(1)])
    (simp add: index_refuses_def agent_busy_def persona_busy_def demo_agents_def sample_db_def empty_db_def)

theorem closing_is_fenced_witness:
  "closed_only 1 1 demo_running (fail_run 1 1 2 3 (JObj []) ''boom'' True 9 demo_running)"
proof -
  have "run_is_active 1 demo_running" and "owns 1 1 demo_running"
    by (simp_all add: owns_def run_is_active_def find_run_def demo_running_def insert_run_def new_run_def
        demo_agents_def sample_db_def empty_db_def next_id_def running_def on_agent_def)
  then show ?thesis
    using closing_is_fenced [OF demo_running_ok, of 1 1
        "fail_run 1 1 2 3 (JObj []) ''boom'' True 9 demo_running" 9 2 3 "JObj []" "''boom''" True]
    by simp
qed

end
