(* ===== verification/Visits.thy ===== *)
theory Visits
  imports Runs
begin

text \<open>
  The loop of \<open>run_once\<close> in \<open>deaddit/agents/loop.py\<close>: LLM turns, tool calls, pacing and
  budgets, then the whole of \<open>run_once\<close> around it. The model's answers, the tools, sleeping
  and everything other processes do are parameters of the environment; between any two
  observations of the loop the environment may change the database and let time pass.
\<close>

section \<open>The world of a visit\<close>

text \<open>The database, the monotonic clock in microseconds, the communities the visit was already
  nudged about, and the files under the media root and under the website root.\<close>

record world =
  wdb :: db
  mono_now :: timestamp
  nudged_subs :: "string list"
  media_files :: "string list"
  page_files :: "string list"

record llm_result =
  res_content :: string
  res_calls :: "json list"
  res_usage :: "(string \<times> json) list"

datatype llm_answer = Answer llm_result | Permanent_Error string | Other_Error string

text \<open>\<open>run_tool\<close> is \<open>execute\<close>: the outcome, or the text of an exception.\<close>

record visit_env =
  others :: "world \<Rightarrow> world"
  sleep_for :: "int \<Rightarrow> world \<Rightarrow> world"
  complete_chat :: "json list \<Rightarrow> world \<Rightarrow> llm_answer \<times> world"
  run_tool :: "json \<Rightarrow> json \<Rightarrow> world \<Rightarrow> (string + json) \<times> world"

record budget =
  visit_run :: int
  max_actions :: int
  turn_interval :: int
  expires_at :: timestamp

definition expired :: "budget \<Rightarrow> world \<Rightarrow> bool" where
  "expired b w = (max 0 (expires_at b - mono_now w) \<le> 0)"

definition still_active :: "budget \<Rightarrow> world \<Rightarrow> bool" where
  "still_active b w = run_is_active (visit_run b) (wdb w)"

record visit =
  turns_done :: int
  actions_done :: int
  nudged :: bool
  rejected_streak :: int
  last_call_at :: "timestamp option"
  transcript :: "json list"
  usage_totals :: "(string \<times> int) list"

datatype visit_end = Budget_Spent | Finished | Lost_Run | Raised_Permanent string | Raised string

section \<open>Tool calls\<close>

definition py_or :: "json option \<Rightarrow> json \<Rightarrow> json" where
  "py_or v dflt = (case v of None \<Rightarrow> dflt | Some x \<Rightarrow> if py_truthy x then x else dflt)"

text \<open>The \<open>function\<close> member of a call; \<open>None\<close> where the code's \<open>.get\<close> meets a value that is no object.\<close>

definition call_function :: "json \<Rightarrow> (string \<times> json) list option" where
  "call_function c =
     (case c of
        JObj kvs \<Rightarrow> (case py_or (map_of kvs ''function'') (JObj []) of JObj f \<Rightarrow> Some f | _ \<Rightarrow> None)
      | _ \<Rightarrow> None)"

definition call_name_of :: "(string \<times> json) list \<Rightarrow> json" where
  "call_name_of f = py_or (map_of f ''name'') (JStr [])"

definition call_arguments_of :: "(string \<times> json) list \<Rightarrow> json" where
  "call_arguments_of f = (case map_of f ''arguments'' of None \<Rightarrow> JStr ''{}'' | Some v \<Rightarrow> v)"

definition outcome_of :: "string + json \<Rightarrow> json" where
  "outcome_of r = (case r of Inl e \<Rightarrow> JObj [(''ok'', JBool False), (''error'', JStr e)] | Inr v \<Rightarrow> v)"

text \<open>The message holds the outcome itself where the code holds its JSON text.\<close>

definition tool_message :: "json \<Rightarrow> json \<Rightarrow> json" where
  "tool_message c outcome =
     JObj [(''role'', JStr ''tool''),
       (''tool_call_id'', case json_get ''id'' c of None \<Rightarrow> JNull | Some v \<Rightarrow> v), (''content'', outcome)]"

definition ends_visit :: "json \<Rightarrow> json \<Rightarrow> bool" where
  "ends_visit name outcome =
     (py_truthy (py_or (json_get ''force_finish'' outcome) JNull) \<or> name = JStr ''finish'')"

definition is_rejected :: "json \<Rightarrow> bool" where
  "is_rejected outcome = (json_get ''kind'' outcome = Some (JStr ''rejected''))"

datatype calls_end = Calls_Done | Calls_Ended | Calls_Lost | Calls_Raised string

text \<open>One call: \<open>None\<close> goes on to the next one.\<close>

definition act_on_call :: "visit_env \<Rightarrow> budget \<Rightarrow> json \<Rightarrow> visit \<Rightarrow> world \<Rightarrow> calls_end option \<times> visit \<times> world" where
  "act_on_call env b c v w =
     (let w = others env w in
      if \<not> still_active b w then (Some Calls_Lost, v, w)
      else if actions_done v \<ge> max_actions b \<or> expired b w then (Some Calls_Done, v, w)
      else case call_function c of
        None \<Rightarrow> (Some (Calls_Raised ''AttributeError''), v, w)
      | Some f \<Rightarrow>
        (case run_tool env (call_name_of f) (call_arguments_of f) w of (r, w') \<Rightarrow>
          let w' = others env w'; outcome = outcome_of r;
              v' = v\<lparr>actions_done := actions_done v + 1, transcript := transcript v @ [tool_message c outcome]\<rparr> in
          if \<not> still_active b w' then (Some Calls_Lost, v, w')
          else if ends_visit (call_name_of f) outcome then (Some Calls_Ended, v', w')
          else if is_rejected outcome then
            (if rejected_streak v + 1 \<ge> 2 then Some Calls_Ended else None,
             v'\<lparr>rejected_streak := rejected_streak v + 1\<rparr>, w')
          else (None, v'\<lparr>rejected_streak := 0\<rparr>, w')))"

fun act_on_calls :: "visit_env \<Rightarrow> budget \<Rightarrow> json list \<Rightarrow> visit \<Rightarrow> world \<Rightarrow> calls_end \<times> visit \<times> world" where
  "act_on_calls env b [] v w = (Calls_Done, v, w)"
| "act_on_calls env b (c # cs) v w =
     (case act_on_call env b c v w of
        (Some e, v', w') \<Rightarrow> (e, v', w')
      | (None, v', w') \<Rightarrow> act_on_calls env b cs v' w')"

section \<open>Turns\<close>

definition NUDGE_MESSAGE :: string where
  "NUDGE_MESSAGE = ''Use a tool to act, or call finish.''"

definition USAGE_KEYS :: "string list" where
  "USAGE_KEYS = [''prompt_tokens'', ''completion_tokens'', ''total_tokens'']"

text \<open>\<open>usage[key] += int(chunk.get(key, 0) or 0)\<close> key by key; false where \<open>int\<close> raises, which
  leaves the keys before it added.\<close>

fun accumulate :: "(string \<times> json) list \<Rightarrow> (string \<times> int) list \<Rightarrow> bool \<times> (string \<times> int) list" where
  "accumulate chunk [] = (True, [])"
| "accumulate chunk ((k, n) # rest) =
     (case py_int (py_or (map_of chunk k) (JInt 0)) of
        None \<Rightarrow> (False, (k, n) # rest)
      | Some i \<Rightarrow> (case accumulate chunk rest of (fine, r) \<Rightarrow> (fine, (k, n + i) # r)))"

definition assistant_message :: "llm_result \<Rightarrow> json" where
  "assistant_message r =
     JObj ([(''role'', JStr ''assistant''), (''content'', JStr (res_content r))] @
       (if res_calls r = [] then [] else [(''tool_calls'', JList (res_calls r))]))"

definition nudge :: json where
  "nudge = JObj [(''role'', JStr ''user''), (''content'', JStr NUDGE_MESSAGE)]"

definition add_turn :: "budget \<Rightarrow> visit \<Rightarrow> json \<Rightarrow> db \<Rightarrow> db" where
  "add_turn b v response d =
     d\<lparr>turns := turns d @ [\<lparr>turn_id = next_id turn_id (turns d), turn_run = visit_run b,
        turn_seq = turns_done v + 1, request_messages = JList (transcript v), response_message = response\<rparr>]\<rparr>"

text \<open>
  Pacing: the wait before a call, cut to the deadline. \<open>None\<close> lets the turn go on.
\<close>

definition pace :: "visit_env \<Rightarrow> budget \<Rightarrow> visit \<Rightarrow> world \<Rightarrow> visit_end option \<times> world" where
  "pace env b v w =
     (case last_call_at v of
        None \<Rightarrow> (None, w)
      | Some t \<Rightarrow>
          let wait = turn_interval b - (mono_now w - t);
              cut = min wait (max 0 (expires_at b - mono_now w)) in
          if turn_interval b \<le> 0 \<or> wait \<le> 0 then (None, w)
          else if cut \<le> 0 then (Some Budget_Spent, w)
          else let w = others env (sleep_for env cut w) in
            if \<not> still_active b w then (Some Lost_Run, w)
            else if expired b w then (Some Budget_Spent, w) else (None, w))"

definition take_turn :: "visit_env \<Rightarrow> budget \<Rightarrow> llm_result \<Rightarrow> visit \<Rightarrow> world \<Rightarrow> visit_end option \<times> visit \<times> world" where
  "take_turn env b r v w =
     (let reply = assistant_message r;
          w = w\<lparr>wdb := add_turn b v reply (wdb w)\<rparr>;
          v = v\<lparr>turns_done := turns_done v + 1, transcript := transcript v @ [reply]\<rparr> in
      if expired b w then (Some Budget_Spent, v, w)
      else if res_calls r = [] then
        (if nudged v then (Some Finished, v, w)
         else (None, v\<lparr>nudged := True, transcript := transcript v @ [nudge]\<rparr>, w))
      else case act_on_calls env b (res_calls r) v w of
          (Calls_Lost, v', w') \<Rightarrow> (Some Lost_Run, v', w')
        | (Calls_Raised m, v', w') \<Rightarrow> (Some (Raised m), v', w')
        | (Calls_Ended, v', w') \<Rightarrow> (Some Finished, v', w')
        | (Calls_Done, v', w') \<Rightarrow>
            if actions_done v' \<ge> max_actions b \<or> expired b w' then (Some Budget_Spent, v', w') else (None, v', w'))"

definition visit_turn :: "visit_env \<Rightarrow> budget \<Rightarrow> visit \<Rightarrow> world \<Rightarrow> visit_end option \<times> visit \<times> world" where
  "visit_turn env b v w =
     (let w = others env w in
      if \<not> still_active b w then (Some Lost_Run, v, w)
      else if expired b w then (Some Budget_Spent, v, w)
      else case pace env b v w of
        (Some e, w) \<Rightarrow> (Some e, v, w)
      | (None, w) \<Rightarrow>
        (case complete_chat env (transcript v) w of
           (Permanent_Error m, w) \<Rightarrow> (Some (Raised_Permanent m), v, w)
         | (Other_Error m, w) \<Rightarrow> (Some (Raised m), v, w)
         | (Answer r, w) \<Rightarrow>
             (let v = v\<lparr>last_call_at := Some (mono_now w)\<rparr> in
              case accumulate (res_usage r) (usage_totals v) of (fine, totals) \<Rightarrow>
                let v = v\<lparr>usage_totals := totals\<rparr> in
                if \<not> fine then (Some (Raised ''ValueError''), v, w)
                else let w = others env w in
                  if \<not> still_active b w then (Some Lost_Run, v, w) else take_turn env b r v w)))"

section \<open>Termination\<close>

lemma act_on_call_counts:
  assumes "act_on_call env b c v w = (e, v', w')"
  shows "turns_done v' = turns_done v \<and> nudged v' = nudged v \<and>
    (v' = v \<or> actions_done v < max_actions b \<and> actions_done v' = actions_done v + 1) \<and>
    (e = None \<longrightarrow> actions_done v' = actions_done v + 1) \<and>
    (e = Some Calls_Done \<longrightarrow> max_actions b \<le> actions_done v' \<or> expired b w')"
  using assms unfolding act_on_call_def Let_def by (auto split: if_splits option.splits prod.splits)

lemma act_on_calls_monotone:
  "act_on_calls env b cs v w = (e, v', w') \<Longrightarrow>
   actions_done v \<le> actions_done v' \<and> actions_done v' \<le> max (actions_done v) (max_actions b) \<and>
   turns_done v' = turns_done v \<and> nudged v' = nudged v"
proof (induction cs arbitrary: v w)
  case (Cons c cs)
  obtain o1 v1 w1 where c: "act_on_call env b c v w = (o1, v1, w1)" by (cases "act_on_call env b c v w")
  from act_on_call_counts [OF c] Cons c show ?case by (cases o1) fastforce+
qed simp

lemma act_on_calls_progress:
  assumes "act_on_calls env b (c # cs) v w = (Calls_Done, v', w')"
  shows "actions_done v < actions_done v' \<or> max_actions b \<le> actions_done v' \<or> expired b w'"
proof -
  obtain o1 v1 w1 where c: "act_on_call env b c v w = (o1, v1, w1)" by (cases "act_on_call env b c v w")
  from act_on_call_counts [OF c] assms c act_on_calls_monotone [of env b cs v1 w1 Calls_Done v' w'] show ?thesis
    by (cases o1) auto
qed

definition turns_left :: "budget \<Rightarrow> visit \<Rightarrow> nat" where
  "turns_left b v = nat (max_actions b - actions_done v) + (if nudged v then 0 else 1)"

lemma take_turn_progress:
  assumes "take_turn env b r v w = (None, v', w')"
  shows "turns_left b v' < turns_left b v"
proof (cases "res_calls r")
  case Nil
  with assms show ?thesis by (auto simp: take_turn_def Let_def turns_left_def split: if_splits)
next
  case (Cons c cs)
  obtain v1 w1 where act: "act_on_calls env b (c # cs) v1 w1 = (Calls_Done, v', w')"
    and v1: "actions_done v1 = actions_done v" "nudged v1 = nudged v"
    and goes_on: "actions_done v' < max_actions b" "\<not> expired b w'"
    using assms Cons
    by (auto simp: take_turn_def Let_def not_le split: if_splits prod.splits calls_end.splits
        simp del: act_on_calls.simps)
  from act_on_calls_progress [OF act] goes_on v1 act_on_calls_monotone [OF act] show ?thesis
    by (auto simp: turns_left_def)
qed

lemma visit_turn_progress:
  assumes "visit_turn env b v w = (None, v', w')"
  shows "turns_left b v' < turns_left b v"
proof -
  obtain r v1 w1 where "take_turn env b r v1 w1 = (None, v', w')"
    and "actions_done v1 = actions_done v" "nudged v1 = nudged v"
    using assms by (auto simp: visit_turn_def Let_def split: if_splits prod.splits option.splits llm_answer.splits)
  with take_turn_progress [of env b r v1 w1 v' w'] show ?thesis by (simp add: turns_left_def)
qed

function visit_loop :: "visit_env \<Rightarrow> budget \<Rightarrow> visit \<Rightarrow> world \<Rightarrow> visit_end \<times> visit \<times> world" where
  "visit_loop env b v w =
     (case visit_turn env b v w of
        (Some e, v', w') \<Rightarrow> (e, v', w')
      | (None, v', w') \<Rightarrow> visit_loop env b v' w')"
  by pat_completeness auto
termination
  by (relation "measure (\<lambda>(env, b, v, w). turns_left b v)") (auto dest: visit_turn_progress [OF sym])

declare visit_loop.simps [simp del]

section \<open>One whole visit\<close>

record visit_plan =
  plan_intent :: "string option"
  plan_metadata :: json
  plan_messages :: "json list"

text \<open>
  The rest of what \<open>run_once\<close> meets: visit planning (an exception is its text), the other
  processes and draws of the reservation, the wall clock, the settings and the draw of the
  next delay.
\<close>

record run_env =
  inner :: visit_env
  plan_visit :: "agent \<Rightarrow> username \<Rightarrow> string option \<Rightarrow> world \<Rightarrow> (string + visit_plan) \<times> world"
  reserve_others :: "nat \<Rightarrow> db \<Rightarrow> db"
  reserve_draw :: "nat \<Rightarrow> nat"
  reserve_clock :: "nat \<Rightarrow> timestamp"
  wall_clock :: "world \<Rightarrow> timestamp"
  settings_at :: "world \<Rightarrow> string \<Rightarrow> string option"
  uniform_draw :: rat

definition fresh_visit :: "json list \<Rightarrow> visit" where
  "fresh_visit msgs = \<lparr>turns_done = 0, actions_done = 0, nudged = False, rejected_streak = 0,
     last_call_at = None, transcript = msgs, usage_totals = map (\<lambda>k. (k, 0)) USAGE_KEYS\<rparr>"

definition usage_json :: "(string \<times> int) list \<Rightarrow> json" where
  "usage_json us = JObj (map (\<lambda>(k, n). (k, JInt n)) us)"

definition visit_budget :: "int \<Rightarrow> (string \<times> json) list \<Rightarrow> timestamp \<Rightarrow> budget" where
  "visit_budget i cfg start =
     \<lparr>visit_run = i, max_actions = int_budget cfg ''max_actions_per_run'',
      turn_interval = seconds (max 0 (int_budget cfg ''seconds_between_turns'')),
      expires_at = start + seconds (max 1 (int_budget cfg ''max_run_seconds''))\<rparr>"

definition record_plan :: "int \<Rightarrow> visit_plan \<Rightarrow> db \<Rightarrow> db" where
  "record_plan i p d =
     d\<lparr>runs := update_rows (\<lambda>r. run_id r = i)
         (\<lambda>r. r\<lparr>run_intent := plan_intent p, prompt_metadata := Some (plan_metadata p)\<rparr>) (runs d)\<rparr>"

definition on_db :: "(db \<Rightarrow> db) \<Rightarrow> world \<Rightarrow> world" where
  "on_db f w = w\<lparr>wdb := f (wdb w)\<rparr>"

text \<open>How a visit is closed once its loop has ended.\<close>

definition close_visit :: "run_env \<Rightarrow> int \<Rightarrow> int \<Rightarrow> (string \<times> json) list \<Rightarrow> visit_end \<Rightarrow> visit \<Rightarrow> world \<Rightarrow>
    (run_error + int) \<times> world" where
  "close_visit env i a cfg e v w =
     (let now = wall_clock env w; n = turns_done v; m = actions_done v; usage = usage_json (usage_totals v) in
      case e of
        Lost_Run \<Rightarrow> (Inr i, w)
      | Raised_Permanent msg \<Rightarrow> (Inr i, on_db (fail_run i a n m usage msg True now) w)
      | Raised msg \<Rightarrow> (Inr i, on_db (fail_run i a n m usage msg False now) w)
      | _ \<Rightarrow>
          (case complete_run i a cfg (settings_at env w) (uniform_draw env) n m usage now (wdb w) of
             None \<Rightarrow> (Inl Closing_Raised, w)
           | Some d \<Rightarrow> (Inr i, w\<lparr>wdb := d\<rparr>)))"

text \<open>A visit that holds a reserved run: planning, the loop, closing.\<close>

definition visit_with_run :: "run_env \<Rightarrow> agent \<Rightarrow> agent_run \<Rightarrow> string option \<Rightarrow> world \<Rightarrow> (run_error + int) \<times> world" where
  "visit_with_run env a r req w =
     (let b = visit_budget (run_id r) (effective_config a) (mono_now w) in
      case plan_visit env a (persona_username r) req w of
        (Inl msg, w) \<Rightarrow>
          (Inr (run_id r), on_db (fail_run (run_id r) (agent_id a) 0 0
             (usage_json (map (\<lambda>k. (k, 0)) USAGE_KEYS)) msg False (wall_clock env w)) w)
      | (Inr p, w) \<Rightarrow>
          (let w = others (inner env) (on_db (record_plan (run_id r) p) w) in
           if \<not> still_active b w then (Inr (run_id r), w)
           else case visit_loop (inner env) b (fresh_visit (plan_messages p)) (w\<lparr>nudged_subs := []\<rparr>) of
             (e, v, w) \<Rightarrow> close_visit env (run_id r) (agent_id a) (effective_config a) e v w))"

definition run_once :: "run_env \<Rightarrow> int \<Rightarrow> string \<Rightarrow> string option \<Rightarrow> world \<Rightarrow> (run_error + int) \<times> world" where
  "run_once env i trig req w =
     (case find_agent i (wdb w) of
        None \<Rightarrow> (Inl (No_Such_Agent i), w)
      | Some a \<Rightarrow>
          (case recover_stale_runs a (wall_clock env w) (wdb w) of
             (True, d) \<Rightarrow> (Inl (Already_Running i), w\<lparr>wdb := d\<rparr>)
           | (False, d) \<Rightarrow>
               (case reserve_persona_run a trig (reserve_others env) (reserve_draw env) (reserve_clock env) d of
                  (Inl e, d) \<Rightarrow>
                    (Inl e, w\<lparr>wdb := (if trig = ''schedule'' \<and> \<not> agent_busy i d
                                      then backoff_without_strike i (wall_clock env w) d else d)\<rparr>)
                | (Inr r, d) \<Rightarrow> visit_with_run env a r req (w\<lparr>wdb := d\<rparr>))))"

section \<open>Bounds of a visit\<close>

definition within_budget :: "budget \<Rightarrow> visit \<Rightarrow> bool" where
  "within_budget b v =
     (0 \<le> actions_done v \<and> actions_done v \<le> max 0 (max_actions b - 1) \<and>
      turns_done v \<le> actions_done v + (if nudged v then 1 else 0))"

definition spent_at_most :: "budget \<Rightarrow> visit \<Rightarrow> bool" where
  "spent_at_most b v =
     (turns_done v \<le> max 1 (max_actions b) + 1 \<and> actions_done v \<le> max 0 (max_actions b))"

lemma take_turn_budget:
  assumes "within_budget b v" and "take_turn env b r v w = (e, v', w')"
  shows "spent_at_most b v' \<and> (e = None \<longrightarrow> within_budget b v')"
proof (cases "res_calls r")
  case Nil
  with assms show ?thesis
    by (auto simp: take_turn_def Let_def within_budget_def spent_at_most_def split: if_splits)
next
  case (Cons c cs)
  let ?w = "w\<lparr>wdb := add_turn b v (assistant_message r) (wdb w)\<rparr>"
  let ?v = "v\<lparr>turns_done := turns_done v + 1, transcript := transcript v @ [assistant_message r]\<rparr>"
  obtain ce v1 w1 where act: "act_on_calls env b (c # cs) ?v ?w = (ce, v1, w1)"
    by (cases "act_on_calls env b (c # cs) ?v ?w")
  note mono = act_on_calls_monotone [OF act]
  show ?thesis
  proof (cases "expired b ?w")
    case True
    with assms show ?thesis
      by (auto simp: take_turn_def Let_def within_budget_def spent_at_most_def split: if_splits)
  next
    case False
    show ?thesis
    proof (cases ce)
      case Calls_Done
      with act_on_calls_progress [of env b c cs ?v ?w v1 w1] act mono assms False Cons show ?thesis
        by (auto simp: take_turn_def Let_def within_budget_def spent_at_most_def
            simp del: act_on_calls.simps split: if_splits)
    qed (use act mono assms False Cons in
        \<open>auto simp: take_turn_def Let_def within_budget_def spent_at_most_def simp del: act_on_calls.simps
          split: if_splits\<close>)
  qed
qed

lemma visit_turn_budget:
  assumes "within_budget b v" and "visit_turn env b v w = (e, v', w')"
  shows "spent_at_most b v' \<and> (e = None \<longrightarrow> within_budget b v')"
proof -
  have same: "within_budget b (v\<lparr>last_call_at := l, usage_totals := u\<rparr>) = within_budget b v"
    "within_budget b (v\<lparr>last_call_at := l\<rparr>) = within_budget b v" for l u
    by (simp_all add: within_budget_def)
  have spent: "spent_at_most b x" if "turns_done x = turns_done v" "actions_done x = actions_done v" for x
    using assms(1) that by (auto simp: within_budget_def spent_at_most_def split: if_splits)
  from assms show ?thesis
    by (auto simp: visit_turn_def Let_def spent same dest: take_turn_budget [rotated]
        split: if_splits prod.splits option.splits llm_answer.splits)
qed

lemma visit_loop_budget: "within_budget b v \<Longrightarrow> visit_loop env b v w = (e, v', w') \<Longrightarrow> spent_at_most b v'"
proof (induction env b v w rule: visit_loop.induct)
  case (1 env b v w)
  obtain o1 v1 w1 where t: "visit_turn env b v w = (o1, v1, w1)" by (cases "visit_turn env b v w")
  note step = visit_turn_budget [OF 1(2) t]
  show ?case
  proof (cases o1)
    case None
    with 1(3) t have "visit_loop env b v1 w1 = (e, v', w')" by (subst (asm) visit_loop.simps) simp
    with 1(1) [OF t [symmetric] None refl] step None show ?thesis by blast
  next
    case (Some x)
    with 1(3) t step show ?thesis by (subst (asm) visit_loop.simps) simp
  qed
qed

text \<open>C3. A visit ends, whatever the model and the tools do and however often others step in: the
  loop is a total function, and it makes at most one LLM turn more than its action budget (two
  when the budget is not positive) and never more actions than the budget.\<close>

theorem visit_is_bounded:
  "case visit_loop env b (fresh_visit msgs) w of
     (e, v, w') \<Rightarrow> turns_done v \<le> max 1 (max_actions b) + 1 \<and> actions_done v \<le> max 0 (max_actions b)"
proof -
  have "within_budget b (fresh_visit msgs)" by (simp add: within_budget_def fresh_visit_def)
  then show ?thesis
    using visit_loop_budget [of b "fresh_visit msgs" env w]
    by (cases "visit_loop env b (fresh_visit msgs) w") (simp add: spent_at_most_def)
qed

section \<open>A visit leaves no run behind\<close>

definition tidy :: "db \<Rightarrow> bool" where
  "tidy d = (runs_ok d \<and> names_ok d)"

definition held_by :: "int \<Rightarrow> int \<Rightarrow> db \<Rightarrow> bool" where
  "held_by i a d = (\<exists>r. find_run i d = Some r \<and> run_agent r = a)"

text \<open>What any other process may do: keep the invariants, and never give a run away.\<close>

definition keeps :: "world \<Rightarrow> world \<Rightarrow> bool" where
  "keeps w w' = ((tidy (wdb w) \<longrightarrow> tidy (wdb w')) \<and> (\<forall>i a. held_by i a (wdb w) \<longrightarrow> held_by i a (wdb w')))"

definition respectful :: "visit_env \<Rightarrow> bool" where
  "respectful env =
     (\<forall>w. keeps w (others env w) \<and> (\<forall>t. keeps w (sleep_for env t w)) \<and>
        (\<forall>ms. keeps w (snd (complete_chat env ms w))) \<and> (\<forall>n x. keeps w (snd (run_tool env n x w))))"

lemma keeps_refl [simp]: "keeps w w"
  by (simp add: keeps_def)

lemma keeps_trans [trans]: "keeps u v \<Longrightarrow> keeps v w \<Longrightarrow> keeps u w"
  by (simp add: keeps_def)

lemma held_by_owns: "held_by i a d \<Longrightarrow> owns i a d"
  by (auto simp: held_by_def owns_def)

lemma keeps_add_turn: "keeps w (w\<lparr>wdb := add_turn b v x (wdb w)\<rparr>)"
  by (simp add: keeps_def tidy_def runs_ok_def keys_ok_def one_run_each_def nobody_stranded_def names_ok_def
      held_by_def find_run_def agent_busy_def add_turn_def)

text \<open>What every party to a visit guarantees, the loop guarantees: a preorder on worlds that the
  other processes, sleeping, the model, the tools and the recording of a turn stay within.\<close>

locale visit_relation =
  fixes env :: visit_env and R :: "world \<Rightarrow> world \<Rightarrow> bool"
  assumes R_refl: "R w w" and R_trans: "R u v \<Longrightarrow> R v w \<Longrightarrow> R u w"
    and R_others: "R w (others env w)" and R_sleep: "R w (sleep_for env t w)"
    and R_chat: "R w (snd (complete_chat env ms w))" and R_tool: "R w (snd (run_tool env n x w))"
    and R_turn: "R w (w\<lparr>wdb := add_turn b vis x (wdb w)\<rparr>)"
begin

lemma through_call:
  assumes "act_on_call env b c v w = (e, v', w')"
  shows "R w w'"
proof (cases "call_function c")
  case None
  with assms R_others [of w] show ?thesis by (auto simp: act_on_call_def Let_def split: if_splits)
next
  case (Some f)
  obtain r w1 where r: "run_tool env (call_name_of f) (call_arguments_of f) (others env w) = (r, w1)" by fastforce
  have t: "R (others env w) w1"
    using R_tool [of "others env w" "call_name_of f" "call_arguments_of f"] by (simp add: r)
  from assms Some have "w' = others env w \<or> w' = others env w1"
    unfolding act_on_call_def Let_def r by (auto simp: r split: if_splits)
  with R_others [of w] R_trans [OF R_trans [OF R_others t] R_others] show ?thesis by auto
qed

lemma through_calls: "act_on_calls env b cs v w = (e, v', w') \<Longrightarrow> R w w'"
proof (induction cs arbitrary: v w)
  case (Cons c cs)
  obtain o1 v1 w1 where c: "act_on_call env b c v w = (o1, v1, w1)" by (cases "act_on_call env b c v w")
  from through_call [OF c] Cons c show ?case
    by (cases o1) (auto intro: R_trans)
qed (simp add: R_refl)

lemma through_take_turn:
  assumes "take_turn env b r v w = (e, v', w')"
  shows "R w w'"
proof -
  let ?w = "w\<lparr>wdb := add_turn b v (assistant_message r) (wdb w)\<rparr>"
  let ?v = "v\<lparr>turns_done := turns_done v + 1, transcript := transcript v @ [assistant_message r]\<rparr>"
  obtain ce v1 w1 where act: "act_on_calls env b (res_calls r) ?v ?w = (ce, v1, w1)"
    by (cases "act_on_calls env b (res_calls r) ?v ?w")
  from assms act have "w' = ?w \<or> w' = w1"
    by (auto simp: take_turn_def Let_def split: if_splits calls_end.splits)
  with through_calls [OF act] R_trans [OF R_turn] R_turn show ?thesis by blast
qed

lemma through_pace: "pace env b v w = (e, w') \<Longrightarrow> R w w'"
  using R_refl R_trans [OF R_sleep R_others] by (auto simp: pace_def Let_def split: option.splits if_splits)

lemma through_visit_turn:
  assumes "visit_turn env b v w = (e, v', w')"
  shows "R w w'"
proof -
  let ?w = "others env w"
  obtain pe w1 where p: "pace env b v ?w = (pe, w1)" by fastforce
  obtain ans w2 where ans: "complete_chat env (transcript v) w1 = (ans, w2)" by fastforce
  have a: "R w w1" using R_others through_pace [OF p] by (rule R_trans)
  have "R w1 w2" using R_chat [of w1 "transcript v"] ans by simp
  with a have b: "R w w2" by (rule R_trans)
  have c: "R w (others env w2)" using b R_others by (rule R_trans)
  have d: "R w x" if "take_turn env b r u (others env w2) = (y, z, x)" for r u y z x
    using c through_take_turn [OF that] by (rule R_trans)
  from assms show ?thesis
    using R_others [of w] a b c d p ans
    by (auto simp: visit_turn_def Let_def split: if_splits prod.splits option.splits llm_answer.splits)
qed

lemma through_visit_loop: "visit_loop env b v w = (e, v', w') \<Longrightarrow> R w w'"
proof (induction "turns_left b v" arbitrary: v w rule: less_induct)
  case less
  obtain o1 v1 w1 where t: "visit_turn env b v w = (o1, v1, w1)" by (cases "visit_turn env b v w")
  note step = through_visit_turn [OF t]
  show ?case
  proof (cases o1)
    case None
    with less(2) t have "visit_loop env b v1 w1 = (e, v', w')" by (subst (asm) visit_loop.simps) simp
    with less(1) visit_turn_progress t None step R_trans show ?thesis by blast
  next
    case (Some x)
    with less(2) t step show ?thesis by (subst (asm) visit_loop.simps) simp
  qed
qed

end

interpretation keeping: visit_relation env "\<lambda>w w'. respectful env \<longrightarrow> keeps w w'" for env
  by unfold_locales (auto simp: respectful_def keeps_add_turn intro: keeps_trans)

text \<open>A loop that reports its run as lost has seen it inactive.\<close>

lemma pace_lost: "pace env b v w = (Some Lost_Run, w') \<Longrightarrow> \<not> still_active b w'"
  by (auto simp: pace_def Let_def split: option.splits if_splits)

lemma calls_lost_inactive: "act_on_calls env b cs v w = (Calls_Lost, v', w') \<Longrightarrow> \<not> still_active b w'"
proof (induction cs arbitrary: v w)
  case (Cons c cs)
  obtain o1 v1 w1 where c: "act_on_call env b c v w = (o1, v1, w1)" by (cases "act_on_call env b c v w")
  from c have "o1 = Some Calls_Lost \<Longrightarrow> \<not> still_active b w1"
    unfolding act_on_call_def Let_def by (auto split: if_splits option.splits prod.splits)
  with Cons c show ?case by (cases o1) auto
qed simp

lemma take_turn_lost: "take_turn env b r v w = (Some Lost_Run, v', w') \<Longrightarrow> \<not> still_active b w'"
  by (auto simp: take_turn_def Let_def dest: calls_lost_inactive split: if_splits prod.splits calls_end.splits)

lemma visit_turn_lost: "visit_turn env b v w = (Some Lost_Run, v', w') \<Longrightarrow> \<not> still_active b w'"
  by (auto simp: visit_turn_def Let_def dest: take_turn_lost pace_lost
      split: if_splits prod.splits option.splits llm_answer.splits)

lemma visit_loop_lost: "visit_loop env b v w = (Lost_Run, v', w') \<Longrightarrow> \<not> still_active b w'"
proof (induction env b v w rule: visit_loop.induct)
  case (1 env b v w)
  obtain o1 v1 w1 where t: "visit_turn env b v w = (o1, v1, w1)" by (cases "visit_turn env b v w")
  show ?case
  proof (cases o1)
    case None
    with 1(2) t have "visit_loop env b v1 w1 = (Lost_Run, v', w')" by (subst (asm) visit_loop.simps) simp
    with 1(1) [OF t [symmetric] None refl] show ?thesis by blast
  next
    case (Some x)
    with 1(2) t visit_turn_lost show ?thesis by (subst (asm) visit_loop.simps) auto
  qed
qed

lemma keeps_visit_loop:
  "respectful env \<Longrightarrow> visit_loop env b v w = (e, v', w') \<Longrightarrow>
   keeps w w' \<and> (e = Lost_Run \<longrightarrow> \<not> still_active b w')"
  using keeping.through_visit_loop visit_loop_lost by blast

lemma find_run_close:
  "(\<And>r. run_id (f r) = run_id r) \<Longrightarrow> (\<And>r. \<not> running (f r)) \<Longrightarrow>
   \<not> run_is_active i (on_running_agent a g (on_running_run i f d))"
  by (auto simp: run_is_active_def find_run_def on_running_run_def find_row_update
      dest: find_row_SomeD split: option.splits if_splits)

lemma fail_run_inactive: "\<not> run_is_active i (fail_run i a n m usage msg strike now d)"
proof (cases "run_is_active i d")
  case True
  then show ?thesis unfolding fail_run_def by (simp) (rule find_run_close; simp add: running_def)
qed (simp add: fail_run_def)

lemma complete_run_inactive:
  assumes "complete_run i a cfg reader u n m usage now d = Some d'"
  shows "\<not> run_is_active i d'"
proof (cases "run_is_active i d")
  case True
  have close: "\<not> run_is_active i (on_running_agent a g (on_running_run i (completed n m usage now md) d))" for g md
    by (intro find_run_close) (simp_all add: running_def completed_def)
  show ?thesis
  proof (cases "find_agent a d")
    case None
    then have "\<not> run_is_active i (on_running_run i (completed n m usage now (\<lambda>md. md)) d)"
      using close [of "\<lambda>x. x" "\<lambda>md. md"] by (simp add: on_no_agent)
    with assms True None show ?thesis by (simp add: complete_run_def)
  next
    case (Some x)
    with assms True close show ?thesis
      by (auto simp: complete_run_def Let_def split: if_splits option.splits py_float.splits)
  qed
qed (use assms in \<open>simp add: complete_run_def\<close>)

lemma closing_keeps_names:
  "users (fail_run i a n m usage msg strike now d) = users d"
  "complete_run i a cfg reader u n m usage now d = Some d' \<Longrightarrow> users d' = users d"
  "users (interrupt_run i a now d) = users d"
  by (auto simp: fail_run_def complete_run_def interrupt_run_def release_agent_alt Let_def
      split: if_splits option.splits py_float.splits)

lemma close_visit_sound:
  assumes "tidy (wdb w)" and "owns i a (wdb w)" and "e = Lost_Run \<longrightarrow> \<not> run_is_active i (wdb w)"
    and "close_visit env i a cfg e v w = (res, w')"
  shows "tidy (wdb w') \<and> (\<forall>k. res = Inr k \<longrightarrow> \<not> run_is_active k (wdb w'))"
  using assms
  by (auto simp: close_visit_def Let_def on_db_def tidy_def names_ok_def closing_keeps_names fail_keeps_ok
      complete_keeps_ok fail_run_inactive complete_run_inactive split: visit_end.splits option.splits)

definition cooperative :: "run_env \<Rightarrow> bool" where
  "cooperative env =
     (respectful (inner env) \<and> polite (reserve_others env) \<and>
      (\<forall>a n q w. keeps w (snd (plan_visit env a n q w))))"

lemma record_plan_keeps: "keeps w (on_db (record_plan i p) w)"
proof -
  let ?f = "\<lambda>r. if run_id r = i then r\<lparr>run_intent := plan_intent p, prompt_metadata := Some (plan_metadata p)\<rparr> else r"
  have rows: "runs (record_plan i p d) = map ?f (runs d)" for d
    by (simp add: record_plan_def update_rows_def)
  have same: "running (?f r) = running r" "run_agent (?f r) = run_agent r"
    "persona_username (?f r) = persona_username r" "run_id (?f r) = run_id r" for r
    by (simp_all add: running_def)
  have "filter running (map ?f rs) = map ?f (filter running rs)" for rs
    using same(1) by (induction rs) auto
  then have cols: "map run_agent (filter running (map ?f rs)) = map run_agent (filter running rs)"
    "map persona_username (filter running (map ?f rs)) = map persona_username (filter running rs)"
    "map run_id (map ?f rs) = map run_id rs" for rs
    using same by simp_all
  have busy: "agent_busy a d \<longleftrightarrow> a \<in> set (map run_agent (filter running (runs d)))" for a d
    by (simp add: agent_busy_iff)
  have "agents (record_plan i p d) = agents d" "users (record_plan i p d) = users d" for d
    by (simp_all add: record_plan_def)
  then have "tidy (record_plan i p d) = tidy d" for d
    by (simp only: tidy_def runs_ok_def keys_ok_def one_run_each_def nobody_stranded_def busy names_ok_def rows cols)
  moreover have "held_by k a (record_plan i p d) = held_by k a d" for k a d
    by (cases "find_row run_id k (runs d)") (simp_all add: held_by_def find_run_def record_plan_def find_row_update)
  ultimately show ?thesis by (simp add: keeps_def on_db_def)
qed

lemma recover_users: "users (snd (recover_stale_runs a now d)) = users d"
proof -
  have "users (fold (\<lambda>i. interrupt_run i (agent_id a) now) ids d) = users d" for ids
    by (induction ids arbitrary: d) (simp_all add: closing_keeps_names)
  then show ?thesis by (simp add: recover_stale_runs_def Let_def)
qed

lemma backoff_tidy:
  assumes "tidy d"
  shows "tidy (backoff_without_strike i now d)"
proof -
  have "nobody_stranded (backoff_without_strike i now d)"
    using assms by (auto simp: tidy_def runs_ok_def nobody_stranded_def backoff_without_strike_def on_agent_def
        set_update_rows agent_busy_def)
  with assms show ?thesis
    by (simp add: tidy_def runs_ok_def keys_ok_def one_run_each_def names_ok_def backoff_without_strike_def on_agent_def)
qed

lemma visit_with_run_sound:
  assumes "cooperative env" and "tidy (wdb w)" and "held_by (run_id r) (agent_id a) (wdb w)"
    and "visit_with_run env a r req w = (res, w')"
  shows "tidy (wdb w') \<and> (\<forall>k. res = Inr k \<longrightarrow> \<not> run_is_active k (wdb w'))"
proof -
  let ?b = "visit_budget (run_id r) (effective_config a) (mono_now w)"
  obtain plan w1 where plan: "plan_visit env a (persona_username r) req w = (plan, w1)" by fastforce
  have k1: "keeps w w1" using assms(1) plan by (metis cooperative_def snd_conv)
  show ?thesis
  proof (cases plan)
    case (Inl msg)
    with assms plan k1 show ?thesis
      by (auto simp: visit_with_run_def Let_def on_db_def keeps_def tidy_def names_ok_def closing_keeps_names
          fail_run_inactive intro!: fail_keeps_ok held_by_owns)
  next
    case (Inr p)
    define u where "u = others (inner env) (on_db (record_plan (run_id r) p) w1)"
    let ?w = "u\<lparr>nudged_subs := []\<rparr>"
    have resp: "respectful (inner env)" using assms(1) by (simp add: cooperative_def)
    then have "keeps x (others (inner env) x)" for x by (simp add: respectful_def)
    with k1 record_plan_keeps have "keeps w u" unfolding u_def by (meson keeps_trans)
    then have k2: "keeps w ?w" by (simp add: keeps_def)
    obtain e v w2 where loop: "visit_loop (inner env) ?b (fresh_visit (plan_messages p)) ?w = (e, v, w2)"
      by (cases "visit_loop (inner env) ?b (fresh_visit (plan_messages p)) ?w")
    note kl = keeps_visit_loop [OF resp loop]
    have k3: "keeps w w2" using k2 kl keeps_trans by blast
    have "tidy (wdb w2)" "owns (run_id r) (agent_id a) (wdb w2)" "tidy (wdb ?w)"
      using assms(2,3) k3 k2 by (auto simp: keeps_def intro: held_by_owns)
    moreover have act: "still_active ?b x = run_is_active (run_id r) (wdb x)" for x
      by (simp add: still_active_def visit_budget_def)
    moreover have "(if \<not> still_active ?b u then (Inr (run_id r), u)
        else close_visit env (run_id r) (agent_id a) (effective_config a) e v w2) = (res, w')"
      using assms(4) Inr plan loop by (simp add: visit_with_run_def Let_def u_def split: if_splits)
    ultimately show ?thesis
      using kl close_visit_sound [of w2 "run_id r" "agent_id a" e env "effective_config a" v res w']
      by (auto split: if_splits)
  qed
qed

text \<open>C4. A visit leaves no run behind. Whatever planning, the model, the tools and the other
  processes do (as long as they keep the invariants and do not give the run away), once
  \<open>run_once\<close> hands back a run, that run is no longer running, and at every outcome, errors
  included, no agent or persona has two runs and no agent is left marked running without one.\<close>

theorem visit_leaves_no_run:
  assumes "cooperative env" and "tidy (wdb w)" and "run_once env i trig req w = (res, w')"
  shows "tidy (wdb w') \<and> (case res of Inr k \<Rightarrow> \<not> run_is_active k (wdb w') | Inl _ \<Rightarrow> True)"
proof (cases "find_agent i (wdb w)")
  case None
  with assms show ?thesis by (auto simp: run_once_def)
next
  case (Some a)
  obtain busy d1 where rec: "recover_stale_runs a (wall_clock env w) (wdb w) = (busy, d1)" by fastforce
  have t1: "tidy d1"
    using recover_keeps_ok [of "wdb w" a "wall_clock env w"] recover_users [of a "wall_clock env w" "wdb w"]
      assms(2) rec by (simp add: tidy_def names_ok_def)
  obtain rr d2 where res: "reserve_persona_run a trig (reserve_others env) (reserve_draw env) (reserve_clock env) d1
      = (rr, d2)" by fastforce
  have sound: "tidy d2 \<and> (\<forall>r. rr = Inr r \<longrightarrow> held_by (run_id r) (agent_id a) d2)"
    using reserve_attempts_sound [of "reserve_others env" d1 RESERVATION_ATTEMPTS a trig "reserve_draw env"
        "reserve_clock env" rr d2] assms(1) t1 res
    by (auto simp: tidy_def cooperative_def reserve_persona_run_def held_by_def)
  show ?thesis
  proof (cases busy)
    case True
    with assms(3) Some rec t1 show ?thesis by (auto simp: run_once_def)
  next
    case False
    show ?thesis
    proof (cases rr)
      case (Inl e)
      with assms(3) Some rec res False sound show ?thesis by (auto simp: run_once_def backoff_tidy)
    next
      case (Inr r)
      with assms(3) Some rec res False have "visit_with_run env a r req (w\<lparr>wdb := d2\<rparr>) = (res, w')"
        by (simp add: run_once_def)
      with visit_with_run_sound [OF assms(1), of "w\<lparr>wdb := d2\<rparr>" r a req res w'] sound Inr show ?thesis
        by (auto split: sum.splits)
    qed
  qed
qed

text \<open>An environment to state examples with: the model calls one tool per turn.\<close>

definition demo_call :: json where
  "demo_call = JObj [(''id'', JStr ''c1''), (''function'', JObj [(''name'', JStr ''browse''), (''arguments'', JStr ''{}'')])]"

definition demo_env :: run_env where
  "demo_env = \<lparr>inner = \<lparr>others = (\<lambda>w. w), sleep_for = (\<lambda>t w. w\<lparr>mono_now := mono_now w + t\<rparr>),
       complete_chat = (\<lambda>ms w. (Answer \<lparr>res_content = [], res_calls = [demo_call],
         res_usage = [(''total_tokens'', JInt 7)]\<rparr>, w)),
       run_tool = (\<lambda>n x w. (Inr (JObj [(''ok'', JBool True)]), w))\<rparr>,
     plan_visit = (\<lambda>a n q w. (Inr \<lparr>plan_intent = q, plan_metadata = JObj [], plan_messages = []\<rparr>, w)),
     reserve_others = (\<lambda>_ d. d), reserve_draw = (\<lambda>_. 0), reserve_clock = (\<lambda>_. 5), wall_clock = (\<lambda>_. 5),
     settings_at = (\<lambda>_. default_value), uniform_draw = 0\<rparr>"

lemma demo_env_cooperative: "cooperative demo_env"
  by (simp add: cooperative_def respectful_def polite_def demo_env_def keeps_def)

definition demo_world :: world where
  "demo_world = \<lparr>wdb = demo_agents\<lparr>agents := [(demo_agent 1 None)\<lparr>is_enabled := False,
     agent_config := JObj [(''max_actions_per_run'', JInt 2)]\<rparr>]\<rparr>, mono_now = 0,
     nudged_subs = [], media_files = [], page_files = []\<rparr>"

theorem visit_leaves_no_run_witness:
  "case run_once demo_env 1 ''manual'' None demo_world of
     (res, w') \<Rightarrow> res = Inr 1 \<and> map turn_seq (turns (wdb w')) = [1, 2] \<and> tidy (wdb w') \<and> \<not> run_is_active 1 (wdb w')"
proof -
  have "tidy (wdb demo_world)"
    by (simp add: demo_world_def tidy_def runs_ok_def keys_ok_def one_run_each_def nobody_stranded_def names_ok_def
        demo_agents_def demo_agent_def sample_db_def sample_user_def empty_db_def)
  note sound = visit_leaves_no_run [OF demo_env_cooperative this, of 1 "''manual''" None]
  have "fst (run_once demo_env 1 ''manual'' None demo_world) = Inr 1 \<and>
      map turn_seq (turns (wdb (snd (run_once demo_env 1 ''manual'' None demo_world)))) = [1, 2]"
    by code_simp
  then show ?thesis
    using sound by (cases "run_once demo_env 1 ''manual'' None demo_world") auto
qed

end
