(* ===== verification/Wakes.thy ===== *)
theory Wakes
  imports Visits "HOL-Library.Sublist"
begin

text \<open>
  \<open>deaddit/runtime/wakes.py\<close>: the worker's wake scheduler. Each tick interrupts stale runs,
  then goes through the due agents in the order they fell due: lurkers and agents over their
  daily ceiling are put off, the others are handed to the visit pool until it is full. A tick
  that raises (a wake time that cannot be computed) ends there and is logged by the poller.
\<close>

section \<open>Configuration\<close>

definition FALLBACK_MAX_RUN_SECONDS :: int where
  "FALLBACK_MAX_RUN_SECONDS = 300"

definition RUN_GRACE_SECONDS :: int where
  "RUN_GRACE_SECONDS = 60"

definition CEILING_DEFER_SECONDS :: rat where
  "CEILING_DEFER_SECONDS = 1800"

definition DEFAULT_MAX_CONCURRENT_RUNS :: int where
  "DEFAULT_MAX_CONCURRENT_RUNS = 2"

definition int_config :: "json \<Rightarrow> string \<Rightarrow> int \<Rightarrow> int" where
  "int_config c key fallback =
     (case map_of (config_items c) key of
        None \<Rightarrow> fallback
      | Some v \<Rightarrow> (case py_int v of None \<Rightarrow> fallback | Some i \<Rightarrow> i))"

definition is_lurker :: "agent \<Rightarrow> bool" where
  "is_lurker a = (autonomy_tier a = ''lurker'')"

definition pool_size :: "db \<Rightarrow> int" where
  "pool_size d =
     (let size =
        (case setting_get ''AGENT_MAX_CONCURRENT_RUNS'' None d of
           None \<Rightarrow> DEFAULT_MAX_CONCURRENT_RUNS
         | Some [] \<Rightarrow> DEFAULT_MAX_CONCURRENT_RUNS
         | Some s \<Rightarrow> (case py_int_of_string s of None \<Rightarrow> DEFAULT_MAX_CONCURRENT_RUNS | Some i \<Rightarrow> i))
      in max size 1)"

section \<open>Stale runs\<close>

definition run_budget :: "agent \<Rightarrow> int" where
  "run_budget a =
     seconds (int_config (agent_config a) ''max_run_seconds'' FALLBACK_MAX_RUN_SECONDS + RUN_GRACE_SECONDS)"

definition running_rows :: "db \<Rightarrow> (agent_run \<times> agent) list" where
  "running_rows d =
     concat (map (\<lambda>r. map (Pair r) (filter (\<lambda>a. agent_id a = run_agent r) (agents d))) (filter running (runs d)))"

definition overdue :: "timestamp \<Rightarrow> agent_run \<times> agent \<Rightarrow> bool" where
  "overdue now ra = (started_at (fst ra) < now - run_budget (snd ra))"

definition interrupt_stale_runs :: "timestamp \<Rightarrow> db \<Rightarrow> db" where
  "interrupt_stale_runs now d =
     fold (\<lambda>(r, a) d. if overdue now (r, a) then interrupt_run (run_id r) (agent_id a) now d else d)
       (running_rows d) d"

text \<open>Boot recovery: the same sweep, then enabled agents without a wake time are armed.\<close>

definition recover :: "timestamp \<Rightarrow> db \<Rightarrow> db" where
  "recover now d =
     (let d' = interrupt_stale_runs now d in
      if is_runtime_enabled d'
      then d'\<lparr>agents := update_rows (\<lambda>a. is_enabled a \<and> next_run_at a = None)
              (\<lambda>a. a\<lparr>next_run_at := Some now\<rparr>) (agents d')\<rparr>
      else d')"

section \<open>A tick\<close>

definition reschedule_lurker :: "(string \<Rightarrow> string option) \<Rightarrow> rat \<Rightarrow> timestamp \<Rightarrow> agent \<Rightarrow> db \<Rightarrow> db option" where
  "reschedule_lurker cfg u now a d =
     (let lo = int_config (agent_config a) ''min_delay'' 60;
          hi = max lo (int_config (agent_config a) ''max_delay'' 900) in
      map_option (\<lambda>wake. on_agent (agent_id a) (\<lambda>x. x\<lparr>agent_status := ''idle'', last_run_at := Some now,
          next_run_at := Some wake\<rparr>) d)
        (add_seconds now (scaled_wake_delay cfg (of_int lo + of_int (hi - lo) * u) now)))"

definition start_of_day :: "timestamp \<Rightarrow> timestamp" where
  "start_of_day now = now - now mod days 1"

definition requests_today :: "int \<Rightarrow> timestamp \<Rightarrow> db \<Rightarrow> int" where
  "requests_today a now d =
     count_rows (\<lambda>t. list_ex (\<lambda>r. run_id r = turn_run t \<and> run_agent r = a \<and> start_of_day now \<le> started_at r) (runs d))
       (turns d)"

definition over_ceiling :: "agent \<Rightarrow> timestamp \<Rightarrow> db \<Rightarrow> bool" where
  "over_ceiling a now d =
     (let ceiling = int_config (agent_config a) ''daily_request_ceiling'' 0
      in 0 < ceiling \<and> ceiling \<le> requests_today (agent_id a) now d)"

definition defer_agent :: "(string \<Rightarrow> string option) \<Rightarrow> timestamp \<Rightarrow> agent \<Rightarrow> db \<Rightarrow> db option" where
  "defer_agent cfg now a d =
     map_option (\<lambda>wake. on_agent (agent_id a) (\<lambda>x. x\<lparr>next_run_at := Some wake\<rparr>) d)
       (add_seconds now (scaled_wake_delay cfg CEILING_DEFER_SECONDS now))"

definition due :: "timestamp \<Rightarrow> agent \<Rightarrow> bool" where
  "due now a =
     (is_enabled a \<and> agent_status a \<noteq> ''queued'' \<and> agent_status a \<noteq> ''running'' \<and>
      (case next_run_at a of None \<Rightarrow> False | Some t \<Rightarrow> t \<le> now))"

definition candidates :: "timestamp \<Rightarrow> db \<Rightarrow> agent list" where
  "candidates now d =
     sort_key (\<lambda>a. case next_run_at a of None \<Rightarrow> 0 | Some t \<Rightarrow> t) (filter (due now) (agents d))"

text \<open>
  The walk over the candidates: \<open>free\<close> is the number of free slots, \<open>u n\<close> the \<open>n\<close>-th random
  draw and \<open>stopping n\<close> the stop event. The result lists the agents handed to the pool; the
  flag says whether the tick ran to its end without raising.
\<close>

fun dispatch :: "(string \<Rightarrow> string option) \<Rightarrow> (nat \<Rightarrow> rat) \<Rightarrow> (nat \<Rightarrow> bool) \<Rightarrow> nat \<Rightarrow> nat \<Rightarrow> timestamp \<Rightarrow> agent list \<Rightarrow> db \<Rightarrow>
    int list \<times> bool \<times> db" where
  "dispatch cfg u stopping n free now [] d = ([], True, d)"
| "dispatch cfg u stopping n free now (a # as) d =
     (if stopping n then ([], True, d)
      else if is_lurker a then
        (case reschedule_lurker cfg (u n) now a d of
           None \<Rightarrow> ([], False, d)
         | Some d' \<Rightarrow> dispatch cfg u stopping (Suc n) free now as d')
      else if over_ceiling a now d then
        (case defer_agent cfg now a d of
           None \<Rightarrow> ([], False, d)
         | Some d' \<Rightarrow> dispatch cfg u stopping (Suc n) free now as d')
      else if free = 0 then ([], True, d)
      else case dispatch cfg u stopping (Suc n) (free - 1) now as d of
          (ids, fine, d') \<Rightarrow> (agent_id a # ids, fine, d'))"

definition wake_poll :: "(string \<Rightarrow> string option) \<Rightarrow> (nat \<Rightarrow> rat) \<Rightarrow> (nat \<Rightarrow> bool) \<Rightarrow> nat \<Rightarrow> timestamp \<Rightarrow> db \<Rightarrow>
    int list \<times> bool \<times> db" where
  "wake_poll cfg u stopping free now d =
     (let d' = interrupt_stale_runs now d in
      if \<not> is_runtime_enabled d' then ([], True, d')
      else dispatch cfg u stopping 0 free now (candidates now d') d')"

text \<open>A scheduled visit: whatever \<open>run_once\<close> raises, the agent is backed off. \<open>later\<close> is the
  wake time computed from the local clock, if it can be.\<close>

definition run_agent_wake :: "run_env \<Rightarrow> timestamp option \<Rightarrow> int \<Rightarrow> world \<Rightarrow> world" where
  "run_agent_wake env later i w =
     (case run_once env i ''schedule'' None w of
        (Inr _, w') \<Rightarrow> w'
      | (Inl _, w') \<Rightarrow>
          (case later of
             None \<Rightarrow> w'
           | Some t \<Rightarrow> on_db (on_agent i (\<lambda>x. x\<lparr>next_run_at := Some t\<rparr>)) w'))"

section \<open>The sweep of stale runs\<close>

lemma running_rows_iff:
  "(r, a) \<in> set (running_rows d) \<longleftrightarrow> r \<in> set (runs d) \<and> running r \<and> a \<in> set (agents d) \<and> agent_id a = run_agent r"
  by (auto simp: running_rows_def)

lemma interrupt_others: "k \<noteq> i \<Longrightarrow> find_run k (interrupt_run i a now d) = find_run k d"
  using find_row_SomeD [of run_id k "runs d"]
  by (cases "find_row run_id k (runs d)")
    (auto simp: find_run_def interrupt_run_def release_agent_def on_running_run_def find_row_update)

lemma interrupt_inactive: "\<not> run_is_active i (interrupt_run i a now d)"
proof (cases "run_is_active i d")
  case True
  then show ?thesis unfolding interrupt_run_def release_agent_alt
    by (simp) (rule find_run_close; simp add: running_def)
qed (simp add: interrupt_run_def)

lemma interrupt_stays_inactive: "\<not> run_is_active k d \<Longrightarrow> \<not> run_is_active k (interrupt_run i a now d)"
  using interrupt_inactive interrupt_others by (metis run_is_active_def)

lemma interrupt_fold:
  "ras = map (\<lambda>(r, a). (run_id r, agent_id a)) (filter (overdue now) rows) \<Longrightarrow>
   fold (\<lambda>(r, a) d. if overdue now (r, a) then interrupt_run (run_id r) (agent_id a) now d else d) rows d =
   fold (\<lambda>(i, a). interrupt_run i a now) ras d"
  by (induction rows arbitrary: d ras) auto

lemma interrupt_all_effect:
  "(\<forall>k. k \<notin> fst ` set ias \<longrightarrow> find_run k (fold (\<lambda>(i, a). interrupt_run i a now) ias d) = find_run k d) \<and>
   (\<forall>k. k \<in> fst ` set ias \<or> \<not> run_is_active k d \<longrightarrow> \<not> run_is_active k (fold (\<lambda>(i, a). interrupt_run i a now) ias d)) \<and>
   users (fold (\<lambda>(i, a). interrupt_run i a now) ias d) = users d"
proof (induction ias arbitrary: d)
  case (Cons ia ias)
  obtain i a where ia: "ia = (i, a)" by (cases ia)
  from Cons [of "interrupt_run i a now d"] ia show ?case
    by (auto simp: interrupt_others interrupt_inactive interrupt_stays_inactive closing_keeps_names)
qed simp

lemma interrupt_stale_tidy:
  assumes "tidy d"
  shows "tidy (interrupt_stale_runs now d)"
proof -
  let ?ias = "map (\<lambda>(r, a). (run_id r, agent_id a)) (filter (overdue now) (running_rows d))"
  have "\<forall>(i, a) \<in> set ?ias. owns i a d"
    using owns_row [of d] assms by (auto simp: running_rows_iff tidy_def runs_ok_def)
  then show ?thesis
    using assms interrupt_all_ok [of d ?ias now] interrupt_all_effect [of ?ias now d]
    by (simp add: interrupt_stale_runs_def interrupt_fold tidy_def names_ok_def)
qed



section \<open>What a tick does\<close>

lemma on_agent_frame [simp]:
  "runs (on_agent i f d) = runs d" "turns (on_agent i f d) = turns d" "settings (on_agent i f d) = settings d"
  by (simp_all add: on_agent_def)

lemma find_on_agent:
  "(\<And>x. agent_id (f x) = agent_id x) \<Longrightarrow>
   find_agent k (on_agent i f d) = (if k = i then map_option f (find_agent k d) else find_agent k d)"
  using find_row_SomeD [of agent_id k "agents d"]
  by (cases "find_row agent_id k (agents d)") (auto simp: find_agent_def on_agent_def find_row_update)

definition postponed :: "agent \<Rightarrow> int" where
  "postponed a = (if is_lurker a then int_config (agent_config a) ''min_delay'' 60 else 1800)"

definition put_off :: "timestamp \<Rightarrow> agent \<Rightarrow> db \<Rightarrow> bool" where
  "put_off now a d =
     (case find_agent (agent_id a) d of
        None \<Rightarrow> False
      | Some x \<Rightarrow> (case next_run_at x of None \<Rightarrow> False | Some t \<Rightarrow> now + seconds (postponed a) \<le> t))"

definition put_aside :: "(string \<Rightarrow> string option) \<Rightarrow> rat \<Rightarrow> timestamp \<Rightarrow> agent \<Rightarrow> db \<Rightarrow> db option" where
  "put_aside cfg u now a d = (if is_lurker a then reschedule_lurker cfg u now a d else defer_agent cfg now a d)"

lemma put_aside_effect:
  assumes "put_aside cfg u now a d = Some d'"
  shows "runs d' = runs d" "turns d' = turns d" "settings d' = settings d"
    "k \<noteq> agent_id a \<Longrightarrow> find_agent k d' = find_agent k d"
    "find_agent (agent_id a) d \<noteq> None \<Longrightarrow> 0 \<le> u \<Longrightarrow> 0 \<le> postponed a \<Longrightarrow> put_off now a d'"
proof -
  let ?lo = "int_config (agent_config a) ''min_delay'' 60"
  let ?hi = "max ?lo (int_config (agent_config a) ''max_delay'' 900)"
  define base where "base = (if is_lurker a then of_int ?lo + of_int (?hi - ?lo) * u else 1800)"
  obtain t f where d': "d' = on_agent (agent_id a) f d" and t: "add_seconds now (scaled_wake_delay cfg base now) = Some t"
    and f: "\<And>x. agent_id (f x) = agent_id x" "\<And>x. next_run_at (f x) = Some t"
    using assms
    by (auto simp: put_aside_def reschedule_lurker_def defer_agent_def base_def Let_def CEILING_DEFER_SECONDS_def
        split: if_splits)
  show "runs d' = runs d" "turns d' = turns d" "settings d' = settings d" by (simp_all add: d')
  show "k \<noteq> agent_id a \<Longrightarrow> find_agent k d' = find_agent k d" by (simp add: d' find_on_agent f(1))
  assume "find_agent (agent_id a) d \<noteq> None" and "0 \<le> u" and "0 \<le> postponed a"
  moreover from this have "of_int (postponed a) \<le> base" by (auto simp: base_def postponed_def)
  ultimately show "put_off now a d'"
    using add_seconds_ge [OF _ _ t] f by (auto simp: put_off_def d' find_on_agent)
qed

lemma over_ceiling_frame: "runs d' = runs d \<Longrightarrow> turns d' = turns d \<Longrightarrow> over_ceiling a now d' = over_ceiling a now d"
  by (simp add: over_ceiling_def requests_today_def)

lemma dispatch_Cons:
  "dispatch cfg u stopping n free now (a # as) d =
     (if stopping n then ([], True, d)
      else if is_lurker a \<or> over_ceiling a now d then
        (case put_aside cfg (u n) now a d of
           None \<Rightarrow> ([], False, d)
         | Some d' \<Rightarrow> dispatch cfg u stopping (Suc n) free now as d')
      else if free = 0 then ([], True, d)
      else case dispatch cfg u stopping (Suc n) (free - 1) now as d of
          (ids, fine, d') \<Rightarrow> (agent_id a # ids, fine, d'))"
  by (simp add: put_aside_def)

declare dispatch.simps(2) [simp del]

definition runnable :: "timestamp \<Rightarrow> db \<Rightarrow> agent \<Rightarrow> bool" where
  "runnable now d a = (\<not> is_lurker a \<and> \<not> over_ceiling a now d)"

lemma dispatch_sound:
  "dispatch cfg u stopping n free now as d = (ids, fine, d') \<Longrightarrow>
   length ids \<le> free \<and> subseq ids (map agent_id (filter (runnable now d) as)) \<and>
   runs d' = runs d \<and> turns d' = turns d \<and> settings d' = settings d \<and>
   (\<forall>k. k \<notin> agent_id ` set (filter (\<lambda>a. \<not> runnable now d a) as) \<longrightarrow> find_agent k d' = find_agent k d)"
proof (induction as arbitrary: n free d ids)
  case (Cons a as)
  show ?case
  proof (cases "\<not> stopping n \<and> \<not> runnable now d a")
    case True
    show ?thesis
    proof (cases "put_aside cfg (u n) now a d")
      case None
      with True Cons.prems show ?thesis by (simp add: dispatch_Cons runnable_def)
    next
      case (Some d1)
      note eff = put_aside_effect [OF Some]
      have run: "runnable now d1 = runnable now d"
        using over_ceiling_frame [OF eff(1,2)] by (simp add: runnable_def fun_eq_iff)
      have "dispatch cfg u stopping (Suc n) free now as d1 = (ids, fine, d')"
        using Cons.prems True Some by (simp add: dispatch_Cons runnable_def)
      from Cons.IH [OF this] True eff show ?thesis by (auto simp: run)
    qed
  next
    case False
    show ?thesis
    proof (cases "stopping n \<or> free = 0")
      case True
      with False Cons.prems show ?thesis by (auto simp: dispatch_Cons runnable_def split: if_splits)
    next
      case go: False
      obtain ids1 fine1 d1 where rest: "dispatch cfg u stopping (Suc n) (free - 1) now as d = (ids1, fine1, d1)"
        by (metis prod_cases3)
      with False go Cons.prems have eqs: "ids = agent_id a # ids1" "fine1 = fine" "d1 = d'" "runnable now d a"
        by (auto simp: dispatch_Cons runnable_def)
      with Cons.IH [OF rest [unfolded eqs(2,3)]] go show ?thesis by auto
    qed
  qed
qed auto

lemma dispatch_fair:
  "dispatch cfg u (\<lambda>_. False) n free now as d = (ids, True, d') \<Longrightarrow> length ids < free \<Longrightarrow>
   distinct (map agent_id as) \<Longrightarrow> (\<forall>a \<in> set as. find_agent (agent_id a) d \<noteq> None \<and> 0 \<le> postponed a) \<Longrightarrow>
   (\<forall>k. 0 \<le> u k) \<Longrightarrow>
   (\<forall>a \<in> set as. agent_id a \<in> set ids \<or> put_off now a d')"
proof (induction as arbitrary: n free d ids)
  case (Cons a as)
  show ?case
  proof (cases "runnable now d a")
    case False
    then obtain d1 where aside: "put_aside cfg (u n) now a d = Some d1"
      and rest: "dispatch cfg u (\<lambda>_. False) (Suc n) free now as d1 = (ids, True, d')"
      using Cons.prems(1) by (auto simp: dispatch_Cons runnable_def split: option.splits)
    note eff = put_aside_effect [OF aside]
    have others: "find_agent (agent_id b) d1 = find_agent (agent_id b) d" if "b \<in> set as" for b
      using eff(4) Cons.prems(3) that by (metis distinct.simps(2) image_eqI image_set list.simps(9))
    have "\<forall>b \<in> set as. agent_id b \<in> set ids \<or> put_off now b d'"
      using Cons.prems others by (intro Cons.IH [OF rest]) auto
    moreover have "put_off now a d1" using eff(5) Cons.prems(4,5) by simp
    moreover have "find_agent (agent_id a) d' = find_agent (agent_id a) d1"
      using dispatch_sound [OF rest] Cons.prems(3) by (auto simp: image_iff)
    ultimately show ?thesis by (auto simp: put_off_def)
  next
    case True
    obtain ids1 fine1 d1 where rest: "dispatch cfg u (\<lambda>_. False) (Suc n) (free - 1) now as d = (ids1, fine1, d1)"
      by (metis prod_cases3)
    have "free \<noteq> 0" using Cons.prems(2) by simp
    with True rest Cons.prems(1) have "ids = agent_id a # ids1" "fine1" "d' = d1"
      by (auto simp: dispatch_Cons runnable_def)
    with Cons.IH [of "Suc n" "free - 1" d ids1] rest Cons.prems show ?thesis by auto
  qed
qed simp

lemma tidy_on_agent:
  assumes "tidy d" and "\<And>x. agent_id (f x) = agent_id x"
    and "\<And>x. agent_status (f x) = ''running'' \<Longrightarrow> agent_status x = ''running''"
  shows "tidy (on_agent i f d)"
proof -
  have rows: "agents (on_agent i f d) = map (\<lambda>x. if agent_id x = i then f x else x) (agents d)"
    by (simp add: on_agent_def update_rows_def)
  have busy: "agent_busy k (on_agent i f d) = agent_busy k d" for k by (simp add: agent_busy_def)
  have "nobody_stranded (on_agent i f d)"
    using assms by (auto simp: nobody_stranded_def rows busy tidy_def runs_ok_def split: if_splits)
  moreover have "map agent_id (agents (on_agent i f d)) = map agent_id (agents d)"
    using assms(2) by (simp add: on_agent_def)
  ultimately show ?thesis
    using assms(1) by (simp add: tidy_def runs_ok_def keys_ok_def one_run_each_def names_ok_def)
qed

lemma put_aside_tidy: "tidy d \<Longrightarrow> put_aside cfg u now a d = Some d' \<Longrightarrow> tidy d'"
  by (auto simp: put_aside_def reschedule_lurker_def defer_agent_def Let_def intro!: tidy_on_agent split: if_splits)

lemma dispatch_tidy:
  "tidy d \<Longrightarrow> dispatch cfg u stopping n free now as d = (ids, fine, d') \<Longrightarrow> tidy d'"
proof (induction as arbitrary: n free d ids)
  case (Cons a as)
  obtain ids1 fine1 d1 where rest: "dispatch cfg u stopping (Suc n) (free - 1) now as d = (ids1, fine1, d1)"
    by (metis prod_cases3)
  from Cons.IH [of d "Suc n" "free - 1" ids1] Cons.prems Cons.IH [OF put_aside_tidy] rest show ?case
    by (auto simp: dispatch_Cons split: if_splits option.splits)
qed simp

lemma candidates_props:
  assumes "keys_ok d"
  shows "distinct (map agent_id (candidates now d))" and "set (candidates now d) = {a \<in> set (agents d). due now a}"
proof -
  show set: "set (candidates now d) = {a \<in> set (agents d). due now a}" by (auto simp: candidates_def)
  have "inj_on agent_id (set (agents d))" and "distinct (agents d)"
    using assms by (simp_all add: keys_ok_def distinct_map)
  then show "distinct (map agent_id (candidates now d))"
    by (auto simp: distinct_map set candidates_def intro: inj_on_subset)
qed

text \<open>C6. A tick is safe and fair. It only hands over agents that are due, enabled, not queued or
  running, no lurkers and under their daily ceiling, in the order they fell due and never more
  than there are free slots; it leaves every run alone; with the runtime switched off it wakes
  nobody; and when it ends undisturbed with a slot to spare, every due agent has been handed
  over or put off by at least its minimum delay (half an hour at the ceiling), so none is
  polled again at once.\<close>

theorem wake_poll_fair:
  assumes "tidy d" and "wake_poll cfg u stopping free now d = (ids, fine, d')"
    and "D = interrupt_stale_runs now d"
  shows "tidy d' \<and> length ids \<le> free \<and>
    subseq ids (map agent_id (filter (runnable now D) (candidates now D))) \<and> runs d' = runs D \<and>
    (is_runtime_enabled D \<or> ids = []) \<and>
    (is_runtime_enabled D \<and> fine \<and> stopping = (\<lambda>_. False) \<and> length ids < free \<and> (\<forall>k. 0 \<le> u k) \<and>
       list_all (\<lambda>a. 0 \<le> postponed a) (agents D) \<longrightarrow>
     list_all (\<lambda>a. due now a \<longrightarrow> agent_id a \<in> set ids \<or> put_off now a d') (agents D))"
proof -
  have D: "tidy D" "keys_ok D" using interrupt_stale_tidy [OF assms(1)] assms(3) by (simp_all add: tidy_def runs_ok_def)
  note cand = candidates_props [OF D(2), of now]
  show ?thesis
  proof (cases "is_runtime_enabled D")
    case False
    with assms(2,3) D(1) show ?thesis by (auto simp: wake_poll_def Let_def)
  next
    case True
    with assms(2,3) have run: "dispatch cfg u stopping 0 free now (candidates now D) D = (ids, fine, d')"
      by (simp add: wake_poll_def Let_def)
    have found: "find_agent (agent_id a) D = Some a" if "a \<in> set (agents D)" for a
      using D(2) that by (simp add: find_agent_def keys_ok_def)
    have "list_all (\<lambda>a. due now a \<longrightarrow> agent_id a \<in> set ids \<or> put_off now a d') (agents D)"
      if "fine" "stopping = (\<lambda>_. False)" "length ids < free" "\<forall>k. 0 \<le> u k" "list_all (\<lambda>a. 0 \<le> postponed a) (agents D)"
    proof -
      have "\<forall>a \<in> set (candidates now D). find_agent (agent_id a) D \<noteq> None \<and> 0 \<le> postponed a"
        using that(5) found by (simp add: cand(2) list_all_iff)
      from dispatch_fair [of cfg u 0 free now "candidates now D" D ids d', OF _ that(3) cand(1) this that(4)] run that(1,2)
      show ?thesis by (simp add: cand(2) list_all_iff)
    qed
    with True dispatch_sound [OF run] dispatch_tidy [OF D(1) run] show ?thesis by auto
  qed
qed

definition demo_waking :: db where
  "demo_waking = (setting_set ''AGENT_RUNTIME_ENABLED'' (Some ''true'') demo_agents)\<lparr>agents :=
     [demo_agent 1 None, (demo_agent 2 (Some ''bob''))\<lparr>next_run_at := Some (- 5)\<rparr>]\<rparr>"

theorem wake_poll_fair_witness:
  "subseq (fst (wake_poll default_value (\<lambda>_. 0) (\<lambda>_. False) 1 0 demo_waking)) [2, 1] \<and>
   fst (wake_poll default_value (\<lambda>_. 0) (\<lambda>_. False) 1 0 demo_waking) = [2]"
proof -
  let ?p = "wake_poll default_value (\<lambda>_. 0) (\<lambda>_. False) 1 0 demo_waking"
  obtain ids fine d' where p: "?p = (ids, fine, d')" by (metis prod_cases3)
  have "tidy demo_waking"
    by (simp add: demo_waking_def setting_set_def demo_agents_def demo_agent_def sample_db_def sample_user_def
        empty_db_def tidy_def runs_ok_def keys_ok_def one_run_each_def nobody_stranded_def names_ok_def)
  moreover have "fst ?p = [2]"
    and "map agent_id (filter (runnable 0 (interrupt_stale_runs 0 demo_waking))
        (candidates 0 (interrupt_stale_runs 0 demo_waking))) = [2, 1]"
    by code_simp+
  ultimately show ?thesis using wake_poll_fair [OF _ p refl] p by auto
qed

end
