(* ===== verification/Jobs.thy ===== *)
theory Jobs
  imports Queue Wakes
begin

text \<open>
  What a queued job does: \<open>execute_job\<close> of \<open>deaddit/jobs.py\<close> with its two job types, and the
  agent controls of \<open>deaddit/admin.py\<close> that feed the queue (force-run, toggle, start and pause
  all). An agent waiting for a manual run carries a marker in its \<open>state\<close>: the job, and the
  status to restore should the job end before a run was reserved. Exceptions are values: the name
  of the exception class, or a short text for the \<open>ValueError\<close>s of a refused visit.
\<close>

section \<open>The marker of a manual run\<close>

definition state_items :: "json \<Rightarrow> (string \<times> json) list option" where
  "state_items s = (if py_truthy s then (case s of JObj kvs \<Rightarrow> Some kvs | _ \<Rightarrow> None) else Some [])"

definition marker_job :: "agent \<Rightarrow> int option" where
  "marker_job a =
     (case state_items (run_state a) of
        None \<Rightarrow> None
      | Some kvs \<Rightarrow>
          (case map_of kvs ''manual_run'' of
             Some (JObj m) \<Rightarrow> (case map_of m ''job_id'' of Some (JInt j) \<Rightarrow> Some j | _ \<Rightarrow> None)
           | _ \<Rightarrow> None))"

definition marker_previous :: "agent \<Rightarrow> string" where
  "marker_previous a =
     (case state_items (run_state a) of
        None \<Rightarrow> ''idle''
      | Some kvs \<Rightarrow>
          (case map_of kvs ''manual_run'' of
             Some (JObj m) \<Rightarrow> (case map_of m ''previous_status'' of Some (JStr (c # cs)) \<Rightarrow> c # cs | _ \<Rightarrow> ''idle'')
           | _ \<Rightarrow> ''idle''))"

definition clear_marker :: "agent \<Rightarrow> agent" where
  "clear_marker a =
     (case state_items (run_state a) of
        None \<Rightarrow> a
      | Some kvs \<Rightarrow> a\<lparr>run_state := JObj (json_remove ''manual_run'' kvs)\<rparr>)"

definition release_manual_run :: "int \<Rightarrow> int \<Rightarrow> bool \<Rightarrow> db \<Rightarrow> db" where
  "release_manual_run i j obtained d =
     (case find_agent i d of
        None \<Rightarrow> d
      | Some a \<Rightarrow>
          if marker_job a \<noteq> Some j then d
          else on_agent i (\<lambda>x. (clear_marker x)\<lparr>agent_status :=
              (if \<not> obtained \<and> \<not> agent_busy i d then marker_previous a else agent_status x)\<rparr>) d)"

section \<open>Agent controls\<close>

definition AGENT_RUN_JOB_PRIORITY :: int where
  "AGENT_RUN_JOB_PRIORITY = 9"

definition has_active_run :: "agent \<Rightarrow> db \<Rightarrow> bool" where
  "has_active_run a d = (agent_status a \<in> {''queued'', ''running''} \<or> agent_busy (agent_id a) d)"

definition intent_json :: "string option \<Rightarrow> json" where
  "intent_json q = (case q of None \<Rightarrow> JNull | Some s \<Rightarrow> JStr s)"

definition run_parameters :: "int \<Rightarrow> string option \<Rightarrow> json" where
  "run_parameters i q = JObj [(''agent_id'', JInt i), (''requested_intent'', intent_json q)]"

definition set_marker :: "int \<Rightarrow> string option \<Rightarrow> string \<Rightarrow> agent \<Rightarrow> json option" where
  "set_marker j q queued_at a =
     (case state_items (run_state a) of
        None \<Rightarrow> None
      | Some kvs \<Rightarrow> Some (JObj (json_set ''manual_run''
          (JObj [(''job_id'', JInt j), (''requested_intent'', intent_json q), (''queued_at'', JStr queued_at),
             (''previous_status'', JStr (if agent_status a = [] then ''idle'' else agent_status a))]) kvs)))"

text \<open>
  The conditional update gates the queue: it fails, and everything is rolled back, when the
  stored agent is already queued or running. \<open>a\<close> is the loaded row. \<open>None\<close> in the first
  component: nothing was queued.
\<close>

definition enqueue_agent_run :: "agent \<Rightarrow> string option \<Rightarrow> string \<Rightarrow> timestamp \<Rightarrow> db \<Rightarrow> job option \<times> db" where
  "enqueue_agent_run a q queued_at now d =
     (case create_job Agent_Run_Job (run_parameters (agent_id a) q) AGENT_RUN_JOB_PRIORITY 1 now d of
        (j, d') \<Rightarrow>
          (case (set_marker (job_id j) q queued_at a, find_agent (agent_id a) d) of
             (Some st, Some x) \<Rightarrow>
               if agent_status x \<in> {''queued'', ''running''} then (None, d)
               else (Some j, on_agent (agent_id a) (\<lambda>x. x\<lparr>agent_status := ''queued'', run_state := st\<rparr>) d')
           | _ \<Rightarrow> (None, d)))"

datatype force_result = Agent_Not_Found | Bad_Intent | Run_In_Progress | Not_Eligible string | Queued job

text \<open>\<open>eligible\<close> is \<open>_manual_intent_error\<close>, the tool policy of the agent.\<close>

definition force_run :: "(agent \<Rightarrow> string option \<Rightarrow> string option) \<Rightarrow> int \<Rightarrow> json \<Rightarrow> string \<Rightarrow> timestamp \<Rightarrow> db \<Rightarrow>
    force_result \<times> db" where
  "force_run eligible i intent queued_at now d =
     (case find_agent i d of
        None \<Rightarrow> (Agent_Not_Found, d)
      | Some a \<Rightarrow>
          if intent \<notin> {JNull, JStr ''image'', JStr ''website''} then (Bad_Intent, d)
          else
            let q = (case intent of JStr s \<Rightarrow> Some s | _ \<Rightarrow> None) in
            if has_active_run a d then (Run_In_Progress, d)
            else case eligible a q of
                Some e \<Rightarrow> (Not_Eligible e, d)
              | None \<Rightarrow>
                  (case enqueue_agent_run a q queued_at now d of
                     (None, d') \<Rightarrow> (Run_In_Progress, d')
                   | (Some j, d') \<Rightarrow> (Queued j, d')))"

definition enable_agent :: "timestamp \<Rightarrow> agent \<Rightarrow> agent" where
  "enable_agent now x = x\<lparr>is_enabled := True, consecutive_failures := 0, next_run_at := Some now\<rparr>"

definition disable_agent :: "agent \<Rightarrow> agent" where
  "disable_agent x = x\<lparr>is_enabled := False, next_run_at := None, agent_status := ''idle''\<rparr>"

definition toggle_agent :: "int \<Rightarrow> timestamp \<Rightarrow> db \<Rightarrow> db" where
  "toggle_agent i now d = on_agent i (\<lambda>x. if is_enabled x then disable_agent x else enable_agent now x) d"

definition start_all :: "timestamp \<Rightarrow> db \<Rightarrow> int \<times> db" where
  "start_all now d =
     (count_rows (\<lambda>x. \<not> is_enabled x) (agents d),
      d\<lparr>agents := update_rows (\<lambda>x. \<not> is_enabled x) (enable_agent now) (agents d)\<rparr>)"

definition pause_all :: "db \<Rightarrow> int \<times> db" where
  "pause_all d =
     (count_rows is_enabled (agents d), d\<lparr>agents := update_rows is_enabled disable_agent (agents d)\<rparr>)"

section \<open>Job types\<close>

definition job_type_of :: "string \<Rightarrow> job_type option" where
  "job_type_of s =
     (if s = ''batch_operation'' then Some Batch_Operation
      else if s = ''agent_run'' then Some Agent_Run_Job else None)"

text \<open>Iterating a JSON value as \<open>for x in v\<close> does; \<open>None\<close>: \<open>TypeError\<close>.\<close>

definition json_iter :: "json \<Rightarrow> json list option" where
  "json_iter v =
     (case v of
        JList xs \<Rightarrow> Some xs
      | JStr s \<Rightarrow> Some (map (\<lambda>c. JStr [c]) s)
      | JObj kvs \<Rightarrow> Some (map (JStr \<circ> fst) kvs)
      | _ \<Rightarrow> None)"

text \<open>One entry of a batch becomes a job of its own; an exception is its type.\<close>

definition sub_job :: "int \<Rightarrow> json \<Rightarrow> timestamp \<Rightarrow> db \<Rightarrow> (string + job) \<times> db" where
  "sub_job prio op now d =
     (case op of
        JObj kvs \<Rightarrow>
          (case map_of kvs ''type'' of
             None \<Rightarrow> (Inl ''KeyError'', d)
           | Some t \<Rightarrow>
               (case (case t of JStr s \<Rightarrow> job_type_of s | _ \<Rightarrow> None) of
                  None \<Rightarrow> (Inl ''ValueError'', d)
                | Some jt \<Rightarrow>
                    (case map_of kvs ''parameters'' of
                       None \<Rightarrow> (Inl ''KeyError'', d)
                     | Some ps \<Rightarrow> (case create_job jt ps prio 1 now d of (j, d') \<Rightarrow> (Inr j, d')))))
      | _ \<Rightarrow> (Inl ''TypeError'', d))"

fun run_operations :: "int \<Rightarrow> int \<Rightarrow> int \<Rightarrow> json list \<Rightarrow> timestamp \<Rightarrow> db \<Rightarrow> (string + json list) \<times> db" where
  "run_operations i prio n [] now d = (Inr [], d)"
| "run_operations i prio n (op # ops) now d =
     (case sub_job prio op now (update_job_progress i n d) of
        (Inl e, d') \<Rightarrow> (Inl e, d')
      | (Inr j, d') \<Rightarrow>
          (case run_operations i prio (n + 1) ops now d' of
             (Inl e, d'') \<Rightarrow> (Inl e, d'')
           | (Inr rs, d'') \<Rightarrow> (Inr (JObj [(''operation'', op), (''job_id'', JInt (job_id j))] # rs), d'')))"

text \<open>
  \<open>generate\<close> is \<open>generate_personas\<close> applied to the job's parameters, \<open>visit_env\<close> the environment
  of a manual visit.
\<close>

record job_env =
  generate :: "json \<Rightarrow> db \<Rightarrow> (string + (string \<times> json) list) \<times> db"
  manual_env :: run_env
  job_clock :: "world \<Rightarrow> timestamp"

definition is_object :: "json \<Rightarrow> bool" where
  "is_object v = (case v of JObj _ \<Rightarrow> True | _ \<Rightarrow> False)"

definition job_params :: "job \<Rightarrow> json" where
  "job_params j = (if py_truthy (parameters j) then parameters j else JObj [])"

definition execute_batch_operation :: "job_env \<Rightarrow> job \<Rightarrow> timestamp \<Rightarrow> db \<Rightarrow> (string + json) \<times> db" where
  "execute_batch_operation env j now d =
     (let params = job_params j in
      if \<not> is_object params then (Inl ''AttributeError'', d)
      else if json_get ''operation'' params = Some (JStr ''persona_generation'') then
        (case generate env params d of
           (Inl e, d') \<Rightarrow> (Inl e, d')
         | (Inr res, d') \<Rightarrow>
             (Inr (JObj (fold (\<lambda>(k, v). json_set k v) res [(''operation'', JStr ''persona_generation'')])), d'))
      else
        case json_iter (case json_get ''operations'' params of None \<Rightarrow> JList [] | Some v \<Rightarrow> v) of
          None \<Rightarrow> (Inl ''TypeError'', d)
        | Some ops \<Rightarrow>
            (case run_operations (job_id j) (priority j) 0 ops now d of
               (Inl e, d') \<Rightarrow> (Inl e, d')
             | (Inr rs, d') \<Rightarrow>
                 (Inr (JObj [(''batch_results'', JList rs), (''count'', JInt (int (length rs)))]), d')))"

definition requested_intent :: "json \<Rightarrow> string option option" where
  "requested_intent params =
     (case json_get ''requested_intent'' params of
        None \<Rightarrow> Some None
      | Some JNull \<Rightarrow> Some None
      | Some (JStr s) \<Rightarrow> if s \<in> {''image'', ''website''} then Some (Some s) else None
      | _ \<Rightarrow> None)"

definition run_report :: "int \<Rightarrow> int \<Rightarrow> string option \<Rightarrow> db \<Rightarrow> json" where
  "run_report i k q d =
     JObj [(''agent_id'', JInt i), (''run_id'', JInt k), (''requested_intent'', intent_json q),
       (''resolved_intent'', case find_run k d of None \<Rightarrow> JNull | Some r \<Rightarrow> intent_json (run_intent r)),
       (''run_status'', case find_run k d of None \<Rightarrow> JNull | Some r \<Rightarrow> JStr (run_status r))]"

definition execute_agent_run :: "job_env \<Rightarrow> job \<Rightarrow> world \<Rightarrow> (string + json) \<times> world" where
  "execute_agent_run env j w =
     (let params = job_params j in
      case json_get ''agent_id'' params of
        Some (JInt i) \<Rightarrow>
          (case requested_intent params of
             None \<Rightarrow> (Inl ''invalid requested_intent'', w)
           | Some q \<Rightarrow>
               if find_agent i (wdb w) = None then (Inl ''no such agent'', w)
               else case run_once (manual_env env) i ''manual'' q w of
                   (Inl e, w') \<Rightarrow> (Inl ''visit refused'', on_db (release_manual_run i (job_id j) False) w')
                 | (Inr k, w') \<Rightarrow>
                     (Inr (run_report i k q (wdb w')), on_db (release_manual_run i (job_id j) True) w'))
      | _ \<Rightarrow> (Inl ''invalid agent_id'', w))"

text \<open>The job row may have gone when it is fetched again; then the exception itself fails.\<close>

definition execute_job :: "job_env \<Rightarrow> int \<Rightarrow> world \<Rightarrow> (string + json) \<times> world" where
  "execute_job env i w =
     (case job_of i (wdb w) of
        None \<Rightarrow> (Inl ''ValueError'', w)
      | Some j \<Rightarrow>
          let w = on_db (start_job i (job_clock env w)) w in
          case (case job_kind j of
                  Batch_Operation \<Rightarrow>
                    (case execute_batch_operation env j (job_clock env w) (wdb w) of (r, d) \<Rightarrow> (r, w\<lparr>wdb := d\<rparr>))
                | Agent_Run_Job \<Rightarrow> execute_agent_run env j w) of
            (Inr res, w) \<Rightarrow>
              if job_of i (wdb w) = None then (Inl ''AttributeError'', w)
              else (Inr res, on_db (complete_job i res (job_clock env w)) w)
          | (Inl e, w) \<Rightarrow>
              if job_of i (wdb w) = None then (Inl ''AttributeError'', w)
              else (Inl e, on_db (fail_job i e (job_clock env w)) w))"

end
