(* ===== verification/Workers.thy ===== *)
theory Workers
  imports Jobs
begin

text \<open>
  The platform's workers as one machine: the database, and the tasks the worker processes are in
  the middle of. Each step is one transaction of the web process (force-run, toggle, pause) or
  of a worker (claim, reservation, closing, release, wake tick, sweeps), and a worker may die at
  any point, which drops its tasks and leaves the database as it is.
\<close>

section \<open>Tasks and steps\<close>

text \<open>
  A manual job: claimed, visiting with a run, closing (with or without a run obtained),
  reporting its outcome. A scheduled wake: handed to the pool, then visiting.
\<close>

datatype task =
    Job_Task int int
  | Job_Visit int int int
  | Job_Closing int int bool
  | Job_Reporting int int
  | Wake_Task int
  | Wake_Visit int int

record system =
  sys_db :: db
  tasks :: "task list"

fun task_job :: "task \<Rightarrow> int option" where
  "task_job (Job_Task j a) = Some j"
| "task_job (Job_Visit j a k) = Some j"
| "task_job (Job_Closing j a b) = Some j"
| "task_job (Job_Reporting j a) = Some j"
| "task_job _ = None"

text \<open>\<open>closes i a d d'\<close>: the visit's closing transaction; a visit may also find its run lost, or
  raise while closing.\<close>

definition closes :: "int \<Rightarrow> int \<Rightarrow> db \<Rightarrow> db \<Rightarrow> bool" where
  "closes i a d d' =
     (\<exists>n m usage msg strike now cfg reader u.
        d' = fail_run i a n m usage msg strike now d \<or> complete_run i a cfg reader u n m usage now d = Some d')"

definition agent_job_row :: "int \<Rightarrow> int \<Rightarrow> job \<Rightarrow> bool" where
  "agent_job_row j a row = (job_id row = j \<and> job_kind row = Agent_Run_Job \<and> json_get ''agent_id'' (parameters row) = Some (JInt a))"

inductive worker_step :: "system \<Rightarrow> system \<Rightarrow> bool" where
  force: "force_run eligible i intent stamp now (sys_db s) = (res, d) \<Longrightarrow> worker_step s (s\<lparr>sys_db := d\<rparr>)"
| toggle: "worker_step s (s\<lparr>sys_db := toggle_agent i now (sys_db s)\<rparr>)"
| start: "worker_step s (s\<lparr>sys_db := snd (start_all now (sys_db s))\<rparr>)"
| pause: "worker_step s (s\<lparr>sys_db := snd (pause_all (sys_db s))\<rparr>)"
| claim: "row \<in> set (jobs (sys_db s)) \<Longrightarrow> agent_job_row j a row \<Longrightarrow> claim_job j w now (sys_db s) = (True, d) \<Longrightarrow>
    worker_step s (s\<lparr>sys_db := d, tasks := Job_Task j a # tasks s\<rparr>)"
| beat: "worker_step s (s\<lparr>sys_db := heartbeat j now (sys_db s)\<rparr>)"
| job_sweep: "list_all (\<lambda>t. \<forall>row \<in> set (jobs (sys_db s)). task_job t = Some (job_id row) \<longrightarrow>
      \<not> stale_job (now - minutes HEARTBEAT_STALE_MINUTES) row) (tasks s) \<Longrightarrow>
    worker_step s (s\<lparr>sys_db := snd (sweep_stale_jobs HEARTBEAT_STALE_MINUTES now (sys_db s))\<rparr>)"
| job_reserve: "Job_Task j a \<in> set (tasks s) \<Longrightarrow> \<not> index_refuses a p (sys_db s) \<Longrightarrow>
    worker_step s (s\<lparr>sys_db := insert_run (new_run a p ''manual'' now (sys_db s)) (sys_db s),
      tasks := Job_Visit j a (next_id run_id (runs (sys_db s))) # remove1 (Job_Task j a) (tasks s)\<rparr>)"
| job_refused: "Job_Task j a \<in> set (tasks s) \<Longrightarrow>
    worker_step s (s\<lparr>tasks := Job_Closing j a False # remove1 (Job_Task j a) (tasks s)\<rparr>)"
| job_close: "Job_Visit j a k \<in> set (tasks s) \<Longrightarrow> closes k a (sys_db s) d \<Longrightarrow>
    worker_step s (s\<lparr>sys_db := d, tasks := Job_Closing j a True # remove1 (Job_Visit j a k) (tasks s)\<rparr>)"
| job_raised: "Job_Visit j a k \<in> set (tasks s) \<Longrightarrow> run_is_active k (sys_db s) \<Longrightarrow>
    worker_step s (s\<lparr>tasks := Job_Closing j a False # remove1 (Job_Visit j a k) (tasks s)\<rparr>)"
| job_release: "Job_Closing j a got \<in> set (tasks s) \<Longrightarrow>
    worker_step s (s\<lparr>sys_db := release_manual_run a j got (sys_db s),
      tasks := Job_Reporting j a # remove1 (Job_Closing j a got) (tasks s)\<rparr>)"
| job_report: "Job_Reporting j a \<in> set (tasks s) \<Longrightarrow>
    d = complete_job j out now (sys_db s) \<or> d = fail_job j msg now (sys_db s) \<Longrightarrow>
    worker_step s (s\<lparr>sys_db := d, tasks := remove1 (Job_Reporting j a) (tasks s)\<rparr>)"
| tick: "wake_poll cfg u stopping free now (sys_db s) = (ids, fine, d) \<Longrightarrow>
    worker_step s (s\<lparr>sys_db := d, tasks := map Wake_Task ids @ tasks s\<rparr>)"
| wake_reserve: "Wake_Task a \<in> set (tasks s) \<Longrightarrow> \<not> index_refuses a p (sys_db s) \<Longrightarrow>
    worker_step s (s\<lparr>sys_db := insert_run (new_run a p ''schedule'' now (sys_db s)) (sys_db s),
      tasks := Wake_Visit a (next_id run_id (runs (sys_db s))) # remove1 (Wake_Task a) (tasks s)\<rparr>)"
| wake_refused: "Wake_Task a \<in> set (tasks s) \<Longrightarrow>
    d = (if agent_busy a (sys_db s) then sys_db s else backoff_without_strike a now (sys_db s)) \<Longrightarrow>
    worker_step s (s\<lparr>sys_db := on_agent a (\<lambda>x. x\<lparr>next_run_at := Some later\<rparr>) d,
      tasks := remove1 (Wake_Task a) (tasks s)\<rparr>)"
| wake_close: "Wake_Visit a k \<in> set (tasks s) \<Longrightarrow> closes k a (sys_db s) d \<Longrightarrow>
    worker_step s (s\<lparr>sys_db := d, tasks := remove1 (Wake_Visit a k) (tasks s)\<rparr>)"
| wake_raised: "Wake_Visit a k \<in> set (tasks s) \<Longrightarrow>
    worker_step s (s\<lparr>sys_db := on_agent a (\<lambda>x. x\<lparr>next_run_at := Some later\<rparr>) (sys_db s),
      tasks := remove1 (Wake_Visit a k) (tasks s)\<rparr>)"
| own_recovery: "worker_step s (s\<lparr>sys_db := snd (recover_stale_runs x now (sys_db s))\<rparr>)"
| boot: "worker_step s (s\<lparr>sys_db := recover now (sys_db s)\<rparr>)"
| crash: "worker_step s (s\<lparr>tasks := filter alive (tasks s)\<rparr>)"

inductive worker_reachable :: "system \<Rightarrow> system \<Rightarrow> bool" for s0 where
  here: "worker_reachable s0 s0"
| next_step: "worker_reachable s0 s \<Longrightarrow> worker_step s t \<Longrightarrow> worker_reachable s0 t"

section \<open>The invariant\<close>

text \<open>A job that has not ended and belongs to the agent.\<close>

definition live_job :: "int \<Rightarrow> int \<Rightarrow> db \<Rightarrow> bool" where
  "live_job j a d = (\<exists>row \<in> set (jobs d). agent_job_row j a row \<and> job_status row \<in> {Pending, Running})"

definition queued_ok :: "db \<Rightarrow> agent \<Rightarrow> bool" where
  "queued_ok d x =
     (agent_status x = ''queued'' \<longrightarrow>
        \<not> agent_busy (agent_id x) d \<and> (\<exists>j. marker_job x = Some j \<and> live_job j (agent_id x) d))"

definition marker_ok :: "agent \<Rightarrow> bool" where
  "marker_ok x = (marker_previous x \<noteq> ''queued'' \<and> marker_previous x \<noteq> ''running'')"

text \<open>What each task knows: its job is its own and running; once a visit was obtained or the
  marker released, no agent waits for this job any more.\<close>

definition not_awaited :: "int \<Rightarrow> db \<Rightarrow> bool" where
  "not_awaited j d = (\<forall>x \<in> set (agents d). agent_status x = ''queued'' \<longrightarrow> marker_job x \<noteq> Some j)"

definition job_held :: "int \<Rightarrow> int \<Rightarrow> db \<Rightarrow> bool" where
  "job_held j a d = (\<exists>row \<in> set (jobs d). agent_job_row j a row \<and> job_status row = Running)"

fun task_ok :: "db \<Rightarrow> task \<Rightarrow> bool" where
  "task_ok d (Job_Task j a) = job_held j a d"
| "task_ok d (Job_Visit j a k) = (job_held j a d \<and> held_by k a d \<and> not_awaited j d)"
| "task_ok d (Job_Closing j a got) = (job_held j a d \<and> (got \<longrightarrow> not_awaited j d))"
| "task_ok d (Job_Reporting j a) = (job_held j a d \<and> not_awaited j d)"
| "task_ok d (Wake_Task a) = True"
| "task_ok d (Wake_Visit a k) = held_by k a d"

definition one_task_per_job :: "task list \<Rightarrow> bool" where
  "one_task_per_job ts = (\<forall>j. length (filter (\<lambda>t. task_job t = Some j) ts) \<le> 1)"

definition sys_ok :: "system \<Rightarrow> bool" where
  "sys_ok s =
     (tidy (sys_db s) \<and> distinct (map job_id (jobs (sys_db s))) \<and>
      (\<forall>x \<in> set (agents (sys_db s)). queued_ok (sys_db s) x \<and> marker_ok x) \<and>
      (\<forall>t \<in> set (tasks s). task_ok (sys_db s) t) \<and>
      one_task_per_job (tasks s))"

section \<open>Transactions that queue nobody\<close>

text \<open>
  Most transactions leave the queue alone, keep every run with its agent, and at most take an
  agent out of the queued status. That is all the invariant needs.
\<close>

definition calm_agent :: "db \<Rightarrow> db \<Rightarrow> agent \<Rightarrow> agent \<Rightarrow> bool" where
  "calm_agent d d' x y =
     (agent_id y = agent_id x \<and> (marker_ok x \<longrightarrow> marker_ok y) \<and>
      (agent_status y = ''queued'' \<longrightarrow>
         agent_status x = ''queued'' \<and> run_state y = run_state x \<and>
         (agent_busy (agent_id x) d' \<longrightarrow> agent_busy (agent_id x) d)))"

definition calm :: "db \<Rightarrow> db \<Rightarrow> bool" where
  "calm d d' =
     (jobs d' = jobs d \<and> (\<forall>i a. held_by i a d \<longrightarrow> held_by i a d') \<and>
      (\<forall>y \<in> set (agents d'). \<exists>x \<in> set (agents d). calm_agent d d' x y))"

lemma calm_refl [simp]: "calm d d"
  by (auto simp: calm_def calm_agent_def)

lemma calm_agent_trans: "calm_agent d e x y \<Longrightarrow> calm_agent e f y z \<Longrightarrow> calm_agent d f x z"
  unfolding calm_agent_def by (elim conjE) simp

lemma calm_trans:
  assumes "calm d e" and "calm e f"
  shows "calm d f"
  unfolding calm_def
proof (intro conjI ballI)
  fix z assume "z \<in> set (agents f)"
  then obtain y where y: "y \<in> set (agents e)" "calm_agent e f y z" using assms(2) unfolding calm_def by blast
  then obtain x where x: "x \<in> set (agents d)" "calm_agent d e x y" using assms(1) unfolding calm_def by blast
  from x(1) calm_agent_trans [OF x(2) y(2)] show "\<exists>x \<in> set (agents d). calm_agent d f x z" by (rule rev_bexI)
qed (use assms in \<open>simp_all add: calm_def\<close>)

lemma marker_cong: "run_state y = run_state x \<Longrightarrow> marker_job y = marker_job x \<and> marker_previous y = marker_previous x"
  by (simp add: marker_job_def marker_previous_def)

lemma marker_ok_cong: "run_state y = run_state x \<Longrightarrow> marker_ok y = marker_ok x"
  using marker_cong [of y x] by (simp add: marker_ok_def)

lemma calm_update_agents:
  assumes "\<And>x. x \<in> set (agents d) \<Longrightarrow> p x \<Longrightarrow> agent_id (f x) = agent_id x \<and> run_state (f x) = run_state x \<and>
      (agent_status (f x) = ''queued'' \<longrightarrow> agent_status x = ''queued'')"
  shows "calm d (d\<lparr>agents := update_rows p f (agents d)\<rparr>)"
  unfolding calm_def
proof (intro conjI ballI)
  let ?d = "d\<lparr>agents := update_rows p f (agents d)\<rparr>"
  fix y assume "y \<in> set (agents ?d)"
  then obtain x where x: "x \<in> set (agents d)" "y = (if p x then f x else x)" by (auto simp: update_rows_mem)
  have "agent_busy k ?d = agent_busy k d" for k by (simp add: agent_busy_def)
  then have "calm_agent d ?d x y"
    using assms [OF x(1)] x(2) marker_ok_cong [of y x] by (cases "p x") (simp_all add: calm_agent_def)
  with x(1) show "\<exists>x \<in> set (agents d). calm_agent d ?d x y" by (rule rev_bexI)
qed (auto simp: held_by_def find_run_def)

lemma calm_end_run:
  assumes "\<And>r. run_id (f r) = run_id r" "\<And>r. run_agent (f r) = run_agent r" "\<And>r. \<not> running (f r)"
  shows "calm d (on_running_run i f d)"
proof -
  let ?d = "on_running_run i f d"
  have "held_by k a ?d" if "held_by k a d" for k a
    using that assms(1,2)
    by (cases "find_row run_id k (runs d)") (simp_all add: held_by_def find_run_def on_running_run_def find_row_update)
  moreover have "agent_busy k ?d \<longrightarrow> agent_busy k d" for k
    using assms by (auto simp: agent_busy_iff on_running_run_def filter_running_close)
  ultimately show ?thesis
    by (auto simp: calm_def calm_agent_def) (auto simp: on_running_run_def)
qed

lemma calm_close:
  assumes "\<And>r. run_id (f r) = run_id r" "\<And>r. run_agent (f r) = run_agent r" "\<And>r. \<not> running (f r)"
    and "\<And>x. agent_id (g x) = agent_id x \<and> run_state (g x) = run_state x \<and> agent_status (g x) \<noteq> ''queued''"
  shows "calm d (on_running_agent a g (on_running_run i f d))"
proof -
  have "calm (on_running_run i f d) (on_running_agent a g (on_running_run i f d))"
    unfolding on_running_agent_def using assms(4) by (intro calm_update_agents) auto
  with calm_end_run [of f d i] assms(1-3) show ?thesis by (meson calm_trans)
qed

lemma fail_agent_state [simp]:
  "run_state (fail_agent strike now x) = run_state x" "agent_status (fail_agent strike now x) \<noteq> ''queued''"
  by (simp_all add: fail_agent_def Let_def)

lemma calm_fail: "calm d (fail_run i a n m usage msg strike now d)"
  by (auto simp: fail_run_def running_def intro!: calm_close)

lemma calm_complete: "complete_run i a cfg reader u n m usage now d = Some d' \<Longrightarrow> calm d d'"
  by (auto simp: complete_run_def completed_def running_def Let_def intro!: calm_close calm_end_run
      split: if_splits option.splits py_float.splits)

lemma calm_interrupt: "calm d (interrupt_run i a now d)"
  unfolding interrupt_run_def release_agent_alt by (auto simp: running_def intro!: calm_close)

lemma calm_sweep: "calm d (interrupt_stale_runs now d)"
proof -
  have "calm d (fold (\<lambda>(i, a). interrupt_run i a now) ias d)" for ias
  proof (induction ias arbitrary: d)
    case (Cons ia ias)
    obtain i a where "ia = (i, a)" by (cases ia)
    with calm_trans [OF calm_interrupt Cons [of "interrupt_run i a now d"]] show ?case by simp
  qed simp
  then show ?thesis by (simp add: interrupt_stale_runs_def interrupt_fold)
qed

lemma calm_on_agent:
  assumes "\<And>x. agent_id (f x) = agent_id x \<and> run_state (f x) = run_state x \<and>
      (agent_status (f x) = ''queued'' \<longrightarrow> agent_status x = ''queued'')"
  shows "calm d (on_agent i f d)"
  unfolding on_agent_def using assms by (intro calm_update_agents) auto

lemma calm_put_aside: "put_aside cfg u now a d = Some d' \<Longrightarrow> calm d d'"
  by (auto simp: put_aside_def reschedule_lurker_def defer_agent_def Let_def intro!: calm_on_agent split: if_splits)

lemma calm_dispatch: "dispatch cfg u stopping n free now as d = (ids, fine, d') \<Longrightarrow> calm d d'"
proof (induction as arbitrary: n free d ids)
  case (Cons a as)
  obtain ids1 fine1 d1 where rest: "dispatch cfg u stopping (Suc n) (free - 1) now as d = (ids1, fine1, d1)"
    by (metis prod_cases3)
  from Cons.IH [of "Suc n" "free - 1" d ids1] Cons.prems Cons.IH calm_trans [OF calm_put_aside] rest show ?case
    by (auto simp: dispatch_Cons split: if_splits option.splits)
qed simp

lemma calm_insert_run: "calm d (insert_run (new_run a p trig now d) d)"
  unfolding calm_def
proof (intro conjI ballI)
  let ?r = "new_run a p trig now d" and ?d = "insert_run (new_run a p trig now d) d"
  show "jobs ?d = jobs d" by (simp add: insert_run_def on_agent_def)
  show "\<forall>i b. held_by i b d \<longrightarrow> held_by i b ?d"
    by (auto simp: held_by_def find_run_def insert_run_def find_row_append)
  fix y assume "y \<in> set (agents ?d)"
  then obtain x where x: "x \<in> set (agents d)"
    "y = (if agent_id x = a then x\<lparr>agent_status := ''running''\<rparr> else x)"
    by (auto simp: insert_run_def on_agent_def new_run_def update_rows_mem)
  have "agent_busy k ?d \<longrightarrow> agent_busy k d \<or> k = a" for k
    by (auto simp: agent_busy_def insert_run_def new_run_def)
  then have "calm_agent d ?d x y"
    using x(2) marker_ok_cong [of y x] by (cases "agent_id x = a") (auto simp: calm_agent_def)
  with x(1) show "\<exists>x \<in> set (agents d). calm_agent d ?d x y" by (rule rev_bexI)
qed

lemma map_of_state_items:
  "state_items st = Some kvs \<Longrightarrow> map_of (json_remove ''manual_run'' kvs) ''manual_run'' = None"
  by (simp add: map_of_json_remove)

lemma clear_marker_props:
  "agent_id (clear_marker x) = agent_id x" "agent_status (clear_marker x) = agent_status x"
  "marker_ok x \<Longrightarrow> marker_ok (clear_marker x)"
  "marker_job x = Some j \<Longrightarrow> marker_job (clear_marker x) = None"
  by (auto simp: clear_marker_def marker_ok_def marker_previous_def marker_job_def state_items_def map_of_json_remove
      split: option.splits json.splits)

section \<open>Preservation\<close>

lemma not_awaited_calm:
  assumes "not_awaited j d" and "calm d d'"
  shows "not_awaited j d'"
  unfolding not_awaited_def
proof (intro ballI impI)
  fix y assume "y \<in> set (agents d')" and queued: "agent_status y = ''queued''"
  then obtain x where x: "x \<in> set (agents d)" "calm_agent d d' x y" using assms(2) by (auto simp: calm_def)
  then have "agent_status x = ''queued''" "marker_job y = marker_job x"
    using queued marker_cong [of y x] by (auto simp: calm_agent_def)
  with assms(1) x(1) show "marker_job y \<noteq> Some j" by (auto simp: not_awaited_def)
qed

lemma queued_calm:
  assumes "\<forall>x \<in> set (agents d). queued_ok d x \<and> marker_ok x" and "calm d d'" and "y \<in> set (agents d')"
  shows "queued_ok d' y \<and> marker_ok y"
proof -
  obtain x where x: "x \<in> set (agents d)" "calm_agent d d' x y" using assms(2,3) by (auto simp: calm_def)
  have jobs: "live_job j a d' = live_job j a d" for j a using assms(2) by (simp add: live_job_def calm_def)
  from x assms(1) have "queued_ok d x" "marker_ok x" by auto
  with x(2) show ?thesis
    using marker_cong [of y x] by (auto simp: queued_ok_def calm_agent_def jobs)
qed

lemma task_ok_calm:
  assumes "calm d d'" and "task_ok d t"
  shows "task_ok d' t"
proof -
  have "job_held j a d' = job_held j a d" for j a using assms(1) by (simp add: job_held_def calm_def)
  moreover have "held_by i a d \<Longrightarrow> held_by i a d'" for i a using assms(1) by (simp add: calm_def)
  ultimately show ?thesis using assms not_awaited_calm by (cases t) auto
qed

lemma calm_keeps:
  assumes "sys_ok s" and "calm (sys_db s) d" and "tidy d"
  shows "sys_ok (s\<lparr>sys_db := d\<rparr>)"
proof -
  have "\<forall>x \<in> set (agents (sys_db s)). queued_ok (sys_db s) x \<and> marker_ok x" using assms(1) by (simp add: sys_ok_def)
  from queued_calm [OF this assms(2)] task_ok_calm [OF assms(2)] assms show ?thesis
    by (simp add: sys_ok_def calm_def)
qed

lemma swap_task:
  assumes "sys_ok s" and "t \<in> set (tasks s)" and "task_job t' = task_job t" and "task_ok (sys_db s) t'"
  shows "sys_ok (s\<lparr>tasks := t' # remove1 t (tasks s)\<rparr>)"
proof -
  have "length (filter (\<lambda>u. task_job u = Some j) (t' # remove1 t (tasks s))) \<le> 1" for j
  proof -
    have "length (filter (\<lambda>u. task_job u = Some j) (tasks s)) \<le> 1"
      using assms(1) by (simp add: sys_ok_def one_task_per_job_def)
    then show ?thesis
      using assms(2,3) by (cases "task_job t = Some j") (simp_all add: filter_remove1 length_remove1)
  qed
  moreover have "set (remove1 t (tasks s)) \<subseteq> set (tasks s)" by (rule set_remove1_subset)
  ultimately show ?thesis using assms(1,4) unfolding sys_ok_def one_task_per_job_def by auto
qed

lemma fewer_tasks:
  assumes "sys_ok s" and "set ts \<subseteq> set (tasks s)" and "\<And>P. length (filter P ts) \<le> length (filter P (tasks s))"
  shows "sys_ok (s\<lparr>tasks := ts\<rparr>)"
  using assms order_trans [OF assms(3)] by (auto simp: sys_ok_def one_task_per_job_def)

lemma drop_task: "sys_ok s \<Longrightarrow> sys_ok (s\<lparr>tasks := remove1 t (tasks s)\<rparr>)"
  by (rule fewer_tasks) (auto simp: filter_remove1 length_remove1 dest: notin_set_remove1 in_set_remove1 [THEN iffD1] intro: set_remove1_subset [THEN subsetD])

lemma other_job:
  assumes "one_task_per_job ts" and "t \<in> set ts" and "task_job t = Some j" and "u \<in> set (remove1 t ts)"
  shows "task_job u \<noteq> Some j"
proof
  assume "task_job u = Some j"
  then have u: "u \<in> set (remove1 t (filter (\<lambda>t. task_job t = Some j) ts))"
    using assms(4) by (simp flip: filter_remove1)
  have "t \<in> set (filter (\<lambda>t. task_job t = Some j) ts)" using assms(2,3) by simp
  then have "length (remove1 t (filter (\<lambda>t. task_job t = Some j) ts)) = 0"
    using assms(1) by (simp add: length_remove1 one_task_per_job_def)
  with u show False by simp
qed

text \<open>Updates of job rows alone.\<close>

lemma update_jobs:
  assumes "sys_ok s" and d: "d = (sys_db s)\<lparr>jobs := update_rows p f (jobs (sys_db s))\<rparr>"
    and f: "\<And>r. job_id (f r) = job_id r" "\<And>j a r. agent_job_row j a (f r) = agent_job_row j a r"
    and live: "\<And>r. r \<in> set (jobs (sys_db s)) \<Longrightarrow> p r \<Longrightarrow> job_status r \<in> {Pending, Running} \<Longrightarrow>
      job_status (f r) \<in> {Pending, Running} \<or> not_awaited (job_id r) (sys_db s)"
    and held: "\<And>r t. r \<in> set (jobs (sys_db s)) \<Longrightarrow> p r \<Longrightarrow> t \<in> set ts \<Longrightarrow> task_job t = Some (job_id r) \<Longrightarrow>
      job_status r = Running \<Longrightarrow> job_status (f r) = Running"
    and ts: "set ts \<subseteq> set (tasks s)" "\<And>P. length (filter P ts) \<le> length (filter P (tasks s))"
  shows "sys_ok (s\<lparr>sys_db := d, tasks := ts\<rparr>)"
proof -
  let ?d = "sys_db s"
  have agents: "agents d = agents ?d" and busy: "agent_busy a d = agent_busy a ?d"
    and heldby: "held_by i a d = held_by i a ?d" and naw: "not_awaited j d = not_awaited j ?d" for a i j
    by (simp_all add: d agent_busy_def held_by_def find_run_def not_awaited_def)
  have tidy: "tidy d"
    using assms(1) by (simp add: sys_ok_def d tidy_def runs_ok_def keys_ok_def one_run_each_def nobody_stranded_def
        names_ok_def agent_busy_def)
  have rows: "r \<in> set (jobs d) \<longleftrightarrow> (\<exists>x \<in> set (jobs ?d). r = (if p x then f x else x))" for r
    by (simp add: d update_rows_mem)
  have queued: "queued_ok d x" if x: "x \<in> set (agents ?d)" for x
  proof (cases "agent_status x = ''queued''")
    case True
    with assms(1) x obtain j r where j: "\<not> agent_busy (agent_id x) ?d" "marker_job x = Some j"
      "r \<in> set (jobs ?d)" "agent_job_row j (agent_id x) r" "job_status r \<in> {Pending, Running}"
      by (auto simp: sys_ok_def queued_ok_def live_job_def)
    have "\<not> not_awaited (job_id r) ?d" using True x j by (auto simp: not_awaited_def agent_job_row_def)
    then have "job_status (if p r then f r else r) \<in> {Pending, Running}" using live j by auto
    moreover have "agent_job_row j (agent_id x) (if p r then f r else r)" using f(2) j(4) by simp
    ultimately have "live_job j (agent_id x) d" using rows j(3) by (auto simp: live_job_def)
    with j show ?thesis by (simp add: queued_ok_def busy)
  qed (simp add: queued_ok_def)
  have jheld: "job_held j a d" if tj: "t \<in> set ts" "task_job t = Some j" "job_held j a ?d" for t j a
  proof -
    obtain r where r: "r \<in> set (jobs ?d)" "agent_job_row j a r" "job_status r = Running"
      using tj(3) by (auto simp: job_held_def)
    then have "job_status (if p r then f r else r) = Running"
      using held [of r t] tj by (auto simp: agent_job_row_def)
    moreover have "agent_job_row j a (if p r then f r else r)" using f(2) r(2) by simp
    ultimately show ?thesis using rows r(1) by (auto simp: job_held_def)
  qed
  have "task_ok d t" if "t \<in> set ts" for t
  proof -
    have "task_ok ?d t" using that ts(1) assms(1) by (auto simp: sys_ok_def)
    then show ?thesis using jheld [OF that] by (cases t) (auto simp: heldby naw)
  qed
  moreover have "one_task_per_job ts"
    using assms(1) order_trans [OF ts(2)] by (auto simp: sys_ok_def one_task_per_job_def)
  moreover have "distinct (map job_id (jobs d))" using assms(1) f(1) by (simp add: sys_ok_def d)
  ultimately show ?thesis using tidy queued assms(1) by (simp add: sys_ok_def agents)
qed

text \<open>Releasing the marker of a job whose visit has ended.\<close>

lemma same_job:
  assumes "sys_ok s" and "live_job j a (sys_db s)" and "job_held j b (sys_db s)"
  shows "a = b"
proof -
  obtain r r' where "r \<in> set (jobs (sys_db s))" "agent_job_row j a r" "r' \<in> set (jobs (sys_db s))" "agent_job_row j b r'"
    using assms(2,3) by (auto simp: live_job_def job_held_def)
  moreover from this have "r = r'"
    using assms(1) by (metis agent_job_row_def distinct_map inj_onD sys_ok_def)
  ultimately show ?thesis by (simp add: agent_job_row_def)
qed

lemma release_calm:
  assumes ok: "sys_ok s" and t: "Job_Closing j a got \<in> set (tasks s)"
  shows "calm (sys_db s) (release_manual_run a j got (sys_db s)) \<and>
    tidy (release_manual_run a j got (sys_db s)) \<and> not_awaited j (release_manual_run a j got (sys_db s))"
proof -
  let ?d = "sys_db s"
  have held: "job_held j a ?d" and got: "got \<longrightarrow> not_awaited j ?d" using ok t by (auto simp: sys_ok_def)
  have mine: "agent_id y = a" if "y \<in> set (agents ?d)" "agent_status y = ''queued''" "marker_job y = Some j" for y
    using ok that same_job [OF ok _ held] by (auto simp: sys_ok_def queued_ok_def)
  show ?thesis
  proof (cases "find_agent a ?d")
    case None
    then have "\<forall>y \<in> set (agents ?d). agent_id y \<noteq> a" by (auto simp: find_agent_def find_row_None_iff)
    with mine None ok show ?thesis by (auto simp: release_manual_run_def not_awaited_def sys_ok_def)
  next
    case (Some x)
    then have x: "x \<in> set (agents ?d)" "agent_id x = a"
      using find_row_SomeD [of agent_id a "agents (sys_db s)" x] by (auto simp: find_agent_def)
    have only: "y = x" if "y \<in> set (agents ?d)" "agent_id y = a" for y
      using ok that x by (metis distinct_map inj_onD keys_ok_def runs_ok_def sys_ok_def tidy_def)
    show ?thesis
    proof (cases "marker_job x = Some j")
      case False
      with Some mine only ok show ?thesis by (auto simp: release_manual_run_def not_awaited_def sys_ok_def)
    next
      case True
      define st where "st = (if \<not> got \<and> \<not> agent_busy a ?d then marker_previous x else agent_status x)"
      let ?f = "\<lambda>y. (clear_marker y)\<lparr>agent_status := (if \<not> got \<and> \<not> agent_busy a ?d then marker_previous x else agent_status y)\<rparr>"
      have rel: "release_manual_run a j got ?d = on_agent a ?f ?d"
        by (simp add: release_manual_run_def Some True)
      have qx: "queued_ok ?d x" "marker_ok x" using ok x(1) by (auto simp: sys_ok_def)
      have st: "st \<noteq> ''queued''"
      proof (cases "\<not> got \<and> \<not> agent_busy a ?d")
        case True
        then show ?thesis using qx(2) by (simp add: st_def marker_ok_def)
      next
        case False
        with got qx(1) True x show ?thesis by (auto simp: st_def queued_ok_def not_awaited_def)
      qed
      let ?e = "on_agent a ?f ?d"
      have rows: "\<exists>y0 \<in> set (agents ?d). (agent_id y0 \<noteq> a \<and> y = y0) \<or> (y0 = x \<and> y = (clear_marker x)\<lparr>agent_status := st\<rparr>)"
        if "y \<in> set (agents ?e)" for y
      proof -
        have "\<exists>y0 \<in> set (agents ?d). y = (if agent_id y0 = a then ?f y0 else y0)"
          using that by (simp add: on_agent_def update_rows_mem)
        then obtain y0 where "y0 \<in> set (agents ?d)" "y = (if agent_id y0 = a then ?f y0 else y0)" by blast
        with only show ?thesis by (intro bexI [where x = y0]) (auto simp: st_def)
      qed
      have busy: "agent_busy k ?e = agent_busy k ?d" for k by (simp add: agent_busy_def)
      have "calm ?d ?e"
        unfolding calm_def
      proof (intro conjI ballI)
        fix y assume "y \<in> set (agents ?e)"
        from rows [OF this] show "\<exists>y0 \<in> set (agents ?d). calm_agent ?d ?e y0 y"
          using st clear_marker_props by (auto simp: calm_agent_def busy marker_ok_def marker_previous_def
              intro: rev_bexI)
      qed (auto simp: on_agent_def held_by_def find_run_def)
      moreover have "not_awaited j ?e"
        unfolding not_awaited_def
      proof (intro ballI impI)
        fix y assume y: "y \<in> set (agents ?e)" "agent_status y = ''queued''"
        from rows [OF y(1)] obtain y0 where "y0 \<in> set (agents ?d)"
          "(agent_id y0 \<noteq> a \<and> y = y0) \<or> (y0 = x \<and> y = (clear_marker x)\<lparr>agent_status := st\<rparr>)" by blast
        with mine st y(2) show "marker_job y \<noteq> Some j" by auto
      qed
      moreover have "tidy ?e"
      proof (rule tidy_on_agent)
        show "tidy ?d" using ok by (simp add: sys_ok_def)
      qed (use qx(2) in \<open>auto simp: clear_marker_props marker_ok_def split: if_splits\<close>)
      ultimately show ?thesis by (simp add: rel)
    qed
  qed
qed

text \<open>Queueing a manual run.\<close>

lemma map_of_marker:
  assumes "set_marker j q stamp a = Some st"
  shows "marker_job (x\<lparr>run_state := st\<rparr>) = Some j"
    and "marker_previous (x\<lparr>run_state := st\<rparr>) = (if agent_status a = [] then ''idle'' else agent_status a)"
proof -
  obtain kvs where kvs: "state_items (run_state a) = Some kvs" using assms by (auto simp: set_marker_def split: option.splits)
  let ?m = "JObj [(''job_id'', JInt j), (''requested_intent'', intent_json q), (''queued_at'', JStr stamp),
             (''previous_status'', JStr (if agent_status a = [] then ''idle'' else agent_status a))]"
  have st: "st = JObj (json_set ''manual_run'' ?m kvs)" using assms kvs by (simp add: set_marker_def)
  have "map_of (json_set ''manual_run'' ?m kvs) ''manual_run'' = Some ?m" by (simp add: map_of_json_set)
  moreover from this have "json_set ''manual_run'' ?m kvs \<noteq> []" by auto
  ultimately have items: "state_items st = Some (json_set ''manual_run'' ?m kvs)"
    and get: "map_of (json_set ''manual_run'' ?m kvs) ''manual_run'' = Some ?m"
    by (simp_all add: st state_items_def)
  show "marker_job (x\<lparr>run_state := st\<rparr>) = Some j" by (simp add: marker_job_def items get)
  show "marker_previous (x\<lparr>run_state := st\<rparr>) = (if agent_status a = [] then ''idle'' else agent_status a)"
    by (simp add: marker_previous_def items get split: list.split)
qed

lemma enqueue_keeps:
  assumes ok: "sys_ok s" and a: "find_agent i (sys_db s) = Some a" and idle: "\<not> has_active_run a (sys_db s)"
    and enq: "enqueue_agent_run a q stamp now (sys_db s) = (Some j, d)"
  shows "sys_ok (s\<lparr>sys_db := d\<rparr>)"
proof -
  let ?d = "sys_db s"
  have ax: "a \<in> set (agents ?d)" "agent_id a = i"
    using a find_row_SomeD [of agent_id i "agents (sys_db s)" a] by (auto simp: find_agent_def)
  define row where "row = fst (create_job Agent_Run_Job (run_parameters i q) AGENT_RUN_JOB_PRIORITY 1 now ?d)"
  have row: "agent_job_row (next_id job_id (jobs ?d)) i row" "job_status row = Pending"
    by (simp_all add: row_def create_job_def Let_def agent_job_row_def run_parameters_def)
  obtain st where st: "set_marker (job_id row) q stamp a = Some st"
    and d: "d = on_agent i (\<lambda>x. x\<lparr>agent_status := ''queued'', run_state := st\<rparr>) (?d\<lparr>jobs := jobs ?d @ [row]\<rparr>)"
    using enq a ax(2) by (auto simp: enqueue_agent_run_def row_def create_job_def Let_def split: option.splits if_splits)
  have rid: "job_id row = next_id job_id (jobs ?d)" using row(1) by (simp add: agent_job_row_def)
  have jobs: "jobs d = jobs ?d @ [row]" and runs: "runs d = runs ?d" and users: "users d = users ?d"
    by (simp_all add: d on_agent_def)
  have busy: "agent_busy k d = agent_busy k ?d" and hb: "held_by r k d = held_by r k ?d" for r k
    by (simp_all add: agent_busy_def held_by_def find_run_def runs)
  have rows: "\<exists>x \<in> set (agents ?d). (agent_id x \<noteq> i \<and> y = x) \<or> (agent_id x = i \<and> y = x\<lparr>agent_status := ''queued'', run_state := st\<rparr>)"
    if "y \<in> set (agents d)" for y
    using that by (auto simp: d on_agent_def update_rows_mem)
  have live: "live_job k b ?d \<Longrightarrow> live_job k b d" and jheld: "job_held k b ?d \<Longrightarrow> job_held k b d" for k b
    by (auto simp: live_job_def job_held_def jobs)
  have new: "live_job (job_id row) i d" using row rid by (auto simp: live_job_def jobs)
  have marker: "marker_job (x\<lparr>agent_status := ''queued'', run_state := st\<rparr>) = Some (job_id row)"
    "marker_ok (x\<lparr>agent_status := ''queued'', run_state := st\<rparr>)" for x
    using map_of_marker [OF st, of "x\<lparr>agent_status := ''queued''\<rparr>"] idle
    by (auto simp: has_active_run_def marker_ok_def)
  have old: "queued_ok ?d x \<and> marker_ok x" if "x \<in> set (agents ?d)" for x using ok that by (simp add: sys_ok_def)
  have "queued_ok d y \<and> marker_ok y" if y: "y \<in> set (agents d)" for y
  proof -
    from rows [OF y] obtain x where x: "x \<in> set (agents ?d)"
      "(agent_id x \<noteq> i \<and> y = x) \<or> (agent_id x = i \<and> y = x\<lparr>agent_status := ''queued'', run_state := st\<rparr>)" by blast
    from x(2) show ?thesis
    proof
      assume "agent_id x \<noteq> i \<and> y = x"
      with old [OF x(1)] live show ?thesis by (auto simp: queued_ok_def busy)
    next
      assume y: "agent_id x = i \<and> y = x\<lparr>agent_status := ''queued'', run_state := st\<rparr>"
      have "\<not> agent_busy i d" using idle ax(2) by (simp add: has_active_run_def busy)
      with y new marker show ?thesis by (auto simp: queued_ok_def)
    qed
  qed
  moreover have "task_ok d t" if t: "t \<in> set (tasks s)" for t
  proof -
    have ok_t: "task_ok ?d t" using ok t by (simp add: sys_ok_def)
    have "not_awaited k d" if k: "not_awaited k ?d" "job_held k b ?d" for k b
      unfolding not_awaited_def
    proof (intro ballI impI)
      fix y assume y: "y \<in> set (agents d)" "agent_status y = ''queued''"
      have "k \<noteq> job_id row"
        using k(2) next_id_fresh [of job_id "jobs ?d"] by (auto simp: job_held_def agent_job_row_def rid image_iff)
      with rows [OF y(1)] k(1) y(2) marker show "marker_job y \<noteq> Some k" by (auto simp: not_awaited_def)
    qed
    with ok_t jheld show ?thesis by (cases t) (auto simp: hb)
  qed
  moreover have "distinct (map job_id (jobs d))"
    using ok rid next_id_fresh [of job_id "jobs ?d"] by (auto simp: sys_ok_def jobs)
  moreover have "tidy d"
  proof -
    have "tidy (?d\<lparr>jobs := jobs ?d @ [row]\<rparr>)"
      using ok by (simp add: sys_ok_def tidy_def runs_ok_def keys_ok_def one_run_each_def nobody_stranded_def
          names_ok_def agent_busy_def)
    then show ?thesis unfolding d by (rule tidy_on_agent) auto
  qed
  ultimately show ?thesis using ok by (simp add: sys_ok_def)
qed

lemma enqueue_nothing: "enqueue_agent_run a q stamp now d = (None, d') \<Longrightarrow> d' = d"
  by (auto simp: enqueue_agent_run_def create_job_def Let_def split: option.splits if_splits)

lemma force_run_cases:
  assumes "force_run eligible i intent stamp now d = (res, d')"
  shows "d' = d \<or> (\<exists>a q j. find_agent i d = Some a \<and> \<not> has_active_run a d \<and>
      enqueue_agent_run a q stamp now d = (Some j, d'))"
  using assms enqueue_nothing [of _ _ stamp now d d']
  by (auto simp: force_run_def Let_def split: option.splits if_splits prod.splits)

lemma force_keeps:
  assumes "sys_ok s" and "force_run eligible i intent stamp now (sys_db s) = (res, d)"
  shows "sys_ok (s\<lparr>sys_db := d\<rparr>)"
  using force_run_cases [OF assms(2)]
proof
  assume "d = sys_db s"
  with assms(1) show ?thesis by simp
next
  assume "\<exists>a q j. find_agent i (sys_db s) = Some a \<and> \<not> has_active_run a (sys_db s) \<and>
      enqueue_agent_run a q stamp now (sys_db s) = (Some j, d)"
  then show ?thesis using enqueue_keeps [OF assms(1)] by blast
qed

lemma closes_sound:
  assumes "closes k a d d'" and "tidy d" and "held_by k a d"
  shows "calm d d' \<and> tidy d'"
proof -
  have ok: "runs_ok d" "owns k a d" using assms(2,3) held_by_owns by (auto simp: tidy_def)
  have "calm d (fail_run k a n m usage msg strike now d) \<and> tidy (fail_run k a n m usage msg strike now d)"
    for n m usage msg strike now
  proof
    show "tidy (fail_run k a n m usage msg strike now d)"
      using fail_keeps_ok [OF ok] assms(2) by (simp add: tidy_def names_ok_def closing_keeps_names(1))
  qed (rule calm_fail)
  moreover have "calm d e \<and> tidy e" if c: "complete_run k a cfg reader u n m usage now d = Some e"
    for cfg reader u n m usage now e
  proof
    show "tidy e"
      using complete_keeps_ok [OF ok c] closing_keeps_names(2) [OF c] assms(2) by (simp add: tidy_def names_ok_def)
  qed (rule calm_complete [OF c])
  ultimately show ?thesis using assms(1) unfolding closes_def by (elim exE disjE) (simp_all only:)
qed

lemma calm_agents_row:
  assumes d: "tidy d" and f: "\<And>x. agent_id (f x) = agent_id x \<and> run_state (f x) = run_state x \<and>
      (agent_status (f x) = ''queued'' \<longrightarrow> agent_status x = ''queued'') \<and>
      (agent_status (f x) = ''running'' \<longrightarrow> agent_status x = ''running'')"
  shows "calm d (d\<lparr>agents := update_rows p f (agents d)\<rparr>) \<and> tidy (d\<lparr>agents := update_rows p f (agents d)\<rparr>)"
proof
  let ?d = "d\<lparr>agents := update_rows p f (agents d)\<rparr>"
  show "calm d ?d"
  proof (rule calm_update_agents)
    fix x from f [of x] show "agent_id (f x) = agent_id x \<and> run_state (f x) = run_state x \<and>
      (agent_status (f x) = ''queued'' \<longrightarrow> agent_status x = ''queued'')" by blast
  qed
  have "nobody_stranded ?d"
    unfolding nobody_stranded_def
  proof (intro ballI impI)
    fix y assume "y \<in> set (agents ?d)" and y: "agent_status y = ''running''"
    then obtain x where x: "x \<in> set (agents d)" "y = (if p x then f x else x)" by (auto simp: update_rows_mem)
    with y f [of x] have "agent_status x = ''running''" "agent_id y = agent_id x" by (auto split: if_splits)
    with d x(1) show "agent_busy (agent_id y) ?d"
      by (auto simp: tidy_def runs_ok_def nobody_stranded_def agent_busy_def)
  qed
  moreover have "agent_id (f x) = agent_id x" for x using f [of x] by blast
  then have "map agent_id (agents ?d) = map agent_id (agents d)" by simp
  ultimately show "tidy ?d" using d by (simp add: tidy_def runs_ok_def keys_ok_def one_run_each_def names_ok_def)
qed

lemma calm_on_agent_tidy:
  assumes "tidy d" and "\<And>x. agent_id (f x) = agent_id x \<and> run_state (f x) = run_state x \<and>
      (agent_status (f x) = ''queued'' \<longrightarrow> agent_status x = ''queued'') \<and>
      (agent_status (f x) = ''running'' \<longrightarrow> agent_status x = ''running'')"
  shows "calm d (on_agent i f d) \<and> tidy (on_agent i f d)"
  unfolding on_agent_def by (rule calm_agents_row [OF assms])

lemma controls_sound:
  assumes "tidy d"
  shows "calm d (toggle_agent i now d) \<and> tidy (toggle_agent i now d)"
    and "calm d (snd (start_all now d)) \<and> tidy (snd (start_all now d))"
    and "calm d (snd (pause_all d)) \<and> tidy (snd (pause_all d))"
    and "calm d (backoff_without_strike i now d) \<and> tidy (backoff_without_strike i now d)"
  unfolding toggle_agent_def start_all_def pause_all_def snd_conv backoff_without_strike_def
  by (intro calm_on_agent_tidy calm_agents_row [OF assms] assms;
      simp add: enable_agent_def disable_agent_def)+

lemma boot_sound:
  assumes "tidy d"
  shows "calm d (recover now d) \<and> tidy (recover now d)"
proof -
  let ?e = "interrupt_stale_runs now d"
  let ?f = "\<lambda>a. a\<lparr>next_run_at := Some now\<rparr> :: agent" and ?p = "\<lambda>a. is_enabled a \<and> next_run_at a = None"
  have e: "calm d ?e" "tidy ?e" using calm_sweep interrupt_stale_tidy [OF assms] by auto
  have "calm ?e (?e\<lparr>agents := update_rows ?p ?f (agents ?e)\<rparr>) \<and> tidy (?e\<lparr>agents := update_rows ?p ?f (agents ?e)\<rparr>)"
    by (rule calm_agents_row [OF e(2)]) simp
  with e calm_trans [OF e(1)] show ?thesis by (simp add: recover_def Let_def)
qed

lemma own_recovery_sound:
  assumes "tidy d"
  shows "calm d (snd (recover_stale_runs x now d)) \<and> tidy (snd (recover_stale_runs x now d))"
proof
  have "calm d (fold (\<lambda>i. interrupt_run i a now) ids d)" for ids a
  proof (induction ids arbitrary: d)
    case (Cons i ids)
    with calm_trans [OF calm_interrupt Cons [of "interrupt_run i a now d"]] show ?case by simp
  qed simp
  then show "calm d (snd (recover_stale_runs x now d))" by (simp add: recover_stale_runs_def Let_def)
  show "tidy (snd (recover_stale_runs x now d))"
    using assms recover_keeps_ok [of d x now] recover_users [of x now d] by (simp add: tidy_def names_ok_def)
qed

lemma tick_sound:
  assumes "tidy d" and "wake_poll cfg u stopping free now d = (ids, fine, d')"
  shows "calm d d' \<and> tidy d'"
proof -
  have e: "calm d (interrupt_stale_runs now d)" "tidy (interrupt_stale_runs now d)"
    using calm_sweep interrupt_stale_tidy [OF assms(1)] by auto
  show ?thesis
  proof (cases "is_runtime_enabled (interrupt_stale_runs now d)")
    case True
    with assms(2) have run: "dispatch cfg u stopping 0 free now (candidates now (interrupt_stale_runs now d))
        (interrupt_stale_runs now d) = (ids, fine, d')"
      by (simp add: wake_poll_def Let_def)
    from calm_trans [OF e(1) calm_dispatch [OF run]] dispatch_tidy [OF e(2) run] show ?thesis ..
  next
    case False
    with assms(2) have "d' = interrupt_stale_runs now d" by (simp add: wake_poll_def Let_def)
    with e show ?thesis by simp
  qed
qed

lemma insert_sound:
  assumes "tidy d" and "\<not> index_refuses a p d"
  shows "calm d (insert_run (new_run a p trig now d) d) \<and> tidy (insert_run (new_run a p trig now d) d) \<and>
    held_by (next_id run_id (runs d)) a (insert_run (new_run a p trig now d) d)"
proof (intro conjI)
  let ?d = "insert_run (new_run a p trig now d) d"
  show "tidy ?d"
    using insert_keeps_ok [of d a p trig now] assms by (simp add: tidy_def names_ok_def insert_run_def)
  have "find_row run_id (next_id run_id (runs d)) (runs d) = None"
    using next_id_fresh [of run_id "runs d"] by (force simp: find_row_None_iff)
  then show "held_by (next_id run_id (runs d)) a ?d"
    by (simp add: held_by_def find_run_def insert_run_def find_row_append) (simp add: new_run_def find_row_def)
qed (rule calm_insert_run)

text \<open>Steps that move a task along.\<close>

lemma sys_ok_parts:
  assumes "sys_ok s"
  shows "tidy (sys_db s)" and "distinct (map job_id (jobs (sys_db s)))" and "one_task_per_job (tasks s)"
    and "x \<in> set (agents (sys_db s)) \<Longrightarrow> queued_ok (sys_db s) x" and "x \<in> set (agents (sys_db s)) \<Longrightarrow> marker_ok x"
    and "t \<in> set (tasks s) \<Longrightarrow> task_ok (sys_db s) t"
  using assms by (simp_all add: sys_ok_def)

lemma more_wakes: "sys_ok s \<Longrightarrow> sys_ok (s\<lparr>tasks := map Wake_Task ids @ tasks s\<rparr>)"
  by (auto simp: sys_ok_def one_task_per_job_def filter_map comp_def)

lemma swap_after:
  assumes "sys_ok s" and "t \<in> set (tasks s)" and "task_job t' = task_job t" and "calm (sys_db s) d" and "tidy d"
    and "task_ok d t'"
  shows "sys_ok (s\<lparr>sys_db := d, tasks := t' # remove1 t (tasks s)\<rparr>)"
  using swap_task [of "s\<lparr>sys_db := d\<rparr>" t t'] calm_keeps [OF assms(1,4,5)] assms(2,3,6) by simp

lemma drop_after:
  assumes "sys_ok s" and "calm (sys_db s) d \<and> tidy d"
  shows "sys_ok (s\<lparr>sys_db := d, tasks := remove1 t (tasks s)\<rparr>)"
  using drop_task [of "s\<lparr>sys_db := d\<rparr>" t] calm_keeps [of s d] assms by simp

lemma job_held_calm: "calm d d' \<Longrightarrow> job_held j a d' = job_held j a d"
  by (simp add: job_held_def calm_def)

lemma reserve_keeps:
  assumes ok: "sys_ok s" and t: "Job_Task j a \<in> set (tasks s)" and free: "\<not> index_refuses a p (sys_db s)"
  shows "sys_ok (s\<lparr>sys_db := insert_run (new_run a p trig now (sys_db s)) (sys_db s),
    tasks := Job_Visit j a (next_id run_id (runs (sys_db s))) # remove1 (Job_Task j a) (tasks s)\<rparr>)"
proof (rule swap_after [OF ok t])
  let ?d = "sys_db s" and ?e = "insert_run (new_run a p trig now (sys_db s)) (sys_db s)"
  note ins = insert_sound [OF sys_ok_parts(1) [OF ok] free, of trig now]
  then show "calm ?d ?e" "tidy ?e" by simp_all
  have held: "job_held j a ?d" using sys_ok_parts(6) [OF ok t] by simp
  have "not_awaited j ?e"
    unfolding not_awaited_def
  proof (intro ballI impI notI)
    fix y assume y: "y \<in> set (agents ?e)" "agent_status y = ''queued''" "marker_job y = Some j"
    have "\<exists>x \<in> set (agents ?d). y = (if agent_id x = a then x\<lparr>agent_status := ''running''\<rparr> else x)"
      using y(1) by (simp add: insert_run_def on_agent_def update_rows_mem new_run_def)
    then obtain x where "x \<in> set (agents ?d)" "y = (if agent_id x = a then x\<lparr>agent_status := ''running''\<rparr> else x)" by blast
    with y(2) have x: "y \<in> set (agents ?d)" "agent_id y \<noteq> a" by (auto split: if_splits)
    from sys_ok_parts(4) [OF ok x(1)] y(2,3) have "live_job j (agent_id y) ?d" by (simp add: queued_ok_def)
    with same_job [OF ok _ held] x(2) show False by blast
  qed
  with held ins show "task_ok ?e (Job_Visit j a (next_id run_id (runs ?d)))"
    by (simp add: job_held_calm [of ?d ?e])
qed simp

lemma task_running: "task_ok d t \<Longrightarrow> task_job t = Some j \<Longrightarrow> \<exists>a. job_held j a d"
  by (cases t) auto

lemma claim_keeps:
  assumes ok: "sys_ok s" and row: "row \<in> set (jobs (sys_db s))" "agent_job_row j a row"
    and claim: "claim_job j w now (sys_db s) = (True, d)"
  shows "sys_ok (s\<lparr>sys_db := d, tasks := Job_Task j a # tasks s\<rparr>)"
proof -
  let ?d = "sys_db s"
  let ?f = "\<lambda>j. j\<lparr>job_status := Running, job_started_at := Some now, claimed_at := Some now,
                 worker_id := Some w, heartbeat_at := Some now\<rparr> :: job"
  let ?p = "\<lambda>r. job_id r = j \<and> job_status r = Pending"
  have d: "d = ?d\<lparr>jobs := update_rows ?p ?f (jobs ?d)\<rparr>" using claim by (simp add: claim_job_def)
  have "count_rows ?p (jobs ?d) = 1" using claim by (simp add: claim_job_def)
  then have "filter ?p (jobs ?d) \<noteq> []" by (auto simp: count_rows_def)
  then obtain r where r: "r \<in> set (jobs ?d)" "?p r" by (auto simp: filter_empty_conv)
  have inj: "inj_on job_id (set (jobs ?d))" using sys_ok_parts(2) [OF ok] by (simp add: distinct_map)
  have only: "r' = r" if "r' \<in> set (jobs ?d)" "job_id r' = j" for r'
    using inj_onD [OF inj, of r' r] that r by simp
  have keep: "sys_ok (s\<lparr>sys_db := d, tasks := tasks s\<rparr>)"
    by (rule update_jobs [OF ok d]) (auto simp: agent_job_row_def)
  have "row = r" using only [of row] row by (simp add: agent_job_row_def)
  then have "?f row \<in> set (jobs d)" using r update_rows_applied [of row "jobs ?d" ?p ?f] by (simp add: d)
  moreover have "agent_job_row j a (?f row)" "job_status (?f row) = Running"
    using row(2) by (simp_all add: agent_job_row_def)
  ultimately have held: "job_held j a d" unfolding job_held_def by blast
  have "task_job t \<noteq> Some j" if t: "t \<in> set (tasks s)" for t
  proof
    assume "task_job t = Some j"
    with task_running [OF sys_ok_parts(6) [OF ok t]] obtain b r' where
      "r' \<in> set (jobs ?d)" "agent_job_row j b r'" "job_status r' = Running" by (auto simp: job_held_def)
    with only [of r'] r(2) show False by (simp add: agent_job_row_def)
  qed
  then have "filter (\<lambda>t. task_job t = Some j) (tasks s) = []" by (simp add: filter_empty_conv)
  with keep held show ?thesis by (simp add: sys_ok_def one_task_per_job_def)
qed

lemma report_keeps:
  assumes ok: "sys_ok s" and t: "Job_Reporting j a \<in> set (tasks s)"
    and d: "d = on_job j f (sys_db s)" and f: "\<And>r. job_id (f r) = job_id r" "\<And>i b r. agent_job_row i b (f r) = agent_job_row i b r"
  shows "sys_ok (s\<lparr>sys_db := d, tasks := remove1 (Job_Reporting j a) (tasks s)\<rparr>)"
proof (rule update_jobs [OF ok])
  show "d = (sys_db s)\<lparr>jobs := update_rows (\<lambda>r. job_id r = j) f (jobs (sys_db s))\<rparr>" by (simp add: d on_job_def)
  show "job_status (f r) \<in> {Pending, Running} \<or> not_awaited (job_id r) (sys_db s)" if "job_id r = j" for r
    using that sys_ok_parts(6) [OF ok t] by simp
qed (use other_job [OF sys_ok_parts(3) [OF ok] t] set_remove1_subset [THEN subsetD] f in \<open>auto simp: filter_remove1 length_remove1\<close>)

lemma sweep_keeps:
  assumes ok: "sys_ok s"
    and alive: "list_all (\<lambda>t. \<forall>row \<in> set (jobs (sys_db s)). task_job t = Some (job_id row) \<longrightarrow>
      \<not> stale_job (now - minutes HEARTBEAT_STALE_MINUTES) row) (tasks s)"
  shows "sys_ok (s\<lparr>sys_db := snd (sweep_stale_jobs HEARTBEAT_STALE_MINUTES now (sys_db s))\<rparr>)"
proof -
  let ?e = "snd (sweep_stale_jobs HEARTBEAT_STALE_MINUTES now (sys_db s))"
  have "sys_ok (s\<lparr>sys_db := ?e, tasks := tasks s\<rparr>)"
  proof (rule update_jobs [OF ok])
    show "?e = (sys_db s)\<lparr>jobs := update_rows (stale_job (now - minutes HEARTBEAT_STALE_MINUTES))
        (\<lambda>j. j\<lparr>job_status := Pending, claimed_at := None, worker_id := None, heartbeat_at := None\<rparr>) (jobs (sys_db s))\<rparr>"
      by (simp add: sweep_stale_jobs_def Let_def)
  qed (use alive in \<open>auto simp: agent_job_row_def list_all_iff\<close>)
  then show ?thesis by simp
qed

lemma beat_keeps: "sys_ok s \<Longrightarrow> sys_ok (s\<lparr>sys_db := heartbeat j now (sys_db s)\<rparr>)"
  using update_jobs [of s "heartbeat j now (sys_db s)" "\<lambda>r. job_id r = j" "\<lambda>r. r\<lparr>heartbeat_at := Some now\<rparr>" "tasks s"]
  by (simp add: heartbeat_def on_job_def agent_job_row_def)

lemma worker_step_keeps:
  assumes "worker_step s t" and ok: "sys_ok s"
  shows "sys_ok t"
  using assms(1)
proof cases
  case (force eligible i intent stamp now res d)
  with force_keeps [OF ok] show ?thesis by simp
next
  case (toggle i now)
  with controls_sound(1) [OF sys_ok_parts(1) [OF ok]] show ?thesis by (simp add: calm_keeps [OF ok])
next
  case (start now)
  with controls_sound(2) [OF sys_ok_parts(1) [OF ok]] show ?thesis by (simp add: calm_keeps [OF ok])
next
  case pause
  with controls_sound(3) [OF sys_ok_parts(1) [OF ok]] show ?thesis by (simp add: calm_keeps [OF ok])
next
  case (claim row j a w now d)
  with claim_keeps [OF ok] show ?thesis by blast
next
  case (beat j now)
  with beat_keeps [OF ok] show ?thesis by simp
next
  case (job_sweep now)
  with sweep_keeps [OF ok] show ?thesis by blast
next
  case (job_reserve j a p now)
  with reserve_keeps [OF ok] show ?thesis by blast
next
  case (job_refused j a)
  with sys_ok_parts(6) [OF ok, of "Job_Task j a"] show ?thesis
    by (simp add: swap_task [OF ok, of "Job_Task j a" "Job_Closing j a False"])
next
  case (job_close j a k d)
  with sys_ok_parts(6) [OF ok, of "Job_Visit j a k"]
  have task: "job_held j a (sys_db s)" "held_by k a (sys_db s)" "not_awaited j (sys_db s)" by simp_all
  with closes_sound [of k a "sys_db s" d] sys_ok_parts(1) [OF ok] job_close have "calm (sys_db s) d" "tidy d" by simp_all
  with swap_after [OF ok job_close(2), of "Job_Closing j a True" d] task job_close(1) not_awaited_calm [OF task(3)]
  show ?thesis by (simp add: job_held_calm [of "sys_db s" d])
next
  case (job_raised j a k)
  with sys_ok_parts(6) [OF ok, of "Job_Visit j a k"] show ?thesis
    by (simp add: swap_task [OF ok, of "Job_Visit j a k" "Job_Closing j a False"])
next
  case (job_release j a got)
  let ?e = "release_manual_run a j got (sys_db s)"
  note rel = release_calm [OF ok job_release(2)]
  have "job_held j a ?e"
    using rel sys_ok_parts(6) [OF ok job_release(2)] by (simp add: job_held_calm [of "sys_db s" ?e])
  with rel swap_after [OF ok job_release(2), of "Job_Reporting j a" ?e] job_release(1) show ?thesis by simp
next
  case (job_report j a d out now msg)
  then obtain f where "d = on_job j f (sys_db s)" "\<And>r. job_id (f r) = job_id r"
    "\<And>i b r. agent_job_row i b (f r) = agent_job_row i b r"
    by (auto simp: complete_job_def fail_job_def agent_job_row_def)
  with report_keeps [OF ok job_report(2)] job_report(1) show ?thesis by blast
next
  case (tick cfg u stopping free now ids fine d)
  with tick_sound [OF sys_ok_parts(1) [OF ok]] have "calm (sys_db s) d \<and> tidy d" by blast
  with more_wakes [of "s\<lparr>sys_db := d\<rparr>" ids] calm_keeps [OF ok] tick(1) show ?thesis by simp
next
  case (wake_reserve a p now)
  let ?e = "insert_run (new_run a p ''schedule'' now (sys_db s)) (sys_db s)"
  note ins = insert_sound [OF sys_ok_parts(1) [OF ok] wake_reserve(3), of "''schedule''" now]
  with swap_after [OF ok wake_reserve(2), of "Wake_Visit a (next_id run_id (runs (sys_db s)))" ?e] wake_reserve(1)
  show ?thesis by simp
next
  case (wake_refused a d now later)
  have d: "calm (sys_db s) d \<and> tidy d"
    using wake_refused(3) controls_sound(4) [OF sys_ok_parts(1) [OF ok]] sys_ok_parts(1) [OF ok] by simp
  then have "calm d (on_agent a (\<lambda>x. x\<lparr>next_run_at := Some later\<rparr>) d) \<and> tidy (on_agent a (\<lambda>x. x\<lparr>next_run_at := Some later\<rparr>) d)"
    by (intro calm_on_agent_tidy) simp_all
  with d have "calm (sys_db s) (on_agent a (\<lambda>x. x\<lparr>next_run_at := Some later\<rparr>) d) \<and>
      tidy (on_agent a (\<lambda>x. x\<lparr>next_run_at := Some later\<rparr>) d)"
    using calm_trans [of "sys_db s" d] by blast
  with drop_after [OF ok] wake_refused(1) show ?thesis by blast
next
  case (wake_close a k d)
  with sys_ok_parts(6) [OF ok, of "Wake_Visit a k"] have "held_by k a (sys_db s)" by simp
  with closes_sound [OF wake_close(3) sys_ok_parts(1) [OF ok]] drop_after [OF ok] wake_close(1) show ?thesis by blast
next
  case (wake_raised a k later)
  have "calm (sys_db s) (on_agent a (\<lambda>x. x\<lparr>next_run_at := Some later\<rparr>) (sys_db s)) \<and>
      tidy (on_agent a (\<lambda>x. x\<lparr>next_run_at := Some later\<rparr>) (sys_db s))"
    using sys_ok_parts(1) [OF ok] by (intro calm_on_agent_tidy) simp_all
  with drop_after [OF ok] wake_raised(1) show ?thesis by blast
next
  case (own_recovery x now)
  with own_recovery_sound [OF sys_ok_parts(1) [OF ok]] show ?thesis by (simp add: calm_keeps [OF ok])
next
  case (boot now)
  with boot_sound [OF sys_ok_parts(1) [OF ok]] show ?thesis by (simp add: calm_keeps [OF ok])
next
  case (crash alive)
  have "length (filter P (filter alive ts)) \<le> length (filter P ts)" for P and ts :: "task list"
    by (induction ts) auto
  with fewer_tasks [OF ok, of "filter alive (tasks s)"] crash show ?thesis by auto
qed

section \<open>Reachable states\<close>

definition platform_start :: "system \<Rightarrow> bool" where
  "platform_start s =
     (tasks s = [] \<and> tidy (sys_db s) \<and> distinct (map job_id (jobs (sys_db s))) \<and>
      list_all (\<lambda>x. agent_status x \<noteq> ''queued'' \<and> marker_ok x) (agents (sys_db s)))"

definition running_runs :: "int \<Rightarrow> db \<Rightarrow> agent_run list" where
  "running_runs a d = filter (\<lambda>r. running r \<and> run_agent r = a) (runs d)"

lemma filter_key_single:
  "distinct (map f xs) \<Longrightarrow> length (filter (\<lambda>x. f x = k) xs) = (if k \<in> f ` set xs then 1 else 0)"
  by (induction xs) auto

lemma running_runs_single:
  assumes "tidy d"
  shows "length (running_runs a d) = (if agent_busy a d then 1 else 0)"
proof -
  have "running_runs a d = filter (\<lambda>r. run_agent r = a) (filter running (runs d))"
    by (simp add: running_runs_def conj_commute)
  then show ?thesis
    using filter_key_single [of run_agent "filter running (runs d)" a] assms
    by (simp only: agent_busy_iff tidy_def runs_ok_def one_run_each_def)
qed

lemma reachable_ok:
  assumes "worker_reachable s0 s" and "platform_start s0"
  shows "sys_ok s"
  using assms(1)
proof induction
  case here
  then show ?case
    using assms(2) by (auto simp: platform_start_def sys_ok_def queued_ok_def one_task_per_job_def list_all_iff)
next
  case (next_step s t)
  then show ?case using worker_step_keeps by blast
qed


definition demo_forced :: db where
  "demo_forced = snd (force_run (\<lambda>_ _. None) 1 JNull ''t'' 0 demo_agents)"

definition demo_claimed :: db where
  "demo_claimed = snd (claim_job 1 ''w'' 5 demo_forced)"


end
