(* ===== verification/Registry.thy ===== *)
theory Registry
  imports Jobs
begin

text \<open>
  \<open>deaddit/agents/registry.py\<close>: autonomy tiers, the normalised post policies of an agent, which
  post tools they offer, and how the intent of a visit narrows the offer; then the eligibility
  check of a manual run in \<open>deaddit/admin.py\<close>, which must agree with it. Sets of tool names are
  lists without order.
\<close>

section \<open>Tiers\<close>

datatype autonomy_tier = Lurker | Regular | Power_User

fun tier_rank :: "autonomy_tier \<Rightarrow> nat" where
  "tier_rank Lurker = 0"
| "tier_rank Regular = 1"
| "tier_rank Power_User = 2"

lemma tier_rank_inj: "tier_rank s = tier_rank t \<Longrightarrow> s = t"
  by (cases s; cases t) simp_all

instantiation autonomy_tier :: linorder
begin

definition less_eq_autonomy_tier :: "autonomy_tier \<Rightarrow> autonomy_tier \<Rightarrow> bool" where
  "less_eq_autonomy_tier s t = (tier_rank s \<le> tier_rank t)"

definition less_autonomy_tier :: "autonomy_tier \<Rightarrow> autonomy_tier \<Rightarrow> bool" where
  "less_autonomy_tier s t = (tier_rank s < tier_rank t)"

instance
  by standard (auto simp: less_eq_autonomy_tier_def less_autonomy_tier_def dest: tier_rank_inj)

end

definition tier_value :: "autonomy_tier \<Rightarrow> string" where
  "tier_value t = (case t of Lurker \<Rightarrow> ''lurker'' | Regular \<Rightarrow> ''regular'' | Power_User \<Rightarrow> ''power_user'')"

text \<open>\<open>None\<close>: \<open>ValueError\<close>.\<close>

definition parse_tier :: "string \<Rightarrow> autonomy_tier option" where
  "parse_tier s = find (\<lambda>t. tier_value t = s) [Lurker, Regular, Power_User]"

definition tier_allows :: "autonomy_tier \<Rightarrow> autonomy_tier \<Rightarrow> bool" where
  "tier_allows active required = (required \<le> active)"

section \<open>Tools\<close>

datatype rate_class = Read_Class | Write_Class | Meta_Class

record tool =
  tool_name :: string
  min_tier :: autonomy_tier
  rate_class_of :: rate_class

text \<open>The default registrations of \<open>tools_read.py\<close> and \<open>tools_write.py\<close>, in their order.\<close>

definition all_tools :: "tool list" where
  "all_tools =
     [\<lparr>tool_name = ''browse_feed'', min_tier = Lurker, rate_class_of = Read_Class\<rparr>,
      \<lparr>tool_name = ''read_post'', min_tier = Lurker, rate_class_of = Read_Class\<rparr>,
      \<lparr>tool_name = ''search'', min_tier = Lurker, rate_class_of = Read_Class\<rparr>,
      \<lparr>tool_name = ''view_inbox'', min_tier = Lurker, rate_class_of = Read_Class\<rparr>,
      \<lparr>tool_name = ''view_profile'', min_tier = Lurker, rate_class_of = Read_Class\<rparr>,
      \<lparr>tool_name = ''create_post'', min_tier = Regular, rate_class_of = Write_Class\<rparr>,
      \<lparr>tool_name = ''create_image_post'', min_tier = Regular, rate_class_of = Write_Class\<rparr>,
      \<lparr>tool_name = ''create_website'', min_tier = Regular, rate_class_of = Write_Class\<rparr>,
      \<lparr>tool_name = ''create_comment'', min_tier = Regular, rate_class_of = Write_Class\<rparr>,
      \<lparr>tool_name = ''subscribe'', min_tier = Regular, rate_class_of = Write_Class\<rparr>,
      \<lparr>tool_name = ''unsubscribe'', min_tier = Regular, rate_class_of = Write_Class\<rparr>,
      \<lparr>tool_name = ''finish'', min_tier = Lurker, rate_class_of = Meta_Class\<rparr>]"

definition get_tool :: "string \<Rightarrow> tool option" where
  "get_tool name = find (\<lambda>t. tool_name t = name) all_tools"

definition POST_TOOL_NAMES :: "string list" where
  "POST_TOOL_NAMES = [''create_post'', ''create_image_post'', ''create_website'']"

section \<open>Post policies\<close>

record post_config =
  post_enabled :: bool
  post_policy :: string

record image_config = post_config +
  image_provider_ref :: json
  image_model :: json

definition DISABLED_IMAGE_POSTS_CONFIG :: image_config where
  "DISABLED_IMAGE_POSTS_CONFIG =
     \<lparr>post_enabled = False, post_policy = ''optional'', image_provider_ref = JNull, image_model = JNull\<rparr>"

definition DISABLED_WEBSITE_POSTS_CONFIG :: post_config where
  "DISABLED_WEBSITE_POSTS_CONFIG = \<lparr>post_enabled = False, post_policy = ''optional''\<rparr>"

text \<open>The namespace of a policy in the agent's \<open>config\<close>, if it is an enabled object.\<close>

definition enabled_namespace :: "string \<Rightarrow> agent \<Rightarrow> (string \<times> json) list option" where
  "enabled_namespace key a =
     (case json_get key (agent_config a) of
        Some (JObj raw) \<Rightarrow>
          (case map_of raw ''enabled'' of
             Some v \<Rightarrow> if py_truthy v then Some raw else None
           | None \<Rightarrow> None)
      | _ \<Rightarrow> None)"

definition policy_of :: "string \<Rightarrow> (string \<times> json) list \<Rightarrow> string" where
  "policy_of lock raw = (if map_of raw ''policy'' = Some (JStr lock) then lock else ''optional'')"

definition or_null :: "json option \<Rightarrow> json" where
  "or_null v = (case v of None \<Rightarrow> JNull | Some x \<Rightarrow> x)"

definition image_posts_config :: "agent \<Rightarrow> image_config" where
  "image_posts_config a =
     (case enabled_namespace ''image_posts'' a of
        None \<Rightarrow> DISABLED_IMAGE_POSTS_CONFIG
      | Some raw \<Rightarrow>
          \<lparr>post_enabled = True, post_policy = policy_of ''image_only'' raw,
           image_provider_ref = or_null (map_of raw ''provider_id''), image_model = or_null (map_of raw ''model'')\<rparr>)"

definition website_posts_config :: "agent \<Rightarrow> post_config" where
  "website_posts_config a =
     (case enabled_namespace ''website_posts'' a of
        None \<Rightarrow> DISABLED_WEBSITE_POSTS_CONFIG
      | Some raw \<Rightarrow> \<lparr>post_enabled = True, post_policy = policy_of ''website_only'' raw\<rparr>)"

definition offered_post_tool_names :: "image_config \<Rightarrow> post_config \<Rightarrow> string list" where
  "offered_post_tool_names img web =
     (let image_only = post_enabled img \<and> post_policy img = ''image_only'';
          website_only = post_enabled web \<and> post_policy web = ''website_only'' in
      if image_only \<and> website_only then []
      else if image_only then [''create_image_post'']
      else if website_only then [''create_website'']
      else [''create_post''] @ (if post_enabled img then [''create_image_post''] else []) @
        (if post_enabled web then [''create_website''] else []))"

text \<open>Both locks at once: the combination that offers no post tool.\<close>

definition closed_configs :: "image_config \<times> post_config" where
  "closed_configs =
     (\<lparr>post_enabled = True, post_policy = ''image_only'', image_provider_ref = JNull, image_model = JNull\<rparr>,
      \<lparr>post_enabled = True, post_policy = ''website_only''\<rparr>)"

definition effective_post_configs :: "agent \<Rightarrow> string \<Rightarrow> image_config \<times> post_config" where
  "effective_post_configs a intent =
     (let img = image_posts_config a; web = website_posts_config a; static = offered_post_tool_names img web in
      if intent = ''backstage'' then
        (if ''create_post'' \<in> set static then (DISABLED_IMAGE_POSTS_CONFIG, DISABLED_WEBSITE_POSTS_CONFIG)
         else closed_configs)
      else if intent = ''image'' then
        (if ''create_image_post'' \<in> set static
         then (img\<lparr>post_policy := ''image_only''\<rparr>, DISABLED_WEBSITE_POSTS_CONFIG) else closed_configs)
      else if intent = ''website'' then
        (if ''create_website'' \<in> set static
         then (DISABLED_IMAGE_POSTS_CONFIG, web\<lparr>post_policy := ''website_only''\<rparr>) else closed_configs)
      else (img, web))"

definition reserved_intent :: "string \<Rightarrow> bool" where
  "reserved_intent intent = (intent \<in> {''image'', ''website'', ''backstage''})"

text \<open>The post tools a visit of the given intent is offered.\<close>

definition offered_for :: "agent \<Rightarrow> string \<Rightarrow> string list" where
  "offered_for a intent = (case effective_post_configs a intent of (img, web) \<Rightarrow> offered_post_tool_names img web)"

text \<open>\<open>None\<close> for the agent skips the post policies.\<close>

definition tools_for :: "autonomy_tier \<Rightarrow> agent option \<Rightarrow> string \<Rightarrow> tool list" where
  "tools_for active ag intent =
     (let tools = filter (\<lambda>t. tier_allows active (min_tier t)) all_tools in
      case ag of
        None \<Rightarrow> tools
      | Some a \<Rightarrow>
          let offered = offered_for a intent in
          filter (\<lambda>t. \<not> (reserved_intent intent \<and> tool_name t = ''create_comment'') \<and>
            (tool_name t \<in> set POST_TOOL_NAMES \<longrightarrow> tool_name t \<in> set offered)) tools)"

section \<open>Eligibility of a manual run\<close>

definition manual_intent_error :: "agent \<Rightarrow> string option \<Rightarrow> string option" where
  "manual_intent_error a intent =
     (if intent \<notin> {Some ''image'', Some ''website''} then None
      else if autonomy_tier a = ''lurker'' then Some ''lurker-tier agents cannot make image or website posts''
      else
        let img = image_posts_config a; web = website_posts_config a; static = offered_post_tool_names img web in
        if post_enabled img \<and> post_policy img = ''image_only'' \<and> post_enabled web \<and> post_policy web = ''website_only''
        then Some (''conflicting static post-only policy (image_only and website_only): '' @ ''no media run can be offered'')
        else if intent = Some ''image'' \<and> ''create_image_post'' \<notin> set static
        then Some ''image posts are not enabled for this agent''
        else if intent = Some ''website'' \<and> ''create_website'' \<notin> set static
        then Some ''website posts are not enabled for this agent''
        else None)"

section \<open>Properties\<close>

lemma image_config_simps [simp]:
  "post_policy (image_posts_config a) = ''image_only'' \<or> post_policy (image_posts_config a) = ''optional''"
  "\<not> post_enabled DISABLED_IMAGE_POSTS_CONFIG" "\<not> post_enabled DISABLED_WEBSITE_POSTS_CONFIG"
  by (auto simp: image_posts_config_def policy_of_def DISABLED_IMAGE_POSTS_CONFIG_def
      DISABLED_WEBSITE_POSTS_CONFIG_def split: option.split)

lemma offered_mem:
  "''create_post'' \<in> set (offered_post_tool_names img web) \<longleftrightarrow>
     \<not> (post_enabled img \<and> post_policy img = ''image_only'') \<and> \<not> (post_enabled web \<and> post_policy web = ''website_only'')"
  "''create_image_post'' \<in> set (offered_post_tool_names img web) \<longleftrightarrow>
     post_enabled img \<and> \<not> (post_enabled web \<and> post_policy web = ''website_only'')"
  "''create_website'' \<in> set (offered_post_tool_names img web) \<longleftrightarrow>
     post_enabled web \<and> \<not> (post_enabled img \<and> post_policy img = ''image_only'')"
  by (auto simp: offered_post_tool_names_def Let_def)

lemma offered_for_simps:
  "offered_for a ''image'' =
     (if ''create_image_post'' \<in> set (offered_for a ''browse'') then [''create_image_post''] else [])"
  "offered_for a ''website'' =
     (if ''create_website'' \<in> set (offered_for a ''browse'') then [''create_website''] else [])"
  "offered_for a ''backstage'' =
     (if ''create_post'' \<in> set (offered_for a ''browse'') then [''create_post''] else [])"
  "\<not> reserved_intent intent \<Longrightarrow> offered_for a intent = offered_for a ''browse''"
proof -
  let ?static = "set (offered_post_tool_names (image_posts_config a) (website_posts_config a))"
  have static: "set (offered_for a ''browse'') = ?static" by (simp add: offered_for_def effective_post_configs_def)
  show "offered_for a ''image'' =
     (if ''create_image_post'' \<in> set (offered_for a ''browse'') then [''create_image_post''] else [])"
    unfolding static
    by (simp add: offered_for_def effective_post_configs_def closed_configs_def offered_mem Let_def)
      (auto simp: offered_post_tool_names_def DISABLED_IMAGE_POSTS_CONFIG_def DISABLED_WEBSITE_POSTS_CONFIG_def)
  show "offered_for a ''website'' =
     (if ''create_website'' \<in> set (offered_for a ''browse'') then [''create_website''] else [])"
    unfolding static
    by (simp add: offered_for_def effective_post_configs_def closed_configs_def offered_mem Let_def)
      (auto simp: offered_post_tool_names_def DISABLED_IMAGE_POSTS_CONFIG_def DISABLED_WEBSITE_POSTS_CONFIG_def)
  show "offered_for a ''backstage'' =
     (if ''create_post'' \<in> set (offered_for a ''browse'') then [''create_post''] else [])"
    unfolding static
    by (simp add: offered_for_def effective_post_configs_def closed_configs_def offered_mem Let_def)
      (auto simp: offered_post_tool_names_def DISABLED_IMAGE_POSTS_CONFIG_def DISABLED_WEBSITE_POSTS_CONFIG_def)
  show "offered_for a intent = offered_for a ''browse''" if "\<not> reserved_intent intent"
    using that by (auto simp: offered_for_def effective_post_configs_def reserved_intent_def)
qed

text \<open>The tools a visit sees, by name.\<close>

lemma tools_for_mem:
  assumes "get_tool name = Some t"
  shows "name \<in> tool_name ` set (tools_for active (Some a) intent) \<longleftrightarrow>
    tier_allows active (min_tier t) \<and> \<not> (reserved_intent intent \<and> name = ''create_comment'') \<and>
    (name \<in> set POST_TOOL_NAMES \<longrightarrow> name \<in> set (offered_for a intent))"
proof -
  have "distinct (map tool_name all_tools)" by code_simp
  moreover have "t \<in> set all_tools" "tool_name t = name"
    using assms by (auto simp: get_tool_def find_Some_iff)
  ultimately have only: "u = t" if "u \<in> set all_tools" "tool_name u = name" for u
    using that by (metis distinct_map inj_onD)
  have "name \<in> tool_name ` set (tools_for active (Some a) intent) \<longleftrightarrow> t \<in> set (tools_for active (Some a) intent)"
    using only \<open>tool_name t = name\<close> by (auto simp: tools_for_def)
  also have "\<dots> \<longleftrightarrow> tier_allows active (min_tier t) \<and> \<not> (reserved_intent intent \<and> name = ''create_comment'') \<and>
      (name \<in> set POST_TOOL_NAMES \<longrightarrow> name \<in> set (offered_for a intent))"
    using \<open>t \<in> set all_tools\<close> \<open>tool_name t = name\<close> by (auto simp: tools_for_def Let_def)
  finally show ?thesis .
qed

definition media_tool :: "string \<Rightarrow> string" where
  "media_tool intent = (if intent = ''image'' then ''create_image_post'' else ''create_website'')"

text \<open>The administrator's answer never drifts from what the visit may do. For an agent of a
  known tier and a media intent, force-run is eligible exactly when the visit with that intent
  is offered the tool of the medium; it is then the only post tool the visit is offered, and
  commenting is not offered.\<close>

lemma manual_intent_agrees:
  assumes "parse_tier (autonomy_tier a) = Some t" and "intent \<in> {''image'', ''website''}"
  shows "(manual_intent_error a (Some intent) = None \<longleftrightarrow>
      media_tool intent \<in> tool_name ` set (tools_for t (Some a) intent)) \<and>
    (\<forall>name \<in> tool_name ` set (tools_for t (Some a) intent).
       name \<notin> set POST_TOOL_NAMES - {media_tool intent} \<and> name \<noteq> ''create_comment'')"
proof -
  have "map_option min_tier (get_tool ''create_image_post'') = Some Regular"
    and "map_option min_tier (get_tool ''create_website'') = Some Regular" by code_simp+
  then have "map_option min_tier (get_tool (media_tool intent)) = Some Regular" by (simp add: media_tool_def)
  then obtain u where u: "get_tool (media_tool intent) = Some u" "min_tier u = Regular" by blast
  have tier: "tier_allows t Regular \<longleftrightarrow> autonomy_tier a \<noteq> ''lurker''"
    using assms(1)
    by (cases t) (auto simp: parse_tier_def find_Some_iff tier_allows_def less_eq_autonomy_tier_def tier_value_def
        less_Suc_eq split: if_splits)
  have post: "media_tool intent \<in> set POST_TOOL_NAMES" "media_tool intent \<noteq> ''create_comment''"
    by (simp_all add: media_tool_def POST_TOOL_NAMES_def)
  have static: "set (offered_for a ''browse'') =
      set (offered_post_tool_names (image_posts_config a) (website_posts_config a))"
    by (simp add: offered_for_def effective_post_configs_def)
  have "manual_intent_error a (Some intent) = None \<longleftrightarrow>
      autonomy_tier a \<noteq> ''lurker'' \<and> media_tool intent \<in> set (offered_for a intent)"
    using assms(2) unfolding manual_intent_error_def media_tool_def
    by (auto simp: offered_for_simps static offered_mem Let_def)
  moreover have "name = media_tool intent" if "name \<in> set (offered_for a intent)" for name
    using assms(2) that by (auto simp: offered_for_simps media_tool_def split: if_splits)
  moreover have "name \<notin> set POST_TOOL_NAMES \<or> name \<in> set (offered_for a intent)"
    and "name \<noteq> ''create_comment''" if "name \<in> tool_name ` set (tools_for t (Some a) intent)" for name
    using that assms(2) by (auto simp: tools_for_def Let_def reserved_intent_def)
  ultimately show ?thesis
    using tools_for_mem [OF u(1), of t a intent] u(2) tier post by auto
qed

definition media_agent :: agent where
  "media_agent = (demo_agent 1 None)\<lparr>autonomy_tier := ''regular'',
     agent_config := JObj [(''image_posts'', JObj [(''enabled'', JBool True), (''policy'', JStr ''image_only'')]),
       (''website_posts'', JObj [(''enabled'', JBool True)])]\<rparr>"

theorem manual_intent_agrees_witness:
  "manual_intent_error media_agent (Some ''image'') = None \<and>
   manual_intent_error media_agent (Some ''website'') = Some ''website posts are not enabled for this agent'' \<and>
   ''create_image_post'' \<in> tool_name ` set (tools_for Regular (Some media_agent) ''image'') \<and>
   ''create_website'' \<notin> tool_name ` set (tools_for Regular (Some media_agent) ''website'')"
proof -
  have tier: "parse_tier (autonomy_tier media_agent) = Some Regular" by code_simp
  have ask: "manual_intent_error media_agent (Some ''image'') = None"
    "manual_intent_error media_agent (Some ''website'') = Some ''website posts are not enabled for this agent''"
    by code_simp+
  show ?thesis
    using manual_intent_agrees [OF tier, of "''image''"] manual_intent_agrees [OF tier, of "''website''"] ask
    by (auto simp: media_tool_def)
qed

text \<open>Whatever an agent's configuration holds, the intent of a visit only ever narrows the
  post tools its static policy offers: a reserved intent leaves its own tool or none, any other
  intent the static offer; an exclusive policy leaves at most its own tool, and two exclusive
  policies leave none.\<close>

lemma intent_narrows_offer:
  "set (offered_for a intent) \<subseteq> set (offered_for a ''browse'') \<and>
   length (offered_for a intent) \<le> (if reserved_intent intent then 1 else 3) \<and>
   (reserved_intent intent \<or> offered_for a intent = offered_for a ''browse'') \<and>
   (let img = image_posts_config a; web = website_posts_config a;
        image_only = post_enabled img \<and> post_policy img = ''image_only'';
        website_only = post_enabled web \<and> post_policy web = ''website_only'' in
    set (offered_for a intent) \<subseteq>
      (if image_only then {''create_image_post''} else set POST_TOOL_NAMES) \<inter>
      (if website_only then {''create_website''} else set POST_TOOL_NAMES))"
proof -
  have static: "offered_for a ''browse'' = offered_post_tool_names (image_posts_config a) (website_posts_config a)"
    by (simp add: offered_for_def effective_post_configs_def)
  have sub: "set (offered_for a intent) \<subseteq> set (offered_for a ''browse'')"
    and len: "length (offered_for a intent) \<le> (if reserved_intent intent then 1 else 3)"
    using offered_for_simps(4) [of intent a]
    by (cases "reserved_intent intent";
        auto simp: reserved_intent_def offered_for_simps static offered_post_tool_names_def Let_def)+
  have "set (offered_for a ''browse'') \<subseteq>
      (if post_enabled (image_posts_config a) \<and> post_policy (image_posts_config a) = ''image_only''
       then {''create_image_post''} else set POST_TOOL_NAMES) \<inter>
      (if post_enabled (website_posts_config a) \<and> post_policy (website_posts_config a) = ''website_only''
       then {''create_website''} else set POST_TOOL_NAMES)"
    unfolding static by (auto simp: offered_post_tool_names_def POST_TOOL_NAMES_def Let_def)
  with sub len offered_for_simps(4) [of intent a] show ?thesis by (auto simp: Let_def)
qed

end
