(* ===== verification/Sites.thy ===== *)
theory Sites
  imports Lull
begin

text \<open>
  \<open>deaddit/websites/storage.py\<close>, the parts above the file system: the settings of a generation,
  the normalisation of the hostname and page name an agent asks for, and the allocation of a
  public path. The exceptions carry messages nobody reads; here a rejected hint is \<open>None\<close>. A hint
  with a colon left after the port is no hostname either way, so only dotted quads need the test
  for IP literals.
\<close>

section \<open>Words of a text\<close>

definition is_lower_alnum :: "char \<Rightarrow> bool" where
  "is_lower_alnum c = (is_lower_ascii c \<or> is_digit c)"

function word_runs :: "(char \<Rightarrow> bool) \<Rightarrow> string \<Rightarrow> string list" where
  "word_runs p [] = []"
| "word_runs p (c # cs) = (if p c then (c # takeWhile p cs) # word_runs p (dropWhile p cs) else word_runs p cs)"
  by pat_completeness auto
termination
  by (relation "measure (\<lambda>(p, s). length s)") (auto simp: le_imp_less_Suc length_dropWhile_le)

text \<open>\<open>re.findall("[a-z0-9]+", text)\<close>.\<close>

definition alnum_words :: "string \<Rightarrow> string list" where
  "alnum_words s = word_runs is_lower_alnum s"

section \<open>Settings\<close>

definition WEBSITE_MAX_OUTPUT_TOKENS_FLOOR :: int where
  "WEBSITE_MAX_OUTPUT_TOKENS_FLOOR = 32768"

definition parse_positive_int :: "string option \<Rightarrow> int \<Rightarrow> int" where
  "parse_positive_int raw dflt =
     (case raw of None \<Rightarrow> dflt
      | Some s \<Rightarrow> (case py_int_of_string s of None \<Rightarrow> dflt | Some v \<Rightarrow> if v > 0 then v else dflt))"

definition parse_positive_float :: "string option \<Rightarrow> py_float \<Rightarrow> py_float" where
  "parse_positive_float raw dflt =
     (case raw of None \<Rightarrow> dflt
      | Some s \<Rightarrow>
          (case py_float_of_string s of
             Some (Finite q) \<Rightarrow> if q > 0 then Finite q else dflt
           | Some Inf \<Rightarrow> Inf
           | _ \<Rightarrow> dflt))"

record website_settings =
  max_output_tokens :: int
  generation_timeout :: py_float
  max_html_bytes :: int

definition resolve_website_settings :: "(string \<Rightarrow> string option) \<Rightarrow> website_settings" where
  "resolve_website_settings cfg =
     \<lparr>max_output_tokens = max (parse_positive_int (cfg ''WEBSITE_MAX_OUTPUT_TOKENS'') WEBSITE_MAX_OUTPUT_TOKENS_FLOOR)
        WEBSITE_MAX_OUTPUT_TOKENS_FLOOR,
      generation_timeout = parse_positive_float (cfg ''WEBSITE_GENERATION_TIMEOUT_SECONDS'') (Finite 300),
      max_html_bytes = parse_positive_int (cfg ''WEBSITE_MAX_HTML_BYTES'') 1048576\<rparr>"

section \<open>Hostnames\<close>

definition MAX_LABEL_LENGTH :: nat where
  "MAX_LABEL_LENGTH = 63"

definition MAX_HOSTNAME_LENGTH :: nat where
  "MAX_HOSTNAME_LENGTH = 253"

definition printable_ascii :: "string \<Rightarrow> bool" where
  "printable_ascii s = list_all (\<lambda>c. 32 \<le> code_point c \<and> code_point c < 127) s"

definition scheme_char :: "char \<Rightarrow> bool" where
  "scheme_char c = (is_lower_alnum c \<or> c \<in> {CHR ''+'', CHR ''.'', CHR ''-''})"

text \<open>A leading \<open>scheme://\<close> or \<open>//\<close> is removed.\<close>

definition strip_scheme :: "string \<Rightarrow> string" where
  "strip_scheme s =
     (let rest = dropWhile scheme_char s in
      if s \<noteq> [] \<and> is_lower_ascii (hd s) \<and> starts_with ''://'' rest then drop 3 rest
      else if starts_with ''//'' s then drop 2 s else s)"

definition cut_at :: "char \<Rightarrow> string \<Rightarrow> string" where
  "cut_at sep s = takeWhile (\<lambda>c. c \<noteq> sep) s"

text \<open>The text before the last colon and after it, of a text with a colon.\<close>

definition rpartition_colon :: "string \<Rightarrow> string \<times> string" where
  "rpartition_colon s =
     (let tail = rev (takeWhile (\<lambda>c. c \<noteq> CHR '':'') (rev s)) in
      (take (length s - length tail - 1) s, tail))"

definition ipv4_octet :: "string \<Rightarrow> bool" where
  "ipv4_octet s =
     (s \<noteq> [] \<and> list_all is_digit s \<and> length s \<le> 3 \<and> \<not> (length s > 1 \<and> hd s = CHR ''0'') \<and>
      (case parse_digits False 0 s of None \<Rightarrow> False | Some n \<Rightarrow> n \<le> 255))"

definition ipv4_literal :: "string \<Rightarrow> bool" where
  "ipv4_literal s = (let os = split_on (CHR ''.'') s in length os = 4 \<and> list_all ipv4_octet os)"

definition label_char :: "char \<Rightarrow> bool" where
  "label_char c = (is_lower_alnum c \<or> c = CHR ''-'')"

definition valid_label :: "string \<Rightarrow> bool" where
  "valid_label l =
     (l \<noteq> [] \<and> length l \<le> MAX_LABEL_LENGTH \<and> list_all label_char l \<and> is_lower_alnum (hd l) \<and>
      is_lower_alnum (last l))"

definition normalize_hostname_hint :: "string \<Rightarrow> string option" where
  "normalize_hostname_hint hint =
     (if py_strip hint = [] \<or> \<not> printable_ascii hint then None
      else
        let s = strip_scheme (py_lower (py_strip hint)) in
        if CHR ''@'' \<in> set s \<or> CHR 0x5C \<in> set s then None
        else
          let s = cut_at (CHR ''#'') (cut_at (CHR ''?'') (cut_at (CHR ''/'') s)) in
          if s = [] \<or> CHR ''['' \<in> set s \<or> CHR '']'' \<in> set s then None
          else case (if CHR '':'' \<in> set s then
                       (let (before, port) = rpartition_colon s in
                        if port \<noteq> [] \<and> list_all is_digit port \<and> before \<noteq> [] then Some before else None)
                     else Some s) of
              None \<Rightarrow> None
            | Some s \<Rightarrow>
                if ipv4_literal s \<or> \<not> list_all valid_label (split_on (CHR ''.'') s) \<or>
                   length s > MAX_HOSTNAME_LENGTH then None
                else Some s)"

section \<open>Page names\<close>

definition ends_with :: "string \<Rightarrow> string \<Rightarrow> bool" where
  "ends_with p s = starts_with (rev p) (rev s)"

definition drop_suffix :: "string \<Rightarrow> string \<Rightarrow> string" where
  "drop_suffix p s = (if ends_with p s then take (length s - length p) s else s)"

definition normalize_page_name_hint :: "string \<Rightarrow> string option" where
  "normalize_page_name_hint hint =
     (let slug = join_with ''-'' (alnum_words (drop_suffix ''.html'' (py_lower (py_strip hint)))) in
      if slug = [] then None else Some (slug @ ''.html''))"

section \<open>Public paths\<close>

record allocated_path =
  alloc_hostname :: string
  alloc_page :: string
  alloc_public :: string

definition public_path_of :: "string \<Rightarrow> string \<Rightarrow> string" where
  "public_path_of host page = host @ ''/'' @ page"

fun try_allocate :: "nat \<Rightarrow> string \<Rightarrow> string \<Rightarrow> (nat \<Rightarrow> string) \<Rightarrow> (string \<Rightarrow> bool) \<Rightarrow> allocated_path option" where
  "try_allocate 0 host stem token taken = None"
| "try_allocate (Suc n) host stem token taken =
     (let page = stem @ ''-'' @ token n @ ''.html'' in
      if \<not> taken (public_path_of host page)
      then Some \<lparr>alloc_hostname = host, alloc_page = page, alloc_public = public_path_of host page\<rparr>
      else try_allocate n host stem token taken)"

definition ALLOCATION_ATTEMPTS :: nat where
  "ALLOCATION_ATTEMPTS = 20"

text \<open>\<open>token\<close> draws the random suffix of each attempt; \<open>None\<close> is \<open>WebsiteStorageError\<close>.\<close>

definition allocate_public_path :: "string \<Rightarrow> string \<Rightarrow> (nat \<Rightarrow> string) \<Rightarrow> (string \<Rightarrow> bool) \<Rightarrow> allocated_path option" where
  "allocate_public_path host page token taken =
     (if \<not> taken (public_path_of host page)
      then Some \<lparr>alloc_hostname = host, alloc_page = page, alloc_public = public_path_of host page\<rparr>
      else try_allocate ALLOCATION_ATTEMPTS host (drop_suffix ''.html'' page) token taken)"

section \<open>Facts\<close>

definition host_char :: "char \<Rightarrow> bool" where
  "host_char c = (label_char c \<or> c = CHR ''.'')"

lemma host_char_code:
  "host_char c \<longleftrightarrow> code_point c = 45 \<or> code_point c = 46 \<or> (48 \<le> code_point c \<and> code_point c \<le> 57) \<or>
     (97 \<le> code_point c \<and> code_point c \<le> 122)"
proof -
  have "c = CHR ''-'' \<longleftrightarrow> code_point c = 45" "c = CHR ''.'' \<longleftrightarrow> code_point c = 46"
    by (simp_all flip: of_char_eq_iff [where 'a = nat])
  then show ?thesis
    by (simp only: host_char_def label_char_def is_lower_alnum_def is_lower_ascii_def is_digit_def) blast
qed

lemma code_point_neq: "code_point c \<noteq> code_point d \<Longrightarrow> c \<noteq> d"
  by blast

lemma host_char_facts:
  assumes "host_char c"
  shows "lower_char c = c" "\<not> py_isspace c" "scheme_char c" "32 \<le> code_point c \<and> code_point c < 127"
    "c \<noteq> CHR ''/''"
proof -
  let ?n = "code_point c"
  have n: "?n = 45 \<or> ?n = 46 \<or> (48 \<le> ?n \<and> ?n \<le> 57) \<or> (97 \<le> ?n \<and> ?n \<le> 122)"
    using assms host_char_code by simp
  then show "32 \<le> ?n \<and> ?n < 127" by auto
  have "\<not> ((65 \<le> ?n \<and> ?n \<le> 90) \<or> (192 \<le> ?n \<and> ?n \<le> 222 \<and> ?n \<noteq> 215))" using n by auto
  then show "lower_char c = c" by (simp only: lower_char_def Let_def if_False)
  have "\<not> ((9 \<le> ?n \<and> ?n \<le> 13) \<or> (28 \<le> ?n \<and> ?n \<le> 32) \<or> ?n = 133 \<or> ?n = 160)" using n by auto
  then show "\<not> py_isspace c" by (simp only: py_isspace_def Let_def) simp
  show "scheme_char c" using assms by (auto simp: host_char_def label_char_def scheme_char_def)
  show "c \<noteq> CHR ''/''" using n by (intro code_point_neq) auto
qed

lemma alnum_host_char: "is_lower_alnum c \<Longrightarrow> host_char c \<and> c \<noteq> CHR ''-'' \<and> c \<noteq> CHR ''.''"
  by (auto simp: host_char_def label_char_def is_lower_alnum_def is_lower_ascii_def is_digit_def)

lemma takeWhile_all: "(\<forall>c \<in> set s. P c) \<Longrightarrow> takeWhile P s = s"
  by (simp add: takeWhile_eq_all_conv)

lemma split_on_set: "c \<in> set s \<Longrightarrow> c \<noteq> sep \<Longrightarrow> \<exists>w \<in> set (split_on sep s). c \<in> set w"
  by (induction sep s rule: split_on.induct) (auto split: list.splits)

lemma labels_host_chars:
  assumes "list_all valid_label (split_on (CHR ''.'') s)"
  shows "s \<noteq> [] \<and> (\<forall>c \<in> set s. host_char c)"
proof -
  have "host_char c" if "c \<in> set s" for c
  proof (cases "c = CHR ''.''")
    case False
    with that obtain w where "w \<in> set (split_on (CHR ''.'') s)" "c \<in> set w" using split_on_set by meson
    with assms show ?thesis by (auto simp: list_all_iff valid_label_def host_char_def)
  qed (simp add: host_char_def)
  with assms show ?thesis by (auto simp: valid_label_def)
qed

lemma hostname_fixed:
  assumes "list_all valid_label (split_on (CHR ''.'') s)" and "length s \<le> MAX_HOSTNAME_LENGTH" and "\<not> ipv4_literal s"
  shows "normalize_hostname_hint s = Some s"
proof -
  have ne: "s \<noteq> []" and chars: "\<forall>c \<in> set s. host_char c" using labels_host_chars [OF assms(1)] by auto
  have "py_strip s = s" using chars host_char_facts(2) by (intro py_strip_no_space) blast
  moreover have "py_lower s = s" using chars host_char_facts(1) by (simp add: py_lower_def map_idI)
  moreover have "printable_ascii s" using chars host_char_facts(4) by (auto simp: printable_ascii_def list_all_iff)
  moreover have "strip_scheme s = s"
  proof -
    have rest: "dropWhile scheme_char s = []" using chars host_char_facts(3) by (simp add: dropWhile_eq_Nil_conv)
    have "CHR ''/'' \<notin> set s" using chars host_char_facts(5) by blast
    then have "\<not> starts_with ''//'' s" by (auto simp: starts_with_iff)
    then show ?thesis unfolding strip_scheme_def Let_def rest by simp
  qed
  moreover have "cut_at c s = s" if "\<not> host_char c" for c
    unfolding cut_at_def using chars that by (intro takeWhile_all) auto
  moreover have "c \<notin> set s" if "\<not> host_char c" for c using chars that by blast
  moreover have "\<not> host_char (CHR ''/'')" "\<not> host_char (CHR '':'')" "\<not> host_char (CHR ''@'')" "\<not> host_char (CHR ''?'')"
    "\<not> host_char (CHR ''#'')" "\<not> host_char (CHR 0x5C)" "\<not> host_char (CHR ''['')" "\<not> host_char (CHR '']'')"
    by (simp_all add: host_char_code)
  ultimately show ?thesis using ne assms by (simp add: normalize_hostname_hint_def Let_def)
qed

lemma normalize_hostname_hint_SomeD:
  assumes "normalize_hostname_hint h = Some s"
  shows "list_all valid_label (split_on (CHR ''.'') s)" "length s \<le> MAX_HOSTNAME_LENGTH" "\<not> ipv4_literal s"
  using assms by (auto simp: normalize_hostname_hint_def Let_def split: if_splits option.splits)

subsection \<open>Words\<close>

lemma word_runs_sound: "w \<in> set (word_runs p s) \<Longrightarrow> w \<noteq> [] \<and> (\<forall>c \<in> set w. p c)"
proof (induction p s rule: word_runs.induct)
  case (2 p c cs)
  show ?case
  proof (cases "p c")
    case True
    with 2(3) have "w = c # takeWhile p cs \<or> w \<in> set (word_runs p (dropWhile p cs))" by simp
    with 2(1) True show ?thesis by (auto dest: set_takeWhileD)
  next
    case False
    with 2(2,3) show ?thesis by simp
  qed
qed simp

lemma word_runs_word: "w \<noteq> [] \<Longrightarrow> (\<forall>c \<in> set w. p c) \<Longrightarrow> word_runs p w = [w]"
  by (cases w) (simp_all add: takeWhile_all dropWhile_eq_Nil_conv [THEN iffD2])

lemma word_runs_glue:
  assumes "w \<noteq> []" and "\<forall>c \<in> set w. p c" and "\<not> p sep"
  shows "word_runs p (w @ sep # s) = w # word_runs p s"
proof -
  obtain c cs where w: "w = c # cs" using assms(1) by (cases w) auto
  have "takeWhile p (cs @ sep # s) = cs" "dropWhile p (cs @ sep # s) = sep # s"
    using assms w by (simp_all add: takeWhile_append dropWhile_append)
  with w assms show ?thesis by simp
qed

lemma word_runs_join:
  "(\<forall>w \<in> set ws. w \<noteq> [] \<and> (\<forall>c \<in> set w. p c)) \<Longrightarrow> \<not> p sep \<Longrightarrow> word_runs p (join_with [sep] ws) = ws"
  by (induction "[sep]" ws rule: join_with.induct) (auto simp: word_runs_word word_runs_glue)

lemma set_join_with: "set (join_with sep ws) \<subseteq> set sep \<union> \<Union> (set ` set ws)"
  by (induction sep ws rule: join_with.induct) auto

lemma join_with_Nil_iff: "(\<forall>w \<in> set ws. w \<noteq> []) \<Longrightarrow> join_with sep ws = [] \<longleftrightarrow> ws = []"
  by (cases "(sep, ws)" rule: join_with.cases) auto

text \<open>A page name: words of lower-case letters and digits, joined by hyphens.\<close>

definition page_name :: "string \<Rightarrow> bool" where
  "page_name s = (\<exists>ws. ws \<noteq> [] \<and> (\<forall>w \<in> set ws. w \<noteq> [] \<and> (\<forall>c \<in> set w. is_lower_alnum c)) \<and>
     s = join_with ''-'' ws @ ''.html'')"

lemma page_name_chars:
  assumes "page_name s"
  shows "s \<noteq> ''.html'' \<and> (\<forall>c \<in> set s. host_char c)"
proof -
  obtain ws where ws: "ws \<noteq> []" "\<forall>w \<in> set ws. w \<noteq> [] \<and> (\<forall>c \<in> set w. is_lower_alnum c)"
    and s: "s = join_with ''-'' ws @ ''.html''" using assms by (auto simp: page_name_def)
  have "host_char c" if "c \<in> set (join_with ''-'' ws)" for c
  proof -
    from that set_join_with [of "''-''" ws] consider "c = CHR ''-''" | w where "w \<in> set ws" "c \<in> set w" by auto
    then show ?thesis
    proof cases
      case 1
      then show ?thesis by (simp add: host_char_code)
    next
      case 2
      with ws(2) show ?thesis using alnum_host_char by blast
    qed
  qed
  moreover have "\<forall>c \<in> set ''.html''. host_char c" by (simp add: host_char_code)
  moreover have "join_with ''-'' ws \<noteq> []" using ws join_with_Nil_iff by blast
  ultimately show ?thesis unfolding s by auto
qed

lemma drop_suffix_append [simp]: "drop_suffix p (s @ p) = s"
  by (auto simp: drop_suffix_def ends_with_def starts_with_iff)

lemma page_name_fixed:
  assumes "page_name s"
  shows "normalize_page_name_hint s = Some s"
proof -
  obtain ws where ws: "ws \<noteq> []" "\<forall>w \<in> set ws. w \<noteq> [] \<and> (\<forall>c \<in> set w. is_lower_alnum c)"
    and s: "s = join_with ''-'' ws @ ''.html''" using assms by (auto simp: page_name_def)
  have chars: "\<forall>c \<in> set s. host_char c" using page_name_chars [OF assms] by blast
  have "py_strip s = s" using chars host_char_facts(2) by (intro py_strip_no_space) blast
  moreover have "py_lower s = s" using chars host_char_facts(1) by (simp add: py_lower_def map_idI)
  moreover have "alnum_words (join_with ''-'' ws) = ws"
    unfolding alnum_words_def using ws(2)
    by (intro word_runs_join) (simp_all add: is_lower_alnum_def is_lower_ascii_def is_digit_def)
  moreover have "join_with ''-'' ws \<noteq> []" using ws join_with_Nil_iff by blast
  ultimately show ?thesis using s by (simp add: normalize_page_name_hint_def Let_def)
qed

lemma normalize_page_name_hint_page: "normalize_page_name_hint h = Some s \<Longrightarrow> page_name s"
  unfolding normalize_page_name_hint_def Let_def page_name_def alnum_words_def
  by (auto split: if_splits dest: word_runs_sound
      intro!: exI [of _ "word_runs is_lower_alnum (drop_suffix ''.html'' (py_lower (py_strip h)))"])

text \<open>Both normalisations as one contract: what they return is well-formed, and well-formed texts are kept.\<close>

locale normaliser =
  fixes normal :: "string \<Rightarrow> string option" and good :: "string \<Rightarrow> bool"
  assumes sound: "normal h = Some s \<Longrightarrow> good s" and fixed: "good s \<Longrightarrow> normal s = Some s"
begin

lemma idempotent: "normal h = Some s \<Longrightarrow> normal s = Some s"
  by (rule fixed) (rule sound)

lemma exactly_the_good: "good s \<longleftrightarrow> (\<exists>h. normal h = Some s)"
  using sound fixed by blast

end

definition hostname :: "string \<Rightarrow> bool" where
  "hostname s = (list_all valid_label (split_on (CHR ''.'') s) \<and> length s \<le> MAX_HOSTNAME_LENGTH \<and> \<not> ipv4_literal s)"

interpretation hosts: normaliser normalize_hostname_hint hostname
  by unfold_locales (auto simp: hostname_def dest: normalize_hostname_hint_SomeD intro: hostname_fixed)

interpretation pages: normaliser normalize_page_name_hint page_name
  by unfold_locales (auto dest: normalize_page_name_hint_page intro: page_name_fixed)

lemma try_allocate_sound:
  "try_allocate n host stem token taken = Some p \<Longrightarrow>
   alloc_hostname p = host \<and> alloc_public p = public_path_of host (alloc_page p) \<and> \<not> taken (alloc_public p) \<and>
   (\<exists>k < n. alloc_page p = stem @ ''-'' @ token k @ ''.html'')"
  by (induction n) (auto simp: Let_def less_Suc_eq split: if_splits)

lemma try_allocate_none:
  "try_allocate n host stem token taken = None \<longleftrightarrow>
   (\<forall>k < n. taken (public_path_of host (stem @ ''-'' @ token k @ ''.html'')))"
  by (induction n) (auto simp: Let_def less_Suc_eq)

lemma page_name_token:
  assumes "page_name (stem @ ''.html'')" and "t \<noteq> []" and "\<forall>c \<in> set t. is_lower_alnum c"
  shows "page_name (stem @ ''-'' @ t @ ''.html'')"
proof -
  obtain ws where ws: "ws \<noteq> []" "\<forall>w \<in> set ws. w \<noteq> [] \<and> (\<forall>c \<in> set w. is_lower_alnum c)"
    and s: "stem = join_with ''-'' ws" using assms(1) by (auto simp: page_name_def)
  have "join_with ''-'' (us @ [t]) = join_with ''-'' us @ ''-'' @ t" if "us \<noteq> []" for us
    using that by (induction "''-''" us rule: join_with.induct) (auto simp: neq_Nil_conv)
  with ws s assms(2,3) show ?thesis
    unfolding page_name_def by (intro exI [of _ "ws @ [t]"]) auto
qed

text \<open>C29. The public address of a generated site is safe whatever the agent asked for. If both
  hints are accepted and a path is allocated, the host consists of valid DNS labels, is no IP
  literal and no longer than a hostname may be, the page is a slug with the extension, both are
  fixed points of their normalisation, and the path is free. Allocation gives up only when the
  plain path and all twenty random ones are taken.\<close>

theorem public_path_safe:
  assumes "normalize_hostname_hint h = Some host" and "normalize_page_name_hint p = Some page"
    and "\<forall>k. token k \<noteq> [] \<and> list_all is_lower_alnum (token k)"
  shows "case allocate_public_path host page token taken of
      Some a \<Rightarrow> hostname (alloc_hostname a) \<and> page_name (alloc_page a) \<and>
        normalize_hostname_hint (alloc_hostname a) = Some (alloc_hostname a) \<and>
        normalize_page_name_hint (alloc_page a) = Some (alloc_page a) \<and>
        alloc_public a = alloc_hostname a @ ''/'' @ alloc_page a \<and> \<not> taken (alloc_public a)
    | None \<Rightarrow> taken (public_path_of host page) \<and>
        (\<forall>k < 20. taken (public_path_of host (drop_suffix ''.html'' page @ ''-'' @ token k @ ''.html'')))"
proof (cases "allocate_public_path host page token taken")
  case None
  then show ?thesis
    by (simp add: allocate_public_path_def try_allocate_none ALLOCATION_ATTEMPTS_def split: if_splits)
next
  case (Some a)
  have page: "page_name page" using assms(2) by (rule pages.sound)
  then obtain stem where stem: "page = stem @ ''.html''" by (auto simp: page_name_def)
  have "alloc_hostname a = host \<and> alloc_public a = public_path_of host (alloc_page a) \<and> \<not> taken (alloc_public a) \<and>
      (alloc_page a = page \<or> (\<exists>k. alloc_page a = stem @ ''-'' @ token k @ ''.html''))"
    using Some stem try_allocate_sound [of ALLOCATION_ATTEMPTS host stem token taken a]
    by (auto simp: allocate_public_path_def split: if_splits)
  moreover from this have "page_name (alloc_page a)"
    using page page_name_token [of stem] assms(3) stem by (auto simp: list_all_iff)
  ultimately show ?thesis
    using Some hosts.sound [OF assms(1)] hosts.idempotent [OF assms(1)] pages.fixed
    by (auto simp: public_path_of_def)
qed

theorem public_path_safe_witness:
  "normalize_hostname_hint ''HTTPS://Www.Tea-Time.example:8080/menu?x'' = Some ''www.tea-time.example'' \<and>
   normalize_page_name_hint '' Our Menu!.HTML'' = Some ''our-menu.html'' \<and>
   map_option alloc_public (allocate_public_path ''www.tea-time.example'' ''our-menu.html'' (\<lambda>k. ''a1'' @ nat_str k)
     (\<lambda>p. p = ''www.tea-time.example/our-menu.html'')) = Some ''www.tea-time.example/our-menu-a119.html'' \<and>
   hostname ''www.tea-time.example'' \<and> page_name ''our-menu-a119.html''"
proof -
  have a: "normalize_hostname_hint ''HTTPS://Www.Tea-Time.example:8080/menu?x'' = Some ''www.tea-time.example''"
    by code_simp
  have b: "normalize_page_name_hint '' Our Menu!.HTML'' = Some ''our-menu.html''" by code_simp
  let ?taken = "\<lambda>p. p = ''www.tea-time.example/our-menu.html''"
  have "list_all is_lower_alnum (nat_str k)" for k
    using nat_str_digits [of k] by (auto simp: list_all_iff is_lower_alnum_def filter_id_conv)
  then have t: "\<forall>k. ''a1'' @ nat_str k \<noteq> [] \<and> list_all is_lower_alnum (''a1'' @ nat_str k)"
    by (simp add: is_lower_alnum_def is_lower_ascii_def is_digit_def)
  have c: "allocate_public_path ''www.tea-time.example'' ''our-menu.html'' (\<lambda>k. ''a1'' @ nat_str k) ?taken =
      Some \<lparr>alloc_hostname = ''www.tea-time.example'', alloc_page = ''our-menu-a119.html'',
        alloc_public = ''www.tea-time.example/our-menu-a119.html''\<rparr>" by code_simp
  show ?thesis using public_path_safe [OF a b t, of ?taken] a b c by simp
qed

end
