(* ===== verification/Texts.thy ===== *)
theory Texts
  imports Sites
begin

text \<open>
  Text forms of values the agents see and the audit stores: \<open>json.dumps\<close> with its default or
  other separators, sorted keys on demand, and only printable ASCII in its output; ISO dates;
  excerpts; and the truncation of stored tool results of \<open>deaddit/agents/executor.py\<close>. How a
  float is printed is a parameter.
\<close>

section \<open>JSON text\<close>

definition hex_digit :: "nat \<Rightarrow> char" where
  "hex_digit n = (if n < 10 then char_of (48 + n) else char_of (87 + n))"

definition esc_char :: "char \<Rightarrow> string" where
  "esc_char c =
     (let n = code_point c; back = CHR 0x5C in
      if n = 34 \<or> n = 92 then [back, c]
      else if n = 8 then back # ''b'' else if n = 9 then back # ''t'' else if n = 10 then back # ''n''
      else if n = 12 then back # ''f'' else if n = 13 then back # ''r''
      else if n < 32 \<or> 126 < n then back # ''u00'' @ [hex_digit (n div 16), hex_digit (n mod 16)]
      else [c])"

definition dump_string :: "string \<Rightarrow> string" where
  "dump_string s = [CHR 0x22] @ concat (map esc_char s) @ [CHR 0x22]"

primrec json_text :: "string \<Rightarrow> string \<Rightarrow> (rat \<Rightarrow> string) \<Rightarrow> json \<Rightarrow> string" where
  "json_text sep colon fr JNull = ''null''"
| "json_text sep colon fr (JBool b) = (if b then ''true'' else ''false'')"
| "json_text sep colon fr (JInt i) = py_str_int i"
| "json_text sep colon fr (JFloat q) = fr q"
| "json_text sep colon fr (JStr s) = dump_string s"
| "json_text sep colon fr (JList xs) = ''['' @ join_with sep (map (json_text sep colon fr) xs) @ '']''"
| "json_text sep colon fr (JObj kvs) =
     ''{'' @ join_with sep (map (\<lambda>(k, t). dump_string k @ colon @ t)
       (map (map_prod (\<lambda>k. k) (json_text sep colon fr)) kvs)) @ ''}''"

abbreviation json_dumps :: "(rat \<Rightarrow> string) \<Rightarrow> json \<Rightarrow> string" where
  "json_dumps \<equiv> json_text '', '' '': ''"

primrec sort_json :: "json \<Rightarrow> json" where
  "sort_json JNull = JNull"
| "sort_json (JBool b) = JBool b"
| "sort_json (JInt i) = JInt i"
| "sort_json (JFloat q) = JFloat q"
| "sort_json (JStr s) = JStr s"
| "sort_json (JList xs) = JList (map sort_json xs)"
| "sort_json (JObj kvs) = JObj (sort_key fst (map (map_prod (\<lambda>k. k) sort_json) kvs))"

section \<open>Dates and excerpts\<close>

definition pad_left :: "nat \<Rightarrow> string \<Rightarrow> string" where
  "pad_left n s = replicate (n - length s) (CHR ''0'') @ s"

definition civil_date :: "int \<Rightarrow> int \<times> int \<times> int" where
  "civil_date day =
     (let z = day + 719468; era = z div 146097; doe = z mod 146097;
          yoe = (doe - doe div 1460 + doe div 36524 - doe div 146096) div 365;
          doy = doe - (365 * yoe + yoe div 4 - yoe div 100);
          mp = (5 * doy + 2) div 153;
          d = doy - (153 * mp + 2) div 5 + 1;
          m = (if mp < 10 then mp + 3 else mp - 9) in
      (yoe + era * 400 + (if m \<le> 2 then 1 else 0), m, d))"

definition two_digits :: "int \<Rightarrow> string" where
  "two_digits n = pad_left 2 (py_str_int n)"

definition py_isoformat :: "timestamp \<Rightarrow> string" where
  "py_isoformat t =
     (let day = t div days 1; rest = t mod days 1; us = rest mod 1000000 in
      case civil_date day of (y, m, d) \<Rightarrow>
        pad_left 4 (py_str_int y) @ ''-'' @ two_digits m @ ''-'' @ two_digits d @ ''T'' @
        two_digits (rest div hours 1) @ '':'' @ two_digits (rest div minutes 1 mod 60) @ '':'' @
        two_digits (rest div seconds 1 mod 60) @ (if us = 0 then [] else ''.'' @ pad_left 6 (py_str_int us)))"

definition split_words :: "string \<Rightarrow> string list" where
  "split_words s = word_runs (\<lambda>c. \<not> py_isspace c) s"

definition excerpt :: "string option \<Rightarrow> nat \<Rightarrow> string" where
  "excerpt text limit =
     take limit (join_with '' '' (split_words (case text of None \<Rightarrow> [] | Some s \<Rightarrow> s)))"

section \<open>Stored results\<close>

definition MAX_RESULT_CHARS :: nat where
  "MAX_RESULT_CHARS = 4096"

text \<open>The mark ends in an ellipsis character outside Latin-1; another character that is dumped in
  as many places stands for it.\<close>

definition truncation_mark :: string where
  "truncation_mark = [CHR 0x85] @ ''[truncated]''"

primrec shorten_strings :: "nat \<Rightarrow> json \<Rightarrow> json" where
  "shorten_strings n JNull = JNull"
| "shorten_strings n (JBool b) = JBool b"
| "shorten_strings n (JInt i) = JInt i"
| "shorten_strings n (JFloat q) = JFloat q"
| "shorten_strings n (JStr s) = JStr (if n < length s then take n s @ truncation_mark else s)"
| "shorten_strings n (JList xs) = JList (map (shorten_strings n) xs)"
| "shorten_strings n (JObj kvs) = JObj (map (map_prod (\<lambda>k. k) (shorten_strings n)) kvs)"

function fit_by_shortening :: "(rat \<Rightarrow> string) \<Rightarrow> json \<Rightarrow> nat \<Rightarrow> json option" where
  "fit_by_shortening fr r n =
     (if n < 32 then None
      else if length (json_dumps fr (shorten_strings n r)) \<le> MAX_RESULT_CHARS then Some (shorten_strings n r)
      else fit_by_shortening fr r (n div 2))"
  by pat_completeness auto
termination
  by (relation "measure (\<lambda>(fr, r, n). n)") auto

definition truncate_result :: "(rat \<Rightarrow> string) \<Rightarrow> json \<Rightarrow> json" where
  "truncate_result fr r =
     (if length (json_dumps fr r) \<le> MAX_RESULT_CHARS then r
      else case fit_by_shortening fr r 512 of
          Some t \<Rightarrow> t
        | None \<Rightarrow> JObj [(''truncated'', JBool True),
            (''preview'', JStr (take (MAX_RESULT_CHARS - 96) (json_dumps fr r)))])"

lemmas [simp del] = fit_by_shortening.simps

section \<open>Facts\<close>

definition plain_char :: "char \<Rightarrow> bool" where
  "plain_char c = (32 \<le> code_point c \<and> code_point c \<le> 126)"

definition plain :: "string \<Rightarrow> bool" where
  "plain s = (\<forall>c \<in> set s. plain_char c)"

lemma plain_simps [simp]:
  "plain []" "plain (c # s) \<longleftrightarrow> plain_char c \<and> plain s" "plain (s @ t) \<longleftrightarrow> plain s \<and> plain t"
  by (auto simp: plain_def)

lemma plain_char_simps [simp]:
  "plain_char (CHR ''a'')" "plain_char (CHR 0x22)" "plain_char (CHR 0x5C)" "plain_char (CHR '','')"
  "plain_char (CHR '' '')" "plain_char (CHR '':'')" "plain_char (CHR ''['')" "plain_char (CHR '']'')"
  "plain_char (CHR ''{'')" "plain_char (CHR ''}'')" "plain_char (CHR ''u'')" "plain_char (CHR ''0'')"
  "plain_char (CHR ''b'')" "plain_char (CHR ''t'')" "plain_char (CHR ''n'')" "plain_char (CHR ''f'')"
  "plain_char (CHR ''r'')" "plain_char (CHR ''l'')" "plain_char (CHR ''e'')" "plain_char (CHR ''s'')"
  "plain_char (CHR ''-'')"
  by (simp_all add: plain_char_def)

lemma plain_hex [simp]: "n < 16 \<Longrightarrow> plain_char (hex_digit n)"
  by (simp add: hex_digit_def plain_char_def)

lemma plain_esc [simp]: "plain (esc_char c)"
proof -
  have "code_point c div 16 < 16" "code_point c mod 16 < 16"
    using code_point_less_256 [of c] by (simp_all add: less_mult_imp_div_less)
  then have "plain_char (hex_digit (code_point c div 16))" "plain_char (hex_digit (code_point c mod 16))" by simp_all
  moreover have "\<not> (code_point c < 32 \<or> 126 < code_point c) \<Longrightarrow> plain_char c" by (simp add: plain_char_def)
  ultimately show ?thesis by (auto simp: esc_char_def Let_def)
qed

lemma esc_char_short: "plain_char c \<Longrightarrow> length (esc_char c) \<le> 2"
  by (auto simp: esc_char_def Let_def plain_char_def)

lemma plain_concat: "plain (concat ss) \<longleftrightarrow> (\<forall>s \<in> set ss. plain s)"
  by (induction ss) auto

lemma plain_join: "plain sep \<Longrightarrow> (\<forall>s \<in> set ss. plain s) \<Longrightarrow> plain (join_with sep ss)"
  by (induction sep ss rule: join_with.induct) auto

lemma plain_dump_string [simp]: "plain (dump_string s)"
  by (simp add: dump_string_def plain_concat)

lemma plain_int [simp]: "plain (py_str_int i)"
proof -
  have "plain_char (digit_char k)" if "k < 10" for k
    using that by (simp add: digit_char_def plain_char_def)
  then have "plain (nat_str n)" for n using nat_str_chars unfolding plain_def by blast
  then show ?thesis by (simp add: py_str_int_def)
qed

lemma plain_dumps:
  assumes "\<And>q. plain (fr q)"
  shows "plain (json_dumps fr r)"
proof (induction r)
  case (JList xs)
  then show ?case by (simp add: plain_join)
next
  case (JObj kvs)
  then have "plain (json_dumps fr v)" if "(k, v) \<in> set kvs" for k v
    using that by fastforce
  then show ?case by (auto intro!: plain_join)
qed (simp_all add: assms)

lemma dump_string_short: "plain s \<Longrightarrow> length (dump_string s) \<le> 2 * length s + 2"
proof -
  have "plain s \<Longrightarrow> length (concat (map esc_char s)) \<le> 2 * length s"
    by (induction s) (use esc_char_short in fastforce)+
  then show "plain s \<Longrightarrow> ?thesis" by (simp add: dump_string_def)
qed

lemma fit_by_shortening_SomeD:
  "fit_by_shortening fr r n = Some t \<Longrightarrow> length (json_dumps fr t) \<le> MAX_RESULT_CHARS \<and> (\<exists>k. 32 \<le> k \<and> t = shorten_strings k r)"
proof (induction fr r n rule: fit_by_shortening.induct)
  case (1 fr r n)
  show ?case
  proof (cases "n < 32 \<or> length (json_dumps fr (shorten_strings n r)) \<le> MAX_RESULT_CHARS")
    case True
    with 1(2) have "32 \<le> n" "t = shorten_strings n r" "length (json_dumps fr t) \<le> MAX_RESULT_CHARS"
      unfolding fit_by_shortening.simps [of fr r n] by (auto split: if_splits)
    then show ?thesis by blast
  next
    case False
    with 1(2) have "fit_by_shortening fr r (n div 2) = Some t"
      unfolding fit_by_shortening.simps [of fr r n] by simp
    with 1(1) False show ?thesis by simp
  qed
qed

text \<open>What the audit stores of a tool result is bounded and faithful. A result whose text fits
  in 4096 characters is stored as it is. A longer one is stored with only its long strings
  shortened, if that fits, and otherwise as a preview of its text; whatever the result, the text
  of what is stored has at most 8034 characters.\<close>

theorem stored_result_bounded:
  assumes "\<And>q. plain (fr q)"
  shows "length (json_dumps fr (truncate_result fr r)) \<le> 8034 \<and>
    (length (json_dumps fr r) \<le> 4096 \<longrightarrow> truncate_result fr r = r) \<and>
    (4096 < length (json_dumps fr (truncate_result fr r)) \<longrightarrow>
      truncate_result fr r = JObj [(''truncated'', JBool True), (''preview'', JStr (take 4000 (json_dumps fr r)))]) \<and>
    ((\<exists>k \<ge> 32. truncate_result fr r = shorten_strings k r) \<or> truncate_result fr r = r \<or>
      truncate_result fr r = JObj [(''truncated'', JBool True), (''preview'', JStr (take 4000 (json_dumps fr r)))])"
proof (cases "length (json_dumps fr r) \<le> MAX_RESULT_CHARS")
  case False
  show ?thesis
  proof (cases "fit_by_shortening fr r 512")
    case None
    let ?p = "take 4000 (json_dumps fr r)"
    have "plain ?p" using plain_dumps [where fr = fr and r = r] assms by (auto simp: plain_def dest: in_set_takeD)
    then have "length (dump_string ?p) \<le> 8002" using dump_string_short [of ?p] by simp
    moreover have "length (json_dumps fr (JObj [(''truncated'', JBool True), (''preview'', JStr ?p)])) =
        32 + length (dump_string ?p)"
      by (simp add: dump_string_def [of "''truncated''"] dump_string_def [of "''preview''"] esc_char_def)
    ultimately show ?thesis using False None by (simp add: truncate_result_def MAX_RESULT_CHARS_def)
  next
    case (Some t)
    from fit_by_shortening_SomeD [OF this] False Some show ?thesis
      by (auto simp: truncate_result_def MAX_RESULT_CHARS_def)
  qed
qed (simp add: truncate_result_def MAX_RESULT_CHARS_def)

text \<open>The preview is escaped once more when it is stored, so a result of many short strings is
  stored in more characters than the limit.\<close>

lemma fit_by_shortening_None:
  "(\<And>k. MAX_RESULT_CHARS < length (json_dumps fr (shorten_strings k r))) \<Longrightarrow> fit_by_shortening fr r n = None"
proof (induction n rule: less_induct)
  case (less n)
  moreover have "\<not> length (json_dumps fr (shorten_strings n r)) \<le> MAX_RESULT_CHARS"
    using less(2) [of n] by simp
  ultimately show ?case unfolding fit_by_shortening.simps [of fr r n] by simp
qed

lemma join_with_replicate: "join_with sep (replicate (Suc n) w) = concat (replicate n (w @ sep)) @ w"
  by (induction n) simp_all

lemma length_concat_replicate [simp]: "length (concat (replicate n w)) = n * length w"
  by (induction n) simp_all

lemma preview_exceeds_limit:
  defines "r \<equiv> JList (replicate 1100 (JStr []))"
  shows "MAX_RESULT_CHARS < length (json_dumps fr (truncate_result fr r))"
proof -
  define cell where "cell = [CHR 0x22, CHR 0x22, CHR '','', CHR '' '']"
  have dumped: "json_dumps fr r = ''['' @ concat (replicate 1099 cell) @ [CHR 0x22, CHR 0x22] @ '']''"
    using join_with_replicate [of "'', ''" 1099 "[CHR 0x22, CHR 0x22]"]
    by (simp add: r_def dump_string_def cell_def)
  then have long: "MAX_RESULT_CHARS < length (json_dumps fr r)" by (simp add: MAX_RESULT_CHARS_def cell_def)
  moreover have "shorten_strings k r = r" for k by (simp add: r_def)
  ultimately have none: "fit_by_shortening fr r 512 = None" by (simp add: fit_by_shortening_None)
  have "concat (replicate 1099 cell) = concat (replicate 999 cell) @ concat (replicate 100 cell)"
    by (simp flip: replicate_add concat_append)
  then obtain rest where "take 4000 (json_dumps fr r) = ''['' @ concat (replicate 999 cell) @ rest"
    by (simp add: dumped cell_def)
  moreover have "length (concat (map esc_char (concat (replicate n cell)))) = 6 * n" for n
    by (induction n) (simp_all add: cell_def esc_char_def)
  ultimately have "5994 \<le> length (dump_string (take 4000 (json_dumps fr r)))"
    by (simp add: dump_string_def)
  with long none show ?thesis by (simp add: truncate_result_def MAX_RESULT_CHARS_def)
qed

theorem stored_result_bounded_witness:
  "let r = JList (replicate 1100 (JStr [])); stored = truncate_result (\<lambda>_. ''0.5'') r in
   4096 < length (json_dumps (\<lambda>_. ''0.5'') stored) \<and> length (json_dumps (\<lambda>_. ''0.5'') stored) \<le> 8034 \<and>
   json_get ''truncated'' stored = Some (JBool True)"
proof -
  have "plain ''0.5''" by (simp add: plain_char_def)
  note bounded = stored_result_bounded [of "\<lambda>_. ''0.5''", OF this]
  show ?thesis
    using bounded [of "JList (replicate 1100 (JStr []))"] preview_exceeds_limit [of "\<lambda>_. ''0.5''"]
    by (auto simp: MAX_RESULT_CHARS_def Let_def)
qed

end
