(* ===== verification/Tools.thy ===== *)
theory Tools
  imports Registry Visits Texts Content Inbox
begin

text \<open>
  What the tools of \<open>deaddit/agents/tools_read.py\<close> and \<open>tools_write.py\<close> share: their arguments,
  the context of \<open>registry.py\<close>, the outside world as an environment of functions, what a handler
  may do, the nudge towards \<open>subscribe\<close>, and the fence of \<open>executor.py\<close> around a handler's
  writes. A context always has its run. The argument models are validated by pydantic, so the
  validation is a function of the environment.
\<close>

section \<open>Arguments\<close>

record browse_args =
  bf_sub :: "string option"
  bf_sort :: string
  bf_limit :: int
  bf_max_age :: "py_float option"
  bf_max_comments :: "int option"

record read_args =
  rp_post :: int
  rp_sort :: string
  rp_limit :: int

record search_args =
  se_query :: string
  se_type :: string
  se_limit :: int

record create_post_args =
  cp_subdeaddit :: string
  cp_title :: string
  cp_content :: string
  cp_post_type :: "string option"

record create_image_args =
  ci_community :: string
  ci_title :: string
  ci_content :: "string option"
  ci_prompt :: string
  ci_alt :: string
  ci_post_type :: "string option"

record create_website_args =
  cw_community :: string
  cw_title :: string
  cw_content :: "string option"
  cw_description :: string
  cw_hostname :: string
  cw_page :: string
  cw_post_type :: "string option"

record create_comment_args =
  cc_post :: int
  cc_parent :: "int option"
  cc_content :: string

datatype tool_args =
    Browse_Args browse_args
  | Read_Args read_args
  | Search_Args search_args
  | Inbox_Args bool
  | Profile_Args "string option"
  | Post_Args create_post_args
  | Image_Args create_image_args
  | Website_Args create_website_args
  | Comment_Args create_comment_args
  | Subscribe_Args string
  | Unsubscribe_Args string
  | Finish_Args string "string option"

text \<open>The tool that declares each argument model.\<close>

definition tool_of :: "tool_args \<Rightarrow> string" where
  "tool_of x =
     (case x of
        Browse_Args _ \<Rightarrow> ''browse_feed'' | Read_Args _ \<Rightarrow> ''read_post'' | Search_Args _ \<Rightarrow> ''search''
      | Inbox_Args _ \<Rightarrow> ''view_inbox'' | Profile_Args _ \<Rightarrow> ''view_profile'' | Post_Args _ \<Rightarrow> ''create_post''
      | Image_Args _ \<Rightarrow> ''create_image_post'' | Website_Args _ \<Rightarrow> ''create_website''
      | Comment_Args _ \<Rightarrow> ''create_comment'' | Subscribe_Args _ \<Rightarrow> ''subscribe''
      | Unsubscribe_Args _ \<Rightarrow> ''unsubscribe'' | Finish_Args _ _ \<Rightarrow> ''finish'')"

definition opt_str :: "string option \<Rightarrow> json" where
  "opt_str v = (case v of None \<Rightarrow> JNull | Some s \<Rightarrow> JStr s)"

definition opt_int :: "int option \<Rightarrow> json" where
  "opt_int v = (case v of None \<Rightarrow> JNull | Some i \<Rightarrow> JInt i)"

text \<open>\<open>model_dump\<close>: the fields in the order of the model. An age limit that is no finite number
  has no JSON form; its dump is as if there were none.\<close>

definition model_dump :: "tool_args \<Rightarrow> (string \<times> json) list" where
  "model_dump x =
     (case x of
        Browse_Args a \<Rightarrow> [(''subdeaddit'', opt_str (bf_sub a)), (''sort'', JStr (bf_sort a)), (''limit'', JInt (bf_limit a)),
          (''max_age_hours'', case bf_max_age a of Some (Finite q) \<Rightarrow> JFloat q | _ \<Rightarrow> JNull),
          (''max_comments'', opt_int (bf_max_comments a))]
      | Read_Args a \<Rightarrow> [(''post_id'', JInt (rp_post a)), (''comment_sort'', JStr (rp_sort a)), (''reply_limit'', JInt (rp_limit a))]
      | Search_Args a \<Rightarrow> [(''query'', JStr (se_query a)), (''type'', JStr (se_type a)), (''limit'', JInt (se_limit a))]
      | Inbox_Args b \<Rightarrow> [(''unread_only'', JBool b)]
      | Profile_Args u \<Rightarrow> [(''username'', opt_str u)]
      | Post_Args a \<Rightarrow> [(''subdeaddit'', JStr (cp_subdeaddit a)), (''title'', JStr (cp_title a)),
          (''content'', JStr (cp_content a)), (''post_type'', opt_str (cp_post_type a))]
      | Image_Args a \<Rightarrow> [(''community'', JStr (ci_community a)), (''title'', JStr (ci_title a)),
          (''content'', opt_str (ci_content a)), (''image_prompt'', JStr (ci_prompt a)), (''alt_text'', JStr (ci_alt a)),
          (''post_type'', opt_str (ci_post_type a))]
      | Website_Args a \<Rightarrow> [(''community'', JStr (cw_community a)), (''title'', JStr (cw_title a)),
          (''content'', opt_str (cw_content a)), (''website_description'', JStr (cw_description a)),
          (''hostname_hint'', JStr (cw_hostname a)), (''page_name_hint'', JStr (cw_page a)),
          (''post_type'', opt_str (cw_post_type a))]
      | Comment_Args a \<Rightarrow> [(''post_id'', JInt (cc_post a)), (''parent_id'', opt_int (cc_parent a)),
          (''content'', JStr (cc_content a))]
      | Subscribe_Args s \<Rightarrow> [(''subdeaddit'', JStr s)]
      | Unsubscribe_Args s \<Rightarrow> [(''subdeaddit'', JStr s)]
      | Finish_Args s m \<Rightarrow> [(''summary'', JStr s), (''mood'', opt_str m)])"

text \<open>The declared bounds of the fields.\<close>

definition text_within :: "nat \<Rightarrow> nat \<Rightarrow> string \<Rightarrow> bool" where
  "text_within lo hi s = (lo \<le> length s \<and> length s \<le> hi)"

definition opt_within :: "nat \<Rightarrow> string option \<Rightarrow> bool" where
  "opt_within hi v = (case v of None \<Rightarrow> True | Some s \<Rightarrow> length s \<le> hi)"

definition args_ok :: "tool_args \<Rightarrow> bool" where
  "args_ok x =
     (case x of
        Browse_Args a \<Rightarrow> bf_sort a \<in> {''new'', ''hot'', ''top''} \<and> 1 \<le> bf_limit a \<and> bf_limit a \<le> 25
      | Read_Args a \<Rightarrow> 0 < rp_post a \<and> rp_sort a \<in> {''top'', ''new''} \<and> 1 \<le> rp_limit a \<and> rp_limit a \<le> 30
      | Search_Args a \<Rightarrow> text_within 1 200 (se_query a) \<and> se_type a \<in> {''post'', ''subdeaddit'', ''user''} \<and>
          1 \<le> se_limit a \<and> se_limit a \<le> 15
      | Post_Args a \<Rightarrow> text_within 1 50 (cp_subdeaddit a) \<and> text_within 1 300 (cp_title a) \<and>
          text_within 1 20000 (cp_content a)
      | Image_Args a \<Rightarrow> text_within 1 50 (ci_community a) \<and> text_within 1 300 (ci_title a) \<and>
          opt_within 20000 (ci_content a) \<and> text_within 1 4000 (ci_prompt a) \<and> text_within 1 300 (ci_alt a) \<and>
          opt_within 50 (ci_post_type a)
      | Website_Args a \<Rightarrow> text_within 1 50 (cw_community a) \<and> text_within 1 300 (cw_title a) \<and>
          opt_within 20000 (cw_content a) \<and> text_within 100 12000 (cw_description a) \<and>
          text_within 3 253 (cw_hostname a) \<and> text_within 1 120 (cw_page a) \<and> opt_within 50 (cw_post_type a)
      | Comment_Args a \<Rightarrow> 0 < cc_post a \<and> text_within 1 8000 (cc_content a)
      | Subscribe_Args s \<Rightarrow> text_within 1 50 s
      | Unsubscribe_Args s \<Rightarrow> text_within 1 50 s
      | Finish_Args s _ \<Rightarrow> text_within 1 2000 s
      | _ \<Rightarrow> True)"

section \<open>Context and environment\<close>

record tool_context =
  ctx_agent :: int
  ctx_run :: int
  ctx_user :: username
  post_intent :: string
  target_subdeaddit :: "string option"
  ctx_llm_url :: "string option"
  ctx_llm_model :: "string option"
  ctx_deadline :: timestamp

text \<open>What comes back from the image provider and from its storage, and from the generator of
  websites and its storage.\<close>

record image_generation =
  gen_reference :: string
  gen_request :: "string option"

record stored_image =
  st_original :: string
  st_thumbnail :: string
  st_mime :: string
  st_size :: int
  st_width :: int
  st_height :: int

datatype site_failure = Truncated_Page | Invalid_Html | Generation_Failed

record site_generation =
  site_html :: string
  site_diversity :: json
  site_api_url :: string
  site_gen_model :: string

record stored_site =
  ss_path :: string
  ss_size :: int
  ss_sha256 :: string

record tool_env =
  te_others :: "world \<Rightarrow> world"
  te_now :: "world \<Rightarrow> timestamp"
  te_draw :: "world \<Rightarrow> real"
  te_config :: "world \<Rightarrow> string \<Rightarrow> string option"
  te_loads :: "string \<Rightarrow> string + json"
  te_validate :: "string \<Rightarrow> json \<Rightarrow> string + tool_args"
  te_float :: "rat \<Rightarrow> string"
  te_digest :: "string \<Rightarrow> string"
  te_token :: "world \<Rightarrow> nat \<Rightarrow> string"
  te_directions :: "string \<Rightarrow> string list"
  te_can_see :: "string \<Rightarrow> string \<Rightarrow> world \<Rightarrow> bool"
  te_describe :: "post_image \<Rightarrow> world \<Rightarrow> string option \<times> world"
  te_image_style :: "int \<Rightarrow> string option \<Rightarrow> string \<Rightarrow> string \<times> json"
  te_generate_image :: "image_provider \<Rightarrow> string \<Rightarrow> string \<Rightarrow> world \<Rightarrow> (string + image_generation) \<times> world"
  te_store_image :: "image_generation \<Rightarrow> world \<Rightarrow> (string + stored_image) \<times> world"
  te_generate_site :: "create_website_args \<Rightarrow> website_settings \<Rightarrow> int \<Rightarrow> string option \<Rightarrow> world \<Rightarrow>
     (site_failure + site_generation) \<times> world"
  te_store_site :: "string \<Rightarrow> world \<Rightarrow> stored_site option \<times> world"
  te_screenshot :: "world \<Rightarrow> post_image option"

text \<open>What a handler does: it returns a dictionary, raises \<open>ValueError\<close>, loses its run at a
  flush, or raises something else.\<close>

datatype tool_outcome = Reply "(string \<times> json) list" | Raised_Value string | Ownership_Lost | Raised_Other string

definition failure :: "string \<Rightarrow> tool_outcome" where
  "failure msg = Reply [(''ok'', JBool False), (''error'', JStr msg)]"

definition failure_hint :: "string \<Rightarrow> string \<Rightarrow> tool_outcome" where
  "failure_hint msg hint = Reply [(''ok'', JBool False), (''error'', JStr msg), (''hint'', JStr hint)]"

section \<open>Subscriptions\<close>

definition BACKSTAGE_SUBDEADDIT_NAME :: string where
  "BACKSTAGE_SUBDEADDIT_NAME = ''BetweenRobots''"

text \<open>\<open>(state or {}).get("subscriptions") or []\<close>, and membership in what it gives; \<open>None\<close> raises.\<close>

definition subscriptions_of :: "json \<Rightarrow> json option" where
  "subscriptions_of state =
     (case (if py_truthy state then state else JObj []) of
        JObj kvs \<Rightarrow> Some (py_or (map_of kvs ''subscriptions'') (JList []))
      | _ \<Rightarrow> None)"

definition py_in :: "string \<Rightarrow> json \<Rightarrow> bool option" where
  "py_in name v =
     (case v of
        JList xs \<Rightarrow> Some (JStr name \<in> set xs)
      | JObj kvs \<Rightarrow> Some (name \<in> fst ` set kvs)
      | JStr s \<Rightarrow> Some (contains_sub name s)
      | _ \<Rightarrow> None)"

definition state_of :: "username \<Rightarrow> db \<Rightarrow> json" where
  "state_of who d = (case find_row user_name who (users d) of None \<Rightarrow> JNull | Some u \<Rightarrow> agent_state u)"

definition tier_of :: "tool_context \<Rightarrow> db \<Rightarrow> tool_outcome + autonomy_tier" where
  "tier_of ctx d =
     (case find_agent (ctx_agent ctx) d of
        None \<Rightarrow> Inl (Raised_Other ''ObjectDeletedError'')
      | Some a \<Rightarrow>
          (case parse_tier (autonomy_tier a) of
             None \<Rightarrow> Inl (Raised_Value (''unknown autonomy tier: '' @ quoted (autonomy_tier a)))
           | Some t \<Rightarrow> Inr t))"

definition nudge_text :: "string \<Rightarrow> string" where
  "nudge_text sub =
     ''You are not subscribed to '' @ sub @ '' - the subscribe tool would add it to your feed for future visits.''"

definition subscribe_nudge :: "tool_context \<Rightarrow> string \<Rightarrow> world \<Rightarrow> (tool_outcome + string option) \<times> world" where
  "subscribe_nudge ctx sub w =
     (if sub \<in> set (nudged_subs w) then (Inr None, w)
      else
        let d = wdb w; w = w\<lparr>nudged_subs := sub # nudged_subs w\<rparr> in
        case tier_of ctx d of
          Inl e \<Rightarrow> (Inl e, w)
        | Inr t \<Rightarrow>
            if sub = BACKSTAGE_SUBDEADDIT_NAME \<and> t \<noteq> Lurker then (Inr None, w)
            else if \<not> (case get_tool ''subscribe'' of None \<Rightarrow> False | Some x \<Rightarrow> tier_allows t (min_tier x)) then (Inr None, w)
            else if find_row sub_name sub (subdeaddits d) = None then (Inr None, w)
            else case subscriptions_of (state_of (ctx_user ctx) d) of
                None \<Rightarrow> (Inl (Raised_Other ''AttributeError''), w)
              | Some subs \<Rightarrow>
                  (case py_in sub subs of
                     None \<Rightarrow> (Inl (Raised_Other ''TypeError''), w)
                   | Some True \<Rightarrow> (Inr None, w)
                   | Some False \<Rightarrow> (Inr (Some (nudge_text sub)), w)))"

text \<open>A result with the nudge attached.\<close>

definition with_nudge :: "tool_context \<Rightarrow> string \<Rightarrow> (string \<times> json) list \<Rightarrow> world \<Rightarrow> tool_outcome \<times> world" where
  "with_nudge ctx sub result w =
     (case subscribe_nudge ctx sub w of
        (Inl e, w) \<Rightarrow> (e, w)
      | (Inr None, w) \<Rightarrow> (Reply result, w)
      | (Inr (Some hint), w) \<Rightarrow> (Reply (result @ [(''subscribe_hint'', JStr hint)]), w))"

section \<open>The write fence\<close>

text \<open>A flush goes through while the run is running; otherwise it raises, and what the handler
  wrote is rolled back. Others may act first.\<close>

datatype 'a written = Written 'a | Invalid string | Db_Failed | Lost

definition ctx_active :: "tool_context \<Rightarrow> world \<Rightarrow> bool" where
  "ctx_active ctx w = run_is_active (ctx_run ctx) (wdb w)"

definition fenced_write ::
  "tool_env \<Rightarrow> tool_context \<Rightarrow> (world \<Rightarrow> db \<Rightarrow> (content_error + 'a) \<times> db) \<Rightarrow> world \<Rightarrow> 'a written \<times> world" where
  "fenced_write env ctx f w =
     (let w = te_others env w in
      case f w (wdb w) of
        (Inl (Validation_Error msg), _) \<Rightarrow> (Invalid msg, w)
      | (Inl Db_Integrity_Error, _) \<Rightarrow> (if ctx_active ctx w then Db_Failed else Lost, w)
      | (Inr x, d) \<Rightarrow> if ctx_active ctx w then (Written x, w\<lparr>wdb := d\<rparr>) else (Lost, w))"

end
