(* ===== verification/Readers.thy ===== *)
theory Readers
  imports Tools
begin

text \<open>
  \<open>deaddit/agents/tools_read.py\<close>: the feed, a post with its replies, search, the inbox and
  profiles, as JSON results. Only \<open>view_inbox\<close> writes: it marks what it shows as read, by a bulk
  update the write fence does not see. Rows that tie in a query's order come later rows first.
\<close>

section \<open>Summaries\<close>

definition age_hours :: "timestamp \<Rightarrow> timestamp \<Rightarrow> rat" where
  "age_hours now created = max (of_int (now - created) / of_int (hours 1)) 0"

definition round_cents :: "rat \<Rightarrow> rat" where
  "round_cents q = of_int (round_even (q * 100)) / 100"

definition comment_total :: "int \<Rightarrow> db \<Rightarrow> int" where
  "comment_total pid d = count_rows (\<lambda>c. post_id c = pid) (comments d)"

definition thread_full :: "post \<Rightarrow> int \<Rightarrow> bool" where
  "thread_full p n = (case comment_cap p of None \<Rightarrow> False | Some cap \<Rightarrow> cap \<le> n)"

definition post_summary :: "timestamp \<Rightarrow> db \<Rightarrow> post \<Rightarrow> json" where
  "post_summary now d p =
     JObj [(''id'', JInt (item_id p)), (''title'', JStr (title p)), (''subdeaddit'', JStr (subdeaddit_name p)),
       (''author'', JStr (author p)), (''score'', JInt (score p)),
       (''age_hours'', JFloat (round_cents (age_hours now (created_at p)))),
       (''comment_count'', JInt (comment_total (item_id p) d)),
       (''thread_full'', JBool (thread_full p (comment_total (item_id p) d))),
       (''excerpt'', JStr (excerpt (content p) 200)), (''has_image'', JBool (has_image d p))]"

section \<open>The feed\<close>

definition FRONTPAGE_POOL_SIZE :: nat where
  "FRONTPAGE_POOL_SIZE = 200"

definition newest_posts :: "nat \<Rightarrow> (post \<Rightarrow> bool) \<Rightarrow> db \<Rightarrow> post list" where
  "newest_posts n q d = take n (order_desc created_at (filter q (posts d)))"

text \<open>The pool is a dictionary by post id, in the order of insertion.\<close>

definition add_to_pool :: "post list \<Rightarrow> post list \<Rightarrow> post list" where
  "add_to_pool new pool = fold (\<lambda>p pool. if item_id p \<in> item_id ` set pool then pool else pool @ [p]) new pool"

text \<open>The names in a list of subscriptions. The site only ever stores names; a list with anything else
  ends the call here.\<close>

definition name_list :: "json \<Rightarrow> string list option" where
  "name_list v =
     (case v of
        JList xs \<Rightarrow> if list_all (\<lambda>x. case x of JStr _ \<Rightarrow> True | _ \<Rightarrow> False) xs
          then Some (map (\<lambda>x. case x of JStr s \<Rightarrow> s | _ \<Rightarrow> []) xs) else None
      | JObj kvs \<Rightarrow> Some (map fst kvs)
      | JStr s \<Rightarrow> Some (map (\<lambda>c. [c]) s)
      | _ \<Rightarrow> None)"

definition feed_subscriptions :: "tool_context \<Rightarrow> db \<Rightarrow> tool_outcome + string list" where
  "feed_subscriptions ctx d =
     (if find_row user_name (ctx_user ctx) (users d) = None then Inr []
      else case subscriptions_of (state_of (ctx_user ctx) d) of
          None \<Rightarrow> Inl (Raised_Other ''AttributeError'')
        | Some subs \<Rightarrow> (case name_list subs of None \<Rightarrow> Inl (Raised_Other ''TypeError'') | Some names \<Rightarrow> Inr names))"

definition is_backstage_member :: "tool_context \<Rightarrow> string option \<Rightarrow> db \<Rightarrow> tool_outcome + bool" where
  "is_backstage_member ctx sub d =
     (if sub \<noteq> None then Inr False
      else case tier_of ctx d of
          Inl e \<Rightarrow> Inl e
        | Inr t \<Rightarrow> Inr (t \<noteq> Lurker \<and> find_row sub_name BACKSTAGE_SUBDEADDIT_NAME (subdeaddits d) \<noteq> None))"

definition feed_targets :: "string option \<Rightarrow> string list \<Rightarrow> bool \<Rightarrow> string list" where
  "feed_targets sub subs backstage =
     (let ts = (case sub of Some s \<Rightarrow> [s] | None \<Rightarrow> rev (remdups (rev subs))) in
      if backstage \<and> BACKSTAGE_SUBDEADDIT_NAME \<notin> set ts then ts @ [BACKSTAGE_SUBDEADDIT_NAME] else ts)"

definition in_sub :: "string \<Rightarrow> post \<Rightarrow> bool" where
  "in_sub name p = (subdeaddit_name p = name)"

definition feed_pool :: "string option \<Rightarrow> string list \<Rightarrow> bool \<Rightarrow> db \<Rightarrow> post list" where
  "feed_pool sub subs backstage d =
     (if (sub = None \<or> sub = Some []) \<and> subs = [] then
        add_to_pool (if backstage then newest_posts 100 (in_sub BACKSTAGE_SUBDEADDIT_NAME) d else [])
          (newest_posts FRONTPAGE_POOL_SIZE (\<lambda>_. True) d)
      else fold (\<lambda>name. add_to_pool (newest_posts 100 (in_sub name) d)) (feed_targets sub subs backstage) [])"

definition feed_sorted :: "string \<Rightarrow> timestamp \<Rightarrow> post list \<Rightarrow> post list" where
  "feed_sorted srt now ps =
     (if srt = ''new'' then rev (sort_key created_at (rev ps))
      else if srt = ''top'' then sort_key (\<lambda>p. - score p) ps
      else sort_key (\<lambda>p. - of_int (score p + 1) / max (age_hours now (created_at p)) 1) ps)"

text \<open>A member of the backstage room finds one of its posts in the feed if the pool has one.\<close>

definition feature_backstage :: "string \<Rightarrow> timestamp \<Rightarrow> post list \<Rightarrow> post list \<Rightarrow> post list" where
  "feature_backstage srt now pool ps =
     (let room = filter (in_sub BACKSTAGE_SUBDEADDIT_NAME) pool in
      if ps \<noteq> [] \<and> \<not> list_ex (in_sub BACKSTAGE_SUBDEADDIT_NAME) ps \<and> room \<noteq> []
      then butlast ps @ [hd (feed_sorted srt now room)] else ps)"

definition within_age :: "timestamp option \<Rightarrow> post \<Rightarrow> bool" where
  "within_age cutoff p = (case cutoff of None \<Rightarrow> True | Some t \<Rightarrow> t \<le> created_at p)"

definition within_comments :: "int option \<Rightarrow> db \<Rightarrow> post \<Rightarrow> bool" where
  "within_comments m d p = (case m of None \<Rightarrow> True | Some n \<Rightarrow> comment_total (item_id p) d \<le> n)"

definition feed_posts :: "browse_args \<Rightarrow> string list \<Rightarrow> bool \<Rightarrow> timestamp option \<Rightarrow> timestamp \<Rightarrow> db \<Rightarrow> post list" where
  "feed_posts a subs backstage cutoff now d =
     (let pool = filter (\<lambda>p. within_age cutoff p \<and> within_comments (bf_max_comments a) d p)
            (feed_pool (bf_sub a) subs backstage d);
          ps = take (nat (bf_limit a)) (feed_sorted (bf_sort a) now pool) in
      if backstage then feature_backstage (bf_sort a) now pool ps else ps)"

definition feed_hint :: "string option \<Rightarrow> nat \<Rightarrow> (string \<times> json) list" where
  "feed_hint sub n =
     (if n = 0 then
        [(''hint'', JStr (''No posts found in '' @ (if no_text sub then ''this feed'' else py_str_opt sub) @
           ''. This community is currently empty or quiet. '' @
           ''You are welcome to kick off the first discussion by creating a post with create_post!''))]
      else if n \<le> 2 then
        [(''hint'', JStr (''This community has very few posts. Starting a new discussion with '' @
           ''create_post is welcome if you have a relevant topic.''))]
      else [])"

text \<open>The cutoff of an age limit; subtracting it can overflow.\<close>

definition age_cutoff :: "py_float option \<Rightarrow> timestamp \<Rightarrow> timestamp option option" where
  "age_cutoff limit now =
     (case limit of None \<Rightarrow> Some None | Some x \<Rightarrow> map_option Some (add_seconds now (float_times (- 3600) x)))"

definition browse_feed :: "tool_env \<Rightarrow> tool_context \<Rightarrow> browse_args \<Rightarrow> world \<Rightarrow> tool_outcome \<times> world" where
  "browse_feed env ctx a w =
     (let d = wdb w; now = te_now env w in
      case feed_subscriptions ctx d of
        Inl e \<Rightarrow> (e, w)
      | Inr subs \<Rightarrow>
          (case is_backstage_member ctx (bf_sub a) d of
             Inl e \<Rightarrow> (e, w)
           | Inr backstage \<Rightarrow>
               (case age_cutoff (bf_max_age a) now of
                  None \<Rightarrow> (Raised_Other ''OverflowError'', w)
                | Some cutoff \<Rightarrow>
                    let ps = feed_posts a subs backstage cutoff now d;
                        result = [(''posts'', JList (map (post_summary now d) ps))] @ feed_hint (bf_sub a) (length ps) in
                    (case bf_sub a of None \<Rightarrow> (Reply result, w) | Some s \<Rightarrow> with_nudge ctx s result w))))"

section \<open>A post with its replies\<close>

definition MAX_COMMENT_DEPTH :: nat where
  "MAX_COMMENT_DEPTH = 6"

definition comment_order :: "string \<Rightarrow> comment list \<Rightarrow> comment list" where
  "comment_order srt cs =
     (if srt = ''new'' then order_desc (\<lambda>c. (created_at c, item_id c)) cs
      else sort_key (\<lambda>c. (- score c, created_at c)) cs)"

definition comment_node :: "comment \<Rightarrow> json list \<Rightarrow> json" where
  "comment_node c replies =
     JObj [(''id'', JInt (item_id c)), (''parent_id'', opt_int (parent_id c)), (''author'', JStr (author c)),
       (''content'', JStr (take 500 (case content c of None \<Rightarrow> [] | Some s \<Rightarrow> s))), (''score'', JInt (score c)),
       (''created_at'', JStr (py_isoformat (created_at c))), (''replies'', JList replies)]"

definition listed :: "read_args \<Rightarrow> (comment \<Rightarrow> bool) \<Rightarrow> comment list \<Rightarrow> comment list" where
  "listed a q cs = take (nat (rp_limit a)) (comment_order (rp_sort a) (filter q cs))"

text \<open>The node of a comment at a depth with that many levels below it.\<close>

fun comment_tree :: "read_args \<Rightarrow> comment list \<Rightarrow> nat \<Rightarrow> comment \<Rightarrow> json" where
  "comment_tree a cs 0 c = comment_node c []"
| "comment_tree a cs (Suc n) c =
     comment_node c (map (comment_tree a cs n) (listed a (\<lambda>r. parent_id r = Some (item_id c)) cs))"

definition build_comment_tree :: "read_args \<Rightarrow> comment list \<Rightarrow> json list" where
  "build_comment_tree a cs =
     map (comment_tree a cs (MAX_COMMENT_DEPTH - 1))
       (listed a (\<lambda>c. post_id c = rp_post a \<and> parent_id c = None) cs)"

definition image_json :: "string \<Rightarrow> string \<Rightarrow> json" where
  "image_json text source =
     JObj [(''present'', JBool True), (''description'', JStr text), (''description_source'', JStr source)]"

definition load_image_description :: "tool_env \<Rightarrow> tool_context \<Rightarrow> post_image \<Rightarrow> world \<Rightarrow> json \<times> world" where
  "load_image_description env ctx img w =
     (let fallback = image_json (source_prompt img) ''generation_prompt'' in
      if no_text (ctx_llm_url ctx) \<or> no_text (ctx_llm_model ctx) then (fallback, w)
      else if \<not> te_can_see env (py_str_opt (ctx_llm_url ctx)) (py_str_opt (ctx_llm_model ctx)) w then (fallback, w)
      else if ctx_deadline ctx \<le> mono_now w then (fallback, w)
      else case te_describe env img w of
          (None, w) \<Rightarrow> (fallback, w)
        | (Some text, w) \<Rightarrow> (image_json text ''vision'', w))"

definition read_post :: "tool_env \<Rightarrow> tool_context \<Rightarrow> read_args \<Rightarrow> world \<Rightarrow> tool_outcome \<times> world" where
  "read_post env ctx a w =
     (let d = wdb w in
      case find_row item_id (rp_post a) (posts d) of
        None \<Rightarrow> (failure ''post not found'', w)
      | Some p \<Rightarrow>
          (let n = comment_total (item_id p) d;
               shown = [(''id'', JInt (item_id p)), (''title'', JStr (title p)), (''subdeaddit'', JStr (subdeaddit_name p)),
                 (''author'', JStr (author p)),
                 (''content'', JStr (take 2000 (case content p of None \<Rightarrow> [] | Some s \<Rightarrow> s))),
                 (''score'', JInt (score p)), (''created_at'', JStr (py_isoformat (created_at p))),
                 (''comment_count'', JInt n), (''thread_full'', JBool (thread_full p n)),
                 (''comments'', JList (build_comment_tree a (comments d)))] in
           case (case find_row image_post (item_id p) (images d) of
                   None \<Rightarrow> (shown, w)
                 | Some img \<Rightarrow> (case load_image_description env ctx img w of (j, w) \<Rightarrow> (shown @ [(''image'', j)], w))) of
             (shown, w) \<Rightarrow> with_nudge ctx (subdeaddit_name p) [(''ok'', JBool True), (''post'', JObj shown)] w))"

section \<open>Search\<close>

text \<open>\<open>ILIKE\<close> on SQLite: both sides in lower case, \<open>%\<close> and \<open>_\<close> as wildcards.\<close>

function sql_like :: "string \<Rightarrow> string \<Rightarrow> bool" where
  "sql_like [] s = (s = [])"
| "sql_like (p # ps) s =
     (if p = CHR ''%'' then sql_like ps s \<or> (case s of [] \<Rightarrow> False | _ # t \<Rightarrow> sql_like (p # ps) t)
      else (case s of [] \<Rightarrow> False | c # t \<Rightarrow> (p = CHR ''_'' \<or> p = c) \<and> sql_like ps t))"
  by pat_completeness auto
termination
  by (relation "measure (\<lambda>(p, s). length p + length s)") auto

definition ilike :: "string \<Rightarrow> string option \<Rightarrow> bool" where
  "ilike needle text = (case text of None \<Rightarrow> False | Some s \<Rightarrow> sql_like (sql_lower needle) (sql_lower s))"

definition search_hits :: "search_args \<Rightarrow> db \<Rightarrow> json list option" where
  "search_hits a d =
     (let needle = ''%'' @ se_query a @ ''%''; n = nat (se_limit a) in
      if se_type a = ''post'' then
        Some (map (\<lambda>p. JObj [(''id'', JInt (item_id p)), (''title'', JStr (title p)),
             (''subdeaddit'', JStr (subdeaddit_name p)), (''excerpt'', JStr (excerpt (content p) 200)),
             (''score'', JInt (score p)), (''has_image'', JBool (has_image d p))])
           (newest_posts n (\<lambda>p. ilike needle (Some (title p)) \<or> ilike needle (content p)) d))
      else if se_type a = ''subdeaddit'' then
        Some (map (\<lambda>s. JObj [(''name'', JStr (sub_name s)), (''description'', JStr (excerpt (Some (sub_description s)) 200))])
           (take n (sort_key sub_name (filter (\<lambda>s. ilike needle (Some (sub_name s)) \<or> ilike needle (Some (sub_description s)))
             (subdeaddits d)))))
      else None)"

text \<open>The branch for users reads its rows and then uses a variable it never assigned.\<close>

definition search_tool :: "search_args \<Rightarrow> world \<Rightarrow> tool_outcome \<times> world" where
  "search_tool a w =
     (case search_hits a (wdb w) of
        None \<Rightarrow> (Raised_Other ''UnboundLocalError'', w)
      | Some results \<Rightarrow>
          (Reply ([(''results'', JList results)] @
             (if results \<noteq> [] then []
              else if se_type a = ''subdeaddit'' then
                [(''hint'', JStr (''No subdeaddits matched '' @ quoted (se_query a) @ ''. '' @
                   ''Some existing communities you can participate in include: '' @
                   join_with '', '' (take 8 (sort (map sub_name (subdeaddits (wdb w))))) @ ''.''))]
              else [(''hint'', JStr (''No '' @ se_type a @ '' results found matching '' @ quoted (se_query a) @ ''.''))])), w))"

section \<open>Inbox and profiles\<close>

definition inbox_item :: "notification \<Rightarrow> json" where
  "inbox_item n =
     JObj [(''id'', JInt (notif_id n)), (''kind'', JStr (kind n)), (''actor'', opt_str (actor n)),
       (''post_id'', opt_int (notif_post n)), (''comment_id'', opt_int (notif_comment n)), (''snippet'', opt_str (snippet n)),
       (''created_at'', JStr (py_isoformat (notif_created_at n))), (''read_at'', opt_str (map_option py_isoformat (read_at n)))]"

definition view_inbox :: "tool_env \<Rightarrow> tool_context \<Rightarrow> bool \<Rightarrow> world \<Rightarrow> tool_outcome \<times> world" where
  "view_inbox env ctx unread_only w =
     (let page = get_inbox (ctx_user ctx) unread_only 50 None (wdb w);
          d = fst (mark_inbox_read (ctx_user ctx) (These (map notif_id (page_items page))) (te_now env w) (wdb w)) in
      (Reply [(''items'', JList (map inbox_item (page_items page))), (''unread'', JInt (page_unread page))], w\<lparr>wdb := d\<rparr>))"

definition view_profile :: "tool_context \<Rightarrow> string option \<Rightarrow> world \<Rightarrow> tool_outcome \<times> world" where
  "view_profile ctx name w =
     (let d = wdb w; who = (if no_text name then ctx_user ctx else py_str_opt name); u = find_row user_name who (users d) in
      (Reply [(''username'', JStr who), (''bio'', JStr (excerpt (map_option bio u) 500)), (''exists'', JBool (u \<noteq> None)),
         (''post_count'', JInt (count_rows (\<lambda>p. author p = who) (posts d))),
         (''comment_count'', JInt (count_rows (\<lambda>c. author c = who) (comments d))),
         (''posts'', JList (map (\<lambda>p. JObj [(''id'', JInt (item_id p)), (''title'', JStr (title p)),
             (''subdeaddit'', JStr (subdeaddit_name p)), (''excerpt'', JStr (excerpt (content p) 200)),
             (''created_at'', JStr (py_isoformat (created_at p))), (''has_image'', JBool (has_image d p))])
           (newest_posts 10 (\<lambda>p. author p = who) d))),
         (''comments'', JList (map (\<lambda>c. JObj [(''id'', JInt (item_id c)), (''post_id'', JInt (post_id c)),
             (''excerpt'', JStr (excerpt (content c) 200)), (''created_at'', JStr (py_isoformat (created_at c)))])
           (take 10 (order_desc created_at (filter (\<lambda>c. author c = who) (comments d))))))], w))"

lemma user_search_fails: "se_type a = ''user'' \<Longrightarrow> search_tool a w = (Raised_Other ''UnboundLocalError'', w)"
  by (simp add: search_tool_def search_hits_def Let_def)

end
