(* ===== verification/Writers.thy ===== *)
theory Writers
  imports Readers Threads
begin

text \<open>
  \<open>deaddit/agents/tools_write.py\<close>: posts, image posts, websites, comments, subscriptions and
  \<open>finish\<close>, over the content service, and the dispatch of a validated call to its handler.
  Generation and storage take time, in which the environment may change the world. The session
  of a handler that loses its run is rolled back, and the files it stored are deleted.
\<close>

section \<open>Budgets and banned words\<close>

definition posts_created_this_run :: "tool_context \<Rightarrow> db \<Rightarrow> int" where
  "posts_created_this_run ctx d =
     count_rows (\<lambda>c. call_run c = ctx_run ctx \<and> call_name c \<in> set POST_TOOL_NAMES \<and> call_ok c) (tool_calls d)"

definition one_post_per_visit :: tool_outcome where
  "one_post_per_visit =
     failure_hint ''you have already created a post during this visit (maximum 1 post per session)''
       ''you can read or comment, or call finish to end your visit''"

definition no_such_community :: "string \<Rightarrow> tool_outcome" where
  "no_such_community sub =
     failure_hint (''subdeaddit '' @ quoted sub @ '' does not exist'')
       (''use search with type='' @ quoted ''subdeaddit'' @ '' to find existing communities'')"

definition provenance_of :: "tool_context \<Rightarrow> string" where
  "provenance_of ctx = ''agent:'' @ ctx_user ctx"

text \<open>The characters \<open>\w\<close> stands for.\<close>

definition word_char :: "char \<Rightarrow> bool" where
  "word_char c =
     (let n = code_point c in
      is_digit c \<or> is_lower_ascii c \<or> is_upper_ascii c \<or> c = CHR ''_'' \<or>
      n \<in> {170, 178, 179, 181, 185, 186, 188, 189, 190} \<or> (192 \<le> n \<and> n \<noteq> 215 \<and> n \<noteq> 247))"

text \<open>\<open>re.search(r"(?<!\w)word", text)\<close>; the flag says whether the character before is one of a word.\<close>

fun word_start_in :: "bool \<Rightarrow> string \<Rightarrow> string \<Rightarrow> bool" where
  "word_start_in inside w [] = (\<not> inside \<and> w = [])"
| "word_start_in inside w (c # cs) = ((\<not> inside \<and> starts_with w (c # cs)) \<or> word_start_in (word_char c) w cs)"

definition banned_words :: "string option \<Rightarrow> string list" where
  "banned_words raw =
     word_runs (\<lambda>c. \<not> (c = CHR '','' \<or> py_isspace c)) (py_lower (case raw of None \<Rightarrow> [] | Some s \<Rightarrow> s))"

definition banned_in :: "string option \<Rightarrow> string \<Rightarrow> string option" where
  "banned_in raw text = find (\<lambda>w. word_start_in False w (py_lower text)) (banned_words raw)"

definition or_empty :: "string option \<Rightarrow> string" where
  "or_empty v = (case v of None \<Rightarrow> [] | Some s \<Rightarrow> s)"

definition banned_image_word :: "tool_env \<Rightarrow> create_image_args \<Rightarrow> world \<Rightarrow> string option" where
  "banned_image_word env a w = banned_in (te_config env w ''IMAGE_BANNED_WORDS'') (ci_prompt a @ '' '' @ ci_alt a)"

definition banned_website_word :: "tool_env \<Rightarrow> create_website_args \<Rightarrow> world \<Rightarrow> string option" where
  "banned_website_word env a w =
     banned_in (te_config env w ''WEBSITE_BANNED_WORDS'')
       (join_with '' '' [cw_title a, or_empty (cw_content a), cw_description a, cw_hostname a, cw_page a])"

text \<open>The only direction the visit was planned with, if it is one of the known ones.\<close>

definition planned_media_direction :: "tool_env \<Rightarrow> tool_context \<Rightarrow> string \<Rightarrow> db \<Rightarrow> string option" where
  "planned_media_direction env ctx medium d =
     (case find_run (ctx_run ctx) d of
        None \<Rightarrow> None
      | Some r \<Rightarrow>
          (case prompt_metadata r of
             Some (JObj kvs) \<Rightarrow>
               (case map_of kvs ''direction_ids'' of
                  Some (JList [JStr i]) \<Rightarrow> if i \<in> set (te_directions env medium) then Some i else None
                | _ \<Rightarrow> None)
           | _ \<Rightarrow> None))"

section \<open>Text posts\<close>

definition agent_post :: "tool_context \<Rightarrow> string \<Rightarrow> string \<Rightarrow> string option \<Rightarrow> string option \<Rightarrow> post_request" where
  "agent_post ctx sub heading body ptype =
     \<lparr>req_title = heading, req_content = body, req_user = ctx_user ctx, req_sub = sub, req_score = 0,
      req_model = provenance_of ctx, req_llm_model = ctx_llm_model ctx, req_post_type = ptype, req_created_at = None\<rparr>"

definition post_done :: "post \<Rightarrow> string \<Rightarrow> (string \<times> json) list" where
  "post_done p hint =
     [(''ok'', JBool True), (''post_id'', JInt (item_id p)), (''title'', JStr (title p)),
      (''subdeaddit'', JStr (subdeaddit_name p)), (''hint'', JStr hint)]"

definition create_post_tool :: "tool_env \<Rightarrow> tool_context \<Rightarrow> create_post_args \<Rightarrow> world \<Rightarrow> tool_outcome \<times> world" where
  "create_post_tool env ctx a w =
     (if posts_created_this_run ctx (wdb w) \<ge> 1 then (one_post_per_visit, w)
      else if find_row sub_name (cp_subdeaddit a) (subdeaddits (wdb w)) = None
      then (no_such_community (cp_subdeaddit a), w)
      else case fenced_write env ctx (\<lambda>w. create_post
            (agent_post ctx (cp_subdeaddit a) (cp_title a) (Some (cp_content a)) (cp_post_type a))
            (te_now env w) (te_draw env w)) w of
          (Invalid msg, w) \<Rightarrow> (failure msg, w)
        | (Db_Failed, w) \<Rightarrow> (Raised_Other ''IntegrityError'', w)
        | (Lost, w) \<Rightarrow> (Ownership_Lost, w)
        | (Written p, w) \<Rightarrow>
            with_nudge ctx (subdeaddit_name p)
              (post_done p (''Post created successfully. Call finish to conclude your visit '' @
                 ''unless you have other pending actions.'')) w)"

section \<open>Image posts\<close>

text \<open>\<open>ImageProvider.get_default\<close> marks the first provider when none is the default one.\<close>

definition default_provider :: "tool_context \<Rightarrow> world \<Rightarrow> (tool_outcome + image_provider option) \<times> world" where
  "default_provider ctx w =
     (case find provider_default (image_providers (wdb w)) of
        Some p \<Rightarrow> (Inr (Some p), w)
      | None \<Rightarrow>
          (case sort_key provider_key (image_providers (wdb w)) of
             [] \<Rightarrow> (Inr None, w)
           | p # _ \<Rightarrow>
               if ctx_active ctx w then
                 (Inr (Some (p\<lparr>provider_default := True\<rparr>)), on_db (\<lambda>d. d\<lparr>image_providers :=
                    update_rows (\<lambda>x. provider_key x = provider_key p) (\<lambda>x. x\<lparr>provider_default := True\<rparr>) (image_providers d)\<rparr>) w)
               else (Inl Ownership_Lost, w)))"

definition chosen_provider :: "tool_context \<Rightarrow> image_config \<Rightarrow> world \<Rightarrow> (tool_outcome + image_provider option) \<times> world" where
  "chosen_provider ctx cfg w =
     (if py_truthy (image_provider_ref cfg) then
        (Inr (case py_int (image_provider_ref cfg) of None \<Rightarrow> None
              | Some i \<Rightarrow> find_row provider_key i (image_providers (wdb w))), w)
      else default_provider ctx w)"

text \<open>A configured model that is not text goes by its JSON text.\<close>

definition chosen_model :: "tool_env \<Rightarrow> image_config \<Rightarrow> image_provider \<Rightarrow> string option" where
  "chosen_model env cfg p =
     (if py_truthy (image_model cfg) then
        Some (case image_model cfg of JStr s \<Rightarrow> s | v \<Rightarrow> json_dumps (te_float env) v)
      else or_none (default_model p))"

definition pending_image :: "create_image_args \<Rightarrow> image_provider \<Rightarrow> string \<Rightarrow> string \<Rightarrow> image_generation \<Rightarrow> stored_image \<Rightarrow> post_image" where
  "pending_image a p model prompt gen st =
     \<lparr>image_post = 0, original_path = st_original st, thumbnail_path = st_thumbnail st, mime_type = st_mime st,
      image_byte_size = st_size st, width = st_width st, height = st_height st, alt_text = ci_alt a, source_prompt = prompt,
      provider_snapshot = provider_name p, image_model_snapshot = model, provider_id = Some (provider_key p),
      request_snapshot = gen_request gen\<rparr>"

definition delete_variants :: "stored_image \<Rightarrow> world \<Rightarrow> world" where
  "delete_variants st w =
     w\<lparr>media_files := filter (\<lambda>f. f \<noteq> st_original st \<and> f \<noteq> st_thumbnail st) (media_files w)\<rparr>"

text \<open>Generation, storage and publication.\<close>

definition publish_image :: "tool_env \<Rightarrow> tool_context \<Rightarrow> create_image_args \<Rightarrow> image_provider \<Rightarrow> string \<Rightarrow> world \<Rightarrow> tool_outcome \<times> world" where
  "publish_image env ctx a p model w =
     (let (style, ids) = te_image_style env (ctx_run ctx) (planned_media_direction env ctx ''image.'' (wdb w)) (ci_prompt a);
          prompt = ci_prompt a @ [CHR 0x0A, CHR 0x0A] @ style in
      case te_generate_image env p model prompt w of
        (Inl e, w) \<Rightarrow> (failure (''image generation failed: '' @ e), w)
      | (Inr gen, w) \<Rightarrow>
          (case te_store_image env gen w of
             (Inl e, w) \<Rightarrow> (failure (''image storage failed: '' @ e), w)
           | (Inr st, w) \<Rightarrow>
               (let w = w\<lparr>media_files := media_files w @ [st_original st, st_thumbnail st]\<rparr> in
                case fenced_write env ctx (\<lambda>w. create_image_post
                       (agent_post ctx (ci_community a) (ci_title a) (ci_content a) (ci_post_type a))
                       (pending_image a p model prompt gen st) (te_now env w) (te_draw env w)) w of
                  (Written q, w) \<Rightarrow>
                    (Reply (post_done q (''Image post created successfully. Call finish to conclude your visit '' @
                       ''unless you have other pending actions.'') @ [(''image_diversity_ids'', ids)]), w)
                | (Invalid msg, w) \<Rightarrow> (failure msg, delete_variants st w)
                | (_, w) \<Rightarrow> (failure ''failed to save the image post; please try again'', delete_variants st w))))"

definition create_image_tool :: "tool_env \<Rightarrow> tool_context \<Rightarrow> create_image_args \<Rightarrow> world \<Rightarrow> tool_outcome \<times> world" where
  "create_image_tool env ctx a w =
     (if posts_created_this_run ctx (wdb w) \<ge> 1 then (one_post_per_visit, w)
      else if find_row sub_name (ci_community a) (subdeaddits (wdb w)) = None then (no_such_community (ci_community a), w)
      else case banned_image_word env a w of
          Some word \<Rightarrow>
            (failure_hint (''your image idea uses the banned word '' @ quoted word @ '' and cannot be published - '' @
                ''the feed already has too many paper, logbook, and receipt shots'')
               (''picture something completely different - a place, an object, a person, a moment - '' @
                ''and call create_image_post again''), w)
        | None \<Rightarrow>
      case preflight_image_post (ctx_user ctx) (ci_community a) (ci_title a) (te_now env w) (wdb w) of
          Some (Validation_Error msg) \<Rightarrow> (failure msg, w)
        | Some Db_Integrity_Error \<Rightarrow> (Raised_Other ''IntegrityError'', w)
        | None \<Rightarrow>
      case find_agent (ctx_agent ctx) (wdb w) of
          None \<Rightarrow> (Raised_Other ''ObjectDeletedError'', w)
        | Some ag \<Rightarrow>
      let cfg = image_posts_config ag in
      case chosen_provider ctx cfg w of
          (Inl e, w) \<Rightarrow> (e, w)
        | (Inr None, w) \<Rightarrow> (failure ''no image provider is configured for this agent'', w)
        | (Inr (Some p), w) \<Rightarrow>
            (case chosen_model env cfg p of
               None \<Rightarrow> (failure (''no image model is configured for this agent'' @ [CHR 0x27] @ ''s provider''), w)
             | Some model \<Rightarrow>
                 if ctx_deadline ctx \<le> mono_now w
                 then (failure ''not enough time remaining in this run to generate an image'', w)
                 else publish_image env ctx a p model w))"

section \<open>Websites\<close>

definition WEBSITE_GENERATION_ATTEMPTED_KIND :: string where
  "WEBSITE_GENERATION_ATTEMPTED_KIND = ''website_generation_attempted''"

definition billed_failure :: "string \<Rightarrow> tool_outcome" where
  "billed_failure msg =
     Reply [(''ok'', JBool False), (''error'', JStr msg), (''kind'', JStr WEBSITE_GENERATION_ATTEMPTED_KIND)]"

definition billed_attempt :: "tool_call \<Rightarrow> bool" where
  "billed_attempt c =
     (call_ok c \<or> json_get ''kind'' (call_result c) = Some (JStr WEBSITE_GENERATION_ATTEMPTED_KIND))"

definition website_attempts_this_run :: "tool_context \<Rightarrow> db \<Rightarrow> int" where
  "website_attempts_this_run ctx d =
     count_rows (\<lambda>c. call_run c = ctx_run ctx \<and> call_name c = ''create_website'' \<and> billed_attempt c) (tool_calls d)"

definition is_public_path_taken :: "db \<Rightarrow> string \<Rightarrow> bool" where
  "is_public_path_taken d path = list_ex (\<lambda>s. public_path s = path) (websites d)"

definition source_text :: "tool_env \<Rightarrow> create_website_args \<Rightarrow> site_generation \<Rightarrow> string" where
  "source_text env a gen =
     cw_description a @ [CHR 0x0A, CHR 0x0A] @
     json_text '','' '':'' (te_float env) (sort_json (JObj [(''website_diversity_ids'', site_diversity gen)]))"

definition pending_site :: "tool_env \<Rightarrow> tool_context \<Rightarrow> create_website_args \<Rightarrow> site_generation \<Rightarrow> allocated_path \<Rightarrow> stored_site \<Rightarrow>
    generated_website" where
  "pending_site env ctx a gen path st =
     \<lparr>site_id = 0, site_post = 0, public_path = alloc_public path, storage_path = ss_path st,
      hostname = alloc_hostname path, page_name = alloc_page path, source_description = source_text env a gen,
      site_byte_size = ss_size st, sha256 = ss_sha256 st, site_agent = Some (ctx_agent ctx),
      creator_username_snapshot = ctx_user ctx, site_run = Some (ctx_run ctx), api_url_snapshot = site_api_url gen,
      site_model_snapshot = site_gen_model gen\<rparr>"

text \<open>The content service deletes the page of a post it does not publish, whatever stopped it.\<close>

definition save_site :: "tool_env \<Rightarrow> tool_context \<Rightarrow> create_website_args \<Rightarrow> generated_website \<Rightarrow> world \<Rightarrow> post written \<times> world" where
  "save_site env ctx a site w =
     (let w = te_others env w;
          rq = agent_post ctx (cw_community a) (cw_title a) (cw_content a) (cw_post_type a) in
      case create_website_post rq site (te_screenshot env w) (te_now env w) (te_draw env w) (wdb w, page_files w) of
        (Inl (Validation_Error msg), d, files) \<Rightarrow> (Invalid msg, w\<lparr>page_files := files\<rparr>)
      | (Inl Db_Integrity_Error, d, files) \<Rightarrow>
          (if ctx_active ctx w then Db_Failed else Lost, w\<lparr>page_files := files\<rparr>)
      | (Inr p, d, files) \<Rightarrow>
          if ctx_active ctx w then (Written p, w\<lparr>wdb := d, page_files := files\<rparr>)
          else (Lost, w\<lparr>page_files := removeAll (storage_path site) (page_files w)\<rparr>))"

definition publish_site :: "tool_env \<Rightarrow> tool_context \<Rightarrow> create_website_args \<Rightarrow> site_generation \<Rightarrow> world \<Rightarrow> tool_outcome \<times> world" where
  "publish_site env ctx a gen w =
     (case (normalize_hostname_hint (cw_hostname a), normalize_page_name_hint (cw_page a)) of
        (Some host, Some page) \<Rightarrow>
          (case allocate_public_path host page (te_token env w) (is_public_path_taken (wdb w)) of
             None \<Rightarrow> (billed_failure ''could not allocate a unique website address; try again'', w)
           | Some path \<Rightarrow>
               (case te_store_site env (site_html gen) w of
                  (None, w) \<Rightarrow> (billed_failure ''website storage failed'', w)
                | (Some st, w) \<Rightarrow>
                    (let w = w\<lparr>page_files := page_files w @ [ss_path st]\<rparr> in
                     case save_site env ctx a (pending_site env ctx a gen path st) w of
                       (Written p, w) \<Rightarrow>
                         (Reply (butlast (post_done p []) @
                            [(''website_url'', JStr (''/out/'' @ alloc_public path)), (''hostname'', JStr (alloc_hostname path)),
                             (''hint'', JStr ''Website post created successfully. Call finish to conclude your visit.''),
                             (''website_diversity_ids'', site_diversity gen)]), w)
                     | (Invalid msg, w) \<Rightarrow> (billed_failure msg, w)
                     | (_, w) \<Rightarrow> (billed_failure ''failed to save the website post; please try again'', w))))
      | _ \<Rightarrow> (billed_failure (''could not turn the requested hostname/page name into a '' @ ''valid website address''), w))"

definition create_website_tool :: "tool_env \<Rightarrow> tool_context \<Rightarrow> create_website_args \<Rightarrow> world \<Rightarrow> tool_outcome \<times> world" where
  "create_website_tool env ctx a w =
     (if posts_created_this_run ctx (wdb w) \<ge> 1 then (one_post_per_visit, w)
      else if website_attempts_this_run ctx (wdb w) \<ge> 1 then
        (failure_hint (''you have already attempted to generate a website during this visit '' @ ''(maximum 1 attempt per session)'')
           ''you can read or comment, or call finish to end your visit'', w)
      else if find_row sub_name (cw_community a) (subdeaddits (wdb w)) = None then (no_such_community (cw_community a), w)
      else case banned_website_word env a w of
          Some word \<Rightarrow>
            (failure_hint (''your site idea uses the banned word '' @ quoted word @ '' and cannot be published'')
               ''come up with a completely different website idea and call create_website again'', w)
        | None \<Rightarrow>
      case preflight_website_post (ctx_user ctx) (cw_community a) (cw_title a) (te_now env w) (wdb w) of
          Some (Validation_Error msg) \<Rightarrow> (failure msg, w)
        | Some Db_Integrity_Error \<Rightarrow> (Raised_Other ''IntegrityError'', w)
        | None \<Rightarrow>
            if no_text (ctx_llm_url ctx) \<or> no_text (ctx_llm_model ctx)
            then (failure ''no LLM endpoint is configured for this agent'', w)
            else if ctx_deadline ctx \<le> mono_now w
            then (failure ''not enough time remaining in this run to generate a website'', w)
            else case te_generate_site env a (resolve_website_settings (te_config env w)) (ctx_run ctx)
                   (planned_media_direction env ctx ''website.'' (wdb w)) w of
                (Inl Truncated_Page, w) \<Rightarrow>
                  (billed_failure (''website generation stopped before completing the document; '' @
                     ''try a shorter or simpler site brief''), w)
              | (Inl Invalid_Html, w) \<Rightarrow> (billed_failure ''website generation produced an invalid document'', w)
              | (Inl Generation_Failed, w) \<Rightarrow> (billed_failure ''website generation failed'', w)
              | (Inr gen, w) \<Rightarrow> publish_site env ctx a gen w)"

section \<open>Comments\<close>

definition agent_comment :: "tool_context \<Rightarrow> create_comment_args \<Rightarrow> comment_request" where
  "agent_comment ctx a =
     \<lparr>creq_post = cc_post a, creq_content = cc_content a, creq_user = ctx_user ctx, creq_parent = cc_parent a,
      creq_score = 0, creq_model = provenance_of ctx, creq_llm_model = ctx_llm_model ctx, creq_created_at = None\<rparr>"

text \<open>Why a reply to that comment is declined, if it is.\<close>

definition reply_problem :: "tool_context \<Rightarrow> create_comment_args \<Rightarrow> int \<Rightarrow> db \<Rightarrow> tool_outcome option" where
  "reply_problem ctx a pid d =
     (let missing = failure (''comment '' @ py_str_int pid @ '' not found under post '' @ py_str_int (cc_post a)) in
      case find_row item_id pid (comments d) of
        None \<Rightarrow> Some missing
      | Some par \<Rightarrow>
          if post_id par \<noteq> cc_post a then Some missing
          else if author par \<noteq> ctx_user ctx \<and>
            exchange_cap (cc_post a) (author par) (ctx_user ctx) d < exchange_tail_for_reply (Some pid) (ctx_user ctx) d
          then Some (failure_hint (''you and '' @ author par @ '' have gone back and forth enough in this exchange - let it go'')
            (''if you have a genuinely new point, make it a fresh '' @ ''top-level comment on the post instead''))
          else None)"

definition create_comment_tool :: "tool_env \<Rightarrow> tool_context \<Rightarrow> create_comment_args \<Rightarrow> world \<Rightarrow> tool_outcome \<times> world" where
  "create_comment_tool env ctx a w =
     (case find_row item_id (cc_post a) (posts (wdb w)) of
        None \<Rightarrow> (failure_hint (''post '' @ py_str_int (cc_post a) @ '' not found'')
                 ''use read_post to check the post exists before replying'', w)
      | Some p \<Rightarrow>
          if thread_full p (comment_total (cc_post a) (wdb w))
          then (failure_hint ''this discussion has wound down - the thread is full''
                 ''look for a fresher post in your feed to join instead'', w)
          else case (case cc_parent a of None \<Rightarrow> None | Some pid \<Rightarrow> reply_problem ctx a pid (wdb w)) of
              Some declined \<Rightarrow> (declined, w)
            | None \<Rightarrow>
                (case fenced_write env ctx (\<lambda>w. create_comment (agent_comment ctx a) (te_now env w)) w of
                   (Invalid msg, w) \<Rightarrow> (failure msg, w)
                 | (Db_Failed, w) \<Rightarrow> (Raised_Other ''IntegrityError'', w)
                 | (Lost, w) \<Rightarrow> (Ownership_Lost, w)
                 | (Written c, w) \<Rightarrow>
                     with_nudge ctx (subdeaddit_name p)
                       [(''ok'', JBool True), (''comment_id'', JInt (item_id c)), (''post_id'', JInt (post_id c))] w))"

section \<open>Subscriptions and finish\<close>

text \<open>The stored state and its subscriptions; a state that is no object raises, and so does a list
  of anything but names.\<close>

definition state_and_subscriptions :: "json \<Rightarrow> ((string \<times> json) list \<times> string list) option" where
  "state_and_subscriptions state =
     (case (if py_truthy state then state else JObj []) of
        JObj kvs \<Rightarrow> map_option (\<lambda>names. (kvs, names)) (name_list (py_or (map_of kvs ''subscriptions'') (JList [])))
      | _ \<Rightarrow> None)"

definition subscribed_names :: "bool \<Rightarrow> string \<Rightarrow> string list \<Rightarrow> string list" where
  "subscribed_names add sub names =
     sort (remdups (if add then (if sub \<in> set names then names else names @ [sub]) else remove1 sub names))"

definition set_subscription :: "tool_env \<Rightarrow> tool_context \<Rightarrow> string \<Rightarrow> bool \<Rightarrow> world \<Rightarrow> tool_outcome \<times> world" where
  "set_subscription env ctx sub add w =
     (case find_row user_name (ctx_user ctx) (users (wdb w)) of
        None \<Rightarrow> (failure (''no such user '' @ quoted (ctx_user ctx)), w)
      | Some u \<Rightarrow>
          if find_row sub_name sub (subdeaddits (wdb w)) = None
          then (failure (''subdeaddit '' @ quoted sub @ '' does not exist''), w)
          else case state_and_subscriptions (agent_state u) of
              None \<Rightarrow> (Raised_Other ''TypeError'', w)
            | Some (kvs, names) \<Rightarrow>
                (let state = JObj (json_set ''subscriptions'' (JList (map JStr (subscribed_names add sub names))) kvs);
                     w = te_others env w in
                 if \<not> ctx_active ctx w then (Ownership_Lost, w)
                 else (Reply [(''ok'', JBool True), (''subdeaddit'', JStr sub),
                       (''detail'', JStr (if add then ''subscribed to'' else ''unsubscribed from''))],
                     on_db (\<lambda>d. d\<lparr>users := update_rows (\<lambda>x. user_name x = ctx_user ctx) (\<lambda>x. x\<lparr>agent_state := state\<rparr>)
                       (users d)\<rparr>) w)))"

definition finish_tool :: "string \<Rightarrow> string option \<Rightarrow> tool_outcome" where
  "finish_tool summary mood =
     Reply ([(''summary'', JStr summary)] @ (case mood of None \<Rightarrow> [] | Some m \<Rightarrow> [(''mood'', JStr m)]))"

section \<open>Dispatch\<close>

definition run_handler :: "tool_env \<Rightarrow> tool_context \<Rightarrow> tool_args \<Rightarrow> world \<Rightarrow> tool_outcome \<times> world" where
  "run_handler env ctx x w =
     (case x of
        Browse_Args a \<Rightarrow> browse_feed env ctx a w
      | Read_Args a \<Rightarrow> read_post env ctx a w
      | Search_Args a \<Rightarrow> search_tool a w
      | Inbox_Args b \<Rightarrow> view_inbox env ctx b w
      | Profile_Args u \<Rightarrow> view_profile ctx u w
      | Post_Args a \<Rightarrow> create_post_tool env ctx a w
      | Image_Args a \<Rightarrow> create_image_tool env ctx a w
      | Website_Args a \<Rightarrow> create_website_tool env ctx a w
      | Comment_Args a \<Rightarrow> create_comment_tool env ctx a w
      | Subscribe_Args s \<Rightarrow> set_subscription env ctx s True w
      | Unsubscribe_Args s \<Rightarrow> set_subscription env ctx s False w
      | Finish_Args s m \<Rightarrow> (finish_tool s m, w))"

end
