(* ===== verification/Executor.thy ===== *)
theory Executor
  imports Writers Degeneracy
begin

text \<open>
  \<open>deaddit/agents/executor.py\<close>: one tool call under all guardrails, with its audit row; and the
  validation of arguments in \<open>deaddit/llm/tools.py\<close> around pydantic. Others may act after the
  run was first found active, before the handler is dispatched, and before the audit row is
  written. An exception that leaves \<open>execute\<close> is \<open>Inl\<close>.
\<close>

section \<open>Rejections\<close>

definition rejection :: "string \<Rightarrow> string option \<Rightarrow> json" where
  "rejection msg hint =
     JObj ([(''ok'', JBool False), (''error'', JStr msg), (''kind'', JStr ''rejected'')] @
       (case hint of None \<Rightarrow> [] | Some h \<Rightarrow> [(''hint'', JStr h)]))"

definition inactive_run_result :: json where
  "inactive_run_result =
     JObj [(''ok'', JBool False), (''error'', JStr ''run is no longer active''), (''kind'', JStr ''rejected''),
       (''force_finish'', JBool True)]"

section \<open>Tier and policy\<close>

definition check_tier :: "agent \<Rightarrow> autonomy_tier \<Rightarrow> string option" where
  "check_tier a required =
     (case parse_tier (autonomy_tier a) of
        None \<Rightarrow> Some (''unknown autonomy tier: '' @ quoted (autonomy_tier a))
      | Some t \<Rightarrow>
          if tier_allows t required then None
          else Some (''tool requires the '' @ quoted (tier_value required) @ '' tier or higher (you are '' @
            quoted (tier_value t) @ '')''))"

definition check_post_policy :: "string \<Rightarrow> agent \<Rightarrow> string \<Rightarrow> string option" where
  "check_post_policy name a intent =
     (if name \<notin> set POST_TOOL_NAMES then None
      else case effective_post_configs a intent of
          (img, web) \<Rightarrow>
            if name \<in> set (offered_post_tool_names img web) then None
            else if name = ''create_image_post'' then Some ''image posts are not enabled for this agent''
            else if name = ''create_website'' then Some ''website posts are not enabled for this agent''
            else if post_enabled img \<and> post_policy img = ''image_only''
            then Some ''this agent may only publish image posts, not text posts''
            else if post_enabled web \<and> post_policy web = ''website_only''
            then Some ''this agent may only publish website posts, not text posts''
            else Some (''no post tool is available for this agent'' @ [CHR 0x27] @ ''s configuration''))"

text \<open>The gates before the arguments are looked at: the first rejection, if any.\<close>

definition early_gates :: "string \<Rightarrow> tool \<Rightarrow> tool_context \<Rightarrow> agent \<Rightarrow> json option" where
  "early_gates name t ctx a =
     (case check_tier a (min_tier t) of
        Some msg \<Rightarrow> Some (rejection msg (Some ''pick a tool within your tier''))
      | None \<Rightarrow>
          (case check_post_policy name a (post_intent ctx) of
             Some msg \<Rightarrow>
               Some (rejection msg
                 (Some (''check your agent'' @ [CHR 0x27] @ ''s image-post/website-post configuration'')))
           | None \<Rightarrow>
               if reserved_intent (post_intent ctx) \<and> name = ''create_comment''
               then Some (rejection (''comments are not available during a reserved '' @ post_intent ctx @ '' post visit'')
                 (Some ''focus on your post or use finish to conclude your visit''))
               else None))"

section \<open>Arguments\<close>

definition parse_raw_arguments :: "tool_env \<Rightarrow> json \<Rightarrow> json" where
  "parse_raw_arguments env raw =
     (case raw of
        JObj kvs \<Rightarrow> JObj kvs
      | JStr s \<Rightarrow> (case te_loads env s of Inr (JObj kvs) \<Rightarrow> JObj kvs | _ \<Rightarrow> JObj [])
      | _ \<Rightarrow> JNull)"

definition model_fields :: "string \<Rightarrow> string list" where
  "model_fields name =
     (if name = ''browse_feed'' then [''subdeaddit'', ''sort'', ''limit'', ''max_age_hours'', ''max_comments'']
      else if name = ''read_post'' then [''post_id'', ''comment_sort'', ''reply_limit'']
      else if name = ''search'' then [''query'', ''type'', ''limit'']
      else if name = ''view_inbox'' then [''unread_only'']
      else if name = ''view_profile'' then [''username'']
      else if name = ''create_post'' then [''subdeaddit'', ''title'', ''content'', ''post_type'']
      else if name = ''create_image_post'' then [''community'', ''title'', ''content'', ''image_prompt'', ''alt_text'', ''post_type'']
      else if name = ''create_website'' then
        [''community'', ''title'', ''content'', ''website_description'', ''hostname_hint'', ''page_name_hint'', ''post_type'']
      else if name = ''create_comment'' then [''post_id'', ''parent_id'', ''content'']
      else if name = ''subscribe'' \<or> name = ''unsubscribe'' then [''subdeaddit'']
      else if name = ''finish'' then [''summary'', ''mood''] else [])"

text \<open>Unexpected keys are named between plain quotes.\<close>

definition validate_tool_args :: "tool_env \<Rightarrow> string \<Rightarrow> json \<Rightarrow> string + tool_args" where
  "validate_tool_args env name raw =
     (case (case raw of JStr s \<Rightarrow> te_loads env s | _ \<Rightarrow> Inr raw) of
        Inl msg \<Rightarrow> Inl (''Tool '' @ quoted name @ '' arguments are not valid JSON: '' @ msg)
      | Inr j \<Rightarrow>
          (let unknown = (case j of JObj kvs \<Rightarrow> filter (\<lambda>k. k \<notin> set (model_fields name)) (map fst kvs) | _ \<Rightarrow> []) in
           if unknown \<noteq> [] then
             Inl (''Tool '' @ quoted name @ '' received unexpected arguments: '' @
               join_with '', '' (sort (map quoted (remdups unknown))))
           else te_validate env name j))"

section \<open>Destinations\<close>

definition post_destination :: "tool_args \<Rightarrow> string option" where
  "post_destination x =
     (case x of
        Post_Args a \<Rightarrow> Some (cp_subdeaddit a)
      | Image_Args a \<Rightarrow> Some (ci_community a)
      | Website_Args a \<Rightarrow> Some (cw_community a)
      | _ \<Rightarrow> None)"

definition check_target_subdeaddit :: "tool_context \<Rightarrow> tool_args \<Rightarrow> string option" where
  "check_target_subdeaddit ctx x =
     (case (target_subdeaddit ctx, post_destination x) of
        (Some target, Some dest) \<Rightarrow>
          if dest = target then None
          else Some (''this visit is reserved for d/'' @ target @ ''; you cannot publish the post in d/'' @ dest)
      | _ \<Rightarrow> None)"

definition check_backstage_rotation :: "tool_context \<Rightarrow> tool_args \<Rightarrow> db \<Rightarrow> string option" where
  "check_backstage_rotation ctx x d =
     (if post_destination x \<noteq> Some BACKSTAGE_SUBDEADDIT_NAME then None
      else case order_desc (\<lambda>p. (created_at p, item_id p)) (filter (in_sub BACKSTAGE_SUBDEADDIT_NAME) (posts d)) of
          [] \<Rightarrow> None
        | p # _ \<Rightarrow> if author p = ctx_user ctx then Some ''another persona must open the next d/BetweenRobots thread'' else None)"

section \<open>Rate caps\<close>

definition RATE_CAPS :: "(string \<times> int) list" where
  "RATE_CAPS = [(''create_post'', 2), (''create_image_post'', 2), (''create_website'', 2), (''create_comment'', 12)]"

definition RATE_WINDOW :: int where
  "RATE_WINDOW = hours 1"

definition RATE_CAP_BUCKETS :: "(string \<times> string) list" where
  "RATE_CAP_BUCKETS =
     [(''create_post'', ''post''), (''create_image_post'', ''post''), (''create_website'', ''post''), (''create_comment'', ''comment'')]"

definition rate_cap_message :: "string \<Rightarrow> string" where
  "rate_cap_message name =
     (if name = ''create_comment'' then ''you''@ [CHR 0x27] @ ''ve commented a lot recently; try again later''
      else ''you''@ [CHR 0x27] @ ''ve posted a lot recently; try again later'')"

fun normalize_caps :: "(string \<times> json) list \<Rightarrow> (string \<times> int) list \<times> string list" where
  "normalize_caps [] = ([], [])"
| "normalize_caps ((k, v) # rest) =
     (case normalize_caps rest of (overrides, problems) \<Rightarrow>
        if k \<notin> {''post'', ''comment'', ''vote''} then (overrides, (''unknown cap '' @ quoted k) # problems)
        else case v of
            JNull \<Rightarrow> (overrides, problems)
          | JInt i \<Rightarrow> if 0 \<le> i then ((k, i) # overrides, problems)
              else (overrides, (''cap '' @ quoted k @ '' must be a whole number >= 0'') # problems)
          | _ \<Rightarrow> (overrides, (''cap '' @ quoted k @ '' must be a whole number >= 0'') # problems))"

text \<open>\<open>Inl\<close> is \<open>ValueError\<close>, which only the strict mode raises.\<close>

definition normalize_persona_rate_caps :: "bool \<Rightarrow> json \<Rightarrow> string + (string \<times> int) list" where
  "normalize_persona_rate_caps strict raw =
     (case raw of
        JObj kvs \<Rightarrow>
          (case normalize_caps kvs of (overrides, problems) \<Rightarrow>
             if strict \<and> problems \<noteq> [] then Inl (join_with ''; '' problems) else Inr overrides)
      | _ \<Rightarrow> if strict then Inl ''rate_caps must be an object'' else Inr [])"

definition persona_rate_cap :: "string \<Rightarrow> tool_context \<Rightarrow> db \<Rightarrow> int option" where
  "persona_rate_cap name ctx d =
     (case map_of RATE_CAPS name of
        None \<Rightarrow> None
      | Some cap \<Rightarrow>
          (let raw = or_null (json_get ''rate_caps'' (state_of (ctx_user ctx) d)) in
           case (map_of RATE_CAP_BUCKETS name, normalize_persona_rate_caps False raw) of
             (Some bucket, Inr overrides) \<Rightarrow> Some (case map_of overrides bucket of None \<Rightarrow> cap | Some n \<Rightarrow> n)
           | _ \<Rightarrow> Some cap))"

definition capped_names :: "string \<Rightarrow> string list" where
  "capped_names name = (if name \<in> set POST_TOOL_NAMES then POST_TOOL_NAMES else [name])"

definition by_persona :: "username \<Rightarrow> db \<Rightarrow> tool_call \<Rightarrow> bool" where
  "by_persona who d c = (case find_run (call_run c) d of None \<Rightarrow> False | Some r \<Rightarrow> persona_username r = who)"

definition recent_calls :: "string \<Rightarrow> username \<Rightarrow> timestamp \<Rightarrow> db \<Rightarrow> int" where
  "recent_calls name who now d =
     count_rows (\<lambda>c. by_persona who d c \<and> call_name c \<in> set (capped_names name) \<and> call_ok c \<and>
       now - RATE_WINDOW \<le> call_created_at c) (tool_calls d)"

definition check_rate_cap :: "string \<Rightarrow> tool_context \<Rightarrow> timestamp \<Rightarrow> db \<Rightarrow> string option" where
  "check_rate_cap name ctx now d =
     (case persona_rate_cap name ctx d of
        None \<Rightarrow> None
      | Some cap \<Rightarrow> if cap \<le> recent_calls name (ctx_user ctx) now d then Some (rate_cap_message name) else None)"

section \<open>Repetition\<close>

text \<open>Lower case, every run of other characters than letters and digits one space.\<close>

definition normalize_content :: "string \<Rightarrow> string" where
  "normalize_content s = join_with '' '' (alnum_words (py_lower s))"

definition DUP_SIMILARITY_THRESHOLD :: rat where
  "DUP_SIMILARITY_THRESHOLD = 17 / 20"

definition DUP_LOOKBACK_HOURS :: int where
  "DUP_LOOKBACK_HOURS = 48"

definition DUP_OWN_LIMIT :: nat where
  "DUP_OWN_LIMIT = 20"

definition DUP_MIN_CANDIDATE_LEN :: nat where
  "DUP_MIN_CANDIDATE_LEN = 25"

definition content_trigrams :: "string \<Rightarrow> string list" where
  "content_trigrams s = remdups (windows3 s)"

text \<open>The text to compare and the community whose recent titles count; \<open>None\<close> skips the check.\<close>

definition duplicate_candidate :: "tool_args \<Rightarrow> (string \<times> string option) option" where
  "duplicate_candidate x =
     (case x of
        Post_Args a \<Rightarrow> Some (normalize_content (cp_title a @ '' '' @ cp_content a), Some (cp_subdeaddit a))
      | Image_Args a \<Rightarrow> Some (normalize_content (ci_title a @ '' '' @ or_empty (ci_content a)), Some (ci_community a))
      | Website_Args a \<Rightarrow> Some (normalize_content (cw_title a @ '' '' @ or_empty (cw_content a)), Some (cw_community a))
      | Comment_Args a \<Rightarrow>
          (let s = normalize_content (cc_content a) in if length s < DUP_MIN_CANDIDATE_LEN then None else Some (s, None))
      | _ \<Rightarrow> None)"

definition recent_titles :: "string \<Rightarrow> username \<Rightarrow> timestamp \<Rightarrow> db \<Rightarrow> string list" where
  "recent_titles sub who now d =
     map (\<lambda>p. normalize_content (title p))
       (newest_posts 100 (\<lambda>p. in_sub sub p \<and> now - hours DUP_LOOKBACK_HOURS \<le> created_at p \<and> author p \<noteq> who) d)"

definition prior_texts :: "username \<Rightarrow> string option \<Rightarrow> timestamp \<Rightarrow> db \<Rightarrow> string list" where
  "prior_texts who sub now d =
     map (\<lambda>p. normalize_content (title p @ '' '' @ or_empty (content p)))
       (take DUP_OWN_LIMIT (order_desc (\<lambda>p. (created_at p, item_id p)) (filter (\<lambda>p. author p = who) (posts d)))) @
     map (\<lambda>c. normalize_content (or_empty (content c)))
       (take DUP_OWN_LIMIT (order_desc (\<lambda>c. (created_at c, item_id c)) (filter (\<lambda>c. author c = who) (comments d)))) @
     (case sub of None \<Rightarrow> [] | Some s \<Rightarrow> if s = [] then [] else recent_titles s who now d)"

definition too_similar :: "string \<Rightarrow> string \<Rightarrow> bool" where
  "too_similar s t = (t \<noteq> [] \<and> DUP_SIMILARITY_THRESHOLD \<le> jaccard (content_trigrams s) (content_trigrams t))"

definition check_duplicate :: "tool_context \<Rightarrow> tool_args \<Rightarrow> timestamp \<Rightarrow> db \<Rightarrow> string option" where
  "check_duplicate ctx x now d =
     (case duplicate_candidate x of
        None \<Rightarrow> None
      | Some (s, sub) \<Rightarrow>
          if list_ex (too_similar s) (prior_texts (ctx_user ctx) sub now d)
          then Some ''too similar to your earlier content; write something new'' else None)"

definition LOOP_WINDOW :: nat where
  "LOOP_WINDOW = 8"

definition signature :: "tool_env \<Rightarrow> string \<Rightarrow> json \<Rightarrow> string" where
  "signature env name args = te_digest env (name @ json_dumps (te_float env) (sort_json (if py_truthy args then args else JObj [])))"

definition same_call :: "tool_env \<Rightarrow> string \<Rightarrow> json \<Rightarrow> tool_call \<Rightarrow> bool" where
  "same_call env name args c =
     (call_name c = name \<and> signature env (call_name c) (call_arguments c) = signature env name args)"

definition run_calls :: "int \<Rightarrow> db \<Rightarrow> tool_call list" where
  "run_calls i d = order_desc call_id (filter (\<lambda>c. call_run c = i) (tool_calls d))"

definition repeat_streak :: "tool_env \<Rightarrow> tool_context \<Rightarrow> string \<Rightarrow> json \<Rightarrow> db \<Rightarrow> nat" where
  "repeat_streak env ctx name args d =
     length (takeWhile (same_call env name args) (take LOOP_WINDOW (run_calls (ctx_run ctx) d)))"

text \<open>The warning and whether the run is forced to finish.\<close>

definition check_loop :: "tool_env \<Rightarrow> tool_context \<Rightarrow> string \<Rightarrow> json \<Rightarrow> db \<Rightarrow> string option \<times> bool" where
  "check_loop env ctx name args d =
     (let streak = repeat_streak env ctx name args d in
      (if streak = 1 then Some ''you are repeating the same action; vary your behaviour'' else None, 2 \<le> streak))"

section \<open>The audit\<close>

definition latest_turn_id :: "int \<Rightarrow> db \<Rightarrow> int option" where
  "latest_turn_id i d =
     (case order_desc turn_seq (filter (\<lambda>t. turn_run t = i) (turns d)) of [] \<Rightarrow> None | t # _ \<Rightarrow> Some (turn_id t))"

definition result_ok :: "json \<Rightarrow> bool" where
  "result_ok r = (case json_get ''ok'' r of None \<Rightarrow> False | Some v \<Rightarrow> py_truthy v)"

definition audit_row :: "tool_env \<Rightarrow> tool_context \<Rightarrow> string \<Rightarrow> json \<Rightarrow> json \<Rightarrow> timestamp \<Rightarrow> db \<Rightarrow> tool_call" where
  "audit_row env ctx name args result now d =
     \<lparr>call_id = next_id call_id (tool_calls d), call_turn = latest_turn_id (ctx_run ctx) d, call_run = ctx_run ctx,
      call_name = name, call_arguments = args, call_result = truncate_result (te_float env) result,
      call_ok = result_ok result,
      call_error = (if result_ok result then None else case json_get ''error'' result of Some (JStr e) \<Rightarrow> Some e | _ \<Rightarrow> None),
      call_created_at = now\<rparr>"

definition persist_and_return :: "tool_env \<Rightarrow> tool_context \<Rightarrow> string \<Rightarrow> json \<Rightarrow> json \<Rightarrow> world \<Rightarrow> (string + json) \<times> world" where
  "persist_and_return env ctx name args result w =
     (if \<not> ctx_active ctx w then (Inr inactive_run_result, w)
      else
        let w = te_others env w in
        if \<not> ctx_active ctx w then (Inr inactive_run_result, w)
        else (Inr result, on_db (\<lambda>d. d\<lparr>tool_calls := tool_calls d @ [audit_row env ctx name args result (te_now env w) d]\<rparr>) w))"

section \<open>One call\<close>

text \<open>The gates over validated arguments: the first rejection, or the warning of the loop check.\<close>

definition late_gates :: "tool_env \<Rightarrow> tool_context \<Rightarrow> string \<Rightarrow> tool_args \<Rightarrow> timestamp \<Rightarrow> db \<Rightarrow> json + string option" where
  "late_gates env ctx name x now d =
     (case check_target_subdeaddit ctx x of
        Some msg \<Rightarrow> Inl (rejection msg (Some (''publish this post in d/'' @ py_str_opt (target_subdeaddit ctx))))
      | None \<Rightarrow>
     (case check_backstage_rotation ctx x d of
        Some msg \<Rightarrow> Inl (rejection msg (Some ''finish this visit without posting''))
      | None \<Rightarrow>
     (case check_rate_cap name ctx now d of
        Some msg \<Rightarrow> Inl (rejection msg (Some ''your limits reset over time''))
      | None \<Rightarrow>
     (case check_duplicate ctx x now d of
        Some msg \<Rightarrow> Inl (rejection msg None)
      | None \<Rightarrow>
     (case check_loop env ctx name (JObj (model_dump x)) d of
        (warning, force) \<Rightarrow>
          if force then
            Inl (JObj [(''ok'', JBool False), (''error'', JStr ''repeating the same action''),
              (''hint'', JStr ''try something different, or use finish to end your run''), (''force_finish'', JBool True)])
          else Inr warning)))))"

definition final_result :: "(string \<times> json) list \<Rightarrow> string option \<Rightarrow> json" where
  "final_result kvs warning =
     (let kvs = (if ''ok'' \<in> fst ` set kvs then kvs else (''ok'', JBool True) # kvs) in
      JObj (case warning of None \<Rightarrow> kvs | Some m \<Rightarrow> json_set ''warning'' (JStr m) kvs))"

definition dispatch_call :: "tool_env \<Rightarrow> tool_context \<Rightarrow> string \<Rightarrow> tool_args \<Rightarrow> string option \<Rightarrow> world \<Rightarrow> (string + json) \<times> world" where
  "dispatch_call env ctx name x warning w =
     (let w = te_others env w; args = JObj (model_dump x) in
      if \<not> ctx_active ctx w then (Inr inactive_run_result, w)
      else case run_handler env ctx x w of
          (Reply kvs, w) \<Rightarrow> persist_and_return env ctx name args (final_result kvs warning) w
        | (Raised_Value msg, w) \<Rightarrow>
            persist_and_return env ctx name args (final_result [(''ok'', JBool False), (''error'', JStr msg)] warning) w
        | (Ownership_Lost, w) \<Rightarrow>
            persist_and_return env ctx name args (final_result [(''ok'', JBool False), (''error'', JStr ''run is no longer active''),
              (''kind'', JStr ''rejected''), (''force_finish'', JBool True)] warning) w
        | (Raised_Other e, w) \<Rightarrow> (Inl e, w))"

definition execute :: "tool_env \<Rightarrow> tool_context \<Rightarrow> string \<Rightarrow> json \<Rightarrow> world \<Rightarrow> (string + json) \<times> world" where
  "execute env ctx name raw w =
     (if \<not> ctx_active ctx w then (Inr inactive_run_result, w)
      else
        let w = te_others env w; args = parse_raw_arguments env raw in
        case get_tool name of
          None \<Rightarrow>
            (let r = rejection (''unknown tool '' @ quoted name) None in
             if name = ''vote'' then (Inr r, w) else persist_and_return env ctx name (JObj []) r w)
        | Some t \<Rightarrow>
            (case find_agent (ctx_agent ctx) (wdb w) of
               None \<Rightarrow> (Inl ''ObjectDeletedError'', w)
             | Some a \<Rightarrow>
                 (case early_gates name t ctx a of
                    Some r \<Rightarrow> persist_and_return env ctx name args r w
                  | None \<Rightarrow>
                      (case validate_tool_args env name raw of
                         Inl hint \<Rightarrow>
                           persist_and_return env ctx name args
                             (rejection (''invalid arguments for '' @ quoted name) (Some hint)) w
                       | Inr x \<Rightarrow>
                           (case late_gates env ctx name x (te_now env w) (wdb w) of
                              Inl r \<Rightarrow> persist_and_return env ctx name (JObj (model_dump x)) r w
                            | Inr warning \<Rightarrow> dispatch_call env ctx name x warning w)))))"

end
