(* ===== verification/Guards.thy ===== *)
theory Guards
  imports Executor
begin

text \<open>
  What the guardrails of \<open>Executor\<close> guarantee: enforcement agrees with what a visit is offered,
  one audit row per call, at most one post per visit, hourly caps, no third repetition, and a
  fence that keeps a lost run from publishing.
\<close>

section \<open>What a handler may touch\<close>

definition run_rows :: "int \<Rightarrow> db \<Rightarrow> tool_call list" where
  "run_rows i d = filter (\<lambda>c. call_run c = i) (tool_calls d)"

definition persona_rows :: "username \<Rightarrow> db \<Rightarrow> tool_call list" where
  "persona_rows who d = filter (\<lambda>c. by_persona who d c \<and> call_ok c) (tool_calls d)"

text \<open>The audit of the run and of its persona is left alone, a lost run stays lost, and time does
  not go back.\<close>

definition frame :: "tool_context \<Rightarrow> world \<Rightarrow> world \<Rightarrow> bool" where
  "frame ctx w w' =
     (run_rows (ctx_run ctx) (wdb w') = run_rows (ctx_run ctx) (wdb w) \<and>
      persona_rows (ctx_user ctx) (wdb w') = persona_rows (ctx_user ctx) (wdb w) \<and>
      (ctx_active ctx w' \<longrightarrow> ctx_active ctx w) \<and> mono_now w \<le> mono_now w')"

text \<open>The environment of a visit: other processes and services leave its audit to the executor.\<close>

definition secluded :: "tool_env \<Rightarrow> tool_context \<Rightarrow> bool" where
  "secluded env ctx =
     (\<forall>w. frame ctx w (te_others env w) \<and>
        (\<forall>img. frame ctx w (snd (te_describe env img w))) \<and>
        (\<forall>p m s. frame ctx w (snd (te_generate_image env p m s w))) \<and>
        (\<forall>g. frame ctx w (snd (te_store_image env g w))) \<and>
        (\<forall>a s i dir. frame ctx w (snd (te_generate_site env a s i dir w))) \<and>
        (\<forall>h. frame ctx w (snd (te_store_site env h w))))"

lemma secludedD:
  assumes "secluded env ctx"
  shows "frame ctx w (te_others env w)" "frame ctx w (snd (te_describe env img w))"
    "frame ctx w (snd (te_generate_image env p m s w))" "frame ctx w (snd (te_store_image env g w))"
    "frame ctx w (snd (te_generate_site env a st i dir w))" "frame ctx w (snd (te_store_site env h w))"
  using assms by (simp_all add: secluded_def)

lemma frame_refl [simp]: "frame ctx w w"
  by (simp add: frame_def)

lemma frame_trans: "frame ctx w w1 \<Longrightarrow> frame ctx w1 w2 \<Longrightarrow> frame ctx w w2"
  by (simp add: frame_def)

lemma frame_posts: "frame ctx w w' \<Longrightarrow> posts_created_this_run ctx (wdb w') = posts_created_this_run ctx (wdb w)"
proof -
  have "posts_created_this_run ctx d =
      count_rows (\<lambda>c. call_name c \<in> set POST_TOOL_NAMES \<and> call_ok c) (run_rows (ctx_run ctx) d)" for d
    by (simp add: posts_created_this_run_def count_rows_def run_rows_def conj_commute conj_left_commute)
  then show "frame ctx w w' \<Longrightarrow> ?thesis" by (simp add: frame_def)
qed

lemma frame_runtime: "runtime_state (wdb w') = runtime_state (wdb w) \<Longrightarrow> mono_now w' = mono_now w \<Longrightarrow> frame ctx w w'"
  by (simp add: frame_def runtime_state_def run_rows_def persona_rows_def ctx_active_def by_persona_def
      find_run_def run_is_active_def)

lemma frame_wdb: "wdb w' = wdb w1 \<Longrightarrow> mono_now w' = mono_now w1 \<Longrightarrow> frame ctx w w' = frame ctx w w1"
  by (simp add: frame_def ctx_active_def)

lemma with_nudge_wdb [simp]: "wdb (snd (with_nudge ctx s r w)) = wdb w" "mono_now (snd (with_nudge ctx s r w)) = mono_now w"
  by (simp_all add: with_nudge_def subscribe_nudge_def Let_def split: option.split sum.split prod.split bool.split)

lemma frame_with_nudge [simp]: "frame ctx w (snd (with_nudge ctx s r w1)) = frame ctx w w1"
  by (rule frame_wdb) simp_all

lemma hooks_runtime [simp]:
  "runtime_state (run_post_hooks p now d) = runtime_state d"
  "runtime_state (run_comment_hooks c now d) = runtime_state d"
  using post_hooks.keeps_runtime [of "(p, now)" d] comment_hooks.keeps_runtime [of "(c, now)" d] by simp_all

lemma runtime_update [simp]:
  "runtime_state (d\<lparr>posts := ps\<rparr>) = runtime_state d" "runtime_state (d\<lparr>comments := cs\<rparr>) = runtime_state d"
  "runtime_state (d\<lparr>images := is\<rparr>) = runtime_state d" "runtime_state (d\<lparr>websites := ws\<rparr>) = runtime_state d"
  "runtime_state (d\<lparr>users := us\<rparr>) = runtime_state d" "runtime_state (d\<lparr>notifications := ns\<rparr>) = runtime_state d"
  "runtime_state (d\<lparr>image_providers := ips\<rparr>) = runtime_state d"
  by (simp_all add: runtime_state_def)

lemma screenshot_runtime [simp]: "runtime_state (attach_website_screenshot pid shot d) = runtime_state d"
  by (simp add: attach_website_screenshot_def split: option.split)

lemma creators_runtime [simp]:
  "runtime_state (snd (create_post r now u d)) = runtime_state d"
  "runtime_state (snd (create_image_post r img now u d)) = runtime_state d"
  "runtime_state (snd (create_comment q now d)) = runtime_state d"
  "runtime_state (fst (snd (create_website_post r site shot now u (d, files)))) = runtime_state d"
  by (simp_all add: create_post_def create_image_post_def create_comment_def create_website_post_def Let_def
      split: option.split)

lemma fenced_write_frame:
  assumes "secluded env ctx" and "\<And>w d. runtime_state (snd (f w d)) = runtime_state d"
  shows "frame ctx w (snd (fenced_write env ctx f w))"
proof -
  let ?w = "te_others env w"
  obtain r d where f: "f ?w (wdb ?w) = (r, d)" by fastforce
  then have "frame ctx ?w (?w\<lparr>wdb := d\<rparr>)" using assms(2) [of ?w "wdb ?w"] by (intro frame_runtime) simp_all
  with secludedD(1) [OF assms(1), of w] frame_trans have "frame ctx w (?w\<lparr>wdb := d\<rparr>)" by blast
  with secludedD(1) [OF assms(1), of w] f show ?thesis
    by (simp add: fenced_write_def Let_def split: sum.split content_error.split)
qed

lemma save_site_frame:
  assumes "secluded env ctx"
  shows "frame ctx w (snd (save_site env ctx a site w))"
proof -
  let ?w = "te_others env w"
  let ?rq = "agent_post ctx (cw_community a) (cw_title a) (cw_content a) (cw_post_type a)"
  obtain r d files where c: "create_website_post ?rq site (te_screenshot env ?w) (te_now env ?w) (te_draw env ?w)
      (wdb ?w, page_files ?w) = (r, d, files)" by (cases rule: prod_cases3)
  then have "runtime_state d = runtime_state (wdb ?w)"
    using creators_runtime(4) by (metis fst_conv snd_conv)
  then have "frame ctx ?w (?w\<lparr>wdb := d, page_files := fs\<rparr>)" for fs by (intro frame_runtime) simp_all
  moreover have "frame ctx ?w (?w\<lparr>page_files := fs\<rparr>)" for fs by (intro frame_runtime) simp_all
  ultimately have "frame ctx w (?w\<lparr>wdb := d, page_files := fs\<rparr>)" "frame ctx w (?w\<lparr>page_files := fs\<rparr>)" for fs
    using secludedD(1) [OF assms, of w] frame_trans by blast+
  with c show ?thesis by (simp add: save_site_def Let_def split: sum.split content_error.split)
qed

lemma default_provider_frame: "frame ctx w (snd (default_provider ctx w))"
  by (auto simp: default_provider_def on_db_def intro: frame_runtime split: option.split list.split)

lemma chosen_provider_frame: "frame ctx w (snd (chosen_provider ctx cfg w))"
  by (simp add: chosen_provider_def default_provider_frame)

lemma publish_image_frame:
  assumes "secluded env ctx"
  shows "frame ctx w (snd (publish_image env ctx a p model w))"
proof -
  obtain style ids where style: "te_image_style env (ctx_run ctx)
      (planned_media_direction env ctx ''image.'' (wdb w)) (ci_prompt a) = (style, ids)" by fastforce
  let ?prompt = "ci_prompt a @ [CHR 0x0A, CHR 0x0A] @ style"
  obtain g w1 where gen: "te_generate_image env p model ?prompt w = (g, w1)" by fastforce
  have f1: "frame ctx w w1" using secludedD(3) [OF assms] gen by (metis snd_conv)
  show ?thesis
  proof (cases g)
    case (Inl e)
    with style gen f1 show ?thesis by (simp add: publish_image_def)
  next
    case g: (Inr gn)
    obtain s w2 where st: "te_store_image env gn w1 = (s, w2)" by fastforce
    have f2: "frame ctx w w2" using secludedD(4) [OF assms] st f1 frame_trans by (metis snd_conv)
    show ?thesis
    proof (cases s)
      case (Inl e)
      with style gen g st f2 show ?thesis by (simp add: publish_image_def)
    next
      case s: (Inr im)
      let ?w = "w2\<lparr>media_files := media_files w2 @ [st_original im, st_thumbnail im]\<rparr>"
      let ?f = "\<lambda>w. create_image_post (agent_post ctx (ci_community a) (ci_title a) (ci_content a) (ci_post_type a))
                  (pending_image a p model ?prompt gn im) (te_now env w) (te_draw env w)"
      obtain r w3 where fw: "fenced_write env ctx ?f ?w = (r, w3)" by fastforce
      have "frame ctx ?w w3" using fenced_write_frame [OF assms, of ?f ?w] fw by simp
      moreover have "frame ctx w ?w" using f2 frame_wdb [of ?w w2] by simp
      ultimately have f3: "frame ctx w w3" using frame_trans by blast
      then have "frame ctx w (delete_variants im w3)" using frame_wdb [of "delete_variants im w3" w3]
        by (simp add: delete_variants_def)
      with f3 style gen g st s fw show ?thesis by (simp add: publish_image_def Let_def split: written.split)
    qed
  qed
qed

lemma publish_site_frame:
  assumes "secluded env ctx"
  shows "frame ctx w (snd (publish_site env ctx a gen w))"
proof -
  have "frame ctx w w2" if "te_store_site env h w = (None, w2)" for h w2
    using secludedD(6) [OF assms, of w h] that by simp
  moreover have "frame ctx w w3"
    if "te_store_site env h w = (Some st, w2)"
      and "save_site env ctx a site (w2\<lparr>page_files := page_files w2 @ [ss_path st]\<rparr>) = (r, w3)" for h st w2 site r w3
  proof -
    have "frame ctx w w2" using secludedD(6) [OF assms, of w h] that by simp
    then have "frame ctx w (w2\<lparr>page_files := page_files w2 @ [ss_path st]\<rparr>)" using frame_wdb [of "w2\<lparr>page_files := page_files w2 @ [ss_path st]\<rparr>" w2] by simp
    with save_site_frame [OF assms, of "w2\<lparr>page_files := page_files w2 @ [ss_path st]\<rparr>" a site] that(2) frame_trans
    show ?thesis by fastforce
  qed
  ultimately show ?thesis
    by (auto simp: publish_site_def Let_def split: option.split prod.split written.split)
qed

lemma set_subscription_frame:
  assumes "secluded env ctx"
  shows "frame ctx w (snd (set_subscription env ctx s add w))"
proof -
  have "frame ctx w (te_others env w)" by (rule secludedD(1) [OF assms])
  moreover from this have "frame ctx w (on_db (\<lambda>d. d\<lparr>users := us\<rparr>) (te_others env w))" for us
    by (rule frame_trans) (simp add: frame_runtime on_db_def)
  ultimately show ?thesis
    by (simp add: set_subscription_def Let_def on_db_def split: option.split prod.split)
qed

lemma handler_frame:
  assumes "secluded env ctx"
  shows "frame ctx w (snd (run_handler env ctx x w))"
proof (cases x)
  case (Browse_Args a)
  then show ?thesis
    by (simp add: run_handler_def browse_feed_def Let_def split: sum.split option.split)
next
  case (Read_Args a)
  have "frame ctx w (snd (load_image_description env ctx img w))" for img
    using secludedD(2) [OF assms, of w img]
    by (auto simp: load_image_description_def Let_def split: prod.split option.split)
  then have "load_image_description env ctx img w = (j, w1) \<Longrightarrow> frame ctx w w1" for img j w1
    by (metis snd_conv)
  with Read_Args show ?thesis
    by (auto simp: run_handler_def read_post_def Let_def split: option.split prod.split)
next
  case (Search_Args a)
  then show ?thesis by (simp add: run_handler_def search_tool_def split: option.split)
next
  case (Inbox_Args b)
  then show ?thesis
    by (auto simp: run_handler_def view_inbox_def mark_inbox_read_def Let_def intro: frame_runtime)
next
  case (Profile_Args u)
  then show ?thesis by (simp add: run_handler_def view_profile_def Let_def)
next
  case (Post_Args a)
  then show ?thesis
    using fenced_write_frame [OF assms, of "\<lambda>w. create_post (agent_post ctx (cp_subdeaddit a) (cp_title a)
        (Some (cp_content a)) (cp_post_type a)) (te_now env w) (te_draw env w)" w]
    by (auto simp: run_handler_def create_post_tool_def split: prod.split written.split)
next
  case (Image_Args a)
  have "frame ctx w (snd (publish_image env ctx a p model w1))" if "chosen_provider ctx cfg w = (r, w1)" for cfg r w1 p model
    using chosen_provider_frame [of ctx w cfg] that publish_image_frame [OF assms] frame_trans by (metis snd_conv)
  moreover have "frame ctx w w1" if "chosen_provider ctx cfg w = (r, w1)" for cfg r w1
    using chosen_provider_frame [of ctx w cfg] that by simp
  ultimately show ?thesis using Image_Args
    by (auto simp: run_handler_def create_image_tool_def Let_def
        split: option.split content_error.split prod.split sum.split)
next
  case (Website_Args a)
  have "frame ctx w (snd (publish_site env ctx a gen w1))" if "te_generate_site env a s i dir w = (r, w1)" for s i dir r w1 gen
    using secludedD(5) [OF assms, of w a s i dir] that publish_site_frame [OF assms] frame_trans by (metis snd_conv)
  moreover have "frame ctx w w1" if "te_generate_site env a s i dir w = (r, w1)" for s i dir r w1
    using secludedD(5) [OF assms, of w a s i dir] that by simp
  ultimately show ?thesis using Website_Args
    by (auto simp: run_handler_def create_website_tool_def Let_def
        split: option.split content_error.split prod.split sum.split site_failure.split)
next
  case (Comment_Args a)
  then show ?thesis
    using fenced_write_frame [OF assms, of "\<lambda>w. create_comment (agent_comment ctx a) (te_now env w)" w]
    by (auto simp: run_handler_def create_comment_tool_def split: prod.split written.split option.split)
next
  case (Subscribe_Args s)
  then show ?thesis by (simp add: run_handler_def set_subscription_frame [OF assms])
next
  case (Unsubscribe_Args s)
  then show ?thesis by (simp add: run_handler_def set_subscription_frame [OF assms])
next
  case (Finish_Args s m)
  then show ?thesis by (simp add: run_handler_def)
qed

section \<open>Enforcement and offer\<close>

text \<open>C25. What the executor enforces is what the visit was offered. For an agent of a known tier
  and any intent of the visit, the gates before the arguments let a registered tool through
  exactly when the tool is among those the visit is offered, so a forged or stale call gains
  nothing and an offered call is never refused there.\<close>

theorem offering_is_enforced:
  assumes "get_tool name = Some t" and "parse_tier (autonomy_tier a) = Some tier"
  shows "early_gates name t ctx a = None \<longleftrightarrow> name \<in> tool_name ` set (tools_for tier (Some a) (post_intent ctx))"
proof -
  have "check_post_policy name a (post_intent ctx) = None \<longleftrightarrow>
      (name \<in> set POST_TOOL_NAMES \<longrightarrow> name \<in> set (offered_for a (post_intent ctx)))"
    by (simp add: check_post_policy_def offered_for_def split: prod.split)
  moreover have "check_tier a (min_tier t) = None \<longleftrightarrow> tier_allows tier (min_tier t)"
    using assms(2) by (simp add: check_tier_def)
  ultimately show ?thesis
    by (auto simp: early_gates_def tools_for_mem [OF assms(1)] split: option.split)
qed

text \<open>A context for examples: agent and run 1, as \<open>bob\<close>.\<close>

definition demo_context :: "string \<Rightarrow> tool_context" where
  "demo_context intent =
     \<lparr>ctx_agent = 1, ctx_run = 1, ctx_user = ''bob'', post_intent = intent, target_subdeaddit = None, ctx_llm_url = None,
      ctx_llm_model = None, ctx_deadline = minutes 5\<rparr>"

theorem offering_is_enforced_witness:
  "map (\<lambda>n. map_option (\<lambda>t. early_gates n t (demo_context ''browse'') media_agent = None) (get_tool n))
     [''create_post'', ''create_image_post'', ''create_website'', ''dance''] = [Some False, Some True, Some False, None] \<and>
   ''create_image_post'' \<in> tool_name ` set (tools_for Regular (Some media_agent) ''browse'')"
proof -
  have tier: "parse_tier (autonomy_tier media_agent) = Some Regular" by code_simp
  have gates: "map (\<lambda>n. map_option (\<lambda>t. early_gates n t (demo_context ''browse'') media_agent = None) (get_tool n))
     [''create_post'', ''create_image_post'', ''create_website'', ''dance''] = [Some False, Some True, Some False, None]"
    by code_simp
  then obtain t where "get_tool ''create_image_post'' = Some t"
    and "early_gates ''create_image_post'' t (demo_context ''browse'') media_agent = None" by auto
  with offering_is_enforced [OF this(1) tier] have
    "''create_image_post'' \<in> tool_name ` set (tools_for Regular (Some media_agent) (post_intent (demo_context ''browse'')))"
    by blast
  with gates show ?thesis by (simp add: demo_context_def)
qed

section \<open>The audit of one call\<close>

lemma persist_cases:
  assumes "secluded env ctx" and "persist_and_return env ctx name args res w = (r, w')"
  obtains (lost) "r = Inr inactive_run_result" "frame ctx w w'" "\<not> ctx_active ctx w'"
  | (stored) w1 where "r = Inr res" "frame ctx w w1" "ctx_active ctx w1"
      "w' = w1\<lparr>wdb := (wdb w1)\<lparr>tool_calls := tool_calls (wdb w1) @
         [audit_row env ctx name args res (te_now env w1) (wdb w1)]\<rparr>\<rparr>"
proof (cases "ctx_active ctx w \<and> ctx_active ctx (te_others env w)")
  case True
  with assms(2) secludedD(1) [OF assms(1), of w] show ?thesis
    by (intro stored [of "te_others env w"]) (auto simp: persist_and_return_def Let_def on_db_def)
next
  case False
  with assms(2) secludedD(1) [OF assms(1), of w] show ?thesis
    by (intro lost) (auto simp: persist_and_return_def Let_def split: if_splits)
qed

lemma rejection_not_ok [simp]: "\<not> result_ok (rejection msg hint)"
  by (simp add: rejection_def result_ok_def)

lemma late_gates_not_ok: "late_gates env ctx name x now d = Inl r \<Longrightarrow> \<not> result_ok r"
  by (auto simp: late_gates_def result_ok_def rejection_def split: option.splits prod.splits if_splits)

lemma early_gates_not_ok: "early_gates name t ctx a = Some r \<Longrightarrow> \<not> result_ok r"
  by (auto simp: early_gates_def result_ok_def rejection_def split: option.splits if_splits)

lemma final_not_ok: "map_of kvs ''ok'' = Some (JBool False) \<Longrightarrow> \<not> result_ok (final_result kvs warning)"
proof -
  assume ok: "map_of kvs ''ok'' = Some (JBool False)"
  then have "''ok'' \<in> fst ` set kvs" by (metis image_eqI map_of_SomeD fst_conv)
  with ok show ?thesis by (simp add: final_result_def Let_def result_ok_def map_of_json_set split: option.split)
qed

text \<open>How a call ends: without a row, refused, or performed by its handler.\<close>

lemma dispatch_cases:
  assumes env: "secluded env ctx" and "dispatch_call env ctx name x warning w = (r, w')"
  obtains (unaudited) "frame ctx w w'" "(r = Inr inactive_run_result \<and> \<not> ctx_active ctx w') \<or> (\<exists>e. r = Inl e)"
  | (refused) res w1 where "r = Inr res" "\<not> result_ok res" "frame ctx w w1" "ctx_active ctx w1"
      "w' = w1\<lparr>wdb := (wdb w1)\<lparr>tool_calls := tool_calls (wdb w1) @
         [audit_row env ctx name (JObj (model_dump x)) res (te_now env w1) (wdb w1)]\<rparr>\<rparr>"
  | (performed) kvs w2 w3 w1 where "r = Inr (final_result kvs warning)" "frame ctx w w2" "ctx_active ctx w2"
      "run_handler env ctx x w2 = (Reply kvs, w3)" "frame ctx w3 w1" "ctx_active ctx w1"
      "w' = w1\<lparr>wdb := (wdb w1)\<lparr>tool_calls := tool_calls (wdb w1) @
         [audit_row env ctx name (JObj (model_dump x)) (final_result kvs warning) (te_now env w1) (wdb w1)]\<rparr>\<rparr>"
proof (cases "ctx_active ctx (te_others env w)")
  case False
  with assms secludedD(1) [OF env, of w] show ?thesis
    by (intro unaudited) (auto simp: dispatch_call_def Let_def)
next
  case active: True
  let ?w = "te_others env w"
  have f: "frame ctx w ?w" by (rule secludedD(1) [OF env])
  obtain out w3 where h: "run_handler env ctx x ?w = (out, w3)" by fastforce
  have f3: "frame ctx w w3" using handler_frame [OF env, of ?w x] h f frame_trans by (metis snd_conv)
  have refusal: thesis
    if "persist_and_return env ctx name (JObj (model_dump x)) (final_result kvs warning) w3 = (r, w')"
      and "map_of kvs ''ok'' = Some (JBool False)" for kvs
    using env that(1)
  proof (cases rule: persist_cases)
    case lost
    with f3 show thesis by (intro unaudited) (blast intro: frame_trans)+
  next
    case (stored w1)
    with f3 that(2) show thesis by (intro refused [of "final_result kvs warning" w1]) (auto intro: frame_trans simp: final_not_ok)
  qed
  show thesis
  proof (cases out)
    case (Reply kvs)
    with assms(2) active h
    have "persist_and_return env ctx name (JObj (model_dump x)) (final_result kvs warning) w3 = (r, w')"
      by (simp add: dispatch_call_def Let_def)
    with env show thesis
    proof (cases rule: persist_cases)
      case lost
      with f3 show thesis by (intro unaudited) (blast intro: frame_trans)+
    next
      case (stored w1)
      with f active h Reply show thesis by (intro performed [of kvs ?w w3 w1]) auto
    qed
  next
    case (Raised_Value msg)
    with assms(2) active h refusal show thesis by (simp add: dispatch_call_def Let_def)
  next
    case Ownership_Lost
    with assms(2) active h refusal show thesis by (simp add: dispatch_call_def Let_def)
  next
    case (Raised_Other e)
    with assms(2) active h f3 show thesis by (intro unaudited) (auto simp: dispatch_call_def Let_def)
  qed
qed

lemma execute_cases:
  assumes env: "secluded env ctx" and "execute env ctx name raw w = (r, w')"
  obtains (unaudited) "frame ctx w w'"
      "(r = Inr inactive_run_result \<and> \<not> ctx_active ctx w') \<or> name = ''vote'' \<or> (\<exists>e. r = Inl e)"
  | (refused) res w1 args where "r = Inr res" "\<not> result_ok res" "frame ctx w w1" "ctx_active ctx w1"
      "w' = w1\<lparr>wdb := (wdb w1)\<lparr>tool_calls := tool_calls (wdb w1) @ [audit_row env ctx name args res (te_now env w1) (wdb w1)]\<rparr>\<rparr>"
  | (performed) x warning kvs w2 w3 w1 where "r = Inr (final_result kvs warning)"
      "validate_tool_args env name raw = Inr x"
      "late_gates env ctx name x (te_now env (te_others env w)) (wdb (te_others env w)) = Inr warning"
      "frame ctx (te_others env w) w2" "ctx_active ctx w2" "run_handler env ctx x w2 = (Reply kvs, w3)"
      "frame ctx w3 w1" "ctx_active ctx w1"
      "w' = w1\<lparr>wdb := (wdb w1)\<lparr>tool_calls := tool_calls (wdb w1) @
         [audit_row env ctx name (JObj (model_dump x)) (final_result kvs warning) (te_now env w1) (wdb w1)]\<rparr>\<rparr>"
proof (cases "ctx_active ctx w")
  case False
  with assms(2) show thesis by (intro unaudited) (auto simp: execute_def)
next
  case active: True
  let ?w = "te_others env w"
  have f: "frame ctx w ?w" by (rule secludedD(1) [OF env])
  have refusal: thesis if "persist_and_return env ctx name args res ?w = (r, w')" and "\<not> result_ok res" for args res
    using env that(1)
  proof (cases rule: persist_cases)
    case lost
    with f show thesis by (intro unaudited) (blast intro: frame_trans)+
  next
    case (stored w1)
    with f that(2) show thesis by (intro refused [of res w1 args]) (auto intro: frame_trans)
  qed
  show thesis
  proof (cases "get_tool name")
    case None
    with assms(2) active f refusal [of "JObj []" "rejection (''unknown tool '' @ quoted name) None"] show thesis
      by (cases "name = ''vote''") (auto simp: execute_def Let_def intro: unaudited)
  next
    case tool: (Some t)
    show thesis
    proof (cases "find_agent (ctx_agent ctx) (wdb ?w)")
      case None
      with assms(2) active f tool show thesis by (intro unaudited) (auto simp: execute_def Let_def)
    next
      case agent: (Some a)
      show thesis
      proof (cases "early_gates name t ctx a")
        case (Some res)
        with assms(2) active tool agent refusal [of "parse_raw_arguments env raw" res] early_gates_not_ok show thesis
          by (simp add: execute_def Let_def)
      next
        case gates: None
        show thesis
        proof (cases "validate_tool_args env name raw")
          case (Inl hint)
          with assms(2) active tool agent gates refusal [of "parse_raw_arguments env raw"
              "rejection (''invalid arguments for '' @ quoted name) (Some hint)"] show thesis
            by (simp add: execute_def Let_def)
        next
          case args: (Inr x)
          show thesis
          proof (cases "late_gates env ctx name x (te_now env ?w) (wdb ?w)")
            case (Inl res)
            with assms(2) active tool agent gates args refusal [of "JObj (model_dump x)" res] late_gates_not_ok show thesis
              by (simp add: execute_def Let_def)
          next
            case late: (Inr warning)
            with assms(2) active tool agent gates args have "dispatch_call env ctx name x warning ?w = (r, w')"
              by (simp add: execute_def Let_def)
            with env show thesis
            proof (cases rule: dispatch_cases)
              case unaudited
              with f show thesis by (intro that(1)) (blast intro: frame_trans)+
            next
              case (refused res w1)
              with f show thesis by (intro that(2) [of res w1 "JObj (model_dump x)"]) (auto intro: frame_trans)
            next
              case (performed kvs w2 w3 w1)
              with args late show thesis by (intro that(3) [of kvs warning x w2 w3 w1]) auto
            qed
          qed
        qed
      qed
    qed
  qed
qed

lemma row_effects:
  assumes "w' = w1\<lparr>wdb := (wdb w1)\<lparr>tool_calls := tool_calls (wdb w1) @ [audit_row env ctx name args res now d]\<rparr>\<rparr>"
  shows "run_rows (ctx_run ctx) (wdb w') = run_rows (ctx_run ctx) (wdb w1) @ [audit_row env ctx name args res now d]"
    "runs (wdb w') = runs (wdb w1)" "content_state (wdb w') = content_state (wdb w1)" "mono_now w' = mono_now w1"
    "ctx_active ctx w' = ctx_active ctx w1"
  using assms by (simp_all add: run_rows_def audit_row_def content_state_def ctx_active_def run_is_active_def find_run_def)

text \<open>C26. Every call of a live run leaves exactly one audit row, whose verdict is that of the
  result the model sees and whose stored result is that result, truncated; the exceptions are
  the retired vote tool, a run that was lost meanwhile (which is then told so and forced to
  finish) and an exception that leaves the executor.\<close>

theorem one_audit_row:
  assumes "secluded env ctx" and "execute env ctx name raw w = (r, w')"
  shows "(\<exists>row res. run_rows (ctx_run ctx) (wdb w') = run_rows (ctx_run ctx) (wdb w) @ [row] \<and> r = Inr res \<and>
       call_name row = name \<and> call_ok row = result_ok res \<and> call_result row = truncate_result (te_float env) res) \<or>
    (run_rows (ctx_run ctx) (wdb w') = run_rows (ctx_run ctx) (wdb w) \<and>
       (name = ''vote'' \<or> (r = Inr inactive_run_result \<and> \<not> ctx_active ctx w') \<or> (\<exists>e. r = Inl e)))"
  using assms
proof (cases rule: execute_cases)
  case unaudited
  then show ?thesis by (auto simp: frame_def)
next
  case (refused res w1 args)
  have "run_rows (ctx_run ctx) (wdb w1) = run_rows (ctx_run ctx) (wdb w)" using refused(3) by (simp add: frame_def)
  with refused row_effects(1) [OF refused(5)] show ?thesis by (auto simp: audit_row_def)
next
  case (performed x warning kvs w2 w3 w1)
  have "frame ctx w w1"
    using secludedD(1) [OF assms(1), of w] performed(4,7) handler_frame [OF assms(1), of w2 x] performed(6) frame_trans
    by (metis snd_conv)
  then have "run_rows (ctx_run ctx) (wdb w1) = run_rows (ctx_run ctx) (wdb w)" by (simp add: frame_def)
  with performed row_effects(1) [OF performed(9)] show ?thesis by (auto simp: audit_row_def)
qed

section \<open>What one visit may do\<close>

text \<open>Calls of one run, oldest first: their keys ascend, at most one of them published a post, and
  no call that repeats the two before it was let through.\<close>

definition repeats :: "tool_env \<Rightarrow> tool_call \<Rightarrow> tool_call \<Rightarrow> bool" where
  "repeats env c c' = same_call env (call_name c) (call_arguments c) c'"

fun no_third :: "tool_env \<Rightarrow> tool_call list \<Rightarrow> bool" where
  "no_third env (a # b # c # cs) =
     (\<not> (call_ok a \<and> repeats env a b \<and> repeats env a c) \<and> no_third env (b # c # cs))"
| "no_third env _ = True"

definition publishes :: "tool_call \<Rightarrow> bool" where
  "publishes c = (call_name c \<in> set POST_TOOL_NAMES \<and> call_ok c)"

definition visit_audit :: "tool_env \<Rightarrow> tool_call list \<Rightarrow> bool" where
  "visit_audit env rows =
     (sorted_wrt (<) (map call_id rows) \<and> count_rows publishes rows \<le> 1 \<and> no_third env (rev rows))"

lemma sorted_rows_desc: "sorted_wrt (<) (map key rows) \<Longrightarrow> order_desc (key :: _ \<Rightarrow> int) rows = rev rows"
  by (simp add: order_desc_def sorted_sort_id sort_key_id_if_sorted strict_sorted_imp_sorted)

lemma run_calls_rev:
  assumes "visit_audit env (run_rows i d)"
  shows "run_calls i d = rev (run_rows i d)"
  using assms sorted_rows_desc [of call_id "run_rows i d"] by (simp add: run_calls_def visit_audit_def run_rows_def)

lemma repeat_forces:
  assumes "visit_audit env (run_rows (ctx_run ctx) d)" and "rev (run_rows (ctx_run ctx) d) = b # a # rest"
    and "same_call env name args b" and "same_call env name args a"
  shows "snd (check_loop env ctx name args d)"
  using assms by (simp add: check_loop_def Let_def repeat_streak_def run_calls_rev LOOP_WINDOW_def)

lemma late_gates_InrD:
  assumes "late_gates env ctx name x now d = Inr warning"
  shows "\<not> snd (check_loop env ctx name (JObj (model_dump x)) d)" "check_rate_cap name ctx now d = None"
    "check_target_subdeaddit ctx x = None" "check_backstage_rotation ctx x d = None" "check_duplicate ctx x now d = None"
  using assms by (auto simp: late_gates_def split: option.splits prod.splits if_splits)

lemma post_budget_spent:
  "1 \<le> posts_created_this_run ctx (wdb w) \<Longrightarrow> tool_of x \<in> set POST_TOOL_NAMES \<Longrightarrow>
   run_handler env ctx x w = (one_post_per_visit, w)"
  by (cases x) (simp_all add: tool_of_def POST_TOOL_NAMES_def run_handler_def create_post_tool_def
      create_image_tool_def create_website_tool_def)

lemma validate_InrD: "validate_tool_args env name raw = Inr x \<Longrightarrow> \<exists>j. te_validate env name j = Inr x"
  by (auto simp: validate_tool_args_def Let_def split: json.splits sum.splits if_splits)

text \<open>The contract of pydantic: a validated call has the argument model of its tool.\<close>

definition typed :: "tool_env \<Rightarrow> bool" where
  "typed env = (\<forall>name j x. te_validate env name j = Inr x \<longrightarrow> tool_of x = name)"

lemma run_rows_posts: "posts_created_this_run ctx d = count_rows publishes (run_rows (ctx_run ctx) d)"
  by (simp add: posts_created_this_run_def count_rows_def run_rows_def publishes_def conj_commute conj_left_commute)

lemma visit_audit_append:
  assumes "visit_audit env rows" and "\<forall>c \<in> set rows. call_id c < call_id row"
    and "publishes row \<longrightarrow> count_rows publishes rows = 0"
    and "\<And>b a rest. rev rows = b # a # rest \<Longrightarrow> \<not> (call_ok row \<and> repeats env row b \<and> repeats env row a)"
  shows "visit_audit env (rows @ [row])"
proof -
  have "no_third env (row # rev rows)"
    using assms(1,4) by (cases "rev rows"; cases "tl (rev rows)") (auto simp: visit_audit_def)
  with assms show ?thesis by (auto simp: visit_audit_def sorted_wrt_append)
qed

text \<open>Whatever the model asks for and whatever the handlers, the other processes and the
  generators do: at most one call of a visit is recorded as having published, through any of the
  three post tools, and no call is let through that repeats the name and arguments of the two
  calls before it. The invariant of the audit is kept by every call.\<close>

lemma visit_audit_kept:
  assumes env: "secluded env ctx" and "typed env" and audit: "visit_audit env (run_rows (ctx_run ctx) (wdb w))"
    and "execute env ctx name raw w = (r, w')"
  shows "visit_audit env (run_rows (ctx_run ctx) (wdb w'))"
  using assms(1,4)
proof (cases rule: execute_cases)
  case unaudited
  with audit show ?thesis by (simp add: frame_def)
next
  case (refused res w1 args)
  let ?row = "audit_row env ctx name args res (te_now env w1) (wdb w1)"
  have rows: "run_rows (ctx_run ctx) (wdb w1) = run_rows (ctx_run ctx) (wdb w)" using refused(3) by (simp add: frame_def)
  have "visit_audit env (run_rows (ctx_run ctx) (wdb w1) @ [?row])"
  proof (rule visit_audit_append)
    show "\<forall>c \<in> set (run_rows (ctx_run ctx) (wdb w1)). call_id c < call_id ?row"
      by (auto simp: run_rows_def audit_row_def next_id_gt)
  qed (use audit rows refused(2) in \<open>simp_all add: publishes_def audit_row_def\<close>)
  then show ?thesis using row_effects(1) [OF refused(5)] by simp
next
  case (performed x warning kvs w2 w3 w1)
  let ?res = "final_result kvs warning" and ?args = "JObj (model_dump x)"
  let ?row = "audit_row env ctx name ?args ?res (te_now env w1) (wdb w1)"
  have f0: "frame ctx w (te_others env w)" by (rule secludedD(1) [OF env])
  have f2: "frame ctx w w2" using f0 performed(4) by (rule frame_trans)
  have f1: "frame ctx w w1"
    using f2 performed(7) handler_frame [OF env, of w2 x] performed(6) frame_trans by (metis snd_conv)
  have rows: "run_rows (ctx_run ctx) (wdb w1) = run_rows (ctx_run ctx) (wdb w)"
    "run_rows (ctx_run ctx) (wdb (te_others env w)) = run_rows (ctx_run ctx) (wdb w)"
    "run_rows (ctx_run ctx) (wdb w2) = run_rows (ctx_run ctx) (wdb w)"
    using f1 f0 f2 by (simp_all add: frame_def)
  have "visit_audit env (run_rows (ctx_run ctx) (wdb w1) @ [?row])"
  proof (rule visit_audit_append)
    show "visit_audit env (run_rows (ctx_run ctx) (wdb w1))" using audit rows by simp
    show "\<forall>c \<in> set (run_rows (ctx_run ctx) (wdb w1)). call_id c < call_id ?row"
      by (auto simp: run_rows_def audit_row_def next_id_gt)
    show "publishes ?row \<longrightarrow> count_rows publishes (run_rows (ctx_run ctx) (wdb w1)) = 0"
    proof
      assume p: "publishes ?row"
      have "tool_of x = name" using validate_InrD [OF performed(2)] assms(2) by (auto simp: typed_def)
      with p have name: "tool_of x \<in> set POST_TOOL_NAMES" by (simp add: publishes_def audit_row_def)
      have "\<not> 1 \<le> posts_created_this_run ctx (wdb w2)"
      proof
        assume "1 \<le> posts_created_this_run ctx (wdb w2)"
        from post_budget_spent [OF this name, of env] performed(6) have "one_post_per_visit = Reply kvs" by simp
        then have "map_of kvs ''ok'' = Some (JBool False)" by (auto simp: one_post_per_visit_def failure_hint_def)
        with p show False by (simp add: publishes_def audit_row_def final_not_ok)
      qed
      then have "\<not> 1 \<le> count_rows publishes (run_rows (ctx_run ctx) (wdb w1))" using rows by (simp add: run_rows_posts)
      then show "count_rows publishes (run_rows (ctx_run ctx) (wdb w1)) = 0"
        using count_rows_nonneg [of publishes "run_rows (ctx_run ctx) (wdb w1)"] by linarith
    qed
    fix b a rest
    assume "rev (run_rows (ctx_run ctx) (wdb w1)) = b # a # rest"
    with repeat_forces [of env ctx "wdb (te_others env w)" b a rest name ?args] rows audit late_gates_InrD(1) [OF performed(3)]
    show "\<not> (call_ok ?row \<and> repeats env ?row b \<and> repeats env ?row a)"
      by (auto simp: repeats_def audit_row_def)
  qed
  then show ?thesis using row_effects(1) [OF performed(9)] by simp
qed

section \<open>Hourly caps\<close>

definition bucket_rows :: "string \<Rightarrow> username \<Rightarrow> db \<Rightarrow> tool_call list" where
  "bucket_rows b who d = filter (\<lambda>c. call_name c \<in> set (capped_names b)) (persona_rows who d)"

text \<open>In the hour up to each call there were at most so many.\<close>

definition call_pace :: "int \<Rightarrow> tool_call list \<Rightarrow> bool" where
  "call_pace cap rows =
     list_all (\<lambda>c. count_rows (\<lambda>c'. call_created_at c - RATE_WINDOW \<le> call_created_at c' \<and>
       call_created_at c' \<le> call_created_at c) rows \<le> cap) rows"

lemma RATE_WINDOW_pos: "0 < RATE_WINDOW"
  by (simp add: RATE_WINDOW_def duration_defs)

lemma count_rows_mono: "(\<And>r. r \<in> set rows \<Longrightarrow> p r \<Longrightarrow> q r) \<Longrightarrow> count_rows p rows \<le> count_rows q rows"
  by (induction rows) auto

lemma call_pace_append:
  assumes "call_pace cap rows" and "\<forall>c \<in> set rows. call_created_at c \<le> t0" and "t0 \<le> now" and "now \<le> call_created_at row"
    and "count_rows (\<lambda>c. now - RATE_WINDOW \<le> call_created_at c) rows < cap"
  shows "call_pace cap (rows @ [row])"
proof -
  let ?in = "\<lambda>c c'. call_created_at c - RATE_WINDOW \<le> call_created_at c' \<and> call_created_at c' \<le> call_created_at c"
  have recent: "count_rows (?in c) rows < cap" if "call_created_at row \<le> call_created_at c" for c
  proof -
    have "count_rows (?in c) rows \<le> count_rows (\<lambda>c. now - RATE_WINDOW \<le> call_created_at c) rows"
      using that assms(4) by (intro count_rows_mono) auto
    with assms(5) show ?thesis by simp
  qed
  have "count_rows (?in c) (rows @ [row]) \<le> cap" if "c \<in> set rows" for c
  proof (cases "call_created_at row \<le> call_created_at c")
    case True
    from recent [OF this] show ?thesis by simp
  next
    case False
    with assms(1) that show ?thesis by (simp add: call_pace_def list_all_iff)
  qed
  moreover have "count_rows (?in row) (rows @ [row]) \<le> cap" using recent [of row] by simp
  ultimately show ?thesis by (simp add: call_pace_def list_all_iff)
qed

lemma bucket_rows_append:
  assumes "w' = w1\<lparr>wdb := (wdb w1)\<lparr>tool_calls := tool_calls (wdb w1) @ [row]\<rparr>\<rparr>"
  shows "bucket_rows b who (wdb w') = bucket_rows b who (wdb w1) \<or>
    (call_ok row \<and> call_name row \<in> set (capped_names b) \<and> bucket_rows b who (wdb w') = bucket_rows b who (wdb w1) @ [row])"
  using assms by (auto simp: bucket_rows_def persona_rows_def by_persona_def find_run_def)

lemma frame_bucket: "frame ctx w w' \<Longrightarrow> bucket_rows b (ctx_user ctx) (wdb w') = bucket_rows b (ctx_user ctx) (wdb w)"
  by (simp add: frame_def bucket_rows_def)

lemma capped_names_same:
  assumes "b \<in> fst ` set RATE_CAPS" and "name \<in> set (capped_names b)"
  shows "capped_names name = capped_names b" "persona_rate_cap name ctx d = persona_rate_cap b ctx d"
proof -
  have cap: "map_of RATE_CAPS n = Some 2" "map_of RATE_CAP_BUCKETS n = Some ''post''" if "n \<in> set POST_TOOL_NAMES" for n
    using that by (auto simp: RATE_CAPS_def RATE_CAP_BUCKETS_def POST_TOOL_NAMES_def)
  have "name \<in> set POST_TOOL_NAMES \<and> b \<in> set POST_TOOL_NAMES \<or> name = b"
    using assms(2) by (auto simp: capped_names_def split: if_splits)
  then show "capped_names name = capped_names b" "persona_rate_cap name ctx d = persona_rate_cap b ctx d"
    by (auto simp: capped_names_def persona_rate_cap_def cap)
qed

lemma recent_calls_bucket:
  "recent_calls name who now d = count_rows (\<lambda>c. now - RATE_WINDOW \<le> call_created_at c) (bucket_rows name who d)"
  by (simp add: recent_calls_def bucket_rows_def persona_rows_def count_rows_def conj_commute conj_left_commute)

text \<open>A wall clock that follows the monotonic one.\<close>

definition clocked :: "tool_env \<Rightarrow> bool" where
  "clocked env = (\<forall>w w'. mono_now w \<le> mono_now w' \<longrightarrow> te_now env w \<le> te_now env w')"

text \<open>C8. The hourly caps bind, for the persona's own override as for the default, across every
  tool that draws on the same bucket and every run of the persona: if in the hour up to each
  accepted call there were at most \<open>K\<close>, and the cap in force now is at most \<open>K\<close>, the same holds
  after one more call of any tool.\<close>

theorem hourly_caps_bind:
  assumes env: "secluded env ctx" and clock: "clocked env" and b: "b \<in> fst ` set RATE_CAPS"
    and cap: "persona_rate_cap b ctx (wdb (te_others env w)) = Some k" "k \<le> K"
    and pace: "call_pace K (bucket_rows b (ctx_user ctx) (wdb w))"
    and past: "\<forall>c \<in> set (bucket_rows b (ctx_user ctx) (wdb w)). call_created_at c \<le> te_now env w"
    and run: "execute env ctx name raw w = (r, w')"
  shows "call_pace K (bucket_rows b (ctx_user ctx) (wdb w')) \<and>
    (\<forall>c \<in> set (bucket_rows b (ctx_user ctx) (wdb w')). call_created_at c \<le> te_now env w')"
  using env run
proof (cases rule: execute_cases)
  case unaudited
  have "te_now env w \<le> te_now env w'" using clock unaudited(1) by (simp add: clocked_def frame_def)
  with pace past frame_bucket [OF unaudited(1), of b] show ?thesis by fastforce
next
  case (refused res w1 args)
  have "te_now env w \<le> te_now env w'"
    using clock refused(3) row_effects(4) [OF refused(5)] by (simp add: clocked_def frame_def)
  moreover have "bucket_rows b (ctx_user ctx) (wdb w') = bucket_rows b (ctx_user ctx) (wdb w)"
    using bucket_rows_append [OF refused(5), of b "ctx_user ctx"] refused(2) frame_bucket [OF refused(3)]
    by (auto simp: audit_row_def)
  ultimately show ?thesis using pace past by fastforce
next
  case (performed x warning kvs w2 w3 w1)
  let ?row = "audit_row env ctx name (JObj (model_dump x)) (final_result kvs warning) (te_now env w1) (wdb w1)"
  let ?w = "te_others env w"
  have f0: "frame ctx w ?w" by (rule secludedD(1) [OF env])
  have "frame ctx ?w w1"
    using performed(4,7) handler_frame [OF env, of w2 x] performed(6) frame_trans by (metis snd_conv)
  with f0 have f1: "frame ctx w w1" by (rule frame_trans)
  have times: "te_now env w \<le> te_now env ?w" "te_now env ?w \<le> te_now env w1" "te_now env w1 \<le> te_now env w'"
    using clock f0 \<open>frame ctx ?w w1\<close> row_effects(4) [OF performed(9)] by (simp_all add: clocked_def frame_def)
  have rows: "bucket_rows b (ctx_user ctx) (wdb w1) = bucket_rows b (ctx_user ctx) (wdb w)"
    by (rule frame_bucket [OF f1])
  consider (same) "bucket_rows b (ctx_user ctx) (wdb w') = bucket_rows b (ctx_user ctx) (wdb w)"
    | (new) "name \<in> set (capped_names b)"
        "bucket_rows b (ctx_user ctx) (wdb w') = bucket_rows b (ctx_user ctx) (wdb w) @ [?row]"
    using bucket_rows_append [OF performed(9), of b "ctx_user ctx"] rows by (auto simp: audit_row_def)
  then show ?thesis
  proof cases
    case same
    with pace past times show ?thesis by fastforce
  next
    case new
    have "recent_calls name (ctx_user ctx) (te_now env ?w) (wdb ?w) < k"
      using late_gates_InrD(2) [OF performed(3)] capped_names_same(2) [OF b new(1), of ctx "wdb ?w"] cap(1)
      by (auto simp: check_rate_cap_def split: if_splits)
    moreover have "bucket_rows name (ctx_user ctx) (wdb ?w) = bucket_rows b (ctx_user ctx) (wdb w)"
      using frame_bucket [OF f0, of b] capped_names_same(1) [OF b new(1)] by (simp add: bucket_rows_def)
    ultimately have "count_rows (\<lambda>c. te_now env ?w - RATE_WINDOW \<le> call_created_at c)
        (bucket_rows b (ctx_user ctx) (wdb w)) < K" using cap(2) by (simp add: recent_calls_bucket)
    with call_pace_append [OF pace past times(1), of ?row] times(2)
    have "call_pace K (bucket_rows b (ctx_user ctx) (wdb w'))" using new(2) by (simp add: audit_row_def)
    with new(2) past times show ?thesis by (fastforce simp: audit_row_def)
  qed
qed

section \<open>The fence and the files\<close>

definition still :: "world \<Rightarrow> world \<Rightarrow> bool" where
  "still w w' =
     (content_state (wdb w') = content_state (wdb w) \<and> media_files w' = media_files w \<and> page_files w' = page_files w)"

text \<open>An environment that leaves the content and the files alone and stores under new names. It
  may still take the run away at any time.\<close>

definition settled :: "tool_env \<Rightarrow> bool" where
  "settled env =
     (\<forall>w. still w (te_others env w) \<and> (\<forall>img. still w (snd (te_describe env img w))) \<and>
        (\<forall>p m s. still w (snd (te_generate_image env p m s w))) \<and> (\<forall>g. still w (snd (te_store_image env g w))) \<and>
        (\<forall>a s i dir. still w (snd (te_generate_site env a s i dir w))) \<and> (\<forall>h. still w (snd (te_store_site env h w))) \<and>
        (\<forall>g s. fst (te_store_image env g w) = Inr s \<longrightarrow>
           st_original s \<notin> set (media_files w) \<and> st_thumbnail s \<notin> set (media_files w)) \<and>
        (\<forall>h s. fst (te_store_site env h w) = Some s \<longrightarrow> ss_path s \<notin> set (page_files w)))"

lemma settledD:
  assumes "settled env"
  shows "still w (te_others env w)" "te_describe env img w = (x1, w') \<Longrightarrow> still w w'"
    "te_generate_image env p m s w = (x2, w') \<Longrightarrow> still w w'" "te_store_image env g w = (x3, w') \<Longrightarrow> still w w'"
    "te_generate_site env a st i dir w = (x4, w') \<Longrightarrow> still w w'" "te_store_site env h w = (x5, w') \<Longrightarrow> still w w'"
    "te_store_image env g w = (Inr si, w') \<Longrightarrow> st_original si \<notin> set (media_files w) \<and> st_thumbnail si \<notin> set (media_files w)"
    "te_store_site env h w = (Some ss, w') \<Longrightarrow> ss_path ss \<notin> set (page_files w)"
  using assms unfolding settled_def by (metis fst_conv snd_conv)+

lemma still_refl [simp]: "still w w"
  by (simp add: still_def)

lemma still_trans: "still w w1 \<Longrightarrow> still w1 w2 \<Longrightarrow> still w w2"
  by (simp add: still_def)

lemma stillD:
  assumes "still w w'"
  shows "posts (wdb w') = posts (wdb w)" "images (wdb w') = images (wdb w)" "websites (wdb w') = websites (wdb w)"
    "media_files w' = media_files w" "page_files w' = page_files w"
  using assms by (simp_all add: still_def content_state_def)

definition refused_reply :: "tool_outcome \<Rightarrow> bool" where
  "refused_reply out = (case out of Reply kvs \<Rightarrow> map_of kvs ''ok'' = Some (JBool False) | _ \<Rightarrow> True)"

lemma failures_refused [simp]:
  "refused_reply (failure m)" "refused_reply (failure_hint m h)" "refused_reply one_post_per_visit"
  "refused_reply (no_such_community s)" "refused_reply (billed_failure m)" "refused_reply Ownership_Lost"
  "refused_reply (Raised_Other e)" "refused_reply (Raised_Value v)"
  by (simp_all add: refused_reply_def failure_def failure_hint_def one_post_per_visit_def no_such_community_def
      billed_failure_def)

lemma fenced_image:
  assumes "settled env" and "fenced_write env ctx (\<lambda>w. create_image_post rq img (now w) (u w)) w = (res, w')"
  shows "case res of
      Written p \<Rightarrow> posts (wdb w') = posts (wdb w) @ [p] \<and> images (wdb w') = images (wdb w) @ [img\<lparr>image_post := item_id p\<rparr>] \<and>
        websites (wdb w') = websites (wdb w) \<and> media_files w' = media_files w \<and> page_files w' = page_files w
    | _ \<Rightarrow> still w w'"
proof -
  note others = settledD(1) [OF assms(1), of w] stillD [OF settledD(1) [OF assms(1), of w]]
  from assms(2) others show ?thesis
    by (auto simp: fenced_write_def create_image_post_def Let_def split: option.splits content_error.splits if_splits)
qed

lemma publish_image_atomic:
  assumes env: "settled env" and "publish_image env ctx a p model w = (out, w')"
  shows "(\<exists>q img. posts (wdb w') = posts (wdb w) @ [q] \<and> images (wdb w') = images (wdb w) @ [img] \<and>
       image_post img = item_id q \<and> media_files w' = media_files w @ [original_path img, thumbnail_path img] \<and>
       websites (wdb w') = websites (wdb w) \<and> page_files w' = page_files w \<and> \<not> refused_reply out) \<or>
    still w w' \<and> refused_reply out"
proof -
  obtain style ids where style: "te_image_style env (ctx_run ctx)
      (planned_media_direction env ctx ''image.'' (wdb w)) (ci_prompt a) = (style, ids)" by fastforce
  let ?prompt = "ci_prompt a @ [CHR 0x0A, CHR 0x0A] @ style"
  obtain g w1 where gen: "te_generate_image env p model ?prompt w = (g, w1)" by fastforce
  have s1: "still w w1" by (rule settledD(3) [OF env gen])
  show ?thesis
  proof (cases g)
    case (Inl e)
    with assms(2) style gen s1 show ?thesis by (auto simp: publish_image_def)
  next
    case g: (Inr gn)
    obtain s w2 where st: "te_store_image env gn w1 = (s, w2)" by fastforce
    have s2: "still w w2" using s1 settledD(4) [OF env st] by (rule still_trans)
    show ?thesis
    proof (cases s)
      case (Inl e)
      with assms(2) style gen g st s2 show ?thesis by (auto simp: publish_image_def)
    next
      case s: (Inr im)
      let ?img = "pending_image a p model ?prompt gn im"
      let ?w = "w2\<lparr>media_files := media_files w2 @ [st_original im, st_thumbnail im]\<rparr>"
      let ?f = "\<lambda>w. create_image_post (agent_post ctx (ci_community a) (ci_title a) (ci_content a) (ci_post_type a))
                  ?img (te_now env w) (te_draw env w)"
      obtain r w3 where fw: "fenced_write env ctx ?f ?w = (r, w3)" by fastforce
      note atomic = fenced_image [OF env, of ctx "agent_post ctx (ci_community a) (ci_title a) (ci_content a) (ci_post_type a)"
          ?img "te_now env" "te_draw env" ?w r w3, OF fw]
      have paths: "original_path (?img\<lparr>image_post := i\<rparr>) = st_original im" "thumbnail_path (?img\<lparr>image_post := i\<rparr>) = st_thumbnail im"
        for i by (simp_all add: pending_image_def)
      have new: "st_original im \<notin> set (media_files w)" "st_thumbnail im \<notin> set (media_files w)"
        using settledD(7) [OF env, of gn w1 im w2] st s stillD(4) [OF s1] by simp_all
      show ?thesis
      proof (cases "\<exists>q. r = Written q")
        case True
        then obtain q where q: "r = Written q" by blast
        then have "posts (wdb w3) = posts (wdb w) @ [q] \<and> images (wdb w3) = images (wdb w) @ [?img\<lparr>image_post := item_id q\<rparr>] \<and>
            websites (wdb w3) = websites (wdb w) \<and> page_files w3 = page_files w \<and>
            media_files w3 = media_files w @ [st_original im, st_thumbnail im]"
          using atomic stillD [OF s2] by simp
        moreover have "w' = w3" "\<not> refused_reply out"
          using assms(2) style gen g st s fw q by (auto simp: publish_image_def Let_def refused_reply_def post_done_def)
        ultimately show ?thesis using paths by (metis post_image.select_convs(1) post_image.surjective post_image.update_convs(1))
      next
        case False
        then have "still ?w w3" using atomic by (cases r) auto
        moreover have "w' = delete_variants im w3 \<and> refused_reply out"
          using assms(2) style gen g st s fw False by (cases r) (auto simp: publish_image_def Let_def)
        moreover have "filter (\<lambda>f. f \<noteq> st_original im \<and> f \<noteq> st_thumbnail im) (media_files w) = media_files w"
          using new by (intro filter_True) auto
        ultimately show ?thesis using s2 by (auto simp: still_def delete_variants_def)
      qed
    qed
  qed
qed

lemma save_site_atomic:
  assumes env: "settled env" and "save_site env ctx a site w = (res, w')"
  shows "case res of
      Written p \<Rightarrow> posts (wdb w') = posts (wdb w) @ [p] \<and>
        websites (wdb w') = websites (wdb w) @ [site\<lparr>site_id := next_id site_id (websites (wdb w)), site_post := item_id p\<rparr>] \<and>
        media_files w' = media_files w \<and> page_files w' = page_files w
    | _ \<Rightarrow> content_state (wdb w') = content_state (wdb w) \<and> media_files w' = media_files w \<and>
        page_files w' = removeAll (storage_path site) (page_files w)"
proof -
  note others = settledD(1) [OF env, of w, unfolded still_def] stillD [OF settledD(1) [OF env, of w]]
  from assms(2) others show ?thesis
    by (auto simp: save_site_def create_website_post_def Let_def split: option.splits content_error.splits if_splits)
qed

lemma publish_site_atomic:
  assumes env: "settled env" and "publish_site env ctx a gen w = (out, w')"
  shows "(\<exists>q site. posts (wdb w') = posts (wdb w) @ [q] \<and> websites (wdb w') = websites (wdb w) @ [site] \<and>
       site_post site = item_id q \<and> \<not> is_public_path_taken (wdb w) (public_path site) \<and>
       page_files w' = page_files w @ [storage_path site] \<and> media_files w' = media_files w \<and> \<not> refused_reply out) \<or>
    still w w' \<and> refused_reply out"
proof (cases "normalize_hostname_hint (cw_hostname a)")
  case None
  with assms(2) show ?thesis by (auto simp: publish_site_def split: option.splits)
next
  case host: (Some host)
  show ?thesis
  proof (cases "normalize_page_name_hint (cw_page a)")
    case None
    with assms(2) host show ?thesis by (auto simp: publish_site_def)
  next
    case page: (Some page)
    show ?thesis
    proof (cases "allocate_public_path host page (te_token env w) (is_public_path_taken (wdb w))")
      case None
      with assms(2) host page show ?thesis by (auto simp: publish_site_def)
    next
      case path: (Some path)
      obtain st w2 where store: "te_store_site env (site_html gen) w = (st, w2)" by fastforce
      have s2: "still w w2" by (rule settledD(6) [OF env store])
      have free: "\<not> is_public_path_taken (wdb w) (alloc_public path)"
        using path by (auto simp: allocate_public_path_def split: if_splits dest: try_allocate_sound)
      show ?thesis
      proof (cases st)
        case None
        with assms(2) host page path store s2 show ?thesis by (auto simp: publish_site_def)
      next
        case st: (Some ss)
        let ?site = "pending_site env ctx a gen path ss"
        let ?w = "w2\<lparr>page_files := page_files w2 @ [ss_path ss]\<rparr>"
        obtain r w3 where save: "save_site env ctx a ?site ?w = (r, w3)" by fastforce
        note atomic = save_site_atomic [OF env save]
        have fields: "storage_path ?site = ss_path ss" "public_path ?site = alloc_public path" by (simp_all add: pending_site_def)
        have new: "ss_path ss \<notin> set (page_files w2)"
          using settledD(8) [OF env, of "site_html gen" w ss w2] store st stillD(5) [OF s2] by simp
        show ?thesis
        proof (cases "\<exists>q. r = Written q")
          case True
          then obtain q where q: "r = Written q" by blast
          let ?row = "?site\<lparr>site_id := next_id site_id (websites (wdb ?w)), site_post := item_id q\<rparr>"
          have "posts (wdb w3) = posts (wdb w) @ [q]" "websites (wdb w3) = websites (wdb w) @ [?row]"
            "media_files w3 = media_files w" "page_files w3 = page_files w @ [ss_path ss]"
            using atomic q stillD [OF s2] by simp_all
          moreover have "storage_path ?row = ss_path ss" "public_path ?row = alloc_public path" "site_post ?row = item_id q"
            using fields by simp_all
          moreover have "w' = w3" "\<not> refused_reply out"
            using assms(2) host page path store st save q
            by (auto simp: publish_site_def Let_def refused_reply_def post_done_def)
          ultimately show ?thesis using free by metis
        next
          case False
          then have "content_state (wdb w3) = content_state (wdb w2) \<and> media_files w3 = media_files w2 \<and>
              page_files w3 = removeAll (ss_path ss) (page_files w2 @ [ss_path ss])"
            using atomic fields by (cases r) auto
          then have "still w2 w3" using new by (simp add: still_def)
          moreover have "w' = w3 \<and> refused_reply out"
            using assms(2) host page path store st save False by (cases r) (auto simp: publish_site_def Let_def)
          ultimately show ?thesis using s2 still_trans by blast
        qed
      qed
    qed
  qed
qed

lemma provider_still: "still w (snd (chosen_provider ctx cfg w))"
  by (auto simp: chosen_provider_def default_provider_def on_db_def still_def content_state_def split: option.split list.split)

text \<open>How an image tool and a website tool may end.\<close>

definition image_outcome :: "world \<Rightarrow> tool_outcome \<Rightarrow> world \<Rightarrow> bool" where
  "image_outcome w out w' =
     (if refused_reply out then still w w'
      else \<exists>q img. posts (wdb w') = posts (wdb w) @ [q] \<and> images (wdb w') = images (wdb w) @ [img] \<and>
        image_post img = item_id q \<and> media_files w' = media_files w @ [original_path img, thumbnail_path img])"

definition site_outcome :: "world \<Rightarrow> tool_outcome \<Rightarrow> world \<Rightarrow> bool" where
  "site_outcome w out w' =
     (if refused_reply out then still w w'
      else \<exists>q site. posts (wdb w') = posts (wdb w) @ [q] \<and> websites (wdb w') = websites (wdb w) @ [site] \<and>
        site_post site = item_id q \<and> page_files w' = page_files w @ [storage_path site] \<and>
        \<not> is_public_path_taken (wdb w) (public_path site))"

lemma outcome_refused: "refused_reply out \<Longrightarrow> still w w' \<Longrightarrow> image_outcome w out w' \<and> site_outcome w out w'"
  by (simp add: image_outcome_def site_outcome_def)

lemma outcome_from:
  assumes "still w w1"
  shows "image_outcome w1 out w' \<Longrightarrow> image_outcome w out w'" "site_outcome w1 out w' \<Longrightarrow> site_outcome w out w'"
proof -
  have "is_public_path_taken (wdb w1) = is_public_path_taken (wdb w)"
    using stillD(3) [OF assms] by (simp add: is_public_path_taken_def fun_eq_iff)
  with stillD [OF assms] still_trans [OF assms] show "image_outcome w1 out w' \<Longrightarrow> image_outcome w out w'"
    and "site_outcome w1 out w' \<Longrightarrow> site_outcome w out w'"
    by (auto simp: image_outcome_def site_outcome_def split: if_splits)
qed

lemma create_image_tool_outcome:
  assumes env: "settled env" and "create_image_tool env ctx a w = (out, w')"
  shows "image_outcome w out w'"
proof -
  have chosen: "still w w1" if "chosen_provider ctx cfg w = (r, w1)" for cfg r w1
    using provider_still [of w ctx cfg] that by simp
  have refused: "image_outcome w out w'" if "refused_reply out" and "w' = w \<or> (\<exists>cfg r. chosen_provider ctx cfg w = (r, w'))"
    using that chosen outcome_refused by auto
  have image: "image_outcome w out w'"
    if "chosen_provider ctx cfg w = (r, w1)" and "publish_image env ctx a p model w1 = (out, w')" for cfg r w1 p model
    using publish_image_atomic [OF env that(2)] by (intro outcome_from(1) [OF chosen [OF that(1)]]) (auto simp: image_outcome_def)
  have errors: "refused_reply e" if "chosen_provider ctx cfg w = (Inl e, w1)" for cfg e w1
    using that by (auto simp: chosen_provider_def default_provider_def split: option.splits list.splits if_splits)
  show ?thesis
  proof (cases "\<exists>cfg p model w1. chosen_provider ctx cfg w = (Inr (Some p), w1) \<and> publish_image env ctx a p model w1 = (out, w')")
    case True
    with image show ?thesis by blast
  next
    case False
    with assms(2) have "refused_reply out \<and> (w' = w \<or> (\<exists>cfg r. chosen_provider ctx cfg w = (r, w')))"
      unfolding create_image_tool_def Let_def
      by (auto split: if_splits option.splits content_error.splits prod.splits sum.splits dest: errors)
    with refused show ?thesis by blast
  qed
qed

lemma create_website_tool_outcome:
  assumes env: "settled env" and "create_website_tool env ctx a w = (out, w')"
  shows "site_outcome w out w'"
proof -
  have generated: "still w w1" if "te_generate_site env a s i dir w = (r, w1)" for s i dir r w1
    by (rule settledD(5) [OF env that])
  show ?thesis
  proof (cases "\<exists>s i dir gen w1. te_generate_site env a s i dir w = (Inr gen, w1) \<and> publish_site env ctx a gen w1 = (out, w')")
    case True
    then obtain s i dir gen w1 where gen: "te_generate_site env a s i dir w = (Inr gen, w1)"
      and pub: "publish_site env ctx a gen w1 = (out, w')" by blast
    from publish_site_atomic [OF env pub] show ?thesis
      by (intro outcome_from(2) [OF generated [OF gen]]) (auto simp: site_outcome_def)
  next
    case False
    with assms(2) have "refused_reply out \<and> (w' = w \<or> (\<exists>s i dir r. te_generate_site env a s i dir w = (r, w')))"
      unfolding create_website_tool_def Let_def
      by (auto split: if_splits option.splits content_error.splits prod.splits sum.splits site_failure.splits)
    with generated outcome_refused show ?thesis by auto
  qed
qed

text \<open>C10. Publishing media is all or nothing, for the rows and for the files. When an image or
  website tool reports a failure, whichever step failed and whoever took the run away in the
  meantime, no content row was added and no file is left behind; when it reports success there
  is exactly one new post, with one row that names exactly the files that were stored, and for a
  website under an address that was free.\<close>

theorem media_all_or_nothing:
  assumes "settled env"
  shows "(case create_image_tool env ctx a w of (out, w') \<Rightarrow>
      if refused_reply out then still w w'
      else \<exists>q img. posts (wdb w') = posts (wdb w) @ [q] \<and> images (wdb w') = images (wdb w) @ [img] \<and>
        image_post img = item_id q \<and> media_files w' = media_files w @ [original_path img, thumbnail_path img]) \<and>
    (case create_website_tool env ctx b w of (out, w') \<Rightarrow>
      if refused_reply out then still w w'
      else \<exists>q site. posts (wdb w') = posts (wdb w) @ [q] \<and> websites (wdb w') = websites (wdb w) @ [site] \<and>
        site_post site = item_id q \<and> page_files w' = page_files w @ [storage_path site] \<and>
        \<not> is_public_path_taken (wdb w) (public_path site))"
  using create_image_tool_outcome [OF assms, of ctx a w] create_website_tool_outcome [OF assms, of ctx b w]
  by (auto simp: image_outcome_def site_outcome_def)

definition taken_away :: "tool_env \<Rightarrow> tool_context \<Rightarrow> bool" where
  "taken_away env ctx = (\<forall>w. \<not> ctx_active ctx (te_others env w))"

lemma lost_write: "fenced_write env ctx f w = (Written x, w') \<Longrightarrow> \<not> taken_away env ctx"
  by (auto simp: taken_away_def fenced_write_def Let_def split: sum.splits content_error.splits prod.splits if_splits)

lemma lost_save: "save_site env ctx a site w = (Written x, w') \<Longrightarrow> \<not> taken_away env ctx"
  by (auto simp: taken_away_def save_site_def Let_def split: sum.splits content_error.splits prod.splits if_splits)

lemma lost_image_refused:
  assumes "taken_away env ctx"
  shows "refused_reply (fst (create_image_tool env ctx a w))"
proof -
  have pub: "publish_image env ctx a p model w1 = (out, w2) \<Longrightarrow> refused_reply out" for p model w1 out w2
    using assms by (auto simp: publish_image_def Let_def split: prod.splits sum.splits written.splits dest: lost_write)
  have errors: "refused_reply e" if "chosen_provider ctx cfg w = (Inl e, w1)" for cfg e w1
    using that by (auto simp: chosen_provider_def default_provider_def split: option.splits list.splits if_splits)
  obtain out w' where out: "create_image_tool env ctx a w = (out, w')" by fastforce
  then have "refused_reply out"
    unfolding create_image_tool_def Let_def
    by (auto split: if_splits option.splits content_error.splits prod.splits sum.splits dest: errors pub)
  with out show ?thesis by simp
qed

lemma lost_website_refused:
  assumes "taken_away env ctx"
  shows "refused_reply (fst (create_website_tool env ctx a w))"
proof -
  have pub: "publish_site env ctx a gen w1 = (out, w2) \<Longrightarrow> refused_reply out" for gen w1 out w2
    using assms by (auto simp: publish_site_def Let_def split: prod.splits option.splits written.splits dest: lost_save)
  obtain out w' where out: "create_website_tool env ctx a w = (out, w')" by fastforce
  then have "refused_reply out"
    unfolding create_website_tool_def Let_def
    by (auto split: if_splits option.splits content_error.splits prod.splits sum.splits site_failure.splits dest: pub)
  with out show ?thesis by simp
qed

lemma fenced_write_lost:
  assumes "settled env" and "taken_away env ctx"
  shows "case fenced_write env ctx f w of (r, w') \<Rightarrow> still w w' \<and> (\<forall>x. r \<noteq> Written x)"
  using assms settledD(1) [OF assms(1), of w]
  by (auto simp: taken_away_def fenced_write_def Let_def split: sum.split content_error.split prod.split)

lemma with_nudge_still [simp]: "still w (snd (with_nudge ctx s r w1)) = still w w1"
  by (simp add: with_nudge_def subscribe_nudge_def still_def Let_def split: option.split sum.split prod.split bool.split)

text \<open>C9. A run that was taken away publishes nothing. If recovery ends the run before a handler's
  write reaches the database, then whichever tool was called and however far it had come, the
  content, the accounts and the stored files are afterwards as they were.\<close>

theorem lost_run_writes_nothing:
  assumes env: "settled env" and lost: "\<And>w. \<not> run_is_active (ctx_run ctx) (wdb (te_others env w))"
  shows "content_state (wdb (snd (run_handler env ctx x w))) = content_state (wdb w) \<and>
    media_files (snd (run_handler env ctx x w)) = media_files w \<and> page_files (snd (run_handler env ctx x w)) = page_files w"
proof -
  have away: "taken_away env ctx" using lost by (simp add: taken_away_def ctx_active_def)
  have "still w (snd (run_handler env ctx x w))"
  proof (cases x)
    case (Image_Args a)
    then show ?thesis
      using create_image_tool_outcome [OF env, of ctx a w "fst (create_image_tool env ctx a w)" "snd (create_image_tool env ctx a w)"]
        lost_image_refused [OF away, of a w] by (simp add: image_outcome_def run_handler_def)
  next
    case (Website_Args a)
    then show ?thesis
      using create_website_tool_outcome [OF env, of ctx a w "fst (create_website_tool env ctx a w)"
          "snd (create_website_tool env ctx a w)"] lost_website_refused [OF away, of a w]
      by (simp add: site_outcome_def run_handler_def)
  next
    case (Browse_Args a)
    then show ?thesis by (simp add: run_handler_def browse_feed_def Let_def split: sum.split option.split)
  next
    case (Read_Args a)
    have "load_image_description env ctx img w = (j, w1) \<Longrightarrow> still w w1" for img j w1
      by (auto simp: load_image_description_def Let_def split: if_splits prod.splits option.splits dest: settledD(2) [OF env])
    with Read_Args show ?thesis
      by (auto simp: run_handler_def read_post_def Let_def split: option.split prod.split)
  next
    case (Search_Args a)
    then show ?thesis by (simp add: run_handler_def search_tool_def split: option.split)
  next
    case (Inbox_Args b)
    then show ?thesis
      by (simp add: run_handler_def view_inbox_def mark_inbox_read_def Let_def still_def content_state_def)
  next
    case (Profile_Args u)
    then show ?thesis by (simp add: run_handler_def view_profile_def Let_def)
  next
    case (Post_Args a)
    then show ?thesis
      using fenced_write_lost [OF env away, where w = w and f = "\<lambda>w. create_post (agent_post ctx (cp_subdeaddit a) (cp_title a)
          (Some (cp_content a)) (cp_post_type a)) (te_now env w) (te_draw env w)"]
      by (auto simp: run_handler_def create_post_tool_def split: prod.split written.split)
  next
    case (Comment_Args a)
    then show ?thesis
      using fenced_write_lost [OF env away, where w = w and f = "\<lambda>w. create_comment (agent_comment ctx a) (te_now env w)"]
      by (auto simp: run_handler_def create_comment_tool_def split: prod.split written.split option.split)
  next
    case (Subscribe_Args s)
    then show ?thesis
      using away settledD(1) [OF env, of w]
      by (auto simp: run_handler_def set_subscription_def taken_away_def Let_def split: option.split prod.split)
  next
    case (Unsubscribe_Args s)
    then show ?thesis
      using away settledD(1) [OF env, of w]
      by (auto simp: run_handler_def set_subscription_def taken_away_def Let_def split: option.split prod.split)
  next
    case (Finish_Args s m)
    then show ?thesis by (simp add: run_handler_def)
  qed
  then show ?thesis by (simp add: still_def)
qed

end
