(* ===== verification/Results.thy ===== *)
theory Results
  imports Guards
begin

text \<open>
  The shape of what the executor returns and audits: an object whose verdict is a boolean, with
  the text of an error when it is negative.
\<close>

section \<open>Handlers\<close>

text \<open>A handler may leave out the verdict; the executor then adds a positive one.\<close>

definition well_formed :: "(string \<times> json) list \<Rightarrow> bool" where
  "well_formed kvs =
     (case map_of kvs ''ok'' of
        None \<Rightarrow> True
      | Some (JBool b) \<Rightarrow> b \<or> (case map_of kvs ''error'' of Some (JStr _) \<Rightarrow> True | _ \<Rightarrow> False)
      | _ \<Rightarrow> False)"

definition handler_result :: "tool_outcome \<Rightarrow> bool" where
  "handler_result out = (case out of Reply kvs \<Rightarrow> well_formed kvs | _ \<Rightarrow> True)"

lemma refusals_well_formed [simp]:
  "handler_result (failure m)" "handler_result (failure_hint m h)" "handler_result one_post_per_visit"
  "handler_result (no_such_community c)" "handler_result (billed_failure m)"
  "handler_result (Raised_Value v)" "handler_result Ownership_Lost" "handler_result (Raised_Other e)"
  by (simp_all add: handler_result_def well_formed_def failure_def failure_hint_def one_post_per_visit_def
      no_such_community_def billed_failure_def)

lemma accepted_well_formed [simp]:
  "handler_result (Reply ((''ok'', JBool True) # kvs))"
  "handler_result (finish_tool s m)"
  by (simp_all add: handler_result_def well_formed_def finish_tool_def split: option.split)

lemma with_nudge_result:
  assumes "handler_result (Reply kvs)"
  shows "handler_result (fst (with_nudge ctx s kvs w))"
proof -
  have kept: "map_of (kvs @ [(''subscribe_hint'', v)]) ''ok'' = map_of kvs ''ok''"
    "map_of (kvs @ [(''subscribe_hint'', v)]) ''error'' = map_of kvs ''error''" for v
    by (simp_all add: map_add_def split: option.split)
  have "handler_result (Reply (kvs @ [(''subscribe_hint'', v)]))" for v
    using assms unfolding handler_result_def well_formed_def tool_outcome.case kept .
  moreover have "handler_result e" if "subscribe_nudge ctx s w = (Inl e, w')" for e w'
    using that by (auto simp: subscribe_nudge_def tier_of_def Let_def split: if_splits option.splits sum.splits bool.splits)
  ultimately show ?thesis using assms
    by (auto simp: with_nudge_def split: prod.split sum.split option.split)
qed

lemma with_nudge_resultD: "handler_result (Reply kvs) \<Longrightarrow> with_nudge ctx s kvs w = (out, w') \<Longrightarrow> handler_result out"
  using with_nudge_result [of kvs ctx s w] by simp

lemma browse_feed_result: "browse_feed env ctx a w = (out, w') \<Longrightarrow> handler_result out"
proof -
  have "handler_result (Reply ((''posts'', v) # feed_hint s n))" for v s n
    by (simp add: handler_result_def well_formed_def feed_hint_def)
  moreover have "feed_subscriptions ctx d = Inl e \<Longrightarrow> handler_result e"
    and "is_backstage_member ctx s d = Inl e \<Longrightarrow> handler_result e" for d e s
    by (auto simp: feed_subscriptions_def is_backstage_member_def tier_of_def split: if_splits option.splits sum.splits)
  ultimately show "browse_feed env ctx a w = (out, w') \<Longrightarrow> handler_result out"
    by (auto simp: browse_feed_def Let_def dest: with_nudge_resultD [rotated] split: sum.splits option.splits)
qed

lemma search_tool_result: "search_tool a w = (out, w') \<Longrightarrow> handler_result out"
  by (auto simp: search_tool_def handler_result_def well_formed_def split: option.splits)

lemma chosen_provider_result: "chosen_provider ctx cfg w = (Inl e, w') \<Longrightarrow> handler_result e"
  by (auto simp: chosen_provider_def default_provider_def split: option.splits list.splits if_splits)

lemma publish_image_result: "publish_image env ctx a p model w = (out, w') \<Longrightarrow> handler_result out"
  by (auto simp: publish_image_def Let_def post_done_def split: prod.splits sum.splits written.splits)

lemma publish_site_result: "publish_site env ctx a gen w = (out, w') \<Longrightarrow> handler_result out"
  by (auto simp: publish_site_def Let_def post_done_def split: option.splits prod.splits written.splits)

lemma handler_well_formed: "run_handler env ctx x w = (out, w') \<Longrightarrow> handler_result out"
proof (induction x)
  case (Browse_Args a)
  then show ?case using browse_feed_result by (simp add: run_handler_def)
next
  case (Read_Args a)
  then show ?case
    by (auto simp: run_handler_def read_post_def Let_def dest: with_nudge_resultD [rotated] split: option.splits prod.splits)
next
  case (Search_Args a)
  then show ?case using search_tool_result by (simp add: run_handler_def)
next
  case (Inbox_Args b)
  then show ?case by (auto simp: run_handler_def view_inbox_def Let_def handler_result_def well_formed_def)
next
  case (Profile_Args u)
  then show ?case by (auto simp: run_handler_def view_profile_def Let_def handler_result_def well_formed_def)
next
  case (Post_Args a)
  then show ?case
    by (auto simp: run_handler_def create_post_tool_def post_done_def dest: with_nudge_resultD [rotated]
        split: prod.splits written.splits if_splits)
next
  case (Image_Args a)
  then show ?case
    by (auto simp: run_handler_def create_image_tool_def Let_def dest: publish_image_result chosen_provider_result
        split: prod.splits sum.splits option.splits content_error.splits if_splits)
next
  case (Website_Args a)
  then show ?case
    by (auto simp: run_handler_def create_website_tool_def dest: publish_site_result
        split: prod.splits sum.splits option.splits content_error.splits site_failure.splits if_splits)
next
  case (Comment_Args a)
  have "reply_problem ctx a pid d = Some out \<Longrightarrow> handler_result out" for pid d out
    by (auto simp: reply_problem_def Let_def split: option.splits if_splits)
  with Comment_Args show ?case
    by (auto simp: run_handler_def create_comment_tool_def dest: with_nudge_resultD [rotated]
        split: prod.splits written.splits option.splits if_splits)
next
  case (Subscribe_Args s)
  then show ?case by (auto simp: run_handler_def set_subscription_def Let_def split: option.splits prod.splits if_splits)
next
  case (Unsubscribe_Args s)
  then show ?case by (auto simp: run_handler_def set_subscription_def Let_def split: option.splits prod.splits if_splits)
next
  case (Finish_Args s m)
  then show ?case by (auto simp: run_handler_def)
qed

section \<open>The executor\<close>

definition tool_result :: "json \<Rightarrow> bool" where
  "tool_result r =
     (case (json_get ''ok'' r, json_get ''error'' r) of
        (Some (JBool b), e) \<Rightarrow> b \<or> (case e of Some (JStr _) \<Rightarrow> True | _ \<Rightarrow> False)
      | _ \<Rightarrow> False)"

lemma final_result_get:
  "k \<noteq> ''warning'' \<Longrightarrow> json_get k (final_result kvs warning) =
     (if k = ''ok'' \<and> ''ok'' \<notin> fst ` set kvs then Some (JBool True) else map_of kvs k)"
  by (simp add: final_result_def Let_def map_of_json_set split: option.split)

lemma final_tool_result:
  assumes "well_formed kvs"
  shows "tool_result (final_result kvs warning)"
proof (cases "map_of kvs ''ok''")
  case None
  then show ?thesis by (simp add: tool_result_def final_result_get map_of_eq_None_iff)
next
  case (Some v)
  then have "''ok'' \<in> fst ` set kvs" by (metis image_eqI map_of_SomeD fst_conv)
  with assms Some show ?thesis by (cases v) (simp_all add: tool_result_def well_formed_def final_result_get)
qed

lemma refusal_tool_results [simp]: "tool_result (rejection m h)" "tool_result inactive_run_result"
  by (simp_all add: tool_result_def rejection_def inactive_run_result_def)

lemma persist_tool_result:
  "tool_result res \<Longrightarrow> persist_and_return env ctx name args res w = (Inr r, w') \<Longrightarrow> tool_result r"
  by (auto simp: persist_and_return_def Let_def split: if_splits)

lemma dispatch_tool_result:
  assumes "dispatch_call env ctx name x warning w = (Inr r, w')"
  shows "tool_result r"
proof -
  have "tool_result (final_result kvs warning)" if "run_handler env ctx x w1 = (Reply kvs, w2)" for kvs w1 w2
    using handler_well_formed [OF that] by (intro final_tool_result) (simp add: handler_result_def)
  moreover have "tool_result (final_result ((''ok'', JBool False) # (''error'', JStr m) # kvs) warning)" for m kvs
    by (rule final_tool_result) (simp add: well_formed_def)
  ultimately show ?thesis using assms
    by (auto simp: dispatch_call_def Let_def dest: persist_tool_result [rotated] split: if_splits prod.splits tool_outcome.splits)
qed

lemma early_gates_result: "early_gates name t ctx a = Some r \<Longrightarrow> tool_result r"
  by (auto simp: early_gates_def split: option.splits if_splits)

lemma late_gates_result: "late_gates env ctx name x now d = Inl r \<Longrightarrow> tool_result r"
proof -
  have "tool_result (JObj ((''ok'', JBool False) # (''error'', JStr m) # kvs))" for m kvs by (simp add: tool_result_def)
  then show "late_gates env ctx name x now d = Inl r \<Longrightarrow> tool_result r"
    by (auto simp: late_gates_def split: option.splits prod.splits if_splits)
qed

text \<open>C28. Every result that reaches the model is an object with a boolean verdict and, when it is
  negative, the text of an error: of every tool, every gate and every failure inside a handler,
  and whatever the model sent as the arguments.\<close>

theorem results_well_formed:
  assumes "execute env ctx name raw w = (Inr r, w')"
  shows "tool_result r"
proof -
  note persist = persist_tool_result [rotated]
  from assms show ?thesis
    by (auto simp: execute_def Let_def dest: persist early_gates_result late_gates_result dispatch_tool_result
        split: if_splits option.splits sum.splits)
qed

end
