(* ===== verification/Feeds.thy ===== *)
theory Feeds
  imports Readers
begin

text \<open>
  What the reading tools promise: a feed within its limit, filters and communities that never
  hides the backstage room from its members, and an inbox that shows every notice once.
\<close>

section \<open>The feed\<close>

lemma add_to_pool_props:
  "distinct (map item_id pool) \<Longrightarrow> distinct (map item_id (add_to_pool new pool)) \<and>
     set pool \<subseteq> set (add_to_pool new pool) \<and> set (add_to_pool new pool) \<subseteq> set new \<union> set pool"
proof (induction new arbitrary: pool)
  case (Cons p new)
  let ?pool = "if item_id p \<in> item_id ` set pool then pool else pool @ [p]"
  have "distinct (map item_id ?pool)" using Cons.prems by auto
  from Cons.IH [OF this] show ?case by (auto simp: add_to_pool_def split: if_splits)
qed (simp add: add_to_pool_def)

lemma newest_posts_props: "set (newest_posts n q d) \<subseteq> {p \<in> set (posts d). q p}"
  by (auto simp: newest_posts_def dest: in_set_takeD)

lemma pool_fold_props:
  "distinct (map item_id pool) \<Longrightarrow>
   (let ps = fold (\<lambda>name. add_to_pool (newest_posts 100 (in_sub name) d)) names pool in
     distinct (map item_id ps) \<and> set ps \<subseteq> set pool \<union> {p \<in> set (posts d). subdeaddit_name p \<in> set names})"
proof (induction names arbitrary: pool)
  case (Cons name names)
  let ?pool = "add_to_pool (newest_posts 100 (in_sub name) d) pool"
  have "distinct (map item_id ?pool)" "set ?pool \<subseteq> {p \<in> set (posts d). subdeaddit_name p = name} \<union> set pool"
    using add_to_pool_props [OF Cons.prems, of "newest_posts 100 (in_sub name) d"] newest_posts_props [of 100 "in_sub name" d]
    by (auto simp: in_sub_def)
  with Cons.IH [of ?pool] show ?case by (auto simp: Let_def)
qed simp

text \<open>The communities a feed may draw on.\<close>

definition feed_scope :: "string option \<Rightarrow> string list \<Rightarrow> bool \<Rightarrow> post \<Rightarrow> bool" where
  "feed_scope sub subs backstage p =
     (if (sub = None \<or> sub = Some []) \<and> subs = [] then True
      else case sub of
          Some s \<Rightarrow> subdeaddit_name p = s \<or> backstage \<and> in_sub BACKSTAGE_SUBDEADDIT_NAME p
        | None \<Rightarrow> subdeaddit_name p \<in> set subs \<or> backstage \<and> in_sub BACKSTAGE_SUBDEADDIT_NAME p)"

lemma feed_pool_props:
  "distinct (map item_id (feed_pool sub subs backstage d))"
  "set (feed_pool sub subs backstage d) \<subseteq> {p \<in> set (posts d). feed_scope sub subs backstage p}" if "distinct (map item_id (posts d))"
proof -
  have front: "distinct (map item_id (newest_posts n q d))" for n q
  proof -
    have "distinct (map item_id (order_desc created_at (filter q (posts d))))"
      using that by (auto simp: order_desc_def distinct_map intro: inj_on_subset)
    then show ?thesis by (simp add: newest_posts_def take_map [symmetric])
  qed
  have targets: "set (feed_targets sub subs backstage) \<subseteq> 
      (case sub of Some s \<Rightarrow> {s} | None \<Rightarrow> set subs) \<union> (if backstage then {BACKSTAGE_SUBDEADDIT_NAME} else {})"
    by (auto simp: feed_targets_def Let_def split: option.split)
  have cold: "distinct (map item_id (add_to_pool new (newest_posts n q d)))"
    "set (add_to_pool new (newest_posts n q d)) \<subseteq> set new \<union> set (posts d)" for new n q
    using add_to_pool_props [OF front, of new n q] newest_posts_props [of n q d] by auto
  have warm: "distinct (map item_id (fold (\<lambda>name. add_to_pool (newest_posts 100 (in_sub name) d)) names []))"
    "set (fold (\<lambda>name. add_to_pool (newest_posts 100 (in_sub name) d)) names []) \<subseteq>
      {p \<in> set (posts d). subdeaddit_name p \<in> set names}" for names
    using pool_fold_props [of "[]" d names] by (simp_all add: Let_def)
  show "distinct (map item_id (feed_pool sub subs backstage d))" by (simp add: feed_pool_def cold warm)
  have "set (if backstage then newest_posts 100 (in_sub BACKSTAGE_SUBDEADDIT_NAME) d else []) \<subseteq> set (posts d)"
    using newest_posts_props by fastforce
  with cold(2) [of "if backstage then newest_posts 100 (in_sub BACKSTAGE_SUBDEADDIT_NAME) d else []" FRONTPAGE_POOL_SIZE "\<lambda>_. True"]
    warm(2) [of "feed_targets sub subs backstage"] targets
  show "set (feed_pool sub subs backstage d) \<subseteq> {p \<in> set (posts d). feed_scope sub subs backstage p}"
    by (auto simp: feed_pool_def feed_scope_def in_sub_def split: option.splits if_splits)
qed

lemma set_feed_sorted [simp]: "set (feed_sorted srt now ps) = set ps"
  by (simp add: feed_sorted_def)

lemma distinct_feed_sorted: "distinct (map item_id ps) \<Longrightarrow> distinct (map item_id (feed_sorted srt now ps))"
  by (simp add: feed_sorted_def distinct_map)

lemma feature_backstage_props:
  assumes "distinct (map item_id ps)" and "set ps \<subseteq> set pool" and "distinct (map item_id pool)"
  shows "distinct (map item_id (feature_backstage srt now pool ps))" "length (feature_backstage srt now pool ps) = length ps"
    "set (feature_backstage srt now pool ps) \<subseteq> set pool"
    "ps \<noteq> [] \<Longrightarrow> list_ex (in_sub BACKSTAGE_SUBDEADDIT_NAME) pool \<Longrightarrow>
      list_ex (in_sub BACKSTAGE_SUBDEADDIT_NAME) (feature_backstage srt now pool ps)"
proof -
  let ?room = "filter (in_sub BACKSTAGE_SUBDEADDIT_NAME) pool"
  have same: "(list_ex (in_sub BACKSTAGE_SUBDEADDIT_NAME) ps \<or> ps = [] \<or> ?room = []) \<and> feature_backstage srt now pool ps = ps \<or>
      (\<exists>f \<in> set ?room. \<not> list_ex (in_sub BACKSTAGE_SUBDEADDIT_NAME) ps \<and> ps \<noteq> [] \<and>
        feature_backstage srt now pool ps = butlast ps @ [f])"
  proof (cases "?room = []")
    case False
    then have "hd (feed_sorted srt now ?room) \<in> set ?room"
      using set_feed_sorted [of srt now ?room] by (metis hd_in_set set_empty)
    then show ?thesis by (auto simp: feature_backstage_def Let_def)
  qed (simp add: feature_backstage_def Let_def)
  have inj: "inj_on item_id (set pool)" using assms(3) by (simp add: distinct_map)
  have "distinct (map item_id (butlast ps @ [f]))" if "f \<in> set ?room" "\<not> list_ex (in_sub BACKSTAGE_SUBDEADDIT_NAME) ps" for f
  proof -
    have "f \<notin> set ps" "f \<in> set pool" using that by (auto simp: list_ex_iff)
    with inj assms(2) have "item_id f \<notin> item_id ` set (butlast ps)"
      by (auto dest: in_set_butlastD inj_onD)
    moreover have "distinct (map item_id (butlast ps))" using assms(1) by (simp add: map_butlast distinct_butlast)
    ultimately show ?thesis by simp
  qed
  with same assms(1) show "distinct (map item_id (feature_backstage srt now pool ps))" by auto
  from same show "length (feature_backstage srt now pool ps) = length ps" by auto
  from same assms(2) show "set (feature_backstage srt now pool ps) \<subseteq> set pool" by (auto dest!: in_set_butlastD)
  show "ps \<noteq> [] \<Longrightarrow> list_ex (in_sub BACKSTAGE_SUBDEADDIT_NAME) pool \<Longrightarrow>
      list_ex (in_sub BACKSTAGE_SUBDEADDIT_NAME) (feature_backstage srt now pool ps)"
    using same by (auto simp: list_ex_iff filter_empty_conv)
qed

text \<open>C27. What a feed shows: at most as many posts as asked for and none twice, each of them stored,
  of a community in the feed's scope (the one asked for, the subscriptions and, for members, the
  backstage room) and within the limits on age and comments; and a member of the backstage room
  whose feed is not empty finds one of the room's posts in it whenever the pool has one.\<close>

theorem feed_is_faithful:
  assumes "distinct (map item_id (posts d))" and "0 < bf_limit a"
  shows "let ps = feed_posts a subs backstage cutoff now d in
    int (length ps) \<le> bf_limit a \<and> distinct (map item_id ps) \<and>
    list_all (\<lambda>p. p \<in> set (posts d) \<and> feed_scope (bf_sub a) subs backstage p \<and> within_age cutoff p \<and>
      within_comments (bf_max_comments a) d p) ps \<and>
    (backstage \<and> list_ex (\<lambda>p. in_sub BACKSTAGE_SUBDEADDIT_NAME p \<and> within_age cutoff p \<and>
       within_comments (bf_max_comments a) d p) (feed_pool (bf_sub a) subs backstage d) \<longrightarrow>
     list_ex (in_sub BACKSTAGE_SUBDEADDIT_NAME) ps)"
proof -
  let ?fits = "\<lambda>p. within_age cutoff p \<and> within_comments (bf_max_comments a) d p"
  define pool where "pool = filter ?fits (feed_pool (bf_sub a) subs backstage d)"
  define ps where "ps = take (nat (bf_limit a)) (feed_sorted (bf_sort a) now pool)"
  note pool_props = feed_pool_props [where sub = "bf_sub a" and subs = subs and backstage = backstage and d = d]
  have dp: "distinct (map item_id pool)" using pool_props(1) [OF assms(1)] by (simp add: pool_def distinct_map_filter)
  have fits: "p \<in> set pool \<Longrightarrow> p \<in> set (posts d) \<and> feed_scope (bf_sub a) subs backstage p \<and> ?fits p" for p
    using pool_props(2) [OF assms(1)] by (auto simp: pool_def)
  have ps: "distinct (map item_id ps)" "set ps \<subseteq> set pool" "int (length ps) \<le> bf_limit a"
    using distinct_feed_sorted [OF dp, of "bf_sort a" now] set_take_subset [of "nat (bf_limit a)" "feed_sorted (bf_sort a) now pool"]
      assms(2) by (simp_all add: ps_def take_map [symmetric])
  have some: "pool \<noteq> [] \<Longrightarrow> ps \<noteq> []" using assms(2) set_feed_sorted [of "bf_sort a" now pool]
    by (auto simp: ps_def simp del: set_feed_sorted)
  note feature = feature_backstage_props [OF ps(1,2) dp, of "bf_sort a" now]
  have "list_ex (\<lambda>p. in_sub BACKSTAGE_SUBDEADDIT_NAME p \<and> ?fits p) (feed_pool (bf_sub a) subs backstage d) =
      list_ex (in_sub BACKSTAGE_SUBDEADDIT_NAME) pool"
    by (auto simp: pool_def list_ex_iff)
  moreover have "list_ex (in_sub BACKSTAGE_SUBDEADDIT_NAME) pool \<Longrightarrow> pool \<noteq> []" by auto
  moreover have "feed_posts a subs backstage cutoff now d = (if backstage then feature_backstage (bf_sort a) now pool ps else ps)"
    by (simp add: feed_posts_def pool_def ps_def Let_def)
  ultimately show ?thesis
    using feature some ps fits by (auto simp: Let_def list_all_iff)
qed

definition demo_browse :: browse_args where
  "demo_browse = \<lparr>bf_sub = None, bf_sort = ''new'', bf_limit = 2, bf_max_age = None, bf_max_comments = None\<rparr>"

definition demo_feed_db :: db where
  "demo_feed_db = sample_db\<lparr>posts := [(sample_post 1 ''ann'')\<lparr>subdeaddit_name := BACKSTAGE_SUBDEADDIT_NAME\<rparr>,
     sample_post 2 ''bob'', (sample_post 3 ''cy'')\<lparr>created_at := 9\<rparr>, (sample_post 4 ''cy'')\<lparr>created_at := 8\<rparr>]\<rparr>"

theorem feed_is_faithful_witness:
  "map item_id (feed_posts demo_browse [''test''] True None 10 demo_feed_db) = [3, 1] \<and>
   list_all (\<lambda>p. p \<in> set (posts demo_feed_db)) (feed_posts demo_browse [''test''] True None 10 demo_feed_db)"
proof -
  have "distinct (map item_id (posts demo_feed_db))" "0 < bf_limit demo_browse"
    "map item_id (feed_posts demo_browse [''test''] True None 10 demo_feed_db) = [3, 1]" by code_simp+
  with feed_is_faithful [of demo_feed_db demo_browse "[''test'']" True None 10] show ?thesis
    by (simp add: Let_def list_all_iff)
qed

section \<open>The inbox\<close>

text \<open>Opening the inbox again and again, with nothing arriving in between: all that was shown.\<close>

fun view_again :: "tool_env \<Rightarrow> tool_context \<Rightarrow> nat \<Rightarrow> world \<Rightarrow> json list \<times> world" where
  "view_again env ctx 0 w = ([], w)"
| "view_again env ctx (Suc k) w =
     (case view_inbox env ctx True w of
        (Reply kvs, w') \<Rightarrow>
          (case map_of kvs ''items'' of
             Some (JList shown) \<Rightarrow> (case view_again env ctx k w' of (later, w'') \<Rightarrow> (shown @ later, w''))
           | _ \<Rightarrow> ([], w'))
      | (_, w') \<Rightarrow> ([], w'))"

lemma filter_not_first:
  "distinct (map key xs) \<Longrightarrow> filter (\<lambda>x. key x \<notin> key ` set (take n xs)) xs = drop n xs"
proof (induction xs arbitrary: n)
  case (Cons x xs)
  then show ?case
  proof (cases n)
    case (Suc m)
    have "filter (\<lambda>y. key y \<noteq> key x \<and> key y \<notin> key ` set (take m xs)) xs = filter (\<lambda>y. key y \<notin> key ` set (take m xs)) xs"
      using Cons.prems by (intro filter_cong refl) (metis distinct.simps(2) image_eqI image_set list.map(2))
    with Cons Suc show ?thesis by simp
  qed simp
qed simp

lemma inbox_after_view:
  assumes "distinct (map notif_id (notifications d))"
  shows "inbox_rows who True (fst (mark_inbox_read who (These (map notif_id (take n (inbox_rows who True d)))) now d)) =
    drop n (inbox_rows who True d)"
proof -
  let ?ids = "notif_id ` set (take n (inbox_rows who True d))"
  let ?hit = "\<lambda>r. recipient r = who \<and> read_at r = None \<and> notif_id r \<in> ?ids"
  have "filter (inbox_matches who True) (update_rows ?hit (\<lambda>r. r\<lparr>read_at := Some now\<rparr>) rows) =
      filter (\<lambda>r. notif_id r \<notin> ?ids) (filter (inbox_matches who True) rows)" for rows
    by (induction rows) (auto simp: inbox_matches_def)
  then have "inbox_rows who True (fst (mark_inbox_read who (These (map notif_id (take n (inbox_rows who True d)))) now d)) =
      filter (\<lambda>r. notif_id r \<notin> ?ids) (inbox_rows who True d)"
    by (simp add: inbox_rows_def mark_inbox_read_def order_desc_filter)
  also have "\<dots> = drop n (inbox_rows who True d)"
    using assms by (intro filter_not_first) (auto simp: inbox_rows_def order_desc_def distinct_map intro: inj_on_subset)
  finally show ?thesis .
qed

lemma view_inbox_step:
  assumes "distinct (map notif_id (notifications (wdb w)))"
  obtains kvs w' where "view_inbox env ctx True w = (Reply kvs, w')"
    and "map_of kvs ''items'' = Some (JList (map inbox_item (take 50 (inbox_rows (ctx_user ctx) True (wdb w)))))"
    and "inbox_rows (ctx_user ctx) True (wdb w') = drop 50 (inbox_rows (ctx_user ctx) True (wdb w))"
    and "distinct (map notif_id (notifications (wdb w')))"
proof -
  have items: "page_items (get_inbox (ctx_user ctx) True 50 None (wdb w)) = take 50 (inbox_rows (ctx_user ctx) True (wdb w))"
    by (simp add: get_inbox_rows clamp_limit_def)
  have "distinct (map notif_id (notifications (fst (mark_inbox_read who which now (wdb w)))))" for who which now
    using assms by (simp add: mark_inbox_read_def map_update_rows Let_def)
  then show thesis
    using that inbox_after_view [OF assms, of "ctx_user ctx" 50 "te_now env w"] by (simp add: view_inbox_def items)
qed

text \<open>An agent that opens its inbox \<open>k\<close> times is shown its \<open>50 k\<close> newest unread notices, each of
  them once and newest first, and exactly the older ones stay unread for the next view.\<close>

theorem inbox_shows_once:
  assumes "distinct (map notif_id (notifications (wdb w)))"
  shows "case view_again env ctx k w of (shown, w') \<Rightarrow>
    shown = map inbox_item (take (50 * k) (inbox_rows (ctx_user ctx) True (wdb w))) \<and>
    inbox_rows (ctx_user ctx) True (wdb w') = drop (50 * k) (inbox_rows (ctx_user ctx) True (wdb w))"
  using assms
proof (induction k arbitrary: w)
  case (Suc k)
  obtain kvs w1 where view: "view_inbox env ctx True w = (Reply kvs, w1)"
    "map_of kvs ''items'' = Some (JList (map inbox_item (take 50 (inbox_rows (ctx_user ctx) True (wdb w)))))"
    "inbox_rows (ctx_user ctx) True (wdb w1) = drop 50 (inbox_rows (ctx_user ctx) True (wdb w))"
    "distinct (map notif_id (notifications (wdb w1)))"
    using view_inbox_step [OF Suc.prems] by metis
  obtain later w2 where rest: "view_again env ctx k w1 = (later, w2)" by fastforce
  have "take (50 * Suc k) xs = take 50 xs @ take (50 * k) (drop 50 xs)" for xs :: "notification list"
    by (simp add: take_add)
  with Suc.IH [OF view(4)] rest view show ?case by (simp add: add.commute)
qed simp

end
