(* ===== verification/Rehearsal.thy ===== *)
theory Rehearsal
  imports Results Feeds
begin

text \<open>
  The guards on a concrete visit: an environment in which nobody else acts, one in which recovery
  takes the run away, and a visit that tries to post twice.
\<close>

section \<open>A visit to rehearse\<close>

definition demo_validate :: "string \<Rightarrow> json \<Rightarrow> string + tool_args" where
  "demo_validate name j =
     (case (name = ''create_post'', name = ''finish'', json_get ''title'' j, json_get ''summary'' j) of
        (True, _, Some (JStr s), _) \<Rightarrow>
          Inr (Post_Args \<lparr>cp_subdeaddit = ''test'', cp_title = s, cp_content = ''text'', cp_post_type = None\<rparr>)
      | (False, True, _, Some (JStr s)) \<Rightarrow> Inr (Finish_Args s None)
      | _ \<Rightarrow> Inl ''field required'')"

definition demo_tools :: "(world \<Rightarrow> world) \<Rightarrow> tool_env" where
  "demo_tools acts =
     \<lparr>te_others = acts, te_now = mono_now, te_draw = (\<lambda>_. 0), te_config = (\<lambda>_ _. None), te_loads = Inl,
      te_validate = demo_validate, te_float = (\<lambda>_. ''0.0''), te_digest = (\<lambda>s. s), te_token = (\<lambda>_ _. ''ab''),
      te_directions = (\<lambda>_. []), te_can_see = (\<lambda>_ _ _. True), te_describe = (\<lambda>_ w. (None, w)),
      te_image_style = (\<lambda>_ _ _. ([], JNull)),
      te_generate_image = (\<lambda>_ _ _ w. (Inr \<lparr>gen_reference = ''png'', gen_request = None\<rparr>, w)),
      te_store_image = (\<lambda>_ w. (if ''a.png'' \<in> set (media_files w) \<or> ''a.jpg'' \<in> set (media_files w) then Inl ''exists''
        else Inr \<lparr>st_original = ''a.png'', st_thumbnail = ''a.jpg'', st_mime = ''image/png'', st_size = 9, st_width = 1,
          st_height = 1\<rparr>, w)),
      te_generate_site = (\<lambda>_ _ _ _ w. (Inr \<lparr>site_html = ''<html>'', site_diversity = JNull, site_api_url = [],
        site_gen_model = []\<rparr>, w)),
      te_store_site = (\<lambda>_ w. (if ''s.html'' \<in> set (page_files w) then None
        else Some \<lparr>ss_path = ''s.html'', ss_size = 6, ss_sha256 = ''00''\<rparr>, w)),
      te_screenshot = (\<lambda>_. None)\<rparr>"

definition demo_visit :: world where
  "demo_visit =
     \<lparr>wdb = content_demo\<lparr>agents := [(media_agent)\<lparr>agent_config := JObj []\<rparr>],
        image_providers := [\<lparr>provider_key = 1, provider_name = ''p'', provider_type = ''openai'', default_model = Some ''m'',
          provider_enabled = True, provider_default = True\<rparr>],
        runs := [(new_run 1 ''bob'' ''schedule'' 5 demo_agents)],
        settings := (settings content_demo)(''thread_comment_cap_min'' \<mapsto> Some ''20'', ''thread_comment_cap_max'' \<mapsto> Some ''20'')\<rparr>,
      mono_now = 100, nudged_subs = [], media_files = [], page_files = []\<rparr>"

definition demo_post :: "string \<Rightarrow> json" where
  "demo_post heading = JObj [(''title'', JStr heading)]"

lemma demo_tools_typed: "typed (demo_tools acts)"
  by (auto simp: typed_def demo_tools_def demo_validate_def tool_of_def split: option.splits json.splits bool.splits)

lemma demo_tools_secluded: "(\<And>w. frame ctx w (acts w)) \<Longrightarrow> secluded (demo_tools acts) ctx"
  by (simp add: secluded_def demo_tools_def)

lemma demo_tools_clocked: "clocked (demo_tools acts)"
  by (simp add: clocked_def demo_tools_def)

lemma demo_tools_settled: "(\<And>w. still w (acts w)) \<Longrightarrow> settled (demo_tools acts)"
  by (simp add: settled_def demo_tools_def)

text \<open>Only \<open>triangular\<close> keeps a visit from being evaluated (it takes square roots of reals); the
  demo's settings never reach it.\<close>

declare triangular_def [code del]

definition demo_call_result :: "(world \<Rightarrow> world) \<Rightarrow> string \<Rightarrow> string \<Rightarrow> world \<Rightarrow> (string + json) \<times> world" where
  "demo_call_result acts name heading w = execute (demo_tools acts) (demo_context ''browse'') name (demo_post heading) w"

definition posted_visit :: world where
  "posted_visit = snd (demo_call_result id ''create_post'' ''first title'' demo_visit)"

definition verdicts :: "world \<Rightarrow> bool list" where
  "verdicts w = map call_ok (run_rows 1 (wdb w))"

lemma demo_context_run [simp]: "ctx_run (demo_context i) = 1" "ctx_user (demo_context i) = ''bob''"
  by (simp_all add: demo_context_def)

lemma idle_secluded: "secluded (demo_tools id) ctx"
  by (rule demo_tools_secluded) simp

lemma idle_settled: "settled (demo_tools id)"
  by (rule demo_tools_settled) simp

theorem one_audit_row_witness:
  "verdicts demo_visit = [] \<and> verdicts posted_visit = [True] \<and>
   fst (demo_call_result id ''vote'' ''up'' posted_visit) = Inr (rejection (''unknown tool '' @ quoted ''vote'') None)"
proof -
  have facts: "verdicts demo_visit = []" "length (verdicts posted_visit) = 1"
    "result_ok (projr (fst (demo_call_result id ''create_post'' ''first title'' demo_visit)))"
    "fst (demo_call_result id ''vote'' ''up'' posted_visit) = Inr (rejection (''unknown tool '' @ quoted ''vote'') None)"
    by code_simp+
  obtain r where "demo_call_result id ''create_post'' ''first title'' demo_visit = (r, posted_visit)"
    by (simp add: posted_visit_def prod_eq_iff)
  with one_audit_row [OF idle_secluded [of "demo_context ''browse''"], of "''create_post''" "demo_post ''first title''" demo_visit r posted_visit] facts
  have "verdicts posted_visit = [True]"
    by (auto simp: demo_call_result_def verdicts_def)
  with facts show ?thesis by simp
qed

lemma second_post_refused:
  "visit_audit (demo_tools id) (run_rows 1 (wdb (snd (demo_call_result id ''create_post'' ''a second title'' posted_visit)))) \<and>
   verdicts (snd (demo_call_result id ''create_post'' ''a second title'' posted_visit)) = [True, False]"
proof -
  have "visit_audit (demo_tools id) (run_rows 1 (wdb posted_visit))"
    "verdicts (snd (demo_call_result id ''create_post'' ''a second title'' posted_visit)) = [True, False]" by code_simp+
  with visit_audit_kept [OF idle_secluded [of "demo_context ''browse''"] demo_tools_typed,
      of posted_visit "''create_post''" "demo_post ''a second title''"] show ?thesis
    by (cases "demo_call_result id ''create_post'' ''a second title'' posted_visit") (simp add: demo_call_result_def)
qed

theorem hourly_caps_bind_witness:
  "call_pace 2 (bucket_rows ''create_website'' ''bob'' (wdb posted_visit)) \<and>
   length (bucket_rows ''create_website'' ''bob'' (wdb posted_visit)) = 1"
proof -
  have facts: "persona_rate_cap ''create_website'' (demo_context ''browse'') (wdb (te_others (demo_tools id) demo_visit)) = Some 2"
    "bucket_rows ''create_website'' ''bob'' (wdb demo_visit) = []"
    "length (bucket_rows ''create_website'' ''bob'' (wdb posted_visit)) = 1" by code_simp+
  have "''create_website'' \<in> fst ` set RATE_CAPS" by (simp add: RATE_CAPS_def)
  moreover have "execute (demo_tools id) (demo_context ''browse'') ''create_post'' (demo_post ''first title'') demo_visit =
      (fst (demo_call_result id ''create_post'' ''first title'' demo_visit), posted_visit)"
    by (simp add: posted_visit_def demo_call_result_def)
  ultimately show ?thesis
    using hourly_caps_bind [OF idle_secluded [of "demo_context ''browse''"] demo_tools_clocked, where b = "''create_website''"
        and w = demo_visit and k = 2 and K = 2] facts by (simp add: call_pace_def)
qed

definition demo_image :: create_image_args where
  "demo_image = \<lparr>ci_community = ''test'', ci_title = ''a picture'', ci_content = None, ci_prompt = ''a cat'',
     ci_alt = ''a cat'', ci_post_type = None\<rparr>"

definition demo_site :: create_website_args where
  "demo_site = \<lparr>cw_community = ''nowhere'', cw_title = ''a page'', cw_content = None, cw_description = ''a page'',
     cw_hostname = ''cats'', cw_page = ''index'', cw_post_type = None\<rparr>"

theorem media_all_or_nothing_witness:
  "(case create_image_tool (demo_tools id) (demo_context ''image'') demo_image demo_visit of (out, w) \<Rightarrow>
      \<not> refused_reply out \<and> media_files w = [''a.png'', ''a.jpg''] \<and> length (posts (wdb w)) = 2) \<and>
   still demo_visit (snd (create_website_tool (demo_tools id) (demo_context ''image'') demo_site demo_visit))"
proof -
  have "case create_image_tool (demo_tools id) (demo_context ''image'') demo_image demo_visit of (out, w) \<Rightarrow>
      \<not> refused_reply out \<and> media_files w = [''a.png'', ''a.jpg'']"
    "length (posts (wdb demo_visit)) = 1"
    "refused_reply (fst (create_website_tool (demo_tools id) (demo_context ''image'') demo_site demo_visit))" by code_simp+
  with media_all_or_nothing [OF idle_settled, where ctx = "demo_context ''image''" and a = demo_image
      and w = demo_visit and b = demo_site] show ?thesis
    by (auto split: prod.splits if_splits)
qed

text \<open>Recovery that fails every run.\<close>

definition fail_everything :: "world \<Rightarrow> world" where
  "fail_everything = on_db (\<lambda>d. d\<lparr>runs := map (\<lambda>r. r\<lparr>run_status := ''failed''\<rparr>) (runs d)\<rparr>)"

theorem lost_run_writes_nothing_witness:
  "content_state (wdb (snd (run_handler (demo_tools fail_everything) (demo_context ''browse'')
     (Post_Args \<lparr>cp_subdeaddit = ''test'', cp_title = ''late'', cp_content = ''text'', cp_post_type = None\<rparr>) demo_visit)))
   = content_state (wdb demo_visit)"
proof -
  have "settled (demo_tools fail_everything)"
    by (rule demo_tools_settled) (simp add: fail_everything_def on_db_def still_def content_state_def)
  moreover have "\<not> run_is_active (ctx_run (demo_context ''browse'')) (wdb (te_others (demo_tools fail_everything) w))" for w
    by (simp add: demo_tools_def fail_everything_def on_db_def run_is_active_def find_run_def running_def split: option.split)
      (auto dest!: find_row_SomeD)
  ultimately show ?thesis by (rule lost_run_writes_nothing [THEN conjunct1])
qed

theorem results_well_formed_witness:
  "tool_result (projr (fst (demo_call_result id ''create_post'' ''a second title'' posted_visit))) \<and>
   \<not> result_ok (projr (fst (demo_call_result id ''create_post'' ''a second title'' posted_visit)))"
proof -
  have "case fst (demo_call_result id ''create_post'' ''a second title'' posted_visit) of
      Inl _ \<Rightarrow> False | Inr r \<Rightarrow> \<not> result_ok r" by code_simp
  moreover obtain out w where "demo_call_result id ''create_post'' ''a second title'' posted_visit = (out, w)" by fastforce
  ultimately show ?thesis
    using results_well_formed [of "demo_tools id" "demo_context ''browse''" "''create_post''" "demo_post ''a second title''"
        posted_visit _ w] by (auto simp: demo_call_result_def split: sum.splits)
qed

definition inbox_demo_for_bob :: db where
  "inbox_demo_for_bob = inbox_demo\<lparr>notifications := map (\<lambda>n. n\<lparr>recipient := ''bob''\<rparr>) (notifications inbox_demo)\<rparr>"

theorem inbox_shows_once_witness:
  "length (fst (view_again (demo_tools id) (demo_context ''browse'') 2 (demo_visit\<lparr>wdb := inbox_demo_for_bob\<rparr>))) = 3 \<and>
   inbox_rows ''bob'' True (wdb (snd (view_again (demo_tools id) (demo_context ''browse'') 2 (demo_visit\<lparr>wdb := inbox_demo_for_bob\<rparr>)))) = []"
proof -
  have "distinct (map notif_id (notifications (wdb (demo_visit\<lparr>wdb := inbox_demo_for_bob\<rparr>))))"
    "length (inbox_rows ''bob'' True inbox_demo_for_bob) = 3" by code_simp+
  with inbox_shows_once [of "demo_visit\<lparr>wdb := inbox_demo_for_bob\<rparr>", where env = "demo_tools id"
      and ctx = "demo_context ''browse''" and k = 2]
  show ?thesis by (auto split: prod.splits)
qed

end
