(* ===== verification/Acting.thy ===== *)
theory Acting
  imports Rehearsal
begin

text \<open>
  The visit loop of \<open>Visits\<close> run with the executor of \<open>Executor\<close> as its tools: what the guards
  promise of one call holds of a whole visit.
\<close>

section \<open>The executor as the tools of a visit\<close>

text \<open>\<open>execute\<close> on whatever the model sent as the name of a call: a list or an object cannot be
  looked up, any other value that is not text is an unknown tool.\<close>

definition executor_tool :: "tool_env \<Rightarrow> tool_context \<Rightarrow> json \<Rightarrow> json \<Rightarrow> world \<Rightarrow> (string + json) \<times> world" where
  "executor_tool env ctx name raw w =
     (case name of
        JStr s \<Rightarrow> execute env ctx s raw w
      | JList _ \<Rightarrow> (if ctx_active ctx w then Inl ''TypeError'' else Inr inactive_run_result, w)
      | JObj _ \<Rightarrow> (if ctx_active ctx w then Inl ''TypeError'' else Inr inactive_run_result, w)
      | _ \<Rightarrow> execute env ctx (json_dumps (te_float env) name) raw w)"

definition acting_visit :: "tool_env \<Rightarrow> tool_context \<Rightarrow> visit_env \<Rightarrow> visit_env" where
  "acting_visit env ctx venv = venv\<lparr>others := te_others env, run_tool := executor_tool env ctx\<rparr>"

text \<open>Sleeping and the model leave the audit of the visit to the executor.\<close>

definition discreet :: "visit_env \<Rightarrow> tool_context \<Rightarrow> bool" where
  "discreet venv ctx =
     (\<forall>w. (\<forall>t. frame ctx w (sleep_for venv t w)) \<and> (\<forall>ms. frame ctx w (snd (complete_chat venv ms w))))"

definition audit_kept :: "tool_env \<Rightarrow> tool_context \<Rightarrow> world \<Rightarrow> world \<Rightarrow> bool" where
  "audit_kept env ctx w w' =
     (visit_audit env (run_rows (ctx_run ctx) (wdb w)) \<longrightarrow> visit_audit env (run_rows (ctx_run ctx) (wdb w')))"

lemma frame_audit: "frame ctx w w' \<Longrightarrow> audit_kept env ctx w w'"
  by (simp add: frame_def audit_kept_def)

lemma execute_audit:
  assumes "secluded env ctx" and "typed env"
  shows "audit_kept env ctx w (snd (execute env ctx name raw w))"
  using visit_audit_kept [OF assms, of w name raw "fst (execute env ctx name raw w)" "snd (execute env ctx name raw w)"]
  by (simp add: audit_kept_def)

lemma tool_audit:
  assumes "secluded env ctx" and "typed env"
  shows "audit_kept env ctx w (snd (executor_tool env ctx name raw w))"
  using execute_audit [OF assms] by (simp add: executor_tool_def audit_kept_def split: json.split)

interpretation acting: visit_relation "acting_visit env ctx venv"
    "\<lambda>w w'. secluded env ctx \<and> typed env \<and> discreet venv ctx \<longrightarrow> audit_kept env ctx w w'" for env ctx venv
proof unfold_locales
  fix w
  show "secluded env ctx \<and> typed env \<and> discreet venv ctx \<longrightarrow> audit_kept env ctx w (others (acting_visit env ctx venv) w)"
    by (simp add: acting_visit_def frame_audit secludedD(1))
next
  fix w t
  show "secluded env ctx \<and> typed env \<and> discreet venv ctx \<longrightarrow>
      audit_kept env ctx w (sleep_for (acting_visit env ctx venv) t w)"
    by (simp add: acting_visit_def frame_audit discreet_def)
next
  fix w ms
  show "secluded env ctx \<and> typed env \<and> discreet venv ctx \<longrightarrow>
      audit_kept env ctx w (snd (complete_chat (acting_visit env ctx venv) ms w))"
    by (simp add: acting_visit_def frame_audit discreet_def)
next
  fix w n x
  show "secluded env ctx \<and> typed env \<and> discreet venv ctx \<longrightarrow>
      audit_kept env ctx w (snd (run_tool (acting_visit env ctx venv) n x w))"
    by (simp add: acting_visit_def tool_audit)
qed (auto simp: audit_kept_def run_rows_def add_turn_def)

text \<open>C7. A whole visit, whatever the model answers, however often it calls tools in one answer and
  whatever the other processes do meanwhile: from its first call to its last at most one call is
  recorded as having published a post, and none is let through that repeats the two before it.\<close>

theorem visit_publishes_once:
  assumes "secluded env ctx" and "typed env" and "discreet venv ctx"
    and "run_rows (ctx_run ctx) (wdb w) = []"
    and "visit_loop (acting_visit env ctx venv) b v w = (e, v', w')"
  shows "count_rows publishes (run_rows (ctx_run ctx) (wdb w')) \<le> 1 \<and> no_third env (rev (run_rows (ctx_run ctx) (wdb w')))"
proof -
  have "visit_audit env (run_rows (ctx_run ctx) (wdb w))" using assms(4) by (simp add: visit_audit_def)
  with acting.through_visit_loop [OF assms(5)] assms(1-3) show ?thesis by (simp add: audit_kept_def visit_audit_def)
qed

section \<open>A visit that tries twice\<close>

text \<open>A model that asks for a post in each of its answers.\<close>

definition eager_call :: "string \<Rightarrow> json" where
  "eager_call heading = JObj [(''id'', JStr ''c1''),
     (''function'', JObj [(''name'', JStr ''create_post''), (''arguments'', demo_post heading)])]"

definition eager_visit :: visit_env where
  "eager_visit = \<lparr>others = id, sleep_for = (\<lambda>t w. w\<lparr>mono_now := mono_now w + max 0 t\<rparr>),
     complete_chat = (\<lambda>ms w. (Answer \<lparr>res_content = [],
       res_calls = [eager_call (if length ms < 2 then ''first title'' else ''another one'')], res_usage = []\<rparr>, w)),
     run_tool = (\<lambda>n x w. (Inl [], w))\<rparr>"

definition eager_budget :: budget where
  "eager_budget = \<lparr>visit_run = 1, max_actions = 2, turn_interval = 0, expires_at = 1000\<rparr>"

theorem visit_publishes_once_witness:
  "case visit_loop (acting_visit (demo_tools id) (demo_context ''browse'') eager_visit) eager_budget (fresh_visit []) demo_visit of
     (e, v, w) \<Rightarrow> e = Budget_Spent \<and> verdicts w = [True, False] \<and> length (posts (wdb w)) = 2 \<and>
       count_rows publishes (run_rows 1 (wdb w)) \<le> 1"
proof -
  let ?loop = "visit_loop (acting_visit (demo_tools id) (demo_context ''browse'') eager_visit) eager_budget (fresh_visit []) demo_visit"
  have run: "case ?loop of (e, v, w) \<Rightarrow> e = Budget_Spent \<and> verdicts w = [True, False] \<and> length (posts (wdb w)) = 2"
    "run_rows 1 (wdb demo_visit) = []" by code_simp+
  have "discreet eager_visit ctx" for ctx
    by (simp add: discreet_def eager_visit_def frame_def ctx_active_def)
  then show ?thesis
    using visit_publishes_once [OF idle_secluded demo_tools_typed, where ctx = "demo_context ''browse''" and venv = eager_visit
        and w = demo_visit and b = eager_budget and v = "fresh_visit []"] run by (auto split: prod.splits)
qed

end
