(* ===== verification/Cadence.thy ===== *)
theory Cadence
  imports Texts Threads Content
begin

text \<open>
  The policies of the vote simulator, \<open>deaddit/dynamics/engagement.py\<close>: their strict validation,
  the presets, the deterministic stream of numbers drawn from SHA-256, the attention budget of
  an item and the schedule of its votes. Floats are reals, JSON floats rationals; the digest is
  a parameter.
\<close>

section \<open>Policies\<close>

text \<open>\<open>set(config) != fields\<close> compares the keys; a JSON object has each key once.\<close>

definition same_fields :: "string list \<Rightarrow> (string \<times> json) list \<Rightarrow> bool" where
  "same_fields names kvs = (set (map fst kvs) = set names)"

definition MAX_CATCHUP_GRACE_HOURS :: rat where
  "MAX_CATCHUP_GRACE_HOURS = 168"

definition ATTENTION_FIELDS :: "string list" where
  "ATTENTION_FIELDS = [''mean_active_votes'', ''attention_shape'', ''half_life_minutes'', ''active_window_hours'',
     ''catchup_grace_hours'', ''max_active_votes'', ''tail_half_life_days'', ''tail_max_age_days'',
     ''tail_vote_probability_per_exposure'']"

definition POLICY_FIELDS :: "(string \<times> string list) list" where
  "POLICY_FIELDS =
     [(''post'', ATTENTION_FIELDS), (''comment'', ATTENTION_FIELDS),
      (''voter'', [''default_hourly_cap'', ''minimum_gap_seconds'', ''subscription_weight'', ''max_activity_weight'']),
      (''direction'', [''base_downvote_probability'', ''minimum_downvote_probability'', ''maximum_downvote_probability''])]"

text \<open>Numbers beyond the range of a float are left out of the model.\<close>

definition number :: "string \<Rightarrow> json \<Rightarrow> string + rat" where
  "number name v =
     (case v of JInt i \<Rightarrow> Inr (of_int i) | JFloat q \<Rightarrow> Inr q | _ \<Rightarrow> Inl (name @ '' must be a number''))"

text \<open>The checks return the text of the error they raise.\<close>

definition checked :: "(rat \<Rightarrow> bool) \<Rightarrow> string \<Rightarrow> string \<Rightarrow> json \<Rightarrow> string option" where
  "checked p demand name v =
     (case number name v of Inl e \<Rightarrow> Some e | Inr q \<Rightarrow> if p q then None else Some (name @ demand))"

definition nonnegative :: "string \<Rightarrow> json \<Rightarrow> string option" where
  "nonnegative = checked (\<lambda>q. 0 \<le> q) '' must not be negative''"

definition positive :: "string \<Rightarrow> json \<Rightarrow> string option" where
  "positive = checked (\<lambda>q. 0 < q) '' must be positive''"

definition probability :: "string \<Rightarrow> json \<Rightarrow> string option" where
  "probability = checked (\<lambda>q. 0 \<le> q \<and> q \<le> 1) '' must be between 0 and 1''"

definition first_problem :: "string option list \<Rightarrow> string option" where
  "first_problem ps = (case List.map_filter (\<lambda>p. p) ps of [] \<Rightarrow> None | e # _ \<Rightarrow> Some e)"

text \<open>The value of a field that has passed its check.\<close>

definition field :: "(string \<times> json) list \<Rightarrow> string \<Rightarrow> json" where
  "field kvs k = (case map_of kvs k of None \<Rightarrow> JNull | Some v \<Rightarrow> v)"

definition rat_of :: "json \<Rightarrow> rat" where
  "rat_of v = (case v of JInt i \<Rightarrow> of_int i | JFloat q \<Rightarrow> q | _ \<Rightarrow> 0)"

definition attention_checks :: "string \<Rightarrow> (string \<times> json) list \<Rightarrow> string option list" where
  "attention_checks sec kvs =
     (let chk = (\<lambda>check k. check (sec @ ''.'' @ k) (field kvs k)) in
      [chk nonnegative ''mean_active_votes'', chk positive ''attention_shape'', chk positive ''half_life_minutes'',
       chk positive ''active_window_hours'', chk nonnegative ''catchup_grace_hours'',
       (if MAX_CATCHUP_GRACE_HOURS < rat_of (field kvs ''catchup_grace_hours'')
        then Some (sec @ ''.catchup_grace_hours exceeds 168 hours'') else None),
       chk nonnegative ''max_active_votes'', chk positive ''tail_half_life_days'', chk positive ''tail_max_age_days'',
       chk probability ''tail_vote_probability_per_exposure''])"

definition voter_checks :: "(string \<times> json) list \<Rightarrow> string option list" where
  "voter_checks kvs =
     map (\<lambda>k. nonnegative (''voter.'' @ k) (field kvs k))
       [''default_hourly_cap'', ''minimum_gap_seconds'', ''subscription_weight'', ''max_activity_weight'']"

definition direction_checks :: "(string \<times> json) list \<Rightarrow> string option list" where
  "direction_checks kvs =
     map (\<lambda>(k, v). probability (''direction.'' @ k) v) kvs @
     [if rat_of (field kvs ''maximum_downvote_probability'') < rat_of (field kvs ''minimum_downvote_probability'')
      then Some ''minimum downvote probability exceeds maximum'' else None]"

definition section_of :: "(string \<times> json) list \<Rightarrow> string \<Rightarrow> (string \<times> json) list" where
  "section_of kvs sec = (case field kvs sec of JObj fs \<Rightarrow> fs | _ \<Rightarrow> [])"

definition schema_problem :: "(string \<times> json) list \<Rightarrow> string \<times> string list \<Rightarrow> string option" where
  "schema_problem kvs = (\<lambda>(sec, names).
     case field kvs sec of
       JObj fs \<Rightarrow> if same_fields names fs then None
         else Some (''policy config section '' @ quoted sec @ '' has an invalid schema'')
     | _ \<Rightarrow> Some (''policy config section '' @ quoted sec @ '' has an invalid schema''))"

text \<open>The configuration with its sections in the order of the schema, or the error. \<open>loads\<close> parses a
  configuration given as text.\<close>

definition validate_policy :: "(string \<Rightarrow> json option) \<Rightarrow> json \<Rightarrow> string + json" where
  "validate_policy loads config =
     (case (case config of JStr s \<Rightarrow> loads s | v \<Rightarrow> Some v) of
        None \<Rightarrow> Inl ''policy config must be valid JSON''
      | Some (JObj kvs) \<Rightarrow>
          if \<not> same_fields (map fst POLICY_FIELDS) kvs then Inl ''policy config has an invalid schema''
          else
            (case first_problem (map (schema_problem kvs) POLICY_FIELDS @
                attention_checks ''post'' (section_of kvs ''post'') @
                attention_checks ''comment'' (section_of kvs ''comment'') @
                voter_checks (section_of kvs ''voter'') @ direction_checks (section_of kvs ''direction'')) of
               Some e \<Rightarrow> Inl e
             | None \<Rightarrow> Inr (JObj (map (\<lambda>sec. (sec, field kvs sec)) (map fst POLICY_FIELDS))))
      | Some _ \<Rightarrow> Inl ''policy config must be an object'')"

record attention_rules =
  mean_active_votes :: rat
  attention_shape :: rat
  half_life_minutes :: rat
  active_window_hours :: rat
  catchup_grace_hours :: rat
  max_active_votes :: rat
  tail_half_life_days :: rat
  tail_max_age_days :: rat
  tail_vote_chance :: rat

record policy_config =
  post_rules :: attention_rules
  comment_rules :: attention_rules
  default_hourly_cap :: rat
  minimum_gap_seconds :: rat
  subscription_weight :: rat
  max_activity_weight :: rat
  base_downvote :: rat
  minimum_downvote :: rat
  maximum_downvote :: rat

definition attention_of :: "(string \<times> json) list \<Rightarrow> attention_rules" where
  "attention_of kvs =
     (let chk = (\<lambda>k. rat_of (field kvs k)) in
      \<lparr>mean_active_votes = chk ''mean_active_votes'', attention_shape = chk ''attention_shape'',
       half_life_minutes = chk ''half_life_minutes'', active_window_hours = chk ''active_window_hours'',
       catchup_grace_hours = chk ''catchup_grace_hours'', max_active_votes = chk ''max_active_votes'',
       tail_half_life_days = chk ''tail_half_life_days'', tail_max_age_days = chk ''tail_max_age_days'',
       tail_vote_chance = chk ''tail_vote_probability_per_exposure''\<rparr>)"

definition config_of :: "json \<Rightarrow> policy_config" where
  "config_of config =
     (let kvs = (case config of JObj kvs \<Rightarrow> kvs | _ \<Rightarrow> []);
          voter = section_of kvs ''voter''; direction = section_of kvs ''direction'' in
      \<lparr>post_rules = attention_of (section_of kvs ''post''), comment_rules = attention_of (section_of kvs ''comment''),
       default_hourly_cap = rat_of (field voter ''default_hourly_cap''),
       minimum_gap_seconds = rat_of (field voter ''minimum_gap_seconds''),
       subscription_weight = rat_of (field voter ''subscription_weight''),
       max_activity_weight = rat_of (field voter ''max_activity_weight''),
       base_downvote = rat_of (field direction ''base_downvote_probability''),
       minimum_downvote = rat_of (field direction ''minimum_downvote_probability''),
       maximum_downvote = rat_of (field direction ''maximum_downvote_probability'')\<rparr>)"

definition load_policy_config :: "(string \<Rightarrow> json option) \<Rightarrow> cadence_policy \<Rightarrow> string + policy_config" where
  "load_policy_config loads p =
     (if algorithm_version p \<noteq> 1 then Inl (''unsupported policy algorithm version '' @ py_str_int (algorithm_version p))
      else case validate_policy loads (cadence_config p) of Inl e \<Rightarrow> Inl e | Inr j \<Rightarrow> Inr (config_of j))"

section \<open>Presets\<close>

text \<open>One section of attention rules and a whole preset, in the order of the source.\<close>

definition attention_preset :: "int \<Rightarrow> int \<Rightarrow> int \<Rightarrow> int \<Rightarrow> int \<Rightarrow> int \<Rightarrow> int \<Rightarrow> rat \<Rightarrow> json" where
  "attention_preset mean half window grace most tail_half tail_age chance =
     JObj [(''mean_active_votes'', JInt mean), (''attention_shape'', JFloat 1), (''half_life_minutes'', JInt half),
       (''active_window_hours'', JInt window), (''catchup_grace_hours'', JInt grace), (''max_active_votes'', JInt most),
       (''tail_half_life_days'', JInt tail_half), (''tail_max_age_days'', JInt tail_age),
       (''tail_vote_probability_per_exposure'', JFloat chance)]"

definition preset_of :: "json \<Rightarrow> json \<Rightarrow> int \<Rightarrow> int \<Rightarrow> rat \<Rightarrow> json" where
  "preset_of ps cs cap gap downvotes =
     JObj [(''post'', ps), (''comment'', cs),
       (''voter'', JObj [(''default_hourly_cap'', JInt cap), (''minimum_gap_seconds'', JInt gap),
          (''subscription_weight'', JFloat 4), (''max_activity_weight'', JFloat 3)]),
       (''direction'', JObj [(''base_downvote_probability'', JFloat downvotes),
          (''minimum_downvote_probability'', JFloat (1 / 100)), (''maximum_downvote_probability'', JFloat (15 / 100))])]"

definition PRESET_CONFIGS :: "(string \<times> json) list" where
  "PRESET_CONFIGS =
     [(''quiet'', preset_of (attention_preset 3 180 72 12 30 21 365 (5 / 1000))
         (attention_preset 1 120 36 6 10 10 90 (2 / 1000)) 8 120 (4 / 100)),
      (''natural'', preset_of (attention_preset 8 90 48 12 80 14 365 (15 / 1000))
         (attention_preset 3 60 24 6 30 7 90 (5 / 1000)) 20 45 (5 / 100)),
      (''busy'', preset_of (attention_preset 18 45 36 12 200 10 365 (3 / 100))
         (attention_preset 7 30 18 6 80 5 90 (1 / 100)) 40 15 (7 / 100))]"

definition preset_config :: "(string \<Rightarrow> json option) \<Rightarrow> string \<Rightarrow> string + json" where
  "preset_config loads name =
     (case map_of PRESET_CONFIGS (py_lower name) of
        None \<Rightarrow> Inl (''unknown policy preset: '' @ name)
      | Some config \<Rightarrow> validate_policy loads config)"

section \<open>Numbers from a digest\<close>

type_synonym digest = "8 word list \<Rightarrow> 8 word list"

text \<open>\<open>int.from_bytes(.., "big")\<close>.\<close>

definition be_nat :: "8 word list \<Rightarrow> nat" where
  "be_nat bs = fold (\<lambda>b n. n * 256 + unat b) bs 0"

definition be_bytes :: "nat \<Rightarrow> nat \<Rightarrow> 8 word list" where
  "be_bytes len n = map (\<lambda>i. word_of_nat (n div 256 ^ (len - 1 - i) mod 256)) [0..<len]"

definition utf8 :: "string \<Rightarrow> 8 word list" where
  "utf8 s = concat (map utf8_char s)"

definition unit_of :: "8 word list \<Rightarrow> real" where
  "unit_of bs = (of_nat (be_nat (take 8 bs)) + 1 / 2) / 2 ^ 64"

definition hash_unit :: "digest \<Rightarrow> string list \<Rightarrow> real" where
  "hash_unit sha parts = unit_of (sha (utf8 (join_with ''|'' parts)))"

text \<open>\<open>str\<close> of a time, and the \<open>repr\<close> of a time on the full hour.\<close>

definition py_str_time :: "timestamp \<Rightarrow> string" where
  "py_str_time t = map (\<lambda>c. if c = CHR ''T'' then CHR '' '' else c) (py_isoformat t)"

definition py_repr_hour :: "timestamp \<Rightarrow> string" where
  "py_repr_hour t =
     (case civil_date (t div days 1) of (y, m, d) \<Rightarrow>
        ''datetime.datetime('' @ join_with '', '' (map py_str_int [y, m, d, t mod days 1 div hours 1, 0]) @ '')'')"

definition stable_seed :: "digest \<Rightarrow> int \<Rightarrow> string \<Rightarrow> int \<Rightarrow> timestamp \<Rightarrow> int \<Rightarrow> 8 word list" where
  "stable_seed sha pid target tid created version =
     sha (utf8 (join_with ''|'' [py_str_int pid, target, py_str_int tid, py_isoformat created, py_str_int version]))"

text \<open>The stream is its seed and the count of numbers drawn.\<close>

definition stream_unit :: "digest \<Rightarrow> 8 word list \<Rightarrow> nat \<Rightarrow> real" where
  "stream_unit sha seed k = unit_of (sha (seed @ be_bytes 8 k))"

definition stream_normal :: "digest \<Rightarrow> 8 word list \<Rightarrow> nat \<Rightarrow> real" where
  "stream_normal sha seed k =
     sqrt (- 2 * ln (max (stream_unit sha seed k) (1 / 10 ^ 15))) * cos (2 * pi * stream_unit sha seed (k + 1))"

lemma fold_be_bound: "fold (\<lambda>b n. n * 256 + unat b) bs a < (a + 1) * 256 ^ length (bs :: 8 word list)"
proof (induction bs arbitrary: a)
  case (Cons b bs)
  have "unat b < 2 ^ LENGTH(8)" by (rule unsigned_less)
  then have "unat b < 256" by simp
  then have "a * 256 + unat b + 1 \<le> (a + 1) * 256" by simp
  then have "(a * 256 + unat b + 1) * 256 ^ length bs \<le> (a + 1) * 256 * 256 ^ length bs" by (rule mult_right_mono) simp
  from less_le_trans [OF Cons [of "a * 256 + unat b"] this] show ?case by (simp add: algebra_simps)
qed simp

lemma be_nat_bound: "be_nat bs < 256 ^ length bs"
  using fold_be_bound [of bs 0] by (simp add: be_nat_def)

text \<open>The largest number a digest gives.\<close>

definition top_unit :: real where
  "top_unit = 1 - 1 / 2 ^ 65"

lemma top_unit_range: "0 < top_unit" "top_unit < 1"
  by (simp_all add: top_unit_def)

lemma unit_of_range: "0 < unit_of bs" "unit_of bs \<le> top_unit"
proof -
  show "0 < unit_of bs" by (simp add: unit_of_def divide_pos_pos)
  have "be_nat (take 8 bs) < 256 ^ length (take 8 bs)" by (rule be_nat_bound)
  also have "(256 :: nat) ^ length (take 8 bs) \<le> 256 ^ 8" by (intro power_increasing) simp_all
  finally have "be_nat (take 8 bs) + 1 \<le> 2 ^ 64" by simp
  then have "real (be_nat (take 8 bs) + 1) \<le> real (2 ^ 64)" by (rule of_nat_mono)
  then show "unit_of bs \<le> top_unit" by (simp add: unit_of_def top_unit_def field_simps)
qed

section \<open>Attention budgets\<close>

text \<open>The rejection sampler for shapes of at least one; it may draw for ever, which is \<open>None\<close>. The
  result comes with the count of numbers drawn so far.\<close>

definition gamma_accepts :: "real \<Rightarrow> real \<Rightarrow> real \<Rightarrow> real \<Rightarrow> bool" where
  "gamma_accepts d v x u = (u < 1 - 331 / 10000 * x ^ 4 \<or> ln u < 1 / 2 * x * x + d * (1 - v + ln v))"

partial_function (option) gamma_loop :: "digest \<Rightarrow> 8 word list \<Rightarrow> real \<Rightarrow> real \<Rightarrow> nat \<Rightarrow> (real \<times> nat) option" where
  "gamma_loop sha seed d c k =
     (let x = stream_normal sha seed k; v = (1 + c * x) ^ 3 in
      if 0 < v then
        if gamma_accepts d v x (stream_unit sha seed (k + 2)) then Some (d * v, k + 3)
        else gamma_loop sha seed d c (k + 3)
      else gamma_loop sha seed d c (k + 2))"

definition gamma_from :: "digest \<Rightarrow> 8 word list \<Rightarrow> real \<Rightarrow> nat \<Rightarrow> (real \<times> nat) option" where
  "gamma_from sha seed shape k = (let d = shape - 1 / 3 in gamma_loop sha seed d (1 / sqrt (9 * d)) k)"

definition gamma_sample :: "digest \<Rightarrow> 8 word list \<Rightarrow> real \<Rightarrow> nat \<Rightarrow> (real \<times> nat) option" where
  "gamma_sample sha seed shape k =
     (if shape < 1 then
        (case gamma_from sha seed (shape + 1) k of
           None \<Rightarrow> None
         | Some (g, k') \<Rightarrow> Some (g * stream_unit sha seed k' powr (1 / shape), k' + 1))
      else gamma_from sha seed shape k)"

text \<open>Each factor is at most \<open>top_unit\<close>, so the product falls to \<open>exp (- mean)\<close>.\<close>

definition poisson_steps :: "real \<Rightarrow> real \<Rightarrow> nat" where
  "poisson_steps mean p = (if p \<le> exp (- mean) then 0 else 1 + nat \<lceil>(ln p + mean) / - ln top_unit\<rceil>)"

lemma poisson_steps_decrease:
  assumes "exp (- mean) < p" and "0 < u" and "u \<le> top_unit"
  shows "poisson_steps mean (p * u) < poisson_steps mean p"
proof (cases "p * u \<le> exp (- mean)")
  case True
  with assms(1) show ?thesis by (simp add: poisson_steps_def)
next
  case False
  let ?q = top_unit
  have q: "0 < ?q" "?q < 1" by (rule top_unit_range)+
  then have l: "0 < - ln ?q" by simp
  have p: "0 < p" using assms(1) exp_gt_zero [of "- mean"] by linarith
  have "ln (p * u) = ln p + ln u" using p assms(2) by (simp add: ln_mult)
  moreover have "ln u \<le> ln ?q" using assms(2,3) q by (intro ln_mono) auto
  ultimately have "ln (p * u) + mean \<le> (ln p + mean) - - ln ?q" by linarith
  then have "(ln (p * u) + mean) / - ln ?q \<le> ((ln p + mean) - - ln ?q) / - ln ?q" using l by (intro divide_right_mono) auto
  also have "\<dots> = (ln p + mean) / - ln ?q - 1" using l by (simp add: field_simps)
  finally have "\<lceil>(ln (p * u) + mean) / - ln ?q\<rceil> \<le> \<lceil>(ln p + mean) / - ln ?q\<rceil> - 1" by linarith
  moreover have "0 < (ln p + mean) / - ln ?q"
  proof -
    have "- mean < ln p" using assms(1) p by (metis exp_less_cancel_iff exp_ln)
    with l show ?thesis by (intro divide_pos_pos) auto
  qed
  ultimately have "nat \<lceil>(ln (p * u) + mean) / - ln ?q\<rceil> < nat \<lceil>(ln p + mean) / - ln ?q\<rceil>" by linarith
  with False assms(1) show ?thesis by (simp add: poisson_steps_def not_le)
qed

function poisson_loop :: "digest \<Rightarrow> 8 word list \<Rightarrow> real \<Rightarrow> nat \<Rightarrow> int \<Rightarrow> real \<Rightarrow> int" where
  "poisson_loop sha seed mean k n p =
     (if exp (- mean) < p then poisson_loop sha seed mean (k + 1) (n + 1) (p * stream_unit sha seed k) else n)"
  by pat_completeness auto
termination
  by (relation "measure (\<lambda>(sha, seed, mean, k, n, p). poisson_steps mean p)")
    (auto simp: stream_unit_def intro!: poisson_steps_decrease unit_of_range)

declare poisson_loop.simps [simp del]

definition poisson_sample :: "digest \<Rightarrow> 8 word list \<Rightarrow> nat \<Rightarrow> real \<Rightarrow> int" where
  "poisson_sample sha seed k mean =
     (if mean \<le> 0 then 0
      else if mean < 80 then poisson_loop sha seed mean k 0 1 - 1
      else max 0 (py_round (mean + sqrt mean * stream_normal sha seed k)))"

definition sample_attention_budget :: "digest \<Rightarrow> attention_rules \<Rightarrow> 8 word list \<Rightarrow> int option" where
  "sample_attention_budget sha rules seed =
     (let mean = real_of_rat (mean_active_votes rules); most = trunc_rat (max_active_votes rules);
          shape = real_of_rat (attention_shape rules) in
      if mean \<le> 0 \<or> most \<le> 0 then Some 0
      else case gamma_sample sha seed shape 0 of
          None \<Rightarrow> None
        | Some (g, k) \<Rightarrow> Some (min most (poisson_sample sha seed k (g * (mean / shape)))))"

section \<open>The schedule of an item\<close>

text \<open>Times since creation in minutes. \<open>arrival_offset\<close> is what \<open>timedelta\<close> stores, whole
  microseconds.\<close>

definition arrival_minutes :: "int \<Rightarrow> int \<Rightarrow> real \<Rightarrow> real \<Rightarrow> real" where
  "arrival_minutes ordinal budget half_life window_hours =
     (let window = window_hours * 60; denominator = 1 - 2 powr (- window / half_life);
          quantile = of_int ordinal / of_int budget in
      - half_life * log 2 (1 - quantile * denominator))"

definition arrival_offset :: "int \<Rightarrow> int \<Rightarrow> real \<Rightarrow> real \<Rightarrow> string + int" where
  "arrival_offset ordinal budget half_life window_hours =
     (if ordinal < 1 \<or> budget < ordinal then Inl ''ordinal must be between 1 and budget''
      else if budget \<le> 0 then Inl ''budget must be positive''
      else Inr (py_round (arrival_minutes ordinal budget half_life window_hours * 60000000)))"

definition due_count :: "int \<Rightarrow> real \<Rightarrow> real \<Rightarrow> real \<Rightarrow> int" where
  "due_count budget age_minutes half_life window_hours =
     (let window = window_hours * 60;
          fraction = (1 - 2 powr (- age_minutes / half_life)) / (1 - 2 powr (- window / half_life)) in
      if budget \<le> 0 \<or> age_minutes \<le> 0 then 0
      else if window \<le> age_minutes then budget
      else min budget (max 0 \<lfloor>of_int budget * fraction\<rfloor>))"

definition minutes_of :: "int \<Rightarrow> real" where
  "minutes_of us = of_int us / 60000000"

lemma due_count_range: "0 \<le> due_count budget t h w" "due_count budget t h w \<le> max 0 budget"
  by (auto simp: due_count_def Let_def)

lemma arrival_iff:
  assumes "0 < h" and "0 < w" and "1 \<le> k" and "k \<le> n"
  shows "arrival_minutes k n h w \<le> t \<longleftrightarrow>
    of_int k * (1 - 2 powr (- (w * 60) / h)) \<le> of_int n * (1 - 2 powr (- t / h))"
proof -
  let ?d = "1 - 2 powr (- (w * 60) / h)" and ?q = "of_int k / of_int n :: real"
  have n: "0 < real_of_int n" using assms(3,4) by simp
  have d: "0 < ?d" "?d < 1" using assms(1,2) powr_less_mono [of "- (w * 60) / h" 0 2] by (simp_all add: divide_neg_pos)
  have q: "0 < ?q" "?q \<le> 1" using assms(3,4) n by simp_all
  have "?q * ?d \<le> ?d" using mult_right_mono [OF q(2), of ?d] d(1) by simp
  with d(2) have pos: "0 < 1 - ?q * ?d" by linarith
  have "arrival_minutes k n h w \<le> t \<longleftrightarrow> - t / h \<le> log 2 (1 - ?q * ?d)"
    using assms(1) by (auto simp: arrival_minutes_def Let_def field_simps minus_le_iff)
  also have "\<dots> \<longleftrightarrow> 2 powr (- t / h) \<le> 1 - ?q * ?d" using pos by (simp add: le_log_iff)
  also have "\<dots> \<longleftrightarrow> of_int k * ?d \<le> of_int n * (1 - 2 powr (- t / h))"
    using n by (simp add: field_simps)
  finally show ?thesis .
qed



section \<open>What validation guarantees\<close>

definition attention_ok :: "attention_rules \<Rightarrow> bool" where
  "attention_ok r =
     (0 \<le> mean_active_votes r \<and> 0 < attention_shape r \<and> 0 < half_life_minutes r \<and> 0 < active_window_hours r \<and>
      0 \<le> catchup_grace_hours r \<and> catchup_grace_hours r \<le> 168 \<and> 0 \<le> max_active_votes r \<and>
      0 < tail_half_life_days r \<and> 0 < tail_max_age_days r \<and> 0 \<le> tail_vote_chance r \<and> tail_vote_chance r \<le> 1)"

definition policy_ok :: "policy_config \<Rightarrow> bool" where
  "policy_ok c =
     (attention_ok (post_rules c) \<and> attention_ok (comment_rules c) \<and> 0 \<le> default_hourly_cap c \<and>
      0 \<le> minimum_gap_seconds c \<and> 0 \<le> subscription_weight c \<and> 0 \<le> max_activity_weight c \<and>
      0 \<le> base_downvote c \<and> base_downvote c \<le> 1 \<and> 0 \<le> minimum_downvote c \<and>
      minimum_downvote c \<le> maximum_downvote c \<and> maximum_downvote c \<le> 1)"

lemma first_problem_None: "first_problem ps = None \<longleftrightarrow> (\<forall>p \<in> set ps. p = None)"
  by (induction ps) (auto simp: first_problem_def List.map_filter_simps split: option.splits)

lemma checked_None: "checked p demand name v = None \<Longrightarrow> p (rat_of v)"
  by (auto simp: checked_def number_def rat_of_def split: json.splits if_splits)

lemma checks_None:
  "nonnegative name v = None \<Longrightarrow> 0 \<le> rat_of v" "positive name v = None \<Longrightarrow> 0 < rat_of v"
  "probability name v = None \<Longrightarrow> 0 \<le> rat_of v \<and> rat_of v \<le> 1"
  by (auto simp: nonnegative_def positive_def probability_def dest: checked_None)

lemma attention_checks_ok:
  assumes "\<forall>p \<in> set (attention_checks sec kvs). p = None"
  shows "attention_ok (attention_of kvs)"
proof -
  have "rat_of (field kvs ''catchup_grace_hours'') \<le> 168"
    using assms by (simp add: attention_checks_def Let_def MAX_CATCHUP_GRACE_HOURS_def not_less split: if_splits)
  moreover have "0 \<le> rat_of (field kvs k)" if "k \<in> {''mean_active_votes'', ''catchup_grace_hours'', ''max_active_votes''}" for k
    using that assms by (intro checks_None(1) [of "sec @ ''.'' @ k"]) (auto simp: attention_checks_def Let_def)
  moreover have "0 < rat_of (field kvs k)"
    if "k \<in> {''attention_shape'', ''half_life_minutes'', ''active_window_hours'', ''tail_half_life_days'', ''tail_max_age_days''}" for k
    using that assms by (intro checks_None(2) [of "sec @ ''.'' @ k"]) (auto simp: attention_checks_def Let_def)
  moreover have "0 \<le> rat_of (field kvs k) \<and> rat_of (field kvs k) \<le> 1" if "k = ''tail_vote_probability_per_exposure''" for k
    using that assms by (intro checks_None(3) [of "sec @ ''.'' @ k"]) (auto simp: attention_checks_def Let_def)
  ultimately show ?thesis by (simp add: attention_ok_def attention_of_def Let_def)
qed

definition policy_checks :: "(string \<times> json) list \<Rightarrow> string option list" where
  "policy_checks kvs =
     map (schema_problem kvs) POLICY_FIELDS @ attention_checks ''post'' (section_of kvs ''post'') @
       attention_checks ''comment'' (section_of kvs ''comment'') @ voter_checks (section_of kvs ''voter'') @
       direction_checks (section_of kvs ''direction'')"

definition normal_form :: "(string \<times> json) list \<Rightarrow> (string \<times> json) list" where
  "normal_form kvs = map (\<lambda>sec. (sec, field kvs sec)) (map fst POLICY_FIELDS)"

lemma validate_object:
  "validate_policy loads (JObj kvs) =
     (if \<not> same_fields (map fst POLICY_FIELDS) kvs then Inl ''policy config has an invalid schema''
      else case first_problem (policy_checks kvs) of Some e \<Rightarrow> Inl e | None \<Rightarrow> Inr (JObj (normal_form kvs)))"
  by (auto simp: validate_policy_def policy_checks_def normal_form_def split: option.split)

lemma validated_object:
  assumes "validate_policy loads config = Inr j"
  obtains kvs where "same_fields (map fst POLICY_FIELDS) kvs" "first_problem (policy_checks kvs) = None" "j = JObj (normal_form kvs)"
  using assms unfolding validate_policy_def policy_checks_def normal_form_def
  by (cases config) (auto split: option.splits json.splits if_splits)

lemma field_normal_form: "sec \<in> set (map fst POLICY_FIELDS) \<Longrightarrow> field (normal_form kvs) sec = field kvs sec"
  unfolding normal_form_def field_def map_of_map_restrict by (simp only: restrict_map_def o_def if_True option.case)

lemma direction_fields:
  assumes "schema_problem kvs (''direction'', fs) = None" and "k \<in> set fs"
    and "\<forall>p \<in> set (direction_checks (section_of kvs ''direction'')). p = None"
  shows "0 \<le> rat_of (field (section_of kvs ''direction'') k) \<and> rat_of (field (section_of kvs ''direction'') k) \<le> 1"
proof -
  let ?d = "section_of kvs ''direction''"
  have "k \<in> set (map fst ?d)" using assms(1,2)
    by (auto simp: schema_problem_def section_of_def same_fields_def split: json.splits if_splits)
  then obtain v where v: "map_of ?d k = Some v" by (metis domIff dom_map_of_conv_image_fst list.set_map option.exhaust)
  then have "(k, v) \<in> set ?d" by (rule map_of_SomeD)
  with assms(3) have "probability (''direction.'' @ k) v = None" by (force simp: direction_checks_def)
  from checks_None(3) [OF this] v show ?thesis by (simp add: field_def)
qed

lemma direction_order:
  "\<forall>p \<in> set (direction_checks kvs). p = None \<Longrightarrow>
   rat_of (field kvs ''minimum_downvote_probability'') \<le> rat_of (field kvs ''maximum_downvote_probability'')"
  by (simp add: direction_checks_def not_less split: if_splits)

lemma voter_fields:
  "\<forall>p \<in> set (voter_checks kvs). p = None \<Longrightarrow>
   \<forall>k \<in> {''default_hourly_cap'', ''minimum_gap_seconds'', ''subscription_weight'', ''max_activity_weight''}.
     0 \<le> rat_of (field kvs k)"
  using checks_None(1) by (simp add: voter_checks_def) blast

lemma validate_policy_ok:
  assumes "validate_policy loads config = Inr j"
  shows "policy_ok (config_of j)" and "validate_policy loads j = Inr j"
proof -
  obtain kvs where kvs: "same_fields (map fst POLICY_FIELDS) kvs" "first_problem (policy_checks kvs) = None"
    and j: "j = JObj (normal_form kvs)" by (rule validated_object [OF assms])
  let ?n = "normal_form kvs"
  have sec: "section_of ?n s = section_of kvs s" if "s \<in> set (map fst POLICY_FIELDS)" for s
    by (simp only: section_of_def field_normal_form [OF that])
  have names: "''post'' \<in> set (map fst POLICY_FIELDS)" "''comment'' \<in> set (map fst POLICY_FIELDS)"
    "''voter'' \<in> set (map fst POLICY_FIELDS)" "''direction'' \<in> set (map fst POLICY_FIELDS)"
    by (simp_all add: POLICY_FIELDS_def)
  have "schema_problem ?n x = schema_problem kvs x" if "x \<in> set POLICY_FIELDS" for x
  proof -
    have "fst x \<in> set (map fst POLICY_FIELDS)" using that by simp
    from field_normal_form [OF this] show ?thesis by (cases x) (simp only: schema_problem_def prod.case fst_conv)
  qed
  then have "policy_checks ?n = policy_checks kvs"
    unfolding policy_checks_def by (simp only: sec names cong: map_cong)
  moreover have "same_fields (map fst POLICY_FIELDS) ?n" by (simp add: same_fields_def normal_form_def o_def)
  moreover have "normal_form ?n = ?n"
  proof -
    have "map (\<lambda>sec. (sec, field ?n sec)) (map fst POLICY_FIELDS) = map (\<lambda>sec. (sec, field kvs sec)) (map fst POLICY_FIELDS)"
      by (rule map_cong [OF refl]) (simp only: field_normal_form)
    then show ?thesis by (simp only: normal_form_def [of ?n] normal_form_def [of kvs, symmetric])
  qed
  ultimately show "validate_policy loads j = Inr j" using kvs(2) by (simp add: j validate_object)
  have checks: "\<forall>p \<in> set (policy_checks kvs). p = None" using kvs(2) by (simp add: first_problem_None)
  have schema: "schema_problem kvs (''direction'', [''base_downvote_probability'', ''minimum_downvote_probability'',
      ''maximum_downvote_probability'']) = None"
    using checks by (simp add: policy_checks_def POLICY_FIELDS_def)
  have split: "\<forall>p \<in> set (attention_checks ''post'' (section_of kvs ''post'')). p = None"
    "\<forall>p \<in> set (attention_checks ''comment'' (section_of kvs ''comment'')). p = None"
    "\<forall>p \<in> set (voter_checks (section_of kvs ''voter'')). p = None"
    "\<forall>p \<in> set (direction_checks (section_of kvs ''direction'')). p = None"
    using checks by (simp_all add: policy_checks_def)
  note parts = attention_checks_ok [OF split(1)] attention_checks_ok [OF split(2)] split(3,4)
  show "policy_ok (config_of j)"
    using parts(1,2) voter_fields [OF parts(3)] direction_fields [OF schema _ parts(4)] direction_order [OF parts(4)]
    by (simp add: j config_of_def policy_ok_def Let_def sec [OF names(1)] sec [OF names(2)] sec [OF names(3)] sec [OF names(4)])
qed



end
