(* ===== verification/Engagement.thy ===== *)
theory Engagement
  imports Cadence Lull
begin

text \<open>
  The vote simulator of \<open>deaddit/dynamics/engagement.py\<close>: who may vote, in which direction, and one
  tick of the active window, the archive and revived threads. Policies and schedules are in
  \<open>Cadence\<close>; live votes go through \<open>cast_vote\<close>. A tick is a function of the database: nobody else
  writes between its transactions.
\<close>

section \<open>The simulator and its policies\<close>

text \<open>A policy in force: the row's key and version (0 and 1 for a policy given as a value).\<close>

record in_force =
  force_id :: int
  force_version :: int
  force_config :: policy_config

text \<open>The engine with its limits, and what the code takes from outside: SHA-256, \<open>json.loads\<close>, \<open>str\<close>
  of a subscription that is not text, the wall clock at the \<open>n\<close>-th vote and the local offset
  from UTC.\<close>

record simulator =
  sim_sha :: digest
  sim_loads :: "string \<Rightarrow> json option"
  sim_str :: "json \<Rightarrow> string"
  sim_clock :: "nat \<Rightarrow> timestamp"
  sim_offset :: int
  given_policy :: "in_force option"
  per_item_limit :: int
  global_limit :: int
  archive_candidate_limit :: int
  archive_item_limit :: int
  revival_thread_limit :: int
  revival_visible_comment_limit :: int
  recent_comment_lookback_minutes :: int
  dry_run :: bool
  only_type :: "string option"
  only_ids :: "int list option"
  downvotes_choice :: "bool option"

definition load_in_force :: "simulator \<Rightarrow> cadence_policy \<Rightarrow> string + in_force" where
  "load_in_force env p =
     (case load_policy_config (sim_loads env) p of
        Inl e \<Rightarrow> Inl e
      | Inr c \<Rightarrow> Inr \<lparr>force_id = cadence_id p, force_version = algorithm_version p, force_config = c\<rparr>)"

definition resolve_policy :: "simulator \<Rightarrow> timestamp \<Rightarrow> db \<Rightarrow> string + in_force option" where
  "resolve_policy env t d =
     (case given_policy env of
        Some f \<Rightarrow> Inr (Some f)
      | None \<Rightarrow>
          (case order_desc (\<lambda>p. (effective_at p, cadence_id p)) (filter (\<lambda>p. effective_at p \<le> t) (cadence_policies d)) of
             [] \<Rightarrow> Inr None
           | p # _ \<Rightarrow> (case load_in_force env p of Inl e \<Rightarrow> Inl e | Inr f \<Rightarrow> Inr (Some f))))"

definition section_for :: "policy_config \<Rightarrow> string \<Rightarrow> attention_rules" where
  "section_for c target = (if target = ''post'' then post_rules c else comment_rules c)"

definition window_hours :: "policy_config \<Rightarrow> string \<Rightarrow> rat" where
  "window_hours c target = active_window_hours (section_for c target) + catchup_grace_hours (section_for c target)"

fun longest_window :: "simulator \<Rightarrow> string \<Rightarrow> cadence_policy list \<Rightarrow> rat \<Rightarrow> string + rat" where
  "longest_window env target [] h = Inr h"
| "longest_window env target (p # ps) h =
     (case load_in_force env p of
        Inl e \<Rightarrow> Inl e
      | Inr f \<Rightarrow> longest_window env target ps (max h (window_hours (force_config f) target)))"

text \<open>Every window is positive, so the maximum of none is 0.\<close>

definition candidate_horizon :: "simulator \<Rightarrow> string \<Rightarrow> timestamp \<Rightarrow> db \<Rightarrow> string + rat" where
  "candidate_horizon env target now d =
     (case given_policy env of
        Some f \<Rightarrow> Inr (window_hours (force_config f) target)
      | None \<Rightarrow> longest_window env target (filter (\<lambda>p. effective_at p \<le> now) (cadence_policies d)) 0)"

section \<open>Targets and votes\<close>

text \<open>A post or comment with its community, which a comment has from its post.\<close>

record vote_target =
  tgt_kind :: string
  tgt_item :: item
  tgt_sub :: "string option"

definition post_target :: "post \<Rightarrow> vote_target" where
  "post_target p = \<lparr>tgt_kind = ''post'', tgt_item = item.truncate p, tgt_sub = Some (subdeaddit_name p)\<rparr>"

definition comment_target :: "db \<Rightarrow> comment \<Rightarrow> vote_target" where
  "comment_target d c = \<lparr>tgt_kind = ''comment'', tgt_item = item.truncate c,
     tgt_sub = map_option subdeaddit_name (find_row item_id (post_id c) (posts d))\<rparr>"

definition tgt_id :: "vote_target \<Rightarrow> int" where
  "tgt_id t = item_id (tgt_item t)"

definition all_targets :: "string \<Rightarrow> db \<Rightarrow> vote_target list" where
  "all_targets target d =
     (if target = ''post'' then map post_target (posts d) else map (comment_target d) (comments d))"

text \<open>A time some seconds back; \<open>None\<close> where the subtraction overflows.\<close>

definition earlier :: "timestamp \<Rightarrow> rat \<Rightarrow> timestamp option" where
  "earlier now secs = add_seconds now (Finite (- secs))"

definition wanted_id :: "int list option \<Rightarrow> int \<Rightarrow> bool" where
  "wanted_id ids i = (case ids of None \<Rightarrow> True | Some js \<Rightarrow> i \<in> set js)"

definition candidate_query :: "string \<Rightarrow> timestamp \<Rightarrow> rat \<Rightarrow> int list option \<Rightarrow> db \<Rightarrow> vote_target list option" where
  "candidate_query target now horizon ids d =
     (case earlier now (horizon * 3600) of
        None \<Rightarrow> None
      | Some lower \<Rightarrow>
          Some (sort_key (\<lambda>t. (created_at (tgt_item t), tgt_id t))
            (filter (\<lambda>t. lower \<le> created_at (tgt_item t) \<and> created_at (tgt_item t) \<le> now \<and> wanted_id ids (tgt_id t))
              (all_targets target d))))"

definition existing_votes :: "string \<Rightarrow> int \<Rightarrow> db \<Rightarrow> vote list" where
  "existing_votes target tid d = filter (\<lambda>v. target_col target v = Some tid) (votes d)"

section \<open>Voters\<close>

record voter_snapshot =
  snap_name :: username
  snap_state :: json

definition ordered_users :: "db \<Rightarrow> voter_snapshot list" where
  "ordered_users d =
     sort_key snap_name (map (\<lambda>u. \<lparr>snap_name = user_name u, snap_state = agent_state u\<rparr>)
       (filter (\<lambda>u. password_hash u = None) (users d)))"

text \<open>The members of a state; \<open>None\<close> where \<open>.get\<close> meets a value that is no object.\<close>

definition state_fields :: "json \<Rightarrow> (string \<times> json) list option" where
  "state_fields st = (case (if py_truthy st then st else JObj []) of JObj kvs \<Rightarrow> Some kvs | _ \<Rightarrow> None)"

definition or_else :: "json option \<Rightarrow> json \<Rightarrow> json" where
  "or_else v dflt = (case v of None \<Rightarrow> dflt | Some x \<Rightarrow> if py_truthy x then x else dflt)"

definition voter_subscriptions :: "simulator \<Rightarrow> json \<Rightarrow> string list option" where
  "voter_subscriptions env st =
     (case state_fields st of
        None \<Rightarrow> None
      | Some kvs \<Rightarrow>
          (case or_else (map_of kvs ''subscriptions'') (JList []) of
             JStr s \<Rightarrow> Some [s]
           | JList xs \<Rightarrow> Some (map (\<lambda>x. case x of JStr s \<Rightarrow> s | v \<Rightarrow> sim_str env v) xs)
           | JObj fs \<Rightarrow> Some (map fst fs)
           | _ \<Rightarrow> None))"

definition vote_cap :: "json \<Rightarrow> rat \<Rightarrow> int option" where
  "vote_cap st dflt =
     (case state_fields st of
        None \<Rightarrow> None
      | Some kvs \<Rightarrow>
          (let override = (case or_else (map_of kvs ''rate_caps'') (JObj []) of
                 JObj caps \<Rightarrow> (case map_of caps ''vote'' of None \<Rightarrow> JNull | Some v \<Rightarrow> v)
               | _ \<Rightarrow> JNull) in
           Some (max 0 (case py_int override of None \<Rightarrow> trunc_rat dflt | Some i \<Rightarrow> i))))"

text \<open>What a tick knows of each voter's past: votes in the last week, votes and the latest vote in
  the last hour.\<close>

record voting_record =
  rec_recent :: "username \<Rightarrow> int"
  rec_hourly :: "username \<Rightarrow> int"
  rec_latest :: "username \<Rightarrow> timestamp option"

definition votes_since :: "timestamp \<Rightarrow> username \<Rightarrow> db \<Rightarrow> vote list" where
  "votes_since t who d = filter (\<lambda>v. voter v = Some who \<and> t \<le> vote_created_at v) (votes d)"

definition voting_record_at :: "timestamp \<Rightarrow> db \<Rightarrow> voting_record" where
  "voting_record_at now d =
     \<lparr>rec_recent = (\<lambda>who. int (length (votes_since (now - days 7) who d))),
      rec_hourly = (\<lambda>who. int (length (votes_since (now - hours 1) who d))),
      rec_latest = (\<lambda>who. case map vote_created_at (votes_since (now - hours 1) who d) of
         [] \<Rightarrow> None | t # ts \<Rightarrow> Some (fold max ts t))\<rparr>"

text \<open>The judgement on one voter: an exception, the reason against, or the weight.\<close>

definition judge_voter :: "simulator \<Rightarrow> policy_config \<Rightarrow> timestamp \<Rightarrow> vote_target \<Rightarrow> username option set \<Rightarrow> username list \<Rightarrow>
    voting_record \<Rightarrow> voter_snapshot \<Rightarrow> string + (string + rat)" where
  "judge_voter env c now t existing selected vr u =
     (if snap_name u = author (tgt_item t) then Inr (Inl ''author'')
      else if Some (snap_name u) \<in> existing \<or> snap_name u \<in> set selected then Inr (Inl ''prior_voter'')
      else case vote_cap (snap_state u) (default_hourly_cap c) of
          None \<Rightarrow> Inl ''AttributeError''
        | Some cap \<Rightarrow>
            if cap = 0 \<or> cap \<le> rec_hourly vr (snap_name u) then Inr (Inl ''cap'')
            else
              (case (case rec_latest vr (snap_name u) of None \<Rightarrow> Inr False
                     | Some latest \<Rightarrow> (case earlier now (minimum_gap_seconds c) of
                         None \<Rightarrow> Inl ''OverflowError'' | Some limit \<Rightarrow> Inr (limit \<le> latest))) of
                 Inl e \<Rightarrow> Inl e
               | Inr True \<Rightarrow> Inr (Inl ''min_gap'')
               | Inr False \<Rightarrow>
                   (case (tgt_sub t, voter_subscriptions env (snap_state u)) of
                      (Some sub, Some subs) \<Rightarrow>
                        (let activity = min (max_activity_weight c) (of_int (rec_recent vr (snap_name u)));
                             weight = (if sub \<in> set subs then subscription_weight c else 1) + activity in
                         Inr (if weight \<le> 0 then Inl ''disabled'' else Inr weight))
                    | _ \<Rightarrow> Inl ''TypeError'')))"

fun judge_voters :: "(voter_snapshot \<Rightarrow> string + (string + rat)) \<Rightarrow> voter_snapshot list \<Rightarrow>
    string + (voter_snapshot \<times> rat) list \<times> string list" where
  "judge_voters f [] = Inr ([], [])"
| "judge_voters f (u # us) =
     (case f u of
        Inl e \<Rightarrow> Inl e
      | Inr v \<Rightarrow>
          (case judge_voters f us of
             Inl e \<Rightarrow> Inl e
           | Inr (pool, reasons) \<Rightarrow>
               (case v of Inl r \<Rightarrow> Inr (pool, r # reasons) | Inr weight \<Rightarrow> Inr ((u, weight) # pool, reasons))))"

definition race_key :: "simulator \<Rightarrow> vote_target \<Rightarrow> int \<Rightarrow> voter_snapshot \<times> rat \<Rightarrow> real" where
  "race_key env t ordinal = (\<lambda>(u, weight).
     - ln (max (hash_unit (sim_sha env) [tgt_kind t, py_str_int (tgt_id t), py_str_time (created_at (tgt_item t)),
         py_str_int ordinal, snap_name u, ''voter'']) (1 / 10 ^ 15)) / real_of_rat weight)"

definition race_winner :: "simulator \<Rightarrow> vote_target \<Rightarrow> int \<Rightarrow> (voter_snapshot \<times> rat) list \<Rightarrow> (voter_snapshot \<times> rat) option" where
  "race_winner env t ordinal pool =
     fold (\<lambda>x best. case best of
          None \<Rightarrow> Some x
        | Some b \<Rightarrow>
            if race_key env t ordinal x < race_key env t ordinal b \<or>
              (race_key env t ordinal x = race_key env t ordinal b \<and> snap_name (fst x) < snap_name (fst b))
            then Some x else best) pool None"

definition select_voter :: "simulator \<Rightarrow> policy_config \<Rightarrow> timestamp \<Rightarrow> vote_target \<Rightarrow> int \<Rightarrow> username option set \<Rightarrow>
    username list \<Rightarrow> voting_record \<Rightarrow> voter_snapshot list \<Rightarrow> string + voter_snapshot option \<times> string" where
  "select_voter env c now t ordinal existing selected vr us =
     (case judge_voters (judge_voter env c now t existing selected vr) us of
        Inl e \<Rightarrow> Inl e
      | Inr (pool, reasons) \<Rightarrow>
          (case race_winner env t ordinal pool of
             Some (u, _) \<Rightarrow> Inr (Some u, ''selected'')
           | None \<Rightarrow>
               Inr (None,
                 if reasons \<noteq> [] \<and> list_all (\<lambda>r. r = ''cap'') reasons then ''cap''
                 else if reasons \<noteq> [] \<and> list_all (\<lambda>r. r = ''min_gap'') reasons then ''min_gap''
                 else ''no_voter'')))"

section \<open>Direction\<close>

definition downvote_probability :: "simulator \<Rightarrow> in_force \<Rightarrow> vote_target \<Rightarrow> username \<Rightarrow> bool \<Rightarrow> int \<Rightarrow> real" where
  "downvote_probability env f t who subscribed activity =
     (let c = force_config f; unit = hash_unit (sim_sha env); pid = py_str_int (force_id f); tid = py_str_int (tgt_id t);
          quality = unit [pid, tgt_kind t, tid, py_str_time (created_at (tgt_item t)), ''quality''];
          controversy = unit [pid, tgt_kind t, tid, who, ''controversy''];
          affinity = (if subscribed then 2 / 100 else - 1 / 100) + 2 / 100 * min 1 (max 0 (of_int activity));
          p = real_of_rat (base_downvote c) + (quality - 1 / 2) * (4 / 100) + (controversy - 1 / 2) * (2 / 100) +
            (affinity - 1 / 100) in
      min (real_of_rat (maximum_downvote c)) (max (real_of_rat (minimum_downvote c)) p))"

definition select_direction :: "simulator \<Rightarrow> in_force \<Rightarrow> vote_target \<Rightarrow> username \<Rightarrow> bool \<Rightarrow> int \<Rightarrow> bool \<Rightarrow> int" where
  "select_direction env f t who subscribed activity allowed =
     (if \<not> allowed then 1
      else if hash_unit (sim_sha env) [py_str_int (force_id f), tgt_kind t, py_str_int (tgt_id t),
          py_str_time (created_at (tgt_item t)), who, ''direction''] < downvote_probability env f t who subscribed activity
      then - 1 else 1)"

definition tail_vote_probability :: "attention_rules \<Rightarrow> timestamp \<Rightarrow> timestamp \<Rightarrow> real" where
  "tail_vote_probability r created exposed =
     (let age_days = max 0 (of_int (exposed - created)) / of_int (days 1) in
      if real_of_rat (tail_max_age_days r) \<le> age_days then 0
      else real_of_rat (tail_vote_chance r) * exp (- ln 2 * age_days / real_of_rat (tail_half_life_days r)))"

section \<open>One tick\<close>

record vote_decision =
  dec_kind :: string
  dec_target :: int
  dec_ordinal :: int
  dec_budget :: int
  dec_voter :: username
  dec_direction :: int
  dec_offset :: int
  dec_mode :: string

datatype cast_result = Dry_Run | Cast vote_outcome

datatype due_entry = Active_Due string int int | Tail_Due string int string real

record tick_state =
  tick_db :: db
  tick_record :: voting_record
  decisions :: "vote_decision list"
  casts :: "cast_result list"
  skips :: "string list"
  budgets :: "((string \<times> int) \<times> int) list"
  due_entries :: "due_entry list"
  targets_examined :: int
  active_proposals :: int
  archive_proposals :: int
  revival_proposals :: int
  archive_candidates_examined :: int
  revival_threads_examined :: int

text \<open>A tick may raise, with what was committed so far, or never return from its sampler.\<close>

datatype tick_end = Ticked tick_state | Tick_Raised string tick_state | Tick_Endless

fun each :: "('a \<Rightarrow> tick_state \<Rightarrow> tick_end) \<Rightarrow> 'a list \<Rightarrow> tick_state \<Rightarrow> tick_end" where
  "each f [] s = Ticked s"
| "each f (x # xs) s = (case f x s of Ticked s' \<Rightarrow> each f xs s' | e \<Rightarrow> e)"

definition and_then :: "tick_end \<Rightarrow> (tick_state \<Rightarrow> tick_end) \<Rightarrow> tick_end" where
  "and_then e f = (case e of Ticked s \<Rightarrow> f s | _ \<Rightarrow> e)"

definition skip :: "string \<Rightarrow> tick_state \<Rightarrow> tick_state" where
  "skip reason s = s\<lparr>skips := skips s @ [reason]\<rparr>"

definition casts_used :: "tick_state \<Rightarrow> int" where
  "casts_used s = int (length (casts s))"

definition downvotes_now :: "simulator \<Rightarrow> db \<Rightarrow> bool" where
  "downvotes_now env d = (case downvotes_choice env of None \<Rightarrow> downvotes_allowed d | Some b \<Rightarrow> b)"

text \<open>The voter's record after a proposal.\<close>

definition note_vote :: "username \<Rightarrow> timestamp \<Rightarrow> voting_record \<Rightarrow> voting_record" where
  "note_vote who now vr =
     vr\<lparr>rec_hourly := (rec_hourly vr)(who := rec_hourly vr who + 1), rec_latest := (rec_latest vr)(who := Some now)\<rparr>"

definition cast_decision :: "simulator \<Rightarrow> vote_decision \<Rightarrow> tick_state \<Rightarrow> tick_end" where
  "cast_decision env x s =
     (let s' = s\<lparr>decisions := decisions s @ [x]\<rparr> in
      if dry_run env then Ticked (s'\<lparr>casts := casts s @ [Dry_Run]\<rparr>)
      else case cast_vote (Some (dec_voter x)) (dec_kind x) (dec_target x) (dec_direction x) ''simulated'' False None
              (sim_clock env (length (casts s))) (tick_db s) of
          (Vote_Raises Integrity_Error, d) \<Rightarrow> Tick_Raised ''IntegrityError'' (s'\<lparr>tick_db := d\<rparr>)
        | (Vote_Raises Multiple_Results_Found, d) \<Rightarrow> Tick_Raised ''MultipleResultsFound'' (s'\<lparr>tick_db := d\<rparr>)
        | (r, d) \<Rightarrow> Ticked (s'\<lparr>tick_db := d, casts := casts s @ [Cast r]\<rparr>))"

text \<open>A selected voter: the record, the direction and the vote itself.\<close>

definition propose :: "simulator \<Rightarrow> in_force \<Rightarrow> timestamp \<Rightarrow> vote_target \<Rightarrow> int \<Rightarrow> int \<Rightarrow> string + int \<Rightarrow> string \<Rightarrow>
    voter_snapshot \<Rightarrow> tick_state \<Rightarrow> tick_end" where
  "propose env f now t ordinal budget offset mode u s =
     (let s' = s\<lparr>tick_record := note_vote (snap_name u) now (tick_record s)\<rparr> in
      case (tgt_sub t, voter_subscriptions env (snap_state u)) of
        (Some sub, Some subs) \<Rightarrow>
          (let dir = select_direction env f t (snap_name u) (sub \<in> set subs) (rec_recent (tick_record s) (snap_name u))
                 (downvotes_now env (tick_db s)) in
           case offset of
             Inl e \<Rightarrow> Tick_Raised e s'
           | Inr us \<Rightarrow>
               cast_decision env \<lparr>dec_kind = tgt_kind t, dec_target = tgt_id t, dec_ordinal = ordinal, dec_budget = budget,
                 dec_voter = snap_name u, dec_direction = dir, dec_offset = us, dec_mode = mode\<rparr> s')
      | _ \<Rightarrow> Tick_Raised ''TypeError'' s')"

section \<open>The active window\<close>

text \<open>The ordinals due on one target, with the voters selected for it so far.\<close>

fun active_votes :: "simulator \<Rightarrow> in_force \<Rightarrow> timestamp \<Rightarrow> vote_target \<Rightarrow> int \<Rightarrow> username option set \<Rightarrow>
    voter_snapshot list \<Rightarrow> int list \<Rightarrow> username list \<Rightarrow> tick_state \<Rightarrow> tick_end" where
  "active_votes env f now t budget existing us [] selected s = Ticked s"
| "active_votes env f now t budget existing us (k # ks) selected s =
     (let rules = section_for (force_config f) (tgt_kind t) in
      if global_limit env \<le> casts_used s then active_votes env f now t budget existing us ks selected (skip ''global_limit'' s)
      else if per_item_limit env \<le> int (length selected)
      then active_votes env f now t budget existing us ks selected (skip ''item_limit'' s)
      else case select_voter env (force_config f) now t k existing selected (tick_record s) us of
          Inl e \<Rightarrow> Tick_Raised e s
        | Inr (None, reason) \<Rightarrow> active_votes env f now t budget existing us ks selected (skip reason s)
        | Inr (Some u, _) \<Rightarrow>
            and_then (propose env f now t k budget
                (arrival_offset k budget (real_of_rat (half_life_minutes rules)) (real_of_rat (active_window_hours rules)))
                ''active'' u s)
              (active_votes env f now t budget existing us ks (snap_name u # selected)))"

definition simulated_count :: "string \<Rightarrow> int \<Rightarrow> db \<Rightarrow> int" where
  "simulated_count target tid d = count_rows (\<lambda>v. vote_source v = ''simulated'') (existing_votes target tid d)"

definition active_target :: "simulator \<Rightarrow> timestamp \<Rightarrow> voter_snapshot list \<Rightarrow> vote_target \<Rightarrow> tick_state \<Rightarrow> tick_end" where
  "active_target env now us t s =
     (let born = created_at (tgt_item t); age = now - born in
      case resolve_policy env born (tick_db s) of
        Inl e \<Rightarrow> Tick_Raised e s
      | Inr None \<Rightarrow> Ticked s
      | Inr (Some f) \<Rightarrow>
          (let rules = section_for (force_config f) (tgt_kind t); span = window_hours (force_config f) (tgt_kind t) in
           if age < 0 \<or> round_even (span * 3600 * 1000000) < age then Ticked s
           else
             case sample_attention_budget (sim_sha env) rules
                 (stable_seed (sim_sha env) (force_id f) (tgt_kind t) (tgt_id t) born (force_version f)) of
               None \<Rightarrow> Tick_Endless
             | Some budget \<Rightarrow>
                 (let n = simulated_count (tgt_kind t) (tgt_id t) (tick_db s);
                      due = due_count budget (minutes_of age) (real_of_rat (half_life_minutes rules))
                        (real_of_rat (active_window_hours rules));
                      ordinals = [n + 1..due] in
                  active_votes env f now t budget (voter ` set (existing_votes (tgt_kind t) (tgt_id t) (tick_db s))) us ordinals []
                    (s\<lparr>targets_examined := targets_examined s + 1,
                       budgets := budgets s @ [((tgt_kind t, tgt_id t), budget)],
                       active_proposals := active_proposals s + max 0 (due - n),
                       due_entries := due_entries s @ map (Active_Due (tgt_kind t) (tgt_id t)) ordinals\<rparr>))))"

definition active_kind :: "simulator \<Rightarrow> timestamp \<Rightarrow> voter_snapshot list \<Rightarrow> string \<Rightarrow> tick_state \<Rightarrow> tick_end" where
  "active_kind env now us target s =
     (if target \<notin> {''post'', ''comment''} then Tick_Raised ''target_type must be post or comment'' s
      else case candidate_horizon env target now (tick_db s) of
          Inl e \<Rightarrow> Tick_Raised e s
        | Inr horizon \<Rightarrow>
            (case candidate_query target now horizon (if only_type env = Some target then only_ids env else None) (tick_db s) of
               None \<Rightarrow> Tick_Raised ''OverflowError'' s
             | Some ts \<Rightarrow> each (active_target env now us) ts s))"

section \<open>Archive and revival\<close>

text \<open>One exposure of an old item: \<open>source\<close> is the text of the key it is drawn with.\<close>

definition tail_opportunity :: "simulator \<Rightarrow> in_force \<Rightarrow> timestamp \<Rightarrow> voter_snapshot list \<Rightarrow> string \<Rightarrow> string \<Rightarrow> vote_target \<Rightarrow>
    tick_state \<Rightarrow> tick_end" where
  "tail_opportunity env f now us mode source t s =
     (if per_item_limit env \<le> count_rows (\<lambda>x. dec_kind x = tgt_kind t \<and> dec_target x = tgt_id t) (decisions s)
      then Ticked (skip ''item_limit'' s)
      else
        (let sha = sim_sha env; born = created_at (tgt_item t);
            p = tail_vote_probability (section_for (force_config f) (tgt_kind t)) born now;
            s = s\<lparr>due_entries := due_entries s @ [Tail_Due (tgt_kind t) (tgt_id t) mode p]\<rparr>;
            existing = existing_votes (tgt_kind t) (tgt_id t) (tick_db s);
            seed = be_nat (stable_seed sha (force_id f) (tgt_kind t) (tgt_id t) born (force_version f));
            ordinal = floor (hash_unit sha [nat_str seed, mode, source] * 1000000000) + 1 in
        if p \<le> 0 \<or> p \<le> hash_unit sha [mode, source, ''exposure''] then Ticked (skip ''tail_probability'' s)
        else if global_limit env \<le> casts_used s then Ticked (skip ''global_limit'' s)
        else if list_ex (\<lambda>v. vote_source v = ''simulated'') existing then Ticked (skip ''prior_voter'' s)
        else case select_voter env (force_config f) now t ordinal {} [] (tick_record s) us of
            Inl e \<Rightarrow> Tick_Raised e s
          | Inr (None, reason) \<Rightarrow> Ticked (skip reason s)
          | Inr (Some u, _) \<Rightarrow>
              if Some (snap_name u) \<in> voter ` set existing then Ticked (skip ''prior_voter'' s)
              else propose env f now t ordinal 1 (Inr 0) mode u s))"

definition archive_bucket :: "simulator \<Rightarrow> timestamp \<Rightarrow> timestamp" where
  "archive_bucket env now = (now - sim_offset env) div hours 1 * hours 1"

definition archive_query :: "attention_rules \<Rightarrow> timestamp \<Rightarrow> int \<Rightarrow> int list option \<Rightarrow> db \<Rightarrow> post list option" where
  "archive_query r now limit ids d =
     (case (earlier now (tail_max_age_days r * 86400), earlier now ((active_window_hours r + catchup_grace_hours r) * 3600)) of
        (Some oldest, Some newest) \<Rightarrow>
          Some (take (nat limit) (sort_key (\<lambda>p. (created_at p, item_id p))
            (filter (\<lambda>p. oldest \<le> created_at p \<and> created_at p < newest \<and> created_at p \<le> now \<and> wanted_id ids (item_id p))
              (posts d))))
      | _ \<Rightarrow> None)"

definition archive_weight :: "attention_rules \<Rightarrow> timestamp \<Rightarrow> int \<Rightarrow> post \<Rightarrow> real" where
  "archive_weight r now subscribed p =
     (let age_days = max 0 (of_int (now - created_at p)) / of_int (days 1);
          decay = exp (- ln 2 * age_days / real_of_rat (tail_half_life_days r)) in
      max (1 / 1000) ((1 + of_int (vote_count p)) * (1 + of_int subscribed) * decay))"

text \<open>How many of the eligible voters subscribe to the community of a post that is not theirs.\<close>

definition coverage :: "simulator \<Rightarrow> voter_snapshot list \<Rightarrow> post \<Rightarrow> int option" where
  "coverage env us p =
     (let others_of = filter (\<lambda>u. snap_name u \<noteq> author p) us in
      if list_ex (\<lambda>u. voter_subscriptions env (snap_state u) = None) others_of then None
      else Some (count_rows (\<lambda>u. case voter_subscriptions env (snap_state u) of None \<Rightarrow> False
             | Some subs \<Rightarrow> subdeaddit_name p \<in> set subs) others_of))"

definition archive_rank :: "simulator \<Rightarrow> attention_rules \<Rightarrow> timestamp \<Rightarrow> int \<times> post \<Rightarrow> real" where
  "archive_rank env r now = (\<lambda>(n, p).
     - ln (max (hash_unit (sim_sha env) [''archive'', py_str_time (archive_bucket env now), py_str_int (item_id p)])
         (1 / 10 ^ 15)) / archive_weight r now n p)"

definition quote_text :: "string \<Rightarrow> string" where
  "quote_text s = [CHR 0x27] @ s @ [CHR 0x27]"

definition archive_source :: "simulator \<Rightarrow> timestamp \<Rightarrow> post \<Rightarrow> string" where
  "archive_source env now p =
     ''('' @ join_with '', '' [quote_text ''archive'', py_repr_hour (archive_bucket env now), py_str_int (item_id p)] @ '')''"

definition revival_source :: "comment \<Rightarrow> vote_target \<Rightarrow> string" where
  "revival_source trig t =
     ''('' @ join_with '', '' [quote_text ''revival'', py_str_int (item_id trig), quote_text (tgt_kind t),
       py_str_int (tgt_id t)] @ '')''"

definition archive_phase :: "simulator \<Rightarrow> in_force \<Rightarrow> timestamp \<Rightarrow> int list option \<Rightarrow> voter_snapshot list \<Rightarrow> tick_state \<Rightarrow> tick_end" where
  "archive_phase env f now ids us s =
     (let r = post_rules (force_config f); d = tick_db s in
      case archive_query r now (archive_candidate_limit env) ids d of
        None \<Rightarrow> Tick_Raised ''OverflowError'' s
      | Some ps \<Rightarrow>
          (let s = s\<lparr>archive_candidates_examined := int (length ps)\<rparr>;
               caps = map (\<lambda>u. (u, vote_cap (snap_state u) (default_hourly_cap (force_config f)))) us;
               eligible = map fst (filter (\<lambda>(u, cap). case cap of None \<Rightarrow> False | Some n \<Rightarrow> 0 < n) caps) in
           if list_ex (\<lambda>(u, cap). cap = None) caps then Tick_Raised ''AttributeError'' s
           else if list_ex (\<lambda>p. coverage env eligible p = None) ps then Tick_Raised ''TypeError'' s
           else
             let ranked = sort_key (\<lambda>x. (archive_rank env r now x, item_id (snd x)))
                   (map (\<lambda>p. (case coverage env eligible p of None \<Rightarrow> 0 | Some n \<Rightarrow> n, p)) ps) in
             each (\<lambda>(_, p) s. tail_opportunity env f now us ''archive'' (archive_source env now p) (post_target p)
                 (s\<lparr>archive_proposals := archive_proposals s + 1\<rparr>))
               (take (nat (archive_item_limit env)) ranked) (s\<lparr>tick_record := voting_record_at now d\<rparr>)))"

text \<open>The post, the comment replied to and the visible top-level comments of a thread. Identifiers
  of posts and comments are compared with each other here, as in the code.\<close>

definition revival_targets :: "simulator \<Rightarrow> post \<Rightarrow> comment \<Rightarrow> db \<Rightarrow> vote_target list" where
  "revival_targets env p trig d =
     (let first = post_target p # (case parent_id trig of None \<Rightarrow> []
            | Some i \<Rightarrow> (case find_row item_id i (comments d) of None \<Rightarrow> [] | Some c \<Rightarrow> [comment_target d c]));
          visible = take (nat (revival_visible_comment_limit env))
            (order_desc (\<lambda>c. (score c, created_at c, item_id c))
              (filter (\<lambda>c. post_id c = item_id p \<and> parent_id c = None) (comments d))) in
      first @ map (comment_target d) (filter (\<lambda>c. item_id c \<notin> tgt_id ` set first) visible))"

fun revive :: "simulator \<Rightarrow> in_force \<Rightarrow> timestamp \<Rightarrow> int list option \<Rightarrow> voter_snapshot list \<Rightarrow> comment list \<Rightarrow> int list \<Rightarrow>
    tick_state \<Rightarrow> tick_end" where
  "revive env f now ids us [] seen s = Ticked s"
| "revive env f now ids us (trig # cs) seen s =
     (if \<not> wanted_id ids (post_id trig) \<or> post_id trig \<in> set seen then revive env f now ids us cs seen s
      else case find_row item_id (post_id trig) (posts (tick_db s)) of
          None \<Rightarrow> revive env f now ids us cs (post_id trig # seen) s
        | Some p \<Rightarrow>
            and_then (each (\<lambda>t s. tail_opportunity env f now us ''revival'' (revival_source trig t) t
                  (s\<lparr>revival_proposals := revival_proposals s + 1\<rparr>))
                (revival_targets env p trig (tick_db s)) s)
              (revive env f now ids us cs (post_id trig # seen)))"

definition recent_comments :: "simulator \<Rightarrow> timestamp \<Rightarrow> db \<Rightarrow> comment list" where
  "recent_comments env now d =
     take (nat (revival_thread_limit env)) (order_desc (\<lambda>c. (created_at c, item_id c))
       (filter (\<lambda>c. now - minutes (recent_comment_lookback_minutes env) \<le> created_at c \<and> created_at c \<le> now) (comments d)))"

definition run_tail :: "simulator \<Rightarrow> timestamp \<Rightarrow> int list option \<Rightarrow> voter_snapshot list \<Rightarrow> tick_state \<Rightarrow> tick_end" where
  "run_tail env now ids us s =
     (case resolve_policy env now (tick_db s) of
        Inl e \<Rightarrow> Tick_Raised e s
      | Inr None \<Rightarrow> Ticked s
      | Inr (Some f) \<Rightarrow>
          and_then (archive_phase env f now ids us s)
            (\<lambda>s. let cs = recent_comments env now (tick_db s) in
               revive env f now ids us cs [] (s\<lparr>revival_threads_examined := int (length cs)\<rparr>)))"

definition fresh_tick :: "timestamp \<Rightarrow> db \<Rightarrow> tick_state" where
  "fresh_tick now d =
     \<lparr>tick_db = d, tick_record = voting_record_at now d, decisions = [], casts = [], skips = [], budgets = [],
      due_entries = [], targets_examined = 0, active_proposals = 0, archive_proposals = 0, revival_proposals = 0,
      archive_candidates_examined = 0, revival_threads_examined = 0\<rparr>"

definition tick :: "simulator \<Rightarrow> timestamp \<Rightarrow> db \<Rightarrow> tick_end" where
  "tick env now d =
     (let us = ordered_users d in
      and_then (each (active_kind env now us) (case only_type env of None \<Rightarrow> [''post'', ''comment''] | Some k \<Rightarrow> [k])
          (fresh_tick now d))
        (\<lambda>s. if only_type env = None \<or> only_type env = Some ''post''
             then run_tail env now (if only_type env = Some ''post'' then only_ids env else None) us s else Ticked s))"

text \<open>The engine refuses negative limits.\<close>

definition run_active_tick :: "simulator \<Rightarrow> timestamp \<Rightarrow> db \<Rightarrow> tick_end" where
  "run_active_tick env now d =
     (if list_ex (\<lambda>n. n < 0) [per_item_limit env, global_limit env, archive_candidate_limit env, archive_item_limit env,
           revival_thread_limit env, revival_visible_comment_limit env, recent_comment_lookback_minutes env]
      then Tick_Raised ''tick limits must not be negative'' (fresh_tick now d) else tick env now d)"

end
