(* ===== verification/Canvass.thy ===== *)
theory Canvass
  imports Engagement
begin

text \<open>
  What one tick of the vote simulator promises. A live vote of the simulator is an insertion that
  changes nothing but tallies; a locale states what a relation must satisfy at each proposal to hold
  over a whole tick, and its interpretations give the properties.
\<close>

section \<open>A vote of the simulator\<close>

text \<open>What a vote leaves as it is: who wrote what, when and where, who may vote, and the policies.\<close>

definition post_core :: "post \<Rightarrow> int \<times> username \<times> timestamp \<times> string" where
  "post_core p = (item_id p, author p, created_at p, subdeaddit_name p)"

definition comment_core :: "comment \<Rightarrow> int \<times> username \<times> timestamp \<times> int \<times> int option" where
  "comment_core c = (item_id c, author c, created_at c, post_id c, parent_id c)"

definition user_core :: "user \<Rightarrow> username \<times> string option \<times> json" where
  "user_core u = (user_name u, password_hash u, agent_state u)"

lemmas core_defs = post_core_def comment_core_def user_core_def

definition same_site :: "db \<Rightarrow> db \<Rightarrow> bool" where
  "same_site d d' = (map post_core (posts d') = map post_core (posts d) \<and>
     map comment_core (comments d') = map comment_core (comments d) \<and>
     map user_core (users d') = map user_core (users d) \<and>
     settings d' = settings d \<and> cadence_policies d' = cadence_policies d \<and> simulation_hours d' = simulation_hours d)"

lemma same_site_refl [simp]: "same_site d d"
  by (simp add: same_site_def)

lemma same_site_trans: "same_site d d' \<Longrightarrow> same_site d' d'' \<Longrightarrow> same_site d d''"
  by (simp add: same_site_def)

lemma same_site_event [simp]: "same_site d (record_event e u p c t d') = same_site d d'"
  by (simp add: same_site_def record_event_def)

lemma same_site_apply: "same_site d (apply_vote target tid owner delta cd vs d)"
  by (simp add: same_site_def apply_vote_def Let_def add_tally_def add_karma_def core_defs)

lemma votes_apply [simp]: "votes (apply_vote target tid owner delta cd vs d) = vs"
  by (simp add: apply_vote_def Let_def)

text \<open>The row a decision of the \<open>n\<close>-th vote becomes.\<close>

definition as_vote :: "simulator \<Rightarrow> int \<Rightarrow> nat \<Rightarrow> vote_decision \<Rightarrow> vote" where
  "as_vote env i n x =
     \<lparr>vote_id = i, voter = Some (dec_voter x), visitor_hash = None,
      vote_post = (if dec_kind x = ''post'' then Some (dec_target x) else None),
      vote_comment = (if dec_kind x = ''post'' then None else Some (dec_target x)),
      vote_value = dec_direction x, vote_source = ''simulated'', vote_created_at = sim_clock env n\<rparr>"

definition as_votes :: "simulator \<Rightarrow> int \<Rightarrow> vote_decision list \<Rightarrow> vote list" where
  "as_votes env i xs = map (\<lambda>(n, x). as_vote env (i + int n) n x) (enumerate 0 xs)"

lemma as_votes_Nil [simp]: "as_votes env i [] = []"
  by (simp add: as_votes_def)

lemma as_votes_snoc: "as_votes env i (xs @ [x]) = as_votes env i xs @ [as_vote env (i + int (length xs)) (length xs) x]"
  by (simp add: as_votes_def enumerate_append_eq)

lemma next_id_snoc: "key r = next_id key rows \<Longrightarrow> next_id key (rows @ [r]) = next_id key rows + 1"
  by (simp add: next_id_def)

lemma next_id_votes: "next_id vote_id (vs @ as_votes env (next_id vote_id vs) xs) = next_id vote_id vs + int (length xs)"
proof (induction xs rule: rev_induct)
  case (snoc x xs)
  then show ?case
    by (simp add: as_votes_snoc next_id_snoc as_vote_def flip: append_assoc)
qed simp

text \<open>An insert-only vote, whatever its outcome, adds at most one row.\<close>

lemma cast_vote_adds:
  assumes "cast_vote (Some who) target tid val source False None now d = (r, d')" and "val \<noteq> 0"
  shows "same_site d d'" and "\<exists>vs. votes d' = votes d @ vs \<and> length vs \<le> 1 \<and>
    (\<forall>v \<in> set vs. voter v = Some who \<and> vote_source v = source \<and> target_col target v = Some tid)"
proof -
  have att: "same_site e e' \<and> (q = None \<longrightarrow> e' = e) \<and> (\<exists>vs. votes e' = votes e @ vs \<and> length vs \<le> 1 \<and>
      (\<forall>v \<in> set vs. voter v = Some who \<and> vote_source v = source \<and> target_col target v = Some tid))"
    if "cast_vote_attempt (Some who) target tid val source False None now e = (q, e')" for e e' q
    using that
  proof (cases rule: cast_vote_attempt_cases)
    case (applied it existing delta cd changed kind vs)
    then show ?thesis using assms(2)
      by (auto simp: same_site_apply vote_change_def target_col_def split: option.splits)
  qed simp
  show "same_site d d'" and "\<exists>vs. votes d' = votes d @ vs \<and> length vs \<le> 1 \<and>
    (\<forall>v \<in> set vs. voter v = Some who \<and> vote_source v = source \<and> target_col target v = Some tid)"
    using assms(1) att unfolding cast_vote_def
    by (fastforce split: prod.splits option.splits)+
qed

text \<open>On a sound ledger a vote that breaks no rule is stored, at the first attempt.\<close>

lemma cast_vote_inserts:
  assumes ledger: "vote_ledger d" and item: "target_item target tid d = Some it"
    and user: "find_row user_name who (users d) \<noteq> None" and other: "author it \<noteq> who"
    and val: "val \<in> {1, - 1}" and allowed: "val = - 1 \<Longrightarrow> downvotes_allowed d"
    and first: "Some who \<notin> voter ` set (existing_votes target tid d)"
  shows "\<exists>sc d'. cast_vote (Some who) target tid val source False None now d = (Vote_Ok sc True ''insert'', d') \<and>
    vote_ledger d' \<and> votes d' = votes d @ [\<lparr>vote_id = next_id vote_id (votes d), voter = Some who, visitor_hash = None,
      vote_post = (if target = ''post'' then Some tid else None), vote_comment = (if target = ''post'' then None else Some tid),
      vote_value = val, vote_source = source, vote_created_at = now\<rparr>]"
proof -
  let ?v = "\<lparr>vote_id = next_id vote_id (votes d), voter = Some who, visitor_hash = None,
      vote_post = (if target = ''post'' then Some tid else None), vote_comment = (if target = ''post'' then None else Some tid),
      vote_value = val, vote_source = source, vote_created_at = now\<rparr>"
  have who: "one_identity (Some who) None" by (simp add: one_identity_def)
  note once = cast_vote_first_attempt [OF ledger who, of target tid val source False now]
  have "\<forall>v \<in> set (votes d). \<not> vote_matches (Some who) target tid None v"
    using first by (auto simp: vote_matches_def existing_votes_def target_col_def image_iff)
  then have found: "find_vote (Some who) target tid None d = Inr None"
    by (simp add: find_vote_def filter_False)
  have change: "vote_change (Some who) target tid val source False None now None (votes d) =
      (val, 1, True, ''insert'', votes d @ [?v])"
    using val by (auto simp: vote_change_def)
  obtain r d' where att: "cast_vote_attempt (Some who) target tid val source False None now d = (r, d')"
    by (metis prod.exhaust)
  obtain r' where r': "r = Some r'" using once(2) att by auto
  have nin: "\<not> val \<notin> {1, - 1, 0}" and neg: "\<not> (val = - 1 \<and> \<not> downvotes_allowed d)"
    and usr: "\<not> ((None :: string option) = None \<and> find_row user_name who (users d) = None)"
    and oth: "Some (author it) \<noteq> Some who"
    using val allowed user other by auto
  have not_raised: "vote_constraints (votes d @ [?v])"
  proof (rule ccontr)
    assume "\<not> ?thesis"
    with att r' show False
      unfolding cast_vote_attempt_def item option.case found sum.case change prod.case if_not_P [OF nin] if_not_P [OF neg]
        if_not_P [OF usr] if_not_P [OF oth] by simp
  qed
  show ?thesis
    using att once(1) r' cast_vote_attempt_ledger [OF ledger att]
    unfolding cast_vote_attempt_def item option.case found sum.case change prod.case if_not_P [OF nin] if_not_P [OF neg]
      if_not_P [OF usr] if_not_P [OF oth]
    by (auto simp: not_raised Let_def)
qed

section \<open>Who is chosen\<close>

lemma race_winner_mem: "race_winner env t k pool = Some x \<Longrightarrow> x \<in> set pool"
proof -
  have "fold (\<lambda>x best. case best of None \<Rightarrow> Some x | Some b \<Rightarrow> if f x b then Some x else best) xs b = Some y \<Longrightarrow>
      y \<in> set xs \<or> b = Some y" for f :: "voter_snapshot \<times> rat \<Rightarrow> voter_snapshot \<times> rat \<Rightarrow> bool" and xs b y
    by (induction xs arbitrary: b) (auto split: option.splits if_splits)
  from this [of "\<lambda>x b. race_key env t k x < race_key env t k b \<or>
      (race_key env t k x = race_key env t k b \<and> snap_name (fst x) < snap_name (fst b))" pool None]
  show "race_winner env t k pool = Some x \<Longrightarrow> x \<in> set pool"
    unfolding race_winner_def by simp
qed

lemma judge_voters_pool:
  "judge_voters f us = Inr (pool, reasons) \<Longrightarrow> (u, w) \<in> set pool \<Longrightarrow> u \<in> set us \<and> f u = Inr (Inr w)"
  by (induction us arbitrary: pool reasons) (auto split: sum.splits prod.splits)

text \<open>What the selection guarantees of a voter.\<close>

definition fair_choice :: "in_force \<Rightarrow> timestamp \<Rightarrow> vote_target \<Rightarrow> voting_record \<Rightarrow> voter_snapshot list \<Rightarrow> voter_snapshot \<Rightarrow> bool" where
  "fair_choice f now t vr us u =
     (u \<in> set us \<and> snap_name u \<noteq> author (tgt_item t) \<and>
      (\<exists>cap. vote_cap (snap_state u) (default_hourly_cap (force_config f)) = Some cap \<and> rec_hourly vr (snap_name u) < cap) \<and>
      (\<forall>latest. rec_latest vr (snap_name u) = Some latest \<longrightarrow>
         (\<exists>limit. earlier now (minimum_gap_seconds (force_config f)) = Some limit \<and> latest < limit)))"

lemma judge_voter_accepts:
  assumes "judge_voter env c now t existing selected vr u = Inr (Inr weight)"
  shows "snap_name u \<noteq> author (tgt_item t) \<and> Some (snap_name u) \<notin> existing \<and> snap_name u \<notin> set selected \<and>
    (\<exists>cap. vote_cap (snap_state u) (default_hourly_cap c) = Some cap \<and> rec_hourly vr (snap_name u) < cap) \<and>
    (\<forall>latest. rec_latest vr (snap_name u) = Some latest \<longrightarrow>
       (\<exists>limit. earlier now (minimum_gap_seconds c) = Some limit \<and> latest < limit)) \<and> 0 < weight"
  using assms unfolding judge_voter_def Let_def
  by (auto simp: not_le split: if_splits option.splits bool.splits)

lemma select_voter_fair:
  assumes "select_voter env (force_config f) now t k existing selected vr us = Inr (Some u, reason)"
  shows "fair_choice f now t vr us u" "Some (snap_name u) \<notin> existing" "snap_name u \<notin> set selected"
proof -
  obtain pool reasons w where "judge_voters (judge_voter env (force_config f) now t existing selected vr) us = Inr (pool, reasons)"
    and "race_winner env t k pool = Some (u, w)"
    using assms unfolding select_voter_def by (auto split: sum.splits option.splits)
  from judge_voters_pool [OF this(1) race_winner_mem [OF this(2)]] judge_voter_accepts
  show "fair_choice f now t vr us u" "Some (snap_name u) \<notin> existing" "snap_name u \<notin> set selected"
    unfolding fair_choice_def by blast+
qed

lemma select_direction_pm: "select_direction env f t who sub act allowed \<noteq> 1 \<Longrightarrow>
    select_direction env f t who sub act allowed = - 1"
  by (auto simp: select_direction_def split: if_splits)

section \<open>What holds when a tick ends\<close>

text \<open>\<open>E\<close> says whether the tick may fail to return.\<close>

definition ends :: "bool \<Rightarrow> (tick_state \<Rightarrow> bool) \<Rightarrow> tick_end \<Rightarrow> bool" where
  "ends E P e = (case e of Ticked s \<Rightarrow> P s | Tick_Raised _ s \<Rightarrow> P s | Tick_Endless \<Rightarrow> E)"

lemma ends_simps [simp]:
  "ends E P (Ticked s) = P s" "ends E P (Tick_Raised e s) = P s" "ends E P Tick_Endless = E"
  by (simp_all add: ends_def)

lemma ends_and_then: "ends E P e \<Longrightarrow> (\<And>s. P s \<Longrightarrow> e = Ticked s \<Longrightarrow> ends E P (f s)) \<Longrightarrow> ends E P (and_then e f)"
  by (cases e) (simp_all add: and_then_def)

lemma ends_each: "P s \<Longrightarrow> (\<And>x s. x \<in> set xs \<Longrightarrow> P s \<Longrightarrow> ends E P (f x s)) \<Longrightarrow> ends E P (each f xs s)"
proof (induction xs arbitrary: s)
  case (Cons x xs)
  from Cons.prems(2) [of x s] Cons.prems(1) have "ends E P (f x s)" by simp
  with Cons show ?case by (cases "f x s") simp_all
qed simp

lemma ends_mono: "ends E P e \<Longrightarrow> (\<And>s. P s \<Longrightarrow> Q s) \<Longrightarrow> ends E Q e"
  by (cases e) simp_all

text \<open>With an invariant over the elements still to come.\<close>

lemma ends_each_rest:
  assumes "P s" and "R xs s"
    and "\<And>x xs s. R (x # xs) s \<Longrightarrow> P s \<Longrightarrow> ends E (\<lambda>s. P s \<and> R xs s) (f x s)"
  shows "ends E P (each f xs s)"
  using assms(1,2)
proof (induction xs arbitrary: s)
  case (Cons x xs)
  from assms(3) [OF Cons.prems(2,1)] Cons.IH show ?case by (cases "f x s") simp_all
qed simp

section \<open>Proposals\<close>

text \<open>A target that the database knows under its kind, key and author.\<close>

definition known_target :: "db \<Rightarrow> vote_target \<Rightarrow> bool" where
  "known_target d t = (tgt_kind t \<in> {''post'', ''comment''} \<and>
     map_option author (target_item (tgt_kind t) (tgt_id t) d) = Some (author (tgt_item t)))"

lemma find_row_core:
  assumes "map f xs = map f ys" and "\<And>x y. f x = f y \<Longrightarrow> key x = key y \<and> g x = g y"
  shows "map_option g (find_row key k xs) = map_option g (find_row key k ys)"
  using assms(1)
proof (induction xs arbitrary: ys)
  case (Cons x xs)
  then obtain y ys' where "ys = y # ys'" "f x = f y" "map f xs = map f ys'" by auto
  then show ?case using Cons.IH [of ys'] assms(2) [of x y] by auto
qed simp

lemma same_site_author:
  assumes "same_site d d'"
  shows "map_option author (target_item target tid d') = map_option author (target_item target tid d)"
proof -
  have "map_option author (find_row item_id tid (posts d')) = map_option author (find_row item_id tid (posts d))"
    using assms by (intro find_row_core [where f = post_core]) (simp_all add: same_site_def core_defs)
  moreover have "map_option author (find_row item_id tid (comments d')) = map_option author (find_row item_id tid (comments d))"
    using assms by (intro find_row_core [where f = comment_core]) (simp_all add: same_site_def core_defs)
  ultimately show ?thesis by (simp add: target_item_def option.map_comp comp_def)
qed

lemma same_site_known: "same_site d d' \<Longrightarrow> known_target d' t = known_target d t"
  by (simp add: known_target_def same_site_author)

lemma same_site_users:
  assumes "same_site d d'"
  shows "ordered_users d' = ordered_users d"
proof -
  have snap: "map (\<lambda>u. \<lparr>snap_name = user_name u, snap_state = agent_state u\<rparr>) (filter (\<lambda>u. password_hash u = None) us) =
      map (\<lambda>(n, p, st). \<lparr>snap_name = n, snap_state = st\<rparr>) (filter (\<lambda>(n, p, st). p = None) (map user_core us))" for us
    by (induction us) (simp_all add: user_core_def)
  show ?thesis using assms by (simp add: ordered_users_def snap same_site_def)
qed

text \<open>What a proposal may do, whatever its outcome.\<close>

definition on_target :: "vote_target \<Rightarrow> vote_decision \<Rightarrow> bool" where
  "on_target t x = (dec_kind x = tgt_kind t \<and> dec_target x = tgt_id t)"

definition proposed :: "vote_target \<Rightarrow> username \<Rightarrow> timestamp \<Rightarrow> tick_state \<Rightarrow> tick_state \<Rightarrow> bool" where
  "proposed t who now s s' =
     (same_site (tick_db s) (tick_db s') \<and> tick_record s' = note_vote who now (tick_record s) \<and>
      (\<exists>vs. votes (tick_db s') = votes (tick_db s) @ vs \<and> length vs \<le> 1 \<and>
         (\<forall>v \<in> set vs. voter v = Some who \<and> vote_source v = ''simulated'' \<and> target_col (tgt_kind t) v = Some (tgt_id t))) \<and>
      (\<exists>xs. decisions s' = decisions s @ xs \<and> length xs \<le> 1 \<and> (\<forall>x \<in> set xs. on_target t x \<and> dec_voter x = who)))"

lemma propose_proposed:
  assumes "tgt_kind t \<in> {''post'', ''comment''}"
  shows "ends E (proposed t (snap_name u) now s) (propose env f now t k budget off mode u s)"
proof -
  have cast: "ends E (\<lambda>s''. same_site (tick_db s') (tick_db s'') \<and> tick_record s'' = tick_record s' \<and>
      decisions s'' = decisions s' @ [x] \<and>
      (\<exists>vs. votes (tick_db s'') = votes (tick_db s') @ vs \<and> length vs \<le> 1 \<and> (\<forall>v \<in> set vs. voter v = Some (dec_voter x) \<and>
         vote_source v = ''simulated'' \<and> target_col (dec_kind x) v = Some (dec_target x)))) (cast_decision env x s')"
    if "dec_direction x \<in> {1, - 1}" for x s'
  proof -
    obtain r d where c: "cast_vote (Some (dec_voter x)) (dec_kind x) (dec_target x) (dec_direction x) ''simulated'' False None
        (sim_clock env (length (casts s'))) (tick_db s') = (r, d)" by (metis prod.exhaust)
    from that have "dec_direction x \<noteq> 0" by auto
    from cast_vote_adds [OF c this] show ?thesis
      by (auto simp: cast_decision_def Let_def c split: vote_outcome.splits db_error.splits)
  qed
  show ?thesis
    unfolding propose_def Let_def
    by (auto simp: proposed_def on_target_def split: option.splits sum.splits
        intro!: ends_mono [OF cast] dest: select_direction_pm)
qed

section \<open>A relation that every proposal keeps\<close>

definition in_play :: "simulator \<Rightarrow> db \<Rightarrow> in_force \<Rightarrow> bool" where
  "in_play env d f = (given_policy env = Some f \<or> (\<exists>p \<in> set (cadence_policies d). load_in_force env p = Inr f))"

definition adds :: "(vote_decision \<Rightarrow> bool) \<Rightarrow> tick_state \<Rightarrow> tick_state \<Rightarrow> bool" where
  "adds K s s' = (\<exists>xs. decisions s' = decisions s @ xs \<and> (\<forall>x \<in> set xs. K x))"

lemma adds_same: "decisions s' = decisions s \<Longrightarrow> adds K s s'"
  by (simp add: adds_def)

lemma adds_trans: "adds K s s' \<Longrightarrow> adds K s' s'' \<Longrightarrow> adds K s s''"
  by (fastforce simp: adds_def)

lemma adds_mono: "adds K s s' \<Longrightarrow> (\<And>x. K x \<Longrightarrow> L x) \<Longrightarrow> adds L s s'"
  by (auto simp: adds_def)

lemma adds_none: "adds K s s' \<Longrightarrow> (\<And>x. K x \<Longrightarrow> \<not> L x) \<Longrightarrow> list_all (\<lambda>x. \<not> L x) (decisions s) \<Longrightarrow>
    list_all (\<lambda>x. \<not> L x) (decisions s')"
  by (auto simp: adds_def list_all_iff)

lemma ends_conj: "ends E P e \<Longrightarrow> ends E Q e \<Longrightarrow> ends E (\<lambda>s. P s \<and> Q s) e"
  by (cases e) simp_all

lemma resolve_in_play:
  assumes "resolve_policy env t d = Inr (Some f)"
  shows "in_play env d f"
proof (cases "given_policy env")
  case None
  then obtain p ps where "order_desc (\<lambda>p. (effective_at p, cadence_id p)) (filter (\<lambda>p. effective_at p \<le> t) (cadence_policies d)) = p # ps"
    and "load_in_force env p = Inr f"
    using assms by (auto simp: resolve_policy_def split: list.splits sum.splits)
  then have "p \<in> set (order_desc (\<lambda>p. (effective_at p, cadence_id p)) (filter (\<lambda>p. effective_at p \<le> t) (cadence_policies d)))"
    by simp
  with \<open>load_in_force env p = Inr f\<close> show ?thesis by (auto simp: in_play_def)
qed (use assms in \<open>simp add: in_play_def resolve_policy_def\<close>)

lemma proposed_adds: "proposed t who now s s' \<Longrightarrow> adds (on_target t) s s'"
  by (auto simp: proposed_def adds_def)

lemma proposed_voters:
  assumes "proposed t who now s s'"
  shows "voter ` set (existing_votes (tgt_kind t) (tgt_id t) (tick_db s')) \<subseteq>
    insert (Some who) (voter ` set (existing_votes (tgt_kind t) (tgt_id t) (tick_db s)))"
  using assms by (auto simp: proposed_def existing_votes_def)

lemma known_post: "distinct (map item_id (posts d)) \<Longrightarrow> p \<in> set (posts d) \<Longrightarrow> known_target d (post_target p)"
  by (simp add: known_target_def post_target_def tgt_id_def target_item_def item.truncate_def)

lemma known_comment: "distinct (map item_id (comments d)) \<Longrightarrow> c \<in> set (comments d) \<Longrightarrow> known_target d (comment_target e c)"
  by (simp add: known_target_def comment_target_def tgt_id_def target_item_def item.truncate_def)

locale tick_invariant =
  fixes env :: simulator and now :: timestamp and d0 :: db and E :: bool and P :: "tick_state \<Rightarrow> bool"
  assumes keys: "P s \<Longrightarrow> distinct (map item_id (posts d0)) \<and> distinct (map item_id (comments d0))"
    and sited: "P s \<Longrightarrow> same_site d0 (tick_db s)"
    and bookkeeping: "P s \<Longrightarrow> tick_db s' = tick_db s \<Longrightarrow> tick_record s' = tick_record s \<Longrightarrow>
      decisions s' = decisions s \<Longrightarrow> casts s' = casts s \<Longrightarrow> P s'"
    and sampling: "P s \<Longrightarrow> in_play env d0 f \<Longrightarrow> \<not> E \<Longrightarrow>
      sample_attention_budget (sim_sha env) (section_for (force_config f) target) seed \<noteq> None"
    and reread: "P s \<Longrightarrow> P (s\<lparr>tick_record := voting_record_at now (tick_db s)\<rparr>)"
    and proposal: "P s \<Longrightarrow> in_play env d0 f \<Longrightarrow> fair_choice f now t (tick_record s) (ordered_users d0) u \<Longrightarrow>
      casts_used s < global_limit env \<Longrightarrow> known_target (tick_db s) t \<Longrightarrow>
      Some (snap_name u) \<notin> voter ` set (existing_votes (tgt_kind t) (tgt_id t) (tick_db s)) \<Longrightarrow>
      count_rows (on_target t) (decisions s) < per_item_limit env \<Longrightarrow>
      ends E P (propose env f now t k budget off mode u s)"
begin

lemma active_votes_keep:
  assumes "P s" and "in_play env d0 f" and "known_target d0 t"
    and "voter ` set (existing_votes (tgt_kind t) (tgt_id t) (tick_db s)) \<subseteq> existing \<union> Some ` set selected"
    and "count_rows (on_target t) (decisions s) \<le> int (length selected)"
  shows "ends E (\<lambda>s'. P s' \<and> adds (on_target t) s s')
    (active_votes env f now t budget existing (ordered_users d0) ks selected s)"
  using assms(1,4,5)
proof (induction ks arbitrary: selected s)
  case (Cons k ks)
  have skipped: "ends E (\<lambda>s'. P s' \<and> adds (on_target t) s s')
      (active_votes env f now t budget existing (ordered_users d0) ks selected (skip reason s))" for reason
    using Cons.IH [of "skip reason s" selected] Cons.prems bookkeeping [OF Cons.prems(1), of "skip reason s"]
    by (simp add: skip_def adds_def)
  have chosen: "ends E (\<lambda>s'. P s' \<and> adds (on_target t) s s') (and_then (propose env f now t k budget off ''active'' u s)
      (active_votes env f now t budget existing (ordered_users d0) ks (snap_name u # selected)))"
    if sel: "select_voter env (force_config f) now t k existing selected (tick_record s) (ordered_users d0) = Inr (Some u, reason)"
      and "\<not> global_limit env \<le> casts_used s" and "\<not> per_item_limit env \<le> int (length selected)" for u reason off
  proof -
    note fair = select_voter_fair [OF sel]
    have known: "known_target (tick_db s) t" using same_site_known [OF sited [OF Cons.prems(1)]] assms(3) by blast
    have "Some (snap_name u) \<notin> voter ` set (existing_votes (tgt_kind t) (tgt_id t) (tick_db s))"
      using Cons.prems(2) fair(2,3) by blast
    from proposal [OF Cons.prems(1) assms(2) fair(1) _ known this] that Cons.prems(3)
    have "ends E P (propose env f now t k budget off ''active'' u s)" by simp
    moreover have "ends E (proposed t (snap_name u) now s) (propose env f now t k budget off ''active'' u s)"
      using known by (intro propose_proposed) (simp add: known_target_def)
    ultimately have both: "ends E (\<lambda>s'. P s' \<and> proposed t (snap_name u) now s s')
        (propose env f now t k budget off ''active'' u s)" by (rule ends_conj)
    show ?thesis
    proof (rule ends_and_then)
      show "ends E (\<lambda>s'. P s' \<and> adds (on_target t) s s') (propose env f now t k budget off ''active'' u s)"
        by (rule ends_mono [OF both]) (auto dest: proposed_adds)
      fix s' assume "P s' \<and> adds (on_target t) s s'" and tick: "propose env f now t k budget off ''active'' u s = Ticked s'"
      then have s': "P s'" "proposed t (snap_name u) now s s'" and add: "adds (on_target t) s s'" using both by simp_all
      have "voter ` set (existing_votes (tgt_kind t) (tgt_id t) (tick_db s')) \<subseteq> existing \<union> Some ` set (snap_name u # selected)"
        using proposed_voters [OF s'(2)] Cons.prems(2) by auto
      moreover have "count_rows (on_target t) (decisions s') \<le> int (length (snap_name u # selected))"
      proof -
        obtain xs where "decisions s' = decisions s @ xs" "length xs \<le> 1" using s'(2) by (auto simp: proposed_def)
        then show ?thesis using Cons.prems(3) le_trans [OF length_filter_le [of "on_target t" xs]]
          by (fastforce simp: count_rows_def)
      qed
      ultimately show "ends E (\<lambda>s'. P s' \<and> adds (on_target t) s s')
          (active_votes env f now t budget existing (ordered_users d0) ks (snap_name u # selected) s')"
        using s'(1) add by (intro ends_mono [OF Cons.IH]) (auto elim: adds_trans)
    qed
  qed
  show ?case
    using skipped chosen bookkeeping Cons.prems(1)
    by (auto simp: Let_def adds_same split: sum.splits option.splits)
qed (simp add: adds_same)

end

text \<open>The rows of a site are the same through a tick, so its targets stay known.\<close>

lemma same_site_keys:
  assumes "same_site d d'"
  shows "map item_id (posts d') = map item_id (posts d)" and "map item_id (comments d') = map item_id (comments d)"
proof -
  have "map item_id ps = map fst (map post_core ps)" and "map item_id cs = map fst (map comment_core cs)" for ps cs
    by (simp_all add: core_defs)
  with assms show "map item_id (posts d') = map item_id (posts d)" "map item_id (comments d') = map item_id (comments d)"
    by (simp_all only: same_site_def)
qed

lemma candidate_query_known:
  assumes "candidate_query target now h ids d = Some ts" and "target \<in> {''post'', ''comment''}"
    and "distinct (map item_id (posts d))" "distinct (map item_id (comments d))"
  shows "\<forall>t \<in> set ts. known_target d t \<and> tgt_kind t = target" and "distinct (map tgt_id ts)"
proof -
  have all: "map tgt_id (all_targets target d) = (if target = ''post'' then map item_id (posts d) else map item_id (comments d))"
    by (auto simp: all_targets_def post_target_def comment_target_def tgt_id_def item.truncate_def)
  have ts: "\<exists>p. ts = sort_key (\<lambda>t. (created_at (tgt_item t), tgt_id t)) (filter p (all_targets target d))"
    using assms(1) by (auto simp: candidate_query_def split: option.splits)
  then have sub: "set ts \<subseteq> set (all_targets target d)" by auto
  have "known_target d t \<and> tgt_kind t = target" if "t \<in> set (all_targets target d)" for t
    using that assms(2-4) known_post [of d] known_comment [of d]
    by (auto simp: all_targets_def post_target_def comment_target_def split: if_splits)
  with sub show "\<forall>t \<in> set ts. known_target d t \<and> tgt_kind t = target" by blast
  from ts obtain p where "ts = sort_key (\<lambda>t. (created_at (tgt_item t), tgt_id t)) (filter p (all_targets target d))"
    by blast
  moreover have "distinct (map tgt_id (filter p (all_targets target d)))"
    using all assms(3,4) by (intro distinct_map_filter) simp
  ultimately show "distinct (map tgt_id ts)"
    by (simp add: distinct_map)
qed

context tick_invariant
begin

lemma known: "P s \<Longrightarrow> known_target (tick_db s) t = known_target d0 t"
  using sited same_site_known by blast

lemma active_target_keeps:
  assumes "P s" and "known_target d0 t" and "list_all (\<lambda>x. \<not> on_target t x) (decisions s)"
  shows "ends E (\<lambda>s'. P s' \<and> adds (on_target t) s s') (active_target env now (ordered_users d0) t s)"
proof -
  have same: "cadence_policies (tick_db s) = cadence_policies d0" using sited [OF assms(1)] by (simp add: same_site_def)
  have none: "count_rows (on_target t) (decisions s) \<le> int (length [])"
    using assms(3) by (simp add: count_rows_def filter_empty_conv list_all_iff)
  have play: "in_play env d0 f" if "resolve_policy env (created_at (tgt_item t)) (tick_db s) = Inr (Some f)" for f
    using resolve_in_play [OF that] same by (simp add: in_play_def)
  have votes: "ends E (\<lambda>s'. P s' \<and> adds (on_target t) s s')
      (active_votes env f now t b (voter ` set (existing_votes (tgt_kind t) (tgt_id t) (tick_db s))) (ordered_users d0) ks [] s')"
    if "in_play env d0 f" "tick_db s' = tick_db s" "tick_record s' = tick_record s" "decisions s' = decisions s" "casts s' = casts s"
    for f b ks s'
    using active_votes_keep [OF bookkeeping [OF assms(1) that(2-5)] that(1) assms(2), of _ "[]"] that none
    by (simp add: adds_def)
  have stop: "E" if "sample_attention_budget (sim_sha env) (section_for (force_config f) target) seed = None" "in_play env d0 f"
    for f target seed using sampling [OF assms(1) that(2)] that(1) by blast
  show ?thesis
    unfolding active_target_def Let_def
    using assms(1) play
    by (auto simp: adds_same intro!: votes dest: stop split: sum.splits option.splits)
qed

definition unvisited :: "vote_target list \<Rightarrow> tick_state \<Rightarrow> bool" where
  "unvisited ts s = (distinct (map tgt_id ts) \<and> (\<forall>t \<in> set ts. list_all (\<lambda>x. \<not> on_target t x) (decisions s)))"

lemma active_kind_keeps:
  assumes "P s" and "list_all (\<lambda>x. dec_kind x \<noteq> target) (decisions s)"
  shows "ends E (\<lambda>s'. P s' \<and> adds (\<lambda>x. dec_kind x = target) s s') (active_kind env now (ordered_users d0) target s)"
proof -
  have targets: "ends E (\<lambda>s'. P s' \<and> adds (\<lambda>x. dec_kind x = target) s s') (each (active_target env now (ordered_users d0)) ts s)"
    if ts: "candidate_query target now h ids (tick_db s) = Some ts" and target: "target \<in> {''post'', ''comment''}" for h ids ts
  proof -
    have "distinct (map item_id (posts (tick_db s)))" "distinct (map item_id (comments (tick_db s)))"
      using keys [OF assms(1)] same_site_keys [OF sited [OF assms(1)]] by simp_all
    note query = candidate_query_known [OF ts target this]
    have start: "unvisited ts s"
      using query assms(2) by (auto simp: unvisited_def on_target_def list_all_iff)
    have here: "\<forall>t \<in> set ts. known_target d0 t \<and> tgt_kind t = target" using query(1) known [OF assms(1)] by blast
    have "ends E (\<lambda>s'. P s' \<and> adds (\<lambda>x. dec_kind x = target) s s') (each (active_target env now (ordered_users d0)) ts s')"
      if "P s'" "adds (\<lambda>x. dec_kind x = target) s s'" "unvisited ts s'" "\<forall>t \<in> set ts. known_target d0 t \<and> tgt_kind t = target" for s'
      using that
    proof (induction ts arbitrary: s')
      case (Cons t ts)
      have "ends E (\<lambda>s''. P s'' \<and> adds (on_target t) s' s'') (active_target env now (ordered_users d0) t s')"
        using Cons.prems by (intro active_target_keeps) (auto simp: unvisited_def)
      moreover have "unvisited ts s''" if "adds (on_target t) s' s''" for s''
      proof -
        have "list_all (\<lambda>x. \<not> on_target r x) (decisions s'')" if "r \<in> set ts" for r
        proof (rule adds_none [OF \<open>adds (on_target t) s' s''\<close>])
          show "\<not> on_target r x" if "on_target t x" for x
            using that \<open>r \<in> set ts\<close> Cons.prems(3) by (auto simp: unvisited_def on_target_def)
        qed (use that Cons.prems(3) in \<open>simp add: unvisited_def\<close>)
        then show ?thesis using Cons.prems(3) by (simp add: unvisited_def)
      qed
      moreover have "adds (\<lambda>x. dec_kind x = target) s s''" if "adds (on_target t) s' s''" for s''
        using Cons.prems(2,4) that by (auto simp: on_target_def elim!: adds_trans adds_mono)
      ultimately show ?case using Cons.IH Cons.prems(4)
        by (cases "active_target env now (ordered_users d0) t s'") auto
    qed simp
    from this [OF assms(1) adds_same start here] show ?thesis by simp
  qed
  show ?thesis
    unfolding active_kind_def using assms(1) targets
    by (auto simp: adds_same split: sum.splits option.splits)
qed

end

lemma revival_targets_known:
  assumes "t \<in> set (revival_targets env p trig d)" and "p \<in> set (posts d)"
    and "distinct (map item_id (posts d))" "distinct (map item_id (comments d))"
  shows "known_target d t"
proof -
  have "c \<in> set (comments d)" if "find_row item_id i (comments d) = Some c" for i c using find_row_SomeD [OF that] by simp
  moreover have "set (take n (order_desc k xs)) \<subseteq> set xs" for n and k :: "comment \<Rightarrow> int \<times> timestamp \<times> int" and xs
    using set_take_subset [of n "order_desc k xs"] by simp
  ultimately show ?thesis
    using assms known_post [OF assms(3)] known_comment [OF assms(4)] unfolding revival_targets_def Let_def
    by (fastforce split: option.splits)
qed

context tick_invariant
begin

lemma tail_opportunity_keeps:
  assumes "P s" and "in_play env d0 f" and "known_target d0 t"
  shows "ends E P (tail_opportunity env f now (ordered_users d0) mode source t s)"
proof -
  have same: "P (skip r s)" "P (s\<lparr>due_entries := x\<rparr>)" "P (skip r (s\<lparr>due_entries := x\<rparr>))" for r x
    by (rule bookkeeping [OF assms(1)]; simp add: skip_def)+
  have "ends E P (propose env f now t k b off mode u (s\<lparr>due_entries := x\<rparr>))"
    if "select_voter env (force_config f) now t k {} [] (tick_record s) (ordered_users d0) = Inr (Some u, reason)"
      "\<not> global_limit env \<le> casts_used s" "\<not> per_item_limit env \<le> count_rows (on_target t) (decisions s)"
      "Some (snap_name u) \<notin> voter ` set (existing_votes (tgt_kind t) (tgt_id t) (tick_db s))" for k b off u reason x
    using that select_voter_fair(1) [OF that(1)] assms(2,3) known [OF same(2)]
    by (intro proposal [OF same(2)]) (simp_all add: casts_used_def)
  moreover have "count_rows (\<lambda>x. dec_kind x = tgt_kind t \<and> dec_target x = tgt_id t) xs = count_rows (on_target t) xs" for xs
    by (simp add: on_target_def [abs_def])
  ultimately show ?thesis
    using same unfolding tail_opportunity_def Let_def
    by (auto simp: casts_used_def assms(1) split: sum.splits option.splits)
qed

lemma tail_counted:
  assumes "P s" and "in_play env d0 f" and "known_target d0 t" and "tick_db s' = tick_db s" "tick_record s' = tick_record s"
    "decisions s' = decisions s" "casts s' = casts s"
  shows "ends E P (tail_opportunity env f now (ordered_users d0) mode source t s')"
  by (rule tail_opportunity_keeps [OF bookkeeping [OF assms(1,4-7)] assms(2,3)])

lemma archive_phase_keeps:
  assumes "P s" and "in_play env d0 f"
  shows "ends E P (archive_phase env f now ids (ordered_users d0) s)"
proof -
  have dist: "distinct (map item_id (posts (tick_db s)))"
    using keys [OF assms(1)] same_site_keys [OF sited [OF assms(1)]] by simp
  have posts: "known_target d0 (post_target p)"
    if "archive_query r now l ids (tick_db s) = Some ps" "p \<in> set ps" for r l ps p
  proof -
    have "p \<in> set (posts (tick_db s))"
      using that by (auto simp: archive_query_def split: option.splits dest!: in_set_takeD)
    from known_post [OF dist this] show ?thesis using known [OF assms(1)] by blast
  qed
  show ?thesis
    unfolding archive_phase_def Let_def
    using assms(1) reread [of "s\<lparr>archive_candidates_examined := n\<rparr>" for n] bookkeeping [OF assms(1)]
    by (auto split: option.splits dest!: in_set_takeD posts intro!: ends_each tail_counted [OF _ assms(2)])
qed

lemma revive_keeps:
  assumes "P s" and "in_play env d0 f"
  shows "ends E P (revive env f now ids (ordered_users d0) cs seen s)"
  using assms(1)
proof (induction cs arbitrary: seen s)
  case (Cons trig cs)
  have "ends E P (and_then (each (\<lambda>t s. tail_opportunity env f now (ordered_users d0) ''revival'' (revival_source trig t) t
        (s\<lparr>revival_proposals := revival_proposals s + 1\<rparr>)) (revival_targets env p trig (tick_db s)) s)
      (revive env f now ids (ordered_users d0) cs (post_id trig # seen)))"
    if "find_row item_id (post_id trig) (posts (tick_db s)) = Some p" for p
  proof (rule ends_and_then, rule ends_each [where P = P, OF Cons.prems])
    fix t s' assume "t \<in> set (revival_targets env p trig (tick_db s))" and "P s'"
    moreover from this(1) have "known_target (tick_db s) t"
      using find_row_SomeD [OF that, THEN conjunct1] keys [OF Cons.prems] same_site_keys [OF sited [OF Cons.prems]]
      by (intro revival_targets_known) simp_all
    ultimately show "ends E P (tail_opportunity env f now (ordered_users d0) ''revival'' (revival_source trig t) t
        (s'\<lparr>revival_proposals := revival_proposals s' + 1\<rparr>))"
      using known [OF Cons.prems] by (intro tail_counted [OF _ assms(2)]) simp_all
  qed (rule Cons.IH)
  with Cons show ?case by (auto split: option.splits)
qed simp

lemma run_tail_keeps:
  assumes "P s"
  shows "ends E P (run_tail env now ids (ordered_users d0) s)"
proof -
  have "in_play env d0 f" if "resolve_policy env now (tick_db s) = Inr (Some f)" for f
    using resolve_in_play [OF that] sited [OF assms] by (simp add: in_play_def same_site_def)
  then show ?thesis
    unfolding run_tail_def Let_def using assms bookkeeping
    by (auto split: sum.splits option.splits intro!: ends_and_then archive_phase_keeps revive_keeps)
qed

lemma tick_keeps:
  assumes "P (fresh_tick now d0)"
  shows "ends E P (tick env now d0)"
proof -
  have active: "ends E P (each (active_kind env now (ordered_users d0))
      (case only_type env of None \<Rightarrow> [''post'', ''comment''] | Some k \<Rightarrow> [k]) (fresh_tick now d0))"
  proof -
    let ?R = "\<lambda>ks s. distinct ks \<and> (\<forall>k \<in> set ks. list_all (\<lambda>x. dec_kind x \<noteq> k) (decisions s))"
    show ?thesis
    proof (rule ends_each_rest [where R = ?R and P = P, OF assms])
      show "?R (case only_type env of None \<Rightarrow> [''post'', ''comment''] | Some k \<Rightarrow> [k]) (fresh_tick now d0)"
        by (simp add: fresh_tick_def split: option.split)
      fix k ks s assume R: "?R (k # ks) s" and "P s"
      from R have "ends E (\<lambda>s'. P s' \<and> adds (\<lambda>x. dec_kind x = k) s s') (active_kind env now (ordered_users d0) k s)"
        by (intro active_kind_keeps [OF \<open>P s\<close>]) simp
      then show "ends E (\<lambda>s. P s \<and> ?R ks s) (active_kind env now (ordered_users d0) k s)"
        using R by (elim ends_mono) (auto elim: adds_none)
    qed
  qed
  then show ?thesis
    unfolding tick_def Let_def by (intro ends_and_then) (auto intro: run_tail_keeps)
qed

theorem run_keeps:
  assumes "P (fresh_tick now d0)"
  shows "ends E P (run_active_tick env now d0)"
  using assms tick_keeps by (simp add: run_active_tick_def)

end

section \<open>What is decided is what is stored\<close>

definition fair_decision :: "db \<Rightarrow> vote_decision \<Rightarrow> bool" where
  "fair_decision d x =
     ((case target_item (dec_kind x) (dec_target x) d of None \<Rightarrow> False | Some it \<Rightarrow> author it \<noteq> dec_voter x) \<and>
      list_ex (\<lambda>u. user_name u = dec_voter x \<and> password_hash u = None) (users d) \<and>
      Some (dec_voter x) \<notin> voter ` set (existing_votes (dec_kind x) (dec_target x) d) \<and>
      (dec_direction x = 1 \<or> dec_direction x = - 1 \<and> downvotes_allowed d))"

definition decided_on :: "string \<Rightarrow> int \<Rightarrow> vote_decision \<Rightarrow> bool" where
  "decided_on target tid x = (dec_kind x = target \<and> dec_target x = tid)"

text \<open>Every live vote is an insertion.\<close>

definition accepted_cast :: "simulator \<Rightarrow> cast_result \<Rightarrow> bool" where
  "accepted_cast env c =
     (case c of
        Dry_Run \<Rightarrow> dry_run env
      | Cast (Vote_Ok _ changed kind_of_change) \<Rightarrow> \<not> dry_run env \<and> changed \<and> kind_of_change = ''insert''
      | Cast _ \<Rightarrow> False)"

definition tick_sound :: "simulator \<Rightarrow> db \<Rightarrow> tick_state \<Rightarrow> bool" where
  "tick_sound env d s =
     (vote_ledger d \<and> downvotes_choice env \<noteq> Some True \<and> same_site d (tick_db s) \<and> length (casts s) = length (decisions s) \<and>
      int (length (decisions s)) \<le> max 0 (global_limit env) \<and> list_all (fair_decision d) (decisions s) \<and>
      (\<forall>target tid. count_rows (decided_on target tid) (decisions s) \<le> max 0 (per_item_limit env)) \<and>
      list_all (accepted_cast env) (casts s) \<and>
      (if dry_run env then tick_db s = d
       else vote_ledger (tick_db s) \<and> votes (tick_db s) = votes d @ as_votes env (next_id vote_id (votes d)) (decisions s)))"

lemma ledger_keys: "vote_ledger d \<Longrightarrow> distinct (map item_id (posts d)) \<and> distinct (map item_id (comments d))"
  by (simp add: ledger_defs)

lemma same_site_downvotes: "same_site d d' \<Longrightarrow> downvotes_allowed d' = downvotes_allowed d"
  by (simp add: same_site_def downvotes_allowed_def setting_get_def)

lemma ordered_users_known:
  assumes "u \<in> set (ordered_users d)"
  shows "list_ex (\<lambda>w. user_name w = snap_name u \<and> password_hash w = None) (users d)"
  using assms by (auto simp: ordered_users_def list_ex_iff)

lemma cast_decision_sound:
  assumes sound: "tick_sound env d s" and fair: "fair_decision d x"
    and fresh: "Some (dec_voter x) \<notin> voter ` set (existing_votes (dec_kind x) (dec_target x) (tick_db s))"
    and few: "int (length (decisions s)) < global_limit env"
    and item: "count_rows (decided_on (dec_kind x) (dec_target x)) (decisions s) < per_item_limit env"
  shows "ends E (tick_sound env d) (cast_decision env x s)"
proof -
  let ?s = "\<lambda>e c. s\<lparr>decisions := decisions s @ [x], tick_db := e, casts := casts s @ [c]\<rparr>"
  have counts: "int (length (decisions s @ [x])) \<le> max 0 (global_limit env) \<and>
      (\<forall>target tid. count_rows (decided_on target tid) (decisions s @ [x]) \<le> max 0 (per_item_limit env))"
  proof -
    have "count_rows (decided_on target tid) (decisions s @ [x]) \<le> max 0 (per_item_limit env)" for target tid
    proof (cases "decided_on target tid x")
      case True
      with item show ?thesis by (auto simp: decided_on_def [abs_def] count_rows_def)
    next
      case False
      with sound show ?thesis by (simp add: tick_sound_def count_rows_def)
    qed
    with few show ?thesis by simp
  qed
  show ?thesis
  proof (cases "dry_run env")
    case True
    then show ?thesis using sound fair counts by (simp add: cast_decision_def Let_def tick_sound_def accepted_cast_def)
  next
    case False
    then have live: "vote_ledger (tick_db s)" "same_site d (tick_db s)"
      and rows: "votes (tick_db s) = votes d @ as_votes env (next_id vote_id (votes d)) (decisions s)"
      and cs: "length (casts s) = length (decisions s)"
      using sound by (simp_all add: tick_sound_def)
    obtain it where it: "target_item (dec_kind x) (dec_target x) (tick_db s) = Some it" "author it \<noteq> dec_voter x"
      using fair same_site_author [OF live(2), of "dec_kind x" "dec_target x"]
      by (auto simp: fair_decision_def split: option.splits)
    have user: "find_row user_name (dec_voter x) (users (tick_db s)) \<noteq> None"
    proof -
      have "map user_name us = map fst (map user_core us)" for us by (simp add: user_core_def)
      then have "map user_name (users (tick_db s)) = map user_name (users d)"
        using live(2) by (simp only: same_site_def)
      then have "set (map user_name (users (tick_db s))) = set (map user_name (users d))" by (rule arg_cong)
      with fair show ?thesis by (auto simp: fair_decision_def find_row_None_iff list_ex_iff intro: rev_image_eqI)
    qed
    have val: "dec_direction x \<in> {1, - 1}" and down: "dec_direction x = - 1 \<Longrightarrow> downvotes_allowed (tick_db s)"
      using fair same_site_downvotes [OF live(2)] by (auto simp: fair_decision_def)
    obtain sc e where cast: "cast_vote (Some (dec_voter x)) (dec_kind x) (dec_target x) (dec_direction x) ''simulated'' False None
        (sim_clock env (length (casts s))) (tick_db s) = (Vote_Ok sc True ''insert'', e)" and "vote_ledger e"
      and new: "votes e = votes (tick_db s) @ [as_vote env (next_id vote_id (votes (tick_db s))) (length (casts s)) x]"
      using cast_vote_inserts [OF live(1) it(1) user it(2) val down fresh, of "''simulated''" "sim_clock env (length (casts s))"]
      by (auto simp: as_vote_def)
    have site: "same_site d e" using same_site_trans [OF live(2) cast_vote_adds(1) [OF cast]] val by auto
    have "votes e = votes d @ as_votes env (next_id vote_id (votes d)) (decisions s @ [x])"
      using new cs by (simp add: rows as_votes_snoc next_id_votes)
    with sound False fair counts site \<open>vote_ledger e\<close> show ?thesis
      by (simp add: cast_decision_def Let_def tick_sound_def accepted_cast_def cast [unfolded cs])
  qed
qed

interpretation sound: tick_invariant env now d True "tick_sound env d" for env now d
proof (unfold_locales, goal_cases)
  case (6 s f t u k b off mode)
  have site: "same_site d (tick_db s)" and cs: "length (casts s) = length (decisions s)"
    using 6(1) by (simp_all add: tick_sound_def)
  have down: "downvotes_allowed d" if "downvotes_now env (tick_db s)"
    using that 6(1) same_site_downvotes [OF site] by (simp add: tick_sound_def downvotes_now_def split: option.splits bool.splits)
  have dir: "select_direction env f t w sub act (downvotes_now env (tick_db s)) \<noteq> 1 \<Longrightarrow> downvotes_allowed d" for w sub act
    using down by (auto simp: select_direction_def split: if_splits)
  have "known_target d t" using same_site_known [OF site] 6(5) by blast
  moreover have "existing_votes (tgt_kind t) (tgt_id t) d = filter (\<lambda>v. target_col (tgt_kind t) v = Some (tgt_id t)) (votes d)"
    by (simp add: existing_votes_def)
  moreover have "set (votes d) \<subseteq> set (votes (tick_db s))" using 6(1) by (auto simp: tick_sound_def split: if_splits)
  ultimately have fair: "fair_decision d x" if "on_target t x" "dec_voter x = snap_name u"
      "dec_direction x = 1 \<or> dec_direction x = - 1 \<and> downvotes_allowed d" for x
    using that 6(3,6) ordered_users_known [of u d]
    by (auto simp: fair_decision_def on_target_def known_target_def fair_choice_def existing_votes_def)
  have noted: "tick_sound env d (s\<lparr>tick_record := r\<rparr>)" for r using 6(1) by (simp add: tick_sound_def)
  have on: "decided_on (tgt_kind t) (tgt_id t) = on_target t" by (simp add: decided_on_def [abs_def] on_target_def [abs_def])
  show ?case
    unfolding propose_def Let_def
    using noted 6(4,6,7) cs
    by (auto simp: on casts_used_def intro!: cast_decision_sound fair 
        split: option.splits sum.splits) (auto simp: on_target_def dest: dir select_direction_pm)
qed (simp_all add: tick_sound_def ledger_keys)

end
