(* ===== verification/Turnout.thy ===== *)
theory Turnout
  imports Canvass
begin

text \<open>
  The guardrails of the vote simulator, as interpretations of the tick locale: how often a voter
  votes, how far the votes on an item go, and when a tick returns.
\<close>

lemma tick_sound_record [simp]: "tick_sound env d (s\<lparr>tick_record := r\<rparr>) = tick_sound env d s"
  by (simp add: tick_sound_def)

section \<open>Hourly caps\<close>

definition hourly_votes :: "timestamp \<Rightarrow> username \<Rightarrow> db \<Rightarrow> int" where
  "hourly_votes now who d = int (length (votes_since (now - hours 1) who d))"

definition cap_at_most :: "simulator \<Rightarrow> db \<Rightarrow> username \<Rightarrow> int \<Rightarrow> bool" where
  "cap_at_most env d who m = (\<forall>f u. in_play env d f \<longrightarrow> u \<in> set (ordered_users d) \<longrightarrow> snap_name u = who \<longrightarrow>
     (case vote_cap (snap_state u) (default_hourly_cap (force_config f)) of None \<Rightarrow> True | Some c \<Rightarrow> c \<le> m))"

definition caps_kept :: "simulator \<Rightarrow> timestamp \<Rightarrow> db \<Rightarrow> username \<Rightarrow> int \<Rightarrow> tick_state \<Rightarrow> bool" where
  "caps_kept env now d who m s = (tick_sound env d s \<and> cap_at_most env d who m \<and>
     hourly_votes now who (tick_db s) \<le> rec_hourly (tick_record s) who \<and>
     hourly_votes now who (tick_db s) \<le> max m (hourly_votes now who d))"

lemma proposed_hourly:
  assumes "proposed t u now s s'"
  shows "hourly_votes now' who (tick_db s') \<le> hourly_votes now' who (tick_db s) + (if who = u then 1 else 0)"
    and "rec_hourly (tick_record s') who = rec_hourly (tick_record s) who + (if who = u then 1 else 0)"
proof -
  obtain vs where vs: "votes (tick_db s') = votes (tick_db s) @ vs" "length vs \<le> 1" "\<forall>v \<in> set vs. voter v = Some u"
    using assms by (auto simp: proposed_def)
  have "length (filter p vs) \<le> 1" for p using le_trans [OF length_filter_le vs(2)] .
  moreover have "filter (\<lambda>v. voter v = Some who \<and> t \<le> vote_created_at v) vs = []" if "who \<noteq> u" for t
    using vs(3) that by (auto simp: filter_empty_conv)
  ultimately show "hourly_votes now' who (tick_db s') \<le> hourly_votes now' who (tick_db s) + (if who = u then 1 else 0)"
    by (auto simp: hourly_votes_def votes_since_def vs(1))
  show "rec_hourly (tick_record s') who = rec_hourly (tick_record s) who + (if who = u then 1 else 0)"
    using assms by (auto simp: proposed_def note_vote_def)
qed

interpretation capped: tick_invariant env now d True "caps_kept env now d who m" for env now d who m
proof (unfold_locales, goal_cases)
  case (6 s f t u k b off mode)
  have both: "ends True (\<lambda>s'. tick_sound env d s' \<and> proposed t (snap_name u) now s s') (propose env f now t k b off mode u s)"
    using 6 by (intro ends_conj sound.proposal propose_proposed) (auto simp: caps_kept_def known_target_def)
  show ?case
  proof (rule ends_mono [OF both])
    fix s' assume s': "tick_sound env d s' \<and> proposed t (snap_name u) now s s'"
    have "rec_hourly (tick_record s) who < m" if "who = snap_name u"
      using that 6(1-3) by (fastforce simp: caps_kept_def cap_at_most_def fair_choice_def)
    moreover note proposed_hourly(1) [of t "snap_name u" now s s' now who] proposed_hourly(2) [of t "snap_name u" now s s' who]
    ultimately show "caps_kept env now d who m s'"
      using 6(1) s' by (cases "who = snap_name u") (auto simp: caps_kept_def)
  qed
qed (auto simp: caps_kept_def voting_record_at_def hourly_votes_def intro: sound.bookkeeping dest: sound.keys sound.sited)

section \<open>One vote each\<close>

text \<open>With a clock that does not run back and policies from the database, the minimum gap keeps a
  voter from a second live vote in the same tick.\<close>

definition voted_once :: "simulator \<Rightarrow> timestamp \<Rightarrow> db \<Rightarrow> tick_state \<Rightarrow> bool" where
  "voted_once env now d s = (tick_sound env d s \<and> \<not> dry_run env \<and> given_policy env = None \<and> (\<forall>n. now \<le> sim_clock env n) \<and>
     distinct (map dec_voter (decisions s)) \<and>
     (\<forall>x \<in> set (decisions s). \<exists>t. rec_latest (tick_record s) (dec_voter x) = Some t \<and> now \<le> t))"

lemma gap_nonnegative:
  assumes "in_play env d f" and "given_policy env = None"
  shows "0 \<le> minimum_gap_seconds (force_config f)"
proof -
  obtain p where "load_in_force env p = Inr f" using assms by (auto simp: in_play_def)
  then obtain loads config j where "validate_policy loads config = Inr j" "force_config f = config_of j"
    by (auto simp: load_in_force_def load_policy_config_def split: sum.splits if_splits)
  with validate_policy_ok(1) show ?thesis by (fastforce simp: policy_ok_def)
qed

lemma round_even_le: "x \<le> of_int n \<Longrightarrow> round_even x \<le> n"
  using floor_le_iff [of x n] by (auto simp: round_even_def Let_def)

lemma earlier_le: "earlier now secs = Some t \<Longrightarrow> 0 \<le> secs \<Longrightarrow> t \<le> now"
  using round_even_le [of "- secs * 1000000" 0] by (auto simp: earlier_def add_seconds_def Let_def split: if_splits)

lemma fold_max_bound: "(t :: int) \<in> set (a # ts) \<Longrightarrow> t \<le> fold max ts a"
proof (induction ts arbitrary: a)
  case (Cons b ts)
  have "max b a \<le> fold max ts (max b a)" using fold_max_ge [of "max b a" "\<lambda>x. x" ts] by simp
  with Cons show ?case by (cases "t \<in> set ts") auto
qed simp

lemma latest_reread:
  assumes "v \<in> set (votes d)" "voter v = Some who" "now - hours 1 \<le> vote_created_at v" "now \<le> vote_created_at v"
  shows "\<exists>t. rec_latest (voting_record_at now d) who = Some t \<and> now \<le> t"
proof -
  have "vote_created_at v \<in> set (map vote_created_at (votes_since (now - hours 1) who d))"
    using assms by (simp add: votes_since_def)
  then show ?thesis
    using assms(4) fold_max_bound [of "vote_created_at v"]
    by (cases "map vote_created_at (votes_since (now - hours 1) who d)") (auto simp: voting_record_at_def intro: order_trans)
qed

interpretation once: tick_invariant env now d True "voted_once env now d" for env now d
proof (unfold_locales, goal_cases)
  case (5 s)
  have "\<exists>t. rec_latest (voting_record_at now (tick_db s)) (dec_voter x) = Some t \<and> now \<le> t" if "x \<in> set (decisions s)" for x
  proof -
    from that obtain n where "n < length (decisions s)" "decisions s ! n = x" by (auto simp: in_set_conv_nth)
    then have "(n, x) \<in> set (enumerate 0 (decisions s))" by (auto simp: in_set_enumerate_eq)
    then have "as_vote env (next_id vote_id (votes d) + int n) n x \<in> set (votes (tick_db s))"
      using 5 by (force simp: voted_once_def tick_sound_def as_votes_def)
    moreover have "now \<le> sim_clock env n" using 5 by (simp add: voted_once_def)
    ultimately show ?thesis by (intro latest_reread) (auto simp: as_vote_def hours_def minutes_def seconds_def)
  qed
  with 5 show ?case by (simp add: voted_once_def)
next
  case (6 s f t u k b off mode)
  have both: "ends True (\<lambda>s'. tick_sound env d s' \<and> proposed t (snap_name u) now s s') (propose env f now t k b off mode u s)"
    using 6 by (intro ends_conj sound.proposal propose_proposed) (auto simp: voted_once_def known_target_def)
  have new: "dec_voter x \<noteq> snap_name u" if "x \<in> set (decisions s)" for x
  proof
    assume "dec_voter x = snap_name u"
    with that obtain t' where "rec_latest (tick_record s) (snap_name u) = Some t'" "now \<le> t'"
      using 6(1) by (force simp: voted_once_def)
    moreover have "limit \<le> now" if "earlier now (minimum_gap_seconds (force_config f)) = Some limit" for limit
      using earlier_le [OF that] gap_nonnegative [OF 6(2)] 6(1) by (simp add: voted_once_def)
    ultimately show False using 6(3) by (force simp: fair_choice_def)
  qed
  show ?case
  proof (rule ends_mono [OF both])
    fix s' assume s': "tick_sound env d s' \<and> proposed t (snap_name u) now s s'"
    obtain xs where xs: "decisions s' = decisions s @ xs" "length xs \<le> 1" "\<forall>x \<in> set xs. dec_voter x = snap_name u"
      using s' by (auto simp: proposed_def)
    have "rec_latest (tick_record s') = (rec_latest (tick_record s))(snap_name u := Some now)"
      using s' by (simp add: proposed_def note_vote_def)
    moreover have "distinct (map dec_voter xs)" using xs(2) by (cases xs) simp_all
    ultimately show "voted_once env now d s'" using 6(1) s' xs(1,3) by (auto simp: voted_once_def dest: new)
  qed
qed (auto simp: voted_once_def intro: sound.bookkeeping dest: sound.keys sound.sited)

section \<open>Returning\<close>

definition sampler_returns :: "simulator \<Rightarrow> db \<Rightarrow> bool" where
  "sampler_returns env d = (\<forall>f target seed. in_play env d f \<longrightarrow>
     sample_attention_budget (sim_sha env) (section_for (force_config f) target) seed \<noteq> None)"

interpretation returns: tick_invariant env now d False
    "\<lambda>s. tick_sound env d s \<and> sampler_returns env d" for env now d
proof (unfold_locales, goal_cases)
  case (6 s f t u k b off mode)
  have "ends False (proposed t (snap_name u) now s) (propose env f now t k b off mode u s)"
    using 6 by (intro propose_proposed) (simp add: known_target_def)
  with sound.proposal [of env d s f now t u k b off mode] 6 show ?case
    by (cases "propose env f now t k b off mode u s") simp_all
qed (auto simp: sampler_returns_def intro: sound.bookkeeping dest: sound.keys sound.sited)

section \<open>The budget of an item\<close>

lemma active_votes_count:
  assumes "tgt_kind t \<in> {''post'', ''comment''}"
  shows "ends E (\<lambda>s'. simulated_count (tgt_kind t) (tgt_id t) (tick_db s') \<le>
      simulated_count (tgt_kind t) (tgt_id t) (tick_db s) + int (length ks) \<and> budgets s' = budgets s)
    (active_votes env f now t budget existing us ks selected s)"
proof (induction ks arbitrary: selected s)
  case (Cons k ks)
  let ?n = "\<lambda>s. simulated_count (tgt_kind t) (tgt_id t) (tick_db s)"
  have one: "ends E (\<lambda>s'. ?n s' \<le> ?n s + 1 \<and> budgets s' = budgets s) (propose env f now t k budget off mode u s)" for off mode u
  proof -
    have "?n s' \<le> ?n s + 1" if "proposed t w now s s'" for s' w
    proof -
      obtain vs where vs: "votes (tick_db s') = votes (tick_db s) @ vs" "length vs \<le> 1" using \<open>proposed t w now s s'\<close> by (auto simp: proposed_def)
      have "length (filter p (filter q vs)) \<le> 1" for p q
        by (rule le_trans [OF length_filter_le le_trans [OF length_filter_le vs(2)]])
      then show ?thesis by (simp add: simulated_count_def existing_votes_def count_rows_def vs(1) del: filter_filter)
    qed
    then have "ends E (\<lambda>s'. ?n s' \<le> ?n s + 1) (propose env f now t k budget off mode u s)"
      by (intro ends_mono [OF propose_proposed [OF assms, of E u now s env f k budget off mode]])
    moreover have "ends E (\<lambda>s'. budgets s' = budgets s) (propose env f now t k budget off mode u s)"
      by (auto simp: propose_def Let_def cast_decision_def
        split: option.splits sum.splits prod.splits vote_outcome.splits db_error.splits)
    ultimately show ?thesis by (rule ends_conj)
  qed
  have skipped: "ends E (\<lambda>s'. ?n s' \<le> ?n s + int (length (k # ks)) \<and> budgets s' = budgets s)
      (active_votes env f now t budget existing us ks selected (skip reason s))" for reason
    using Cons.IH [of "skip reason s" selected] by (rule ends_mono) (auto simp: skip_def)
  have voted: "ends E (\<lambda>s'. ?n s' \<le> ?n s + int (length (k # ks)) \<and> budgets s' = budgets s)
      (and_then (propose env f now t k budget off ''active'' u s)
        (active_votes env f now t budget existing us ks (snap_name u # selected)))" for off u
    using one [of off "''active''" u]
    by (cases "propose env f now t k budget off ''active'' u s")
      (auto simp: and_then_def intro: ends_mono [OF Cons.IH [of _ "snap_name u # selected"]])
  show ?case
    using skipped voted by (auto simp: Let_def split: sum.splits option.splits)
qed simp

section \<open>Properties\<close>

definition tick_result :: "tick_end \<Rightarrow> tick_state option" where
  "tick_result e = (case e of Ticked s \<Rightarrow> Some s | Tick_Raised _ s \<Rightarrow> Some s | Tick_Endless \<Rightarrow> None)"

lemma ends_result: "ends E P e \<Longrightarrow> tick_result e = Some s \<Longrightarrow> P s"
  by (cases e) (simp_all add: tick_result_def)

lemma fresh_sound: "vote_ledger d \<Longrightarrow> downvotes_choice env \<noteq> Some True \<Longrightarrow> tick_sound env d (fresh_tick now d)"
  by (simp add: tick_sound_def fresh_tick_def)

text \<open>C11. The guardrails of a tick hold whatever the policies, the hashes and the text of the agents'
  states are, in shadow and live mode, and also when the tick ends with an exception: the decisions
  stay within the tick's limit and the limit per item; every decision names an existing item and a
  simulated persona that is not its author and has not voted on it before; its direction is up, or
  down where downvotes are allowed.\<close>

theorem tick_guardrails:
  assumes "vote_ledger d" and "downvotes_choice env \<noteq> Some True" and "tick_result (run_active_tick env now d) = Some s"
  shows "int (length (decisions s)) \<le> max 0 (global_limit env) \<and>
    (\<forall>target tid. count_rows (decided_on target tid) (decisions s) \<le> max 0 (per_item_limit env)) \<and>
    list_all (fair_decision d) (decisions s)"
  using ends_result [OF sound.run_keeps [OF fresh_sound [OF assms(1,2)]] assms(3)]
  by (simp add: tick_sound_def)

text \<open>C12. What a live tick decides is what it stores: the votes afterwards are the votes before with
  one row for each decision, in order, under consecutive keys and with the values of the decision,
  and scores, counts and karma stay in step with them; no row is changed or lost, although the tick
  may end with an exception. A shadow tick leaves the whole database as it was.\<close>

theorem live_tick_stores_decisions:
  assumes "vote_ledger d" and "downvotes_choice env \<noteq> Some True" and "tick_result (run_active_tick env now d) = Some s"
  shows "if dry_run env then tick_db s = d
    else vote_ledger (tick_db s) \<and> votes (tick_db s) = votes d @ as_votes env (next_id vote_id (votes d)) (decisions s)"
  using ends_result [OF sound.run_keeps [OF fresh_sound [OF assms(1,2)]] assms(3)]
  by (simp add: tick_sound_def)

text \<open>C14. No persona exceeds its hourly cap through the simulator: if every policy that may apply
  gives the persona a cap of at most \<open>m\<close>, then after a tick it has at most \<open>m\<close> votes in the last
  hour, or as many as it had before.\<close>

theorem tick_respects_caps:
  assumes "vote_ledger d" and "downvotes_choice env \<noteq> Some True" and "tick_result (run_active_tick env now d) = Some s"
    and "cap_at_most env d who m"
  shows "hourly_votes now who (tick_db s) \<le> max m (hourly_votes now who d)"
proof -
  have "caps_kept env now d who m (fresh_tick now d)"
    using fresh_sound [OF assms(1,2)] assms(4)
    by (simp add: caps_kept_def fresh_tick_def voting_record_at_def hourly_votes_def)
  from ends_result [OF capped.run_keeps [OF this] assms(3)] show ?thesis by (simp add: caps_kept_def)
qed

text \<open>In one live tick under stored policies every persona votes at most once, although the
  archive and revival phases read the voting record afresh: the minimum gap, which validation keeps
  from being negative, bars everyone who has voted since the tick began.\<close>

theorem one_vote_each:
  assumes "vote_ledger d" and "downvotes_choice env \<noteq> Some True" and "tick_result (run_active_tick env now d) = Some s"
    and "\<not> dry_run env" and "given_policy env = None" and "\<forall>n. now \<le> sim_clock env n"
  shows "distinct (map dec_voter (decisions s))"
proof -
  have "voted_once env now d (fresh_tick now d)"
    using fresh_sound [OF assms(1,2)] assms(4-6) by (simp add: voted_once_def fresh_tick_def)
  from ends_result [OF once.run_keeps [OF this] assms(3)] show ?thesis by (simp add: voted_once_def)
qed


text \<open>The active window never takes an item past its attention budget: a target that is evaluated
  gets the budget drawn for it, which is at most the maximum of the policy, and ends with at
  most that many simulated votes, or as many as it had.\<close>

theorem attention_is_bounded:
  assumes "tgt_kind t \<in> {''post'', ''comment''}" and "tick_result (active_target env now us t s) = Some s'"
  shows "budgets s' = budgets s \<and> tick_db s' = tick_db s \<or>
    (\<exists>f b. resolve_policy env (created_at (tgt_item t)) (tick_db s) = Inr (Some f) \<and>
      budgets s' = budgets s @ [((tgt_kind t, tgt_id t), b)] \<and>
      b \<le> max 0 (trunc_rat (max_active_votes (section_for (force_config f) (tgt_kind t)))) \<and>
      simulated_count (tgt_kind t) (tgt_id t) (tick_db s') \<le> max (simulated_count (tgt_kind t) (tgt_id t) (tick_db s)) (max 0 b))"
proof -
  let ?n = "simulated_count (tgt_kind t) (tgt_id t)"
  have votes: "?n (tick_db s') \<le> max (?n (tick_db s)) (max 0 b) \<and> budgets s' = budgets s1"
    if "tick_result (active_votes env f now t b ex us [?n (tick_db s) + 1..due_count b a h w] [] s1) = Some s'"
      and "tick_db s1 = tick_db s" for f b ex a h w s1
    using ends_result [OF active_votes_count [OF assms(1)] that(1)] that(2) due_count_range(2) [of b a h w]
    by (cases "?n (tick_db s) + 1 \<le> due_count b a h w") auto
  have most: "b \<le> max 0 (trunc_rat (max_active_votes r))" if "sample_attention_budget sha r seed = Some b" for sha r seed b
    using that by (auto simp: sample_attention_budget_def Let_def split: if_splits option.splits)
  show ?thesis
    using assms(2) unfolding active_target_def Let_def
    by (auto simp: tick_result_def [of "Ticked _"] tick_result_def [of "Tick_Raised _ _"] tick_result_def [of Tick_Endless]
        split: if_splits sum.splits option.splits dest!: votes most)
qed

end
