(* ===== verification/Simulation.thy ===== *)
theory Simulation
  imports Turnout
begin

text \<open>
  \<open>deaddit/runtime/engagement.py\<close>: the worker's poll of the vote simulator, with the hourly summary
  of \<open>deaddit/dynamics/engagement.py\<close> it keeps. The mode is read from the database at every poll.
\<close>

section \<open>The hourly summary\<close>

definition COUNTER_FIELDS :: "string list" where
  "COUNTER_FIELDS = [''ticks'', ''errors'', ''active_proposals'', ''archive_proposals'', ''revival_proposals'',
     ''inserted_votes'', ''switched_votes'', ''upvotes'', ''downvotes'', ''cap_skips'', ''min_gap_skips'', ''no_voter_skips'',
     ''guardrail_skips'']"

definition COUNTER_ALIASES :: "(string \<times> string) list" where
  "COUNTER_ALIASES = [(''active'', ''active_proposals''), (''archive'', ''archive_proposals''), (''revival'', ''revival_proposals''),
     (''min_gap'', ''min_gap_skips''), (''no_voter'', ''no_voter_skips''), (''guardrail'', ''guardrail_skips'')]"

definition unaliased :: "string \<Rightarrow> string" where
  "unaliased name = (case map_of COUNTER_ALIASES name of None \<Rightarrow> name | Some f \<Rightarrow> f)"

text \<open>The counters of a request, a later one under the same name in the place of an earlier one.\<close>

fun normalized_counters :: "(string \<times> json) list \<Rightarrow> (string \<rightharpoonup> int) \<Rightarrow> string + (string \<rightharpoonup> int)" where
  "normalized_counters [] m = Inr m"
| "normalized_counters ((name, v) # kvs) m =
     (let f = unaliased name in
      if f \<notin> set COUNTER_FIELDS then Inl (''unknown hourly summary counter: '' @ f)
      else case v of
          JInt i \<Rightarrow> normalized_counters kvs (m(f \<mapsto> i))
        | _ \<Rightarrow> Inl (''hourly summary counter '' @ quoted f @ '' must be an integer''))"

definition utc_hour :: "timestamp \<Rightarrow> timestamp" where
  "utc_hour t = t div hours 1 * hours 1"

definition delta_of :: "(string \<rightharpoonup> int) \<Rightarrow> string \<Rightarrow> int" where
  "delta_of m f = (case m f of None \<Rightarrow> 0 | Some n \<Rightarrow> n)"

definition initial_counters :: "(string \<rightharpoonup> int) \<Rightarrow> (string \<times> int) list" where
  "initial_counters m = map (\<lambda>f. (f, delta_of m f)) COUNTER_FIELDS"

definition counter :: "simulation_hour \<Rightarrow> string \<Rightarrow> int" where
  "counter r f = (case map_of (sim_counters r) f of None \<Rightarrow> 0 | Some n \<Rightarrow> n)"

definition added_counters :: "(string \<rightharpoonup> int) \<Rightarrow> simulation_hour \<Rightarrow> (string \<times> int) list" where
  "added_counters m r = map (\<lambda>f. (f, counter r f + delta_of m f)) COUNTER_FIELDS"

definition hour_key :: "simulation_hour \<Rightarrow> timestamp \<times> string" where
  "hour_key r = (sim_hour r, sim_mode r)"

text \<open>The insertion that adds to the row when its key exists. \<open>now\<close> is the time of the update.\<close>

definition upsert_hourly_summary :: "timestamp \<Rightarrow> string \<Rightarrow> (string \<times> json) list \<Rightarrow> timestamp \<Rightarrow> db \<Rightarrow> string + db" where
  "upsert_hourly_summary hour mode kvs now d =
     (if mode = '''' then Inl ''hourly summary mode is required''
      else case normalized_counters kvs Map.empty of
          Inl e \<Rightarrow> Inl e
        | Inr m \<Rightarrow>
            (let key = (utc_hour hour, mode) in
             Inr (if find_row hour_key key (simulation_hours d) = None
               then d\<lparr>simulation_hours := simulation_hours d @
                 [\<lparr>sim_hour = utc_hour hour, sim_mode = mode, sim_counters = initial_counters m, sim_updated_at = now\<rparr>]\<rparr>
               else d\<lparr>simulation_hours := update_rows (\<lambda>r. hour_key r = key)
                 (\<lambda>r. r\<lparr>sim_counters := added_counters m r, sim_updated_at := now\<rparr>) (simulation_hours d)\<rparr>)))"

section \<open>From a tick to its counters\<close>

definition SKIP_COUNTERS :: "(string \<times> string) list" where
  "SKIP_COUNTERS = [(''cap'', ''cap_skips''), (''min_gap'', ''min_gap_skips''), (''no_voter'', ''no_voter_skips'')]"

definition NON_COUNTER_SKIPS :: "string list" where
  "NON_COUNTER_SKIPS = [''tail_probability'']"

definition kind_of_change :: "cast_result \<Rightarrow> string option" where
  "kind_of_change c = (case c of Cast (Vote_Ok _ _ k) \<Rightarrow> Some k | _ \<Rightarrow> None)"

definition cast_rejected :: "cast_result \<Rightarrow> bool" where
  "cast_rejected c = (case c of Cast (Vote_Rejected _ _) \<Rightarrow> True | _ \<Rightarrow> False)"

definition skip_count :: "string \<Rightarrow> tick_state \<Rightarrow> int" where
  "skip_count reason s = count_rows (\<lambda>r. r = reason) (skips s)"

definition summary_deltas :: "tick_state \<Rightarrow> (string \<times> json) list" where
  "summary_deltas s =
     [(''ticks'', JInt 1), (''active_proposals'', JInt (active_proposals s)), (''archive_proposals'', JInt (archive_proposals s)),
      (''revival_proposals'', JInt (revival_proposals s)),
      (''inserted_votes'', JInt (count_rows (\<lambda>c. kind_of_change c = Some ''insert'') (casts s))),
      (''switched_votes'', JInt (count_rows (\<lambda>c. kind_of_change c = Some ''direction_switch'') (casts s))),
      (''upvotes'', JInt (count_rows (\<lambda>x. 0 < dec_direction x) (decisions s))),
      (''downvotes'', JInt (count_rows (\<lambda>x. dec_direction x < 0) (decisions s))),
      (''guardrail_skips'', JInt (count_rows (\<lambda>r. r \<notin> fst ` set SKIP_COUNTERS \<and> r \<notin> set NON_COUNTER_SKIPS) (skips s) +
         count_rows cast_rejected (casts s)))] @
     map (\<lambda>(reason, f). (f, JInt (skip_count reason s))) SKIP_COUNTERS"

section \<open>One poll\<close>

definition MODE_SETTING :: string where
  "MODE_SETTING = ''SIMULATED_VOTING_MODE''"

definition ACTIVE_MODES :: "string list" where
  "ACTIVE_MODES = [''shadow'', ''live'']"

definition resolve_mode :: "db \<Rightarrow> string" where
  "resolve_mode d =
     (let raw = setting_get MODE_SETTING None d;
          mode = py_lower (py_strip (case raw of None \<Rightarrow> '''' | Some v \<Rightarrow> v)) in
      if mode = ''off'' \<or> mode \<in> set ACTIVE_MODES then mode else ''off'')"

definition policy_exists :: "db \<Rightarrow> bool" where
  "policy_exists d = (cadence_policies d \<noteq> [])"

text \<open>The engine as the worker sets it up: stored policies, its limits, every item, the site's setting
  for downvotes. \<open>env\<close> gives the parameters from outside.\<close>

definition worker_engine :: "simulator \<Rightarrow> string \<Rightarrow> simulator" where
  "worker_engine env mode = env\<lparr>given_policy := None, global_limit := 100, per_item_limit := 2,
     archive_candidate_limit := 100, archive_item_limit := 5, revival_thread_limit := 50, revival_visible_comment_limit := 5,
     recent_comment_lookback_minutes := 10, dry_run := (mode = ''shadow''), only_type := None, only_ids := None,
     downvotes_choice := None\<rparr>"

text \<open>A summary that cannot be stored is logged and dropped.\<close>

definition record_hour :: "timestamp \<Rightarrow> string \<Rightarrow> (string \<times> json) list \<Rightarrow> timestamp \<Rightarrow> db \<Rightarrow> db" where
  "record_hour hour mode kvs now d = (case upsert_hourly_summary hour mode kvs now d of Inl _ \<Rightarrow> d | Inr d' \<Rightarrow> d')"

text \<open>\<open>now\<close>, \<open>later\<close> and \<open>stamp\<close> are the successive readings of the clock; \<open>None\<close> is a tick that does not return. What
  a failing tick has committed stays.\<close>

definition tick_once :: "simulator \<Rightarrow> timestamp \<Rightarrow> timestamp \<Rightarrow> timestamp \<Rightarrow> db \<Rightarrow> db option" where
  "tick_once env now later stamp d =
     (let mode = resolve_mode d in
      if mode = ''off'' \<or> \<not> policy_exists d then Some d
      else case run_active_tick (worker_engine env mode) now d of
          Ticked s \<Rightarrow> Some (record_hour later mode (summary_deltas s) stamp (tick_db s))
        | Tick_Raised _ s \<Rightarrow> Some (record_hour later mode [(''errors'', JInt 1)] stamp (tick_db s))
        | Tick_Endless \<Rightarrow> None)"

section \<open>Counters add up\<close>

definition counted :: "timestamp \<Rightarrow> string \<Rightarrow> string \<Rightarrow> db \<Rightarrow> int" where
  "counted hour mode f d = (case find_row hour_key (hour, mode) (simulation_hours d) of None \<Rightarrow> 0 | Some r \<Rightarrow> counter r f)"

lemma map_of_counters: "f \<in> set COUNTER_FIELDS \<Longrightarrow> map_of (map (\<lambda>f. (f, g f)) COUNTER_FIELDS) f = Some (g f)"
proof -
  have "f \<in> set fs \<Longrightarrow> map_of (map (\<lambda>f. (f, g f)) fs) f = Some (g f)" for fs by (induction fs) auto
  then show "f \<in> set COUNTER_FIELDS \<Longrightarrow> map_of (map (\<lambda>f. (f, g f)) COUNTER_FIELDS) f = Some (g f)" .
qed

lemma counter_initial: "f \<in> set COUNTER_FIELDS \<Longrightarrow>
    counter \<lparr>sim_hour = h, sim_mode = m, sim_counters = initial_counters ds, sim_updated_at = t\<rparr> f = delta_of ds f"
  by (simp add: counter_def initial_counters_def map_of_counters)

lemma counter_added: "f \<in> set COUNTER_FIELDS \<Longrightarrow>
    counter (r\<lparr>sim_counters := added_counters ds r, sim_updated_at := t\<rparr>) f = counter r f + delta_of ds f"
  by (simp add: counter_def added_counters_def map_of_counters)

lemma upsert_adds:
  assumes "upsert_hourly_summary hour mode kvs now d = Inr d'" and "normalized_counters kvs Map.empty = Inr ds"
    and "f \<in> set COUNTER_FIELDS"
  shows "counted h m f d' = counted h m f d + (if h = utc_hour hour \<and> m = mode then delta_of ds f else 0)"
proof (cases "find_row hour_key (utc_hour hour, mode) (simulation_hours d)")
  case None
  then have d': "simulation_hours d' = simulation_hours d @
      [\<lparr>sim_hour = utc_hour hour, sim_mode = mode, sim_counters = initial_counters ds, sim_updated_at = now\<rparr>]"
    using assms(1,2) by (auto simp: upsert_hourly_summary_def split: if_splits)
  show ?thesis
    using None counter_initial [OF assms(3)] unfolding counted_def d' find_row_append
    by (auto simp: hour_key_def split: option.splits)
next
  case (Some r)
  then have d': "simulation_hours d' = update_rows (\<lambda>r. hour_key r = (utc_hour hour, mode))
      (\<lambda>r. r\<lparr>sim_counters := added_counters ds r, sim_updated_at := now\<rparr>) (simulation_hours d)"
    using assms(1,2) by (auto simp: upsert_hourly_summary_def split: if_splits)
  have "find_row hour_key k (simulation_hours d') = map_option
      (\<lambda>r. if hour_key r = (utc_hour hour, mode) then r\<lparr>sim_counters := added_counters ds r, sim_updated_at := now\<rparr> else r)
      (find_row hour_key k (simulation_hours d))" for k
    unfolding d' by (rule find_row_update) (simp add: hour_key_def)
  then show ?thesis
    using Some counter_added [OF assms(3)] find_row_SomeD [of hour_key _ "simulation_hours d"]
    by (auto simp: counted_def split: option.splits)
qed

lemma upsert_frame:
  assumes "upsert_hourly_summary hour mode kvs now d = Inr d'"
  shows "d' = d\<lparr>simulation_hours := simulation_hours d'\<rparr>"
    and "distinct (map hour_key (simulation_hours d)) \<Longrightarrow> distinct (map hour_key (simulation_hours d'))"
proof -
  show "d' = d\<lparr>simulation_hours := simulation_hours d'\<rparr>"
    using assms by (auto simp: upsert_hourly_summary_def Let_def split: if_splits sum.splits)
  have keep: "map hour_key (update_rows p (\<lambda>r. r\<lparr>sim_counters := g r, sim_updated_at := now\<rparr>) rs) = map hour_key rs" for p g rs
    by (rule map_update_rows) (simp add: hour_key_def)
  show "distinct (map hour_key (simulation_hours d'))" if "distinct (map hour_key (simulation_hours d))"
    using assms that keep
    by (auto simp: upsert_hourly_summary_def Let_def find_row_None_iff hour_key_def [of "\<lparr>sim_hour = _, sim_mode = _, sim_counters = _, sim_updated_at = _\<rparr>"]
        split: if_splits sum.splits)
qed

lemma record_hour_frame: "record_hour h m kvs now d = d\<lparr>simulation_hours := simulation_hours (record_hour h m kvs now d)\<rparr>"
  using upsert_frame(1) by (auto simp: record_hour_def split: sum.splits)

text \<open>The setting as an administrator wrote it.\<close>

definition written_mode :: "db \<Rightarrow> string" where
  "written_mode d = py_lower (py_strip (case setting_get MODE_SETTING None d of None \<Rightarrow> '''' | Some v \<Rightarrow> v))"

lemma resolve_written: "resolve_mode d = (if written_mode d \<in> {''shadow'', ''live''} then written_mode d else ''off'')"
  by (auto simp: resolve_mode_def written_mode_def Let_def ACTIVE_MODES_def)

lemma worker_engine_simps [simp]:
  "dry_run (worker_engine env mode) = (mode = ''shadow'')" "downvotes_choice (worker_engine env mode) = None"
  "global_limit (worker_engine env mode) = 100" "per_item_limit (worker_engine env mode) = 2"
  by (simp_all add: worker_engine_def)

text \<open>What the engine guarantees of a worker's tick, from the interpretation of the tick locale.\<close>

lemma worker_tick_sound:
  assumes "vote_ledger d" and "tick_result (run_active_tick (worker_engine env mode) now d) = Some s"
  shows "tick_sound (worker_engine env mode) d s"
  using ends_result [OF sound.run_keeps [OF fresh_sound [OF assms(1)]] assms(2)] by simp

lemma as_votes_facts: "length (as_votes env i xs) = length xs" "list_all (\<lambda>v. vote_source v = ''simulated'') (as_votes env i xs)"
  by (auto simp: as_votes_def as_vote_def list_all_iff)

lemma all_inserted:
  assumes "list_all (accepted_cast env) cs" and "\<not> dry_run env"
  shows "count_rows (\<lambda>c. kind_of_change c = Some ''insert'') cs = int (length cs)"
  using assms
  by (induction cs) (auto simp: accepted_cast_def kind_of_change_def split: cast_result.splits vote_outcome.splits)

lemma normalized_summary:
  "\<exists>ds. normalized_counters (summary_deltas s) Map.empty = Inr ds \<and> delta_of ds ''ticks'' = 1 \<and> delta_of ds ''errors'' = 0 \<and>
     delta_of ds ''inserted_votes'' = count_rows (\<lambda>c. kind_of_change c = Some ''insert'') (casts s) \<and>
     delta_of ds ''upvotes'' = count_rows (\<lambda>x. 0 < dec_direction x) (decisions s) \<and>
     delta_of ds ''downvotes'' = count_rows (\<lambda>x. dec_direction x < 0) (decisions s)"
  by (simp add: summary_deltas_def SKIP_COUNTERS_def unaliased_def COUNTER_ALIASES_def COUNTER_FIELDS_def delta_of_def)

lemma record_summary:
  assumes "mode \<noteq> ''''" and "normalized_counters kvs Map.empty = Inr ds" and "f \<in> set COUNTER_FIELDS"
  shows "counted h m f (record_hour hour mode kvs now d) =
    counted h m f d + (if h = utc_hour hour \<and> m = mode then delta_of ds f else 0)"
proof -
  obtain d' where d': "upsert_hourly_summary hour mode kvs now d = Inr d'"
    using assms(1,2) by (auto simp: upsert_hourly_summary_def Let_def)
  from upsert_adds [OF this assms(2,3)] d' show ?thesis by (simp add: record_hour_def)
qed

section \<open>Properties\<close>

text \<open>Hourly counters are sums: a stored request adds its deltas to the one row of its hour and
  mode and to no other, whether or not the row existed; keys stay unique and nothing else in the
  database changes. A request with no mode, with an unknown counter or with a value that is no
  integer stores nothing.\<close>

lemma hourly_counters_add_up:
  "case upsert_hourly_summary hour mode kvs now d of
     Inl e \<Rightarrow> mode = '''' \<or> normalized_counters kvs Map.empty = Inl e
   | Inr d' \<Rightarrow>
       (\<exists>ds. normalized_counters kvs Map.empty = Inr ds \<and>
         (\<forall>h m. list_all (\<lambda>f. counted h m f d' =
            counted h m f d + (if h = utc_hour hour \<and> m = mode then delta_of ds f else 0)) COUNTER_FIELDS)) \<and>
       (distinct (map hour_key (simulation_hours d)) \<longrightarrow> distinct (map hour_key (simulation_hours d'))) \<and>
       d' = d\<lparr>simulation_hours := simulation_hours d'\<rparr>"
proof (cases "upsert_hourly_summary hour mode kvs now d")
  case (Inl e)
  then show ?thesis by (auto simp: upsert_hourly_summary_def Let_def split: if_splits sum.splits)
next
  case (Inr d')
  then obtain ds where "normalized_counters kvs Map.empty = Inr ds"
    by (auto simp: upsert_hourly_summary_def split: if_splits sum.splits)
  with upsert_adds [OF Inr this] upsert_frame [OF Inr] Inr show ?thesis by (simp add: list_all_iff)
qed

text \<open>C13. The simulator fails closed. A poll writes votes only in live mode and with a stored policy; in
  shadow mode it changes nothing but the hourly counters, and in every other mode, an invalid or
  missing one included, or without a policy, it changes nothing at all. Whatever happens during the
  tick, the vote ledger stays sound, and the poll adds at most a hundred votes, all marked as
  simulated, after the ones already there.\<close>

theorem simulator_fails_closed:
  assumes "vote_ledger d" and "tick_once env now later stamp d = Some d'"
  shows "vote_ledger d' \<and> (written_mode d \<notin> {''shadow'', ''live''} \<or> \<not> policy_exists d \<longrightarrow> d' = d) \<and>
    (written_mode d \<noteq> ''live'' \<longrightarrow> d' = d\<lparr>simulation_hours := simulation_hours d'\<rparr>) \<and>
    (\<exists>rows. votes d' = votes d @ rows \<and> length rows \<le> 100 \<and> list_all (\<lambda>v. vote_source v = ''simulated'') rows)"
proof (cases "resolve_mode d = ''off'' \<or> \<not> policy_exists d")
  case True
  then have "d' = d" using assms by (auto simp: tick_once_def Let_def)
  with assms(1) show ?thesis by simp
next
  case False
  then have mode: "written_mode d \<in> {''shadow'', ''live''}" "resolve_mode d = written_mode d"
    by (auto simp: resolve_written split: if_splits)
  obtain s kvs where s: "tick_result (run_active_tick (worker_engine env (resolve_mode d)) now d) = Some s"
    and d': "d' = record_hour later (resolve_mode d) kvs stamp (tick_db s)"
    using False assms(2) by (auto simp: tick_once_def Let_def tick_result_def split: tick_end.splits)
  note sound = worker_tick_sound [OF assms(1) s]
  note frame = record_hour_frame [of later "resolve_mode d" kvs stamp "tick_db s", folded d']
  have ledger: "vote_ledger (tick_db s)" and more: "\<exists>rows. votes (tick_db s) = votes d @ rows \<and> length rows \<le> 100 \<and>
      list_all (\<lambda>v. vote_source v = ''simulated'') rows"
    using sound assms(1) as_votes_facts by (auto simp: tick_sound_def split: if_splits)
  have "content_state d' = content_state (tick_db s)" by (subst frame) (simp add: content_state_def)
  then have "vote_ledger d'" "votes d' = votes (tick_db s)"
    using ledger vote_ledger_cong [of d' "tick_db s"] by (simp_all add: content_state_def)
  moreover have "tick_db s = d" if "written_mode d \<noteq> ''live''"
    using that mode sound by (auto simp: tick_sound_def)
  ultimately show ?thesis using False mode more frame by auto
qed

text \<open>The counters of a live poll agree with the ledger: a tick that ends normally adds to the row of
  its hour exactly one tick, no error, as many inserted votes as there are new vote rows, and up and
  down votes that add up to them; the rows of other hours and modes stay as they are.\<close>

theorem hourly_counts_match_ledger:
  assumes "vote_ledger d" and "resolve_mode d = ''live''" and "policy_exists d"
    and "run_active_tick (worker_engine env ''live'') now d = Ticked s" and "tick_once env now later stamp d = Some d'"
  shows "counted h m ''inserted_votes'' d' - counted h m ''inserted_votes'' d =
      (if h = utc_hour later \<and> m = ''live'' then int (length (votes d')) - int (length (votes d)) else 0) \<and>
    counted h m ''upvotes'' d' + counted h m ''downvotes'' d' - (counted h m ''upvotes'' d + counted h m ''downvotes'' d) =
      (if h = utc_hour later \<and> m = ''live'' then int (length (votes d')) - int (length (votes d)) else 0) \<and>
    counted h m ''ticks'' d' = counted h m ''ticks'' d + (if h = utc_hour later \<and> m = ''live'' then 1 else 0) \<and>
    counted h m ''errors'' d' = counted h m ''errors'' d"
proof -
  have d': "d' = record_hour later ''live'' (summary_deltas s) stamp (tick_db s)"
    using assms by (simp add: tick_once_def)
  have sound: "tick_sound (worker_engine env ''live'') d s"
    using worker_tick_sound [of d env "''live''" now s] assms(1,4) by (simp add: tick_result_def)
  have same: "counted h m f (tick_db s) = counted h m f d" for f
  proof -
    have "simulation_hours (tick_db s) = simulation_hours d" using sound by (simp add: tick_sound_def same_site_def)
    then show ?thesis by (simp add: counted_def)
  qed
  have live: "length (casts s) = length (decisions s)" "list_all (accepted_cast (worker_engine env ''live'')) (casts s)"
    "length (votes (tick_db s)) = length (votes d) + length (decisions s)" "list_all (fair_decision d) (decisions s)"
    using sound by (simp_all add: tick_sound_def as_votes_facts)
  have "count_rows (\<lambda>x. 0 < dec_direction x) xs + count_rows (\<lambda>x. dec_direction x < 0) xs = int (length xs)"
    if "list_all (fair_decision d) xs" for xs using that by (induction xs) (auto simp: fair_decision_def)
  note directions = this [OF live(4)]
  have inserted: "count_rows (\<lambda>c. kind_of_change c = Some ''insert'') (casts s) = int (length (casts s))"
    using all_inserted [OF live(2)] by simp
  have "votes d' = votes (tick_db s)" by (subst d', subst record_hour_frame) simp
  moreover obtain ds where ds: "normalized_counters (summary_deltas s) Map.empty = Inr ds" "delta_of ds ''ticks'' = 1"
      "delta_of ds ''errors'' = 0" "delta_of ds ''inserted_votes'' = count_rows (\<lambda>c. kind_of_change c = Some ''insert'') (casts s)"
      "delta_of ds ''upvotes'' = count_rows (\<lambda>x. 0 < dec_direction x) (decisions s)"
      "delta_of ds ''downvotes'' = count_rows (\<lambda>x. dec_direction x < 0) (decisions s)"
    using normalized_summary by blast
  moreover have "counted h m f d' = counted h m f d + (if h = utc_hour later \<and> m = ''live'' then delta_of ds f else 0)"
    if "f \<in> set COUNTER_FIELDS" for f
    using record_summary [OF _ ds(1) that, of "''live''"] by (simp add: d' same)
  from this [of "''inserted_votes''"] this [of "''upvotes''"] this [of "''downvotes''"] this [of "''ticks''"] this [of "''errors''"]
  have "counted h m f d' = counted h m f d + (if h = utc_hour later \<and> m = ''live'' then delta_of ds f else 0)"
    if "f \<in> {''inserted_votes'', ''upvotes'', ''downvotes'', ''ticks'', ''errors''}" for f
    using that by (auto simp: COUNTER_FIELDS_def)
  ultimately show ?thesis using inserted directions live(1,3) by auto
qed

end
