(* ===== verification/Poll.thy ===== *)
theory Poll
  imports Simulation
begin

text \<open>
  A small site on which a tick of the vote simulator can be followed: one post with one reply, one
  persona, and a policy whose active budgets are empty, so that the one vote comes from the revival
  of the thread.
\<close>

definition poll_config :: json where
  "poll_config =
     (let rules = JObj (zip ATTENTION_FIELDS [JInt 0, JInt 1, JInt 60, JInt 24, JInt 1, JInt 10, JInt 7, JInt 30, JFloat (1 / 2)]) in
      JObj [(''post'', rules), (''comment'', rules),
        (''voter'', JObj [(''default_hourly_cap'', JInt 5), (''minimum_gap_seconds'', JInt 60),
           (''subscription_weight'', JInt 4), (''max_activity_weight'', JInt 3)]),
        (''direction'', JObj [(''base_downvote_probability'', JInt 0), (''minimum_downvote_probability'', JInt 0),
           (''maximum_downvote_probability'', JInt 0)])])"

definition poll_now :: timestamp where
  "poll_now = days 20000"

definition poll_policy :: cadence_policy where
  "poll_policy = \<lparr>cadence_id = 1, preset = ''custom'', algorithm_version = 1, cadence_config = poll_config,
     effective_at = 0, cadence_created_at = 0\<rparr>"

definition poll_db :: db where
  "poll_db = empty_db\<lparr>
     users := [(sample_user ''ann'')\<lparr>password_hash := Some ''x''\<rparr>, sample_user ''bob''],
     posts := [(sample_post 1 ''ann'')\<lparr>created_at := poll_now\<rparr>],
     comments := [(sample_comment 2 ''ann'' 1 None)\<lparr>created_at := poll_now\<rparr>],
     cadence_policies := [poll_policy], settings := [MODE_SETTING \<mapsto> Some ''Live'']\<rparr>"

text \<open>Every digest is zero here.\<close>

definition poll_env :: simulator where
  "poll_env = \<lparr>sim_sha = (\<lambda>_. replicate 32 0), sim_loads = (\<lambda>_. None), sim_str = (\<lambda>_. ''''), sim_clock = (\<lambda>n. poll_now),
     sim_offset = 0, given_policy = None, per_item_limit = 2, global_limit = 100, archive_candidate_limit = 100,
     archive_item_limit = 5, revival_thread_limit = 50, revival_visible_comment_limit = 5,
     recent_comment_lookback_minutes = 10, dry_run = False, only_type = None, only_ids = None, downvotes_choice = None\<rparr>"

definition poll_force :: in_force where
  "poll_force = \<lparr>force_id = 1, force_version = 1, force_config = config_of poll_config\<rparr>"

lemma poll_ledger: "vote_ledger poll_db"
  by code_simp

lemma poll_load: "load_in_force poll_env poll_policy = Inr poll_force"
  by code_simp

lemma poll_env_simps [simp]:
  "given_policy poll_env = None" "only_type poll_env = None" "only_ids poll_env = None" "downvotes_choice poll_env = None"
  "dry_run poll_env = False" "per_item_limit poll_env = 2" "global_limit poll_env = 100" "sim_clock poll_env n = poll_now"
  "archive_candidate_limit poll_env = 100"
  by (simp_all add: poll_env_def)

lemma poll_policies: "cadence_policies poll_db = [poll_policy]"
  by (simp add: poll_db_def empty_db_def)

lemma poll_resolve: "0 \<le> t \<Longrightarrow> resolve_policy poll_env t poll_db = Inr (Some poll_force)"
proof -
  have "effective_at poll_policy = 0" by (simp add: poll_policy_def)
  then show "0 \<le> t \<Longrightarrow> ?thesis" by (simp add: resolve_policy_def poll_policies poll_load order_desc_def)
qed

lemma poll_no_budget: "sample_attention_budget sha (section_for (force_config poll_force) target) seed = Some 0"
proof -
  have "mean_active_votes (post_rules (force_config poll_force)) = 0" "mean_active_votes (comment_rules (force_config poll_force)) = 0"
    by code_simp+
  then have "mean_active_votes (section_for (force_config poll_force) target) = 0" by (simp add: section_for_def)
  then show ?thesis by (simp add: sample_attention_budget_def)
qed

lemma poll_in_play: "in_play poll_env poll_db f \<Longrightarrow> f = poll_force"
  by (simp add: in_play_def poll_policies poll_load)

text \<open>The active phase examines the post and the reply, and proposes nothing.\<close>

definition examined :: "string \<Rightarrow> int \<Rightarrow> tick_state \<Rightarrow> tick_state" where
  "examined target tid s = s\<lparr>targets_examined := targets_examined s + 1, budgets := budgets s @ [((target, tid), 0)]\<rparr>"

lemma poll_active:
  assumes "tick_db s = poll_db" and "created_at (tgt_item t) = poll_now"
  shows "active_target poll_env poll_now us t s = Ticked (examined (tgt_kind t) (tgt_id t) s)"
proof -
  have "window_hours (force_config poll_force) ''post'' = 25" "window_hours (force_config poll_force) ''comment'' = 25"
    by code_simp+
  then have "window_hours (force_config poll_force) (tgt_kind t) = 25" by (simp add: window_hours_def section_for_def)
  moreover have "round_even (25 * 3600 * 1000000 :: rat) = 90000000000" by code_simp
  moreover have "0 \<le> poll_now" by code_simp
  ultimately show ?thesis
    using assms by (simp add: active_target_def poll_resolve poll_no_budget due_count_def examined_def simulated_count_def
        count_rows_def)
qed

lemma poll_targets:
  "candidate_horizon poll_env ''post'' poll_now poll_db = Inr 25" "candidate_horizon poll_env ''comment'' poll_now poll_db = Inr 25"
  "map_option (map (\<lambda>t. (tgt_kind t, tgt_id t, created_at (tgt_item t)))) (candidate_query ''post'' poll_now 25 None poll_db) =
     Some [(''post'', 1, poll_now)]"
  "map_option (map (\<lambda>t. (tgt_kind t, tgt_id t, created_at (tgt_item t)))) (candidate_query ''comment'' poll_now 25 None poll_db) =
     Some [(''comment'', 2, poll_now)]"
  by code_simp+

text \<open>Nothing is in the archive; the reply revives the post, for which \<open>bob\<close> votes, and itself, which the
  gap keeps \<open>bob\<close> from.\<close>

lemma poll_unit: "hash_unit (sim_sha poll_env) parts = 1 / 2 ^ 65"
  by (simp add: poll_env_def hash_unit_def unit_of_def be_nat_def numeral_eq_Suc)

definition poll_bob :: voter_snapshot where
  "poll_bob = \<lparr>snap_name = ''bob'', snap_state = JObj []\<rparr>"

definition poll_root :: post where
  "poll_root = (sample_post 1 ''ann'')\<lparr>created_at := poll_now\<rparr>"

definition poll_trigger :: comment where
  "poll_trigger = (sample_comment 2 ''ann'' 1 None)\<lparr>created_at := poll_now\<rparr>"

definition poll_post :: vote_target where
  "poll_post = post_target poll_root"

definition poll_reply :: vote_target where
  "poll_reply = comment_target poll_db poll_trigger"

definition poll_voted :: db where
  "poll_voted = snd (cast_vote (Some ''bob'') ''post'' 1 1 ''simulated'' False None poll_now poll_db)"

lemma poll_facts [simp]:
  "ordered_users poll_db = [poll_bob]"
  "archive_query (post_rules (force_config poll_force)) poll_now 100 None poll_db = Some []"
  "vote_cap (snap_state poll_bob) (default_hourly_cap (force_config poll_force)) = Some 5"
  "recent_comments poll_env poll_now poll_db = [poll_trigger]"
  "find_row item_id 1 (posts poll_db) = Some poll_root"
  "post_id poll_trigger = 1" "revival_targets poll_env poll_root poll_trigger poll_db = [poll_post, poll_reply]"
  "existing_votes ''post'' 1 poll_db = []" "existing_votes ''comment'' 2 poll_voted = []"
  "fst (cast_vote (Some ''bob'') ''post'' 1 1 ''simulated'' False None poll_now poll_db) = Vote_Ok 1 True ''insert''"
  "judge_voter poll_env (force_config poll_force) poll_now poll_post {} [] (voting_record_at poll_now poll_db) poll_bob = Inr (Inr 1)"
  "judge_voter poll_env (force_config poll_force) poll_now poll_reply {} []
     (note_vote ''bob'' poll_now (voting_record_at poll_now poll_db)) poll_bob = Inr (Inl ''min_gap'')"
  by code_simp+

lemma poll_cast [simp]:
  "cast_vote (Some ''bob'') ''post'' 1 1 ''simulated'' False None poll_now poll_db = (Vote_Ok 1 True ''insert'', poll_voted)"
  using poll_facts(10) by (simp add: poll_voted_def prod_eq_iff)

lemma poll_select:
  "select_voter poll_env (force_config poll_force) poll_now poll_post k {} [] (voting_record_at poll_now poll_db) [poll_bob] =
     Inr (Some poll_bob, ''selected'')"
  "select_voter poll_env (force_config poll_force) poll_now poll_reply k {} []
     (note_vote ''bob'' poll_now (voting_record_at poll_now poll_db)) [poll_bob] = Inr (None, ''min_gap'')"
  by (simp_all add: select_voter_def race_winner_def)

lemma poll_chance: "tail_vote_probability (section_for (force_config poll_force) target) poll_now poll_now = 1 / 2"
proof -
  have post: "tail_vote_chance (post_rules (force_config poll_force)) = 1 / 2" "tail_max_age_days (post_rules (force_config poll_force)) = 30"
    and comment: "tail_vote_chance (comment_rules (force_config poll_force)) = 1 / 2"
    "tail_max_age_days (comment_rules (force_config poll_force)) = 30"
    by code_simp+
  have "real_of_rat (tail_vote_chance (section_for (force_config poll_force) target)) = 1 / 2"
    and "tail_max_age_days (section_for (force_config poll_force) target) = 30"
    by (cases "target = ''post''"; simp add: section_for_def post comment of_rat_divide)+
  then show ?thesis by (simp add: tail_vote_probability_def)
qed

lemma poll_target_facts [simp]:
  "tgt_kind poll_post = ''post''" "tgt_id poll_post = 1" "created_at (tgt_item poll_post) = poll_now"
  "tgt_sub poll_post = Some ''test''" "tgt_kind poll_reply = ''comment''" "tgt_id poll_reply = 2"
  "created_at (tgt_item poll_reply) = poll_now" "snap_name poll_bob = ''bob''"
  "voter_subscriptions poll_env (snap_state poll_bob) = Some []" "downvotes_now poll_env poll_db = True"
  by code_simp+

lemma poll_direction: "select_direction poll_env poll_force t who False n True = 1"
proof -
  have "maximum_downvote (force_config poll_force) = 0" "minimum_downvote (force_config poll_force) = 0" by code_simp+
  then show ?thesis by (simp add: select_direction_def downvote_probability_def Let_def poll_unit)
qed

definition poll_decision :: "int \<Rightarrow> vote_decision" where
  "poll_decision k = \<lparr>dec_kind = ''post'', dec_target = 1, dec_ordinal = k, dec_budget = 1, dec_voter = ''bob'',
     dec_direction = 1, dec_offset = 0, dec_mode = ''revival''\<rparr>"

lemma poll_revival:
  assumes "tick_db s = poll_db" "tick_record s = voting_record_at poll_now poll_db" "decisions s = []" "casts s = []"
  shows "\<exists>k s'. tail_opportunity poll_env poll_force poll_now [poll_bob] ''revival'' src poll_post s = Ticked s' \<and>
    tick_db s' = poll_voted \<and> tick_record s' = note_vote ''bob'' poll_now (voting_record_at poll_now poll_db) \<and>
    decisions s' = [poll_decision k] \<and> casts s' = [Cast (Vote_Ok 1 True ''insert'')]"
proof -
  have "(1 :: real) / 2 ^ 65 < 1 / 2" by simp
  with assms show ?thesis
    by (simp add: tail_opportunity_def Let_def poll_chance poll_unit poll_select casts_used_def count_rows_def propose_def
        poll_direction cast_decision_def poll_decision_def)
qed

lemma poll_reply_barred:
  assumes "tick_db s = poll_voted" "tick_record s = note_vote ''bob'' poll_now (voting_record_at poll_now poll_db)"
    "decisions s = [poll_decision k]" "casts s = [c]"
  shows "\<exists>s'. tail_opportunity poll_env poll_force poll_now [poll_bob] ''revival'' src poll_reply s = Ticked s' \<and>
    tick_db s' = poll_voted \<and> decisions s' = [poll_decision k] \<and> casts s' = [c]"
proof -
  have "(1 :: real) / 2 ^ 65 < 1 / 2" by simp
  with assms show ?thesis
    by (simp add: tail_opportunity_def Let_def poll_chance poll_unit poll_select casts_used_def count_rows_def
        poll_decision_def skip_def)
qed

lemma poll_tick:
  "\<exists>k s. run_active_tick poll_env poll_now poll_db = Ticked s \<and> tick_db s = poll_voted \<and> decisions s = [poll_decision k] \<and>
     casts s = [Cast (Vote_Ok 1 True ''insert'')]"
proof -
  obtain tp where tp: "candidate_query ''post'' poll_now 25 None poll_db = Some [tp]" "tgt_kind tp = ''post''" "tgt_id tp = 1"
      "created_at (tgt_item tp) = poll_now"
    using poll_targets(3) by auto
  obtain tc where tc: "candidate_query ''comment'' poll_now 25 None poll_db = Some [tc]" "tgt_kind tc = ''comment''" "tgt_id tc = 2"
      "created_at (tgt_item tc) = poll_now"
    using poll_targets(4) by auto
  let ?s = "examined ''comment'' 2 (examined ''post'' 1 (fresh_tick poll_now poll_db))"
  have db: "tick_db (fresh_tick poll_now poll_db) = poll_db" "tick_db (examined k i s) = tick_db s" for k i s
    by (simp_all add: fresh_tick_def examined_def)
  have active: "each (active_kind poll_env poll_now [poll_bob]) [''post'', ''comment''] (fresh_tick poll_now poll_db) = Ticked ?s"
    by (simp add: active_kind_def db poll_targets(1,2) tp tc poll_active)
  define s0 where "s0 = ?s\<lparr>archive_candidates_examined := 0, tick_record := voting_record_at poll_now poll_db,
    revival_threads_examined := 1\<rparr>"
  have archive: "archive_phase poll_env poll_force poll_now None [poll_bob] ?s =
      Ticked (?s\<lparr>archive_candidates_examined := 0, tick_record := voting_record_at poll_now poll_db\<rparr>)"
    by (simp add: archive_phase_def Let_def db)
  have s0: "tick_db s0 = poll_db" "tick_record s0 = voting_record_at poll_now poll_db" "decisions s0 = []" "casts s0 = []"
    by (simp_all add: s0_def examined_def fresh_tick_def)
  let ?tail = "\<lambda>t s. tail_opportunity poll_env poll_force poll_now [poll_bob] ''revival'' (revival_source poll_trigger t) t
    (s\<lparr>revival_proposals := revival_proposals s + 1\<rparr>)"
  obtain k s1 where s1: "?tail poll_post s0 = Ticked s1" "tick_db s1 = poll_voted"
      "tick_record s1 = note_vote ''bob'' poll_now (voting_record_at poll_now poll_db)" "decisions s1 = [poll_decision k]"
      "casts s1 = [Cast (Vote_Ok 1 True ''insert'')]"
    using poll_revival [of "s0\<lparr>revival_proposals := revival_proposals s0 + 1\<rparr>" "revival_source poll_trigger poll_post"] s0 by auto
  obtain s2 where s2: "?tail poll_reply s1 = Ticked s2" "tick_db s2 = poll_voted" "decisions s2 = [poll_decision k]"
      "casts s2 = [Cast (Vote_Ok 1 True ''insert'')]"
    using poll_reply_barred [of "s1\<lparr>revival_proposals := revival_proposals s1 + 1\<rparr>" k _ "revival_source poll_trigger poll_reply"] s1 by auto
  have "revive poll_env poll_force poll_now None [poll_bob] [poll_trigger] [] s0 = Ticked s2"
    using s0 s1 s2 by (simp add: wanted_id_def and_then_def)
  moreover have "0 \<le> poll_now" by code_simp
  ultimately have "run_tail poll_env poll_now None [poll_bob] ?s = Ticked s2"
    by (simp add: run_tail_def Let_def and_then_def db poll_resolve archive s0_def)
  with s2 active show ?thesis
    by (intro exI [of _ k] exI [of _ s2]) (simp add: run_active_tick_def tick_def Let_def and_then_def, simp add: poll_env_def)
qed

section \<open>Witnesses\<close>

lemma poll_result:
  "\<exists>k s. tick_result (run_active_tick poll_env poll_now poll_db) = Some s \<and> decisions s = [poll_decision k]"
  using poll_tick by (auto simp: tick_result_def)

lemma poll_choice: "downvotes_choice poll_env \<noteq> Some True"
  by simp

theorem tick_guardrails_witness:
  "\<exists>k s. tick_result (run_active_tick poll_env poll_now poll_db) = Some s \<and> decisions s = [poll_decision k] \<and>
     list_all (fair_decision poll_db) (decisions s) \<and> count_rows (decided_on ''post'' 1) (decisions s) \<le> 2"
proof -
  obtain k s where s: "tick_result (run_active_tick poll_env poll_now poll_db) = Some s" "decisions s = [poll_decision k]"
    using poll_result by blast
  from tick_guardrails [OF poll_ledger poll_choice s(1)] s show ?thesis by (metis max_def poll_env_simps(6) zero_le_numeral)
qed

theorem live_tick_stores_decisions_witness:
  "\<exists>k s. tick_result (run_active_tick poll_env poll_now poll_db) = Some s \<and> vote_ledger (tick_db s) \<and>
     votes (tick_db s) = as_votes poll_env 1 [poll_decision k]"
proof -
  obtain k s where s: "tick_result (run_active_tick poll_env poll_now poll_db) = Some s" "decisions s = [poll_decision k]"
    using poll_result by blast
  have "votes poll_db = []" by (simp add: poll_db_def empty_db_def)
  with live_tick_stores_decisions [OF poll_ledger poll_choice s(1)] s show ?thesis by (auto simp: next_id_def)
qed

theorem tick_respects_caps_witness:
  "\<exists>k s. tick_result (run_active_tick poll_env poll_now poll_db) = Some s \<and> decisions s = [poll_decision k] \<and>
     hourly_votes poll_now ''bob'' (tick_db s) \<le> 5"
proof -
  obtain k s where s: "tick_result (run_active_tick poll_env poll_now poll_db) = Some s" "decisions s = [poll_decision k]"
    using poll_result by blast
  have "cap_at_most poll_env poll_db ''bob'' 5"
    using poll_facts(1,3) by (auto simp: cap_at_most_def dest: poll_in_play)
  moreover have "hourly_votes poll_now ''bob'' poll_db = 0" by code_simp
  ultimately show ?thesis using tick_respects_caps [OF poll_ledger poll_choice s(1), of "''bob''" 5] s by auto
qed

theorem one_vote_each_witness:
  "\<exists>k s. tick_result (run_active_tick poll_env poll_now poll_db) = Some s \<and> decisions s = [poll_decision k] \<and>
     distinct (map dec_voter (decisions s))"
proof -
  obtain k s where s: "tick_result (run_active_tick poll_env poll_now poll_db) = Some s" "decisions s = [poll_decision k]"
    using poll_result by blast
  from one_vote_each [OF poll_ledger poll_choice s(1)] s show ?thesis by auto
qed


theorem attention_is_bounded_witness:
  "case active_target poll_env poll_now [poll_bob] poll_post (fresh_tick poll_now poll_db) of
     Ticked s \<Rightarrow> budgets s = [((''post'', 1), 0)] \<and> simulated_count ''post'' 1 (tick_db s) = 0
   | _ \<Rightarrow> False"
proof -
  let ?s = "fresh_tick poll_now poll_db"
  have tick: "active_target poll_env poll_now [poll_bob] poll_post ?s = Ticked (examined ''post'' 1 ?s)"
    using poll_active [of ?s poll_post] by (simp add: fresh_tick_def)
  then have res: "tick_result (active_target poll_env poll_now [poll_bob] poll_post ?s) = Some (examined ''post'' 1 ?s)"
    by (simp add: tick_result_def)
  have none: "simulated_count ''post'' 1 (tick_db ?s) = 0" "budgets ?s = []"
    by (simp_all add: fresh_tick_def simulated_count_def count_rows_def)
  have kind: "tgt_kind poll_post \<in> {''post'', ''comment''}" by simp
  have "budgets (examined ''post'' 1 ?s) = [((''post'', 1), 0)]" by (simp add: examined_def none)
  with attention_is_bounded [OF kind res] none have "simulated_count ''post'' 1 (tick_db (examined ''post'' 1 ?s)) \<le> 0"
    by auto
  moreover have "0 \<le> simulated_count ''post'' 1 d" for d by (simp add: simulated_count_def count_rows_def)
  ultimately show ?thesis using tick by (simp add: examined_def none order_antisym)
qed

lemma poll_engine: "worker_engine poll_env ''live'' = poll_env"
  by (simp add: worker_engine_def poll_env_def)

lemma poll_mode: "resolve_mode poll_db = ''live''" "policy_exists poll_db"
  by code_simp+

lemma poll_once:
  "\<exists>s d. run_active_tick (worker_engine poll_env ''live'') poll_now poll_db = Ticked s \<and> tick_db s = poll_voted \<and>
     tick_once poll_env poll_now poll_now poll_now poll_db = Some d \<and> votes d = votes poll_voted"
proof -
  obtain s where s: "run_active_tick poll_env poll_now poll_db = Ticked s" "tick_db s = poll_voted" using poll_tick by blast
  let ?d = "record_hour poll_now ''live'' (summary_deltas s) poll_now poll_voted"
  have "tick_once poll_env poll_now poll_now poll_now poll_db = Some ?d"
    using s poll_mode by (simp add: tick_once_def poll_engine)
  moreover have "votes ?d = votes poll_voted" by (subst record_hour_frame) simp
  ultimately show ?thesis using s by (intro exI [of _ s] exI [of _ ?d]) (simp only: poll_engine simp_thms)
qed

theorem simulator_fails_closed_witness:
  "\<exists>d. tick_once poll_env poll_now poll_now poll_now poll_db = Some d \<and> vote_ledger d \<and> length (votes d) = 1"
proof -
  obtain d where d: "tick_once poll_env poll_now poll_now poll_now poll_db = Some d" "votes d = votes poll_voted"
    using poll_once by blast
  have "vote_ledger d" using simulator_fails_closed [OF poll_ledger d(1)] by (rule conjunct1)
  moreover have "length (votes d) = 1" unfolding d(2) by code_simp
  ultimately show ?thesis using d(1) by (intro exI [of _ d]) (simp only: simp_thms)
qed

theorem hourly_counts_match_ledger_witness:
  "\<exists>d. tick_once poll_env poll_now poll_now poll_now poll_db = Some d \<and>
     counted poll_now ''live'' ''inserted_votes'' d = 1 \<and> counted poll_now ''shadow'' ''inserted_votes'' d = 0"
proof -
  obtain s d where s: "run_active_tick (worker_engine poll_env ''live'') poll_now poll_db = Ticked s"
    and d: "tick_once poll_env poll_now poll_now poll_now poll_db = Some d" "votes d = votes poll_voted"
    using poll_once by blast
  have "length (votes d) = 1" unfolding d(2) by code_simp
  moreover have "length (votes poll_db) = 0" "utc_hour poll_now = poll_now"
    "counted poll_now ''live'' ''inserted_votes'' poll_db = 0" "counted poll_now ''shadow'' ''inserted_votes'' poll_db = 0"
    by code_simp+
  moreover note hourly_counts_match_ledger [OF poll_ledger poll_mode s d(1), of poll_now "''live''", THEN conjunct1]
    hourly_counts_match_ledger [OF poll_ledger poll_mode s d(1), of poll_now "''shadow''", THEN conjunct1]
  ultimately have "counted poll_now ''live'' ''inserted_votes'' d = 1" "counted poll_now ''shadow'' ''inserted_votes'' d = 0"
    by simp_all
  with d(1) show ?thesis by (intro exI [of _ d]) (simp only: simp_thms)
qed

end
