(* ===== verification/Routing.thy ===== *)
theory Routing
  imports Settings
begin

text \<open>
  \<open>deaddit/llm/routing.py\<close> with the default provider of \<open>models.py\<close>: which endpoint and model answer a
  generation request. \<open>cfg\<close> is what \<open>Config.get\<close> answers at the moment; the process keeps only the
  override of its command line and the gate of the seeding.
\<close>

section \<open>Providers\<close>

definition set_flag :: "int \<Rightarrow> llm_provider \<Rightarrow> llm_provider" where
  "set_flag i p = p\<lparr>llm_is_default := (llm_id p = i)\<rparr>"

text \<open>\<open>LLMProvider.get_default\<close> marks the first provider when none is marked.\<close>

definition get_default_provider :: "db \<Rightarrow> llm_provider option \<times> db" where
  "get_default_provider d =
     (case find llm_is_default (llm_providers d) of
        Some p \<Rightarrow> (Some p, d)
      | None \<Rightarrow>
          (case sort_key llm_id (llm_providers d) of
             [] \<Rightarrow> (None, d)
           | p # _ \<Rightarrow> (Some (p\<lparr>llm_is_default := True\<rparr>),
               d\<lparr>llm_providers := update_rows (\<lambda>q. llm_id q = llm_id p) (\<lambda>q. q\<lparr>llm_is_default := True\<rparr>) (llm_providers d)\<rparr>)))"

definition set_default_provider :: "int \<Rightarrow> db \<Rightarrow> llm_provider option \<times> db" where
  "set_default_provider i d =
     (let ps = map (set_flag i) (llm_providers d) in (find_row llm_id i ps, d\<lparr>llm_providers := ps\<rparr>))"

section \<open>Tiers and overrides\<close>

definition CREATIVE_TRAITS :: "string list" where
  "CREATIVE_TRAITS = [''creative'', ''artistic'', ''imaginative'', ''expressive'']"

definition ANALYTICAL_TRAITS :: "string list" where
  "ANALYTICAL_TRAITS = [''analytical'', ''logical'', ''methodical'', ''systematic'']"

definition persona_tier :: "string option \<Rightarrow> string" where
  "persona_tier persona =
     (case persona of
        None \<Rightarrow> ''default''
      | Some s \<Rightarrow>
          if s = [] then ''default''
          else if list_ex (\<lambda>trait. contains_sub trait (py_lower s)) CREATIVE_TRAITS then ''creative''
          else if list_ex (\<lambda>trait. contains_sub trait (py_lower s)) ANALYTICAL_TRAITS then ''analytical''
          else ''default'')"

record router =
  model_override :: "string list"
  routes_checked :: bool

definition set_models_override :: "string list option \<Rightarrow> router \<Rightarrow> router" where
  "set_models_override models rt =
     rt\<lparr>model_override := filter (\<lambda>m. m \<noteq> []) (map py_strip (case models of None \<Rightarrow> [] | Some ms \<Rightarrow> ms))\<rparr>"

section \<open>Routes\<close>

definition best_route :: "(model_route \<Rightarrow> bool) \<Rightarrow> model_route list \<Rightarrow> model_route option" where
  "best_route p rs =
     (case order_desc (\<lambda>r. (route_priority r, route_id r)) (filter p rs) of [] \<Rightarrow> None | r # _ \<Rightarrow> Some r)"

definition set_route :: "string \<Rightarrow> string \<Rightarrow> string option \<Rightarrow> int \<Rightarrow> router \<times> db \<Rightarrow> router \<times> db" where
  "set_route tier model url prio = (\<lambda>(rt, d).
     (rt\<lparr>routes_checked := False\<rparr>,
      case best_route (\<lambda>r. route_tier r = tier) (model_routes d) of
        Some r \<Rightarrow> d\<lparr>model_routes := update_rows (\<lambda>q. route_id q = route_id r)
          (\<lambda>q. q\<lparr>route_model := model, route_api_url := url, route_priority := prio, route_active := True\<rparr>) (model_routes d)\<rparr>
      | None \<Rightarrow> d\<lparr>model_routes := model_routes d @
          [\<lparr>route_id = next_id route_id (model_routes d), route_tier = tier, route_api_url = url, route_model = model,
            route_priority = prio, route_active = True\<rparr>]\<rparr>))"

definition clear_routes :: "router \<times> db \<Rightarrow> router \<times> db" where
  "clear_routes = (\<lambda>(rt, d). (rt\<lparr>routes_checked := False\<rparr>, d\<lparr>model_routes := []\<rparr>))"

definition configured :: "(string \<Rightarrow> string option) \<Rightarrow> string \<Rightarrow> string \<Rightarrow> string" where
  "configured cfg k dflt = (case cfg k of None \<Rightarrow> dflt | Some v \<Rightarrow> v)"

definition default_api :: "(string \<Rightarrow> string option) \<Rightarrow> llm_provider option \<Rightarrow> string" where
  "default_api cfg p =
     (case p of
        Some q \<Rightarrow> if llm_api_url q \<noteq> [] then llm_api_url q else configured cfg ''OPENAI_API_URL'' ''http://localhost/v1''
      | None \<Rightarrow> configured cfg ''OPENAI_API_URL'' ''http://localhost/v1'')"

definition provider_model :: "llm_provider option \<Rightarrow> string option" where
  "provider_model p =
     (case p of None \<Rightarrow> None | Some q \<Rightarrow> (case llm_default_model q of None \<Rightarrow> None | Some m \<Rightarrow> if m = [] then None else Some m))"

definition default_model :: "(string \<Rightarrow> string option) \<Rightarrow> llm_provider option \<Rightarrow> string" where
  "default_model cfg p = (case provider_model p of Some m \<Rightarrow> m | None \<Rightarrow> configured cfg ''OPENAI_MODEL'' ''llama3'')"

definition active_in :: "string \<Rightarrow> model_route \<Rightarrow> bool" where
  "active_in tier r = (route_tier r = tier \<and> route_active r)"

definition ensure_seeded :: "(string \<Rightarrow> string option) \<Rightarrow> router \<times> db \<Rightarrow> router \<times> db" where
  "ensure_seeded cfg = (\<lambda>(rt, d).
     if routes_checked rt then (rt, d)
     else
       (rt\<lparr>routes_checked := True\<rparr>,
        if list_ex (active_in ''default'') (model_routes d) then d
        else
          (case get_default_provider d of (p, d') \<Rightarrow>
             d'\<lparr>model_routes := model_routes d' @
               [\<lparr>route_id = next_id route_id (model_routes d'), route_tier = ''default'', route_api_url = Some (default_api cfg p),
                 route_model = default_model cfg p, route_priority = 0, route_active = True\<rparr>]\<rparr>)))"

definition route_for :: "string \<Rightarrow> model_route list \<Rightarrow> model_route option" where
  "route_for tier rs = (case best_route (active_in tier) rs of Some r \<Rightarrow> Some r | None \<Rightarrow> best_route (active_in ''default'') rs)"

definition route_url :: "string \<Rightarrow> model_route \<Rightarrow> string" where
  "route_url dflt r = (case route_api_url r of None \<Rightarrow> dflt | Some u \<Rightarrow> if u = [] then dflt else u)"

definition resolve :: "(string \<Rightarrow> string option) \<Rightarrow> string option \<Rightarrow> router \<times> db \<Rightarrow> (string \<times> string) \<times> router \<times> db" where
  "resolve cfg persona = (\<lambda>(rt, d).
     case get_default_provider d of (p, d1) \<Rightarrow>
       let url = default_api cfg p in
       case model_override rt of
         m # _ \<Rightarrow> ((url, m), rt, d1)
       | [] \<Rightarrow>
           (case ensure_seeded cfg (rt, d1) of (rt', d2) \<Rightarrow>
              (case route_for (persona_tier persona) (model_routes d2) of
                 Some r \<Rightarrow> ((route_url url r, route_model r), rt', d2)
               | None \<Rightarrow>
                   (case provider_model p of
                      Some m \<Rightarrow> ((url, m), rt', d2)
                    | None \<Rightarrow>
                        (case provider_model (find (\<lambda>q. llm_api_url q = url) (llm_providers d2)) of
                           Some m \<Rightarrow> ((url, m), rt', d2)
                         | None \<Rightarrow> ((url, configured cfg ''OPENAI_MODEL'' ''llama3''), rt', d2))))))"

section \<open>What the routes promise\<close>

definition route_rank :: "model_route \<Rightarrow> int \<times> int" where
  "route_rank r = (route_priority r, route_id r)"

lemma best_route_SomeD:
  assumes "best_route p rs = Some r"
  shows "r \<in> set rs" "p r" "\<forall>q \<in> set rs. p q \<longrightarrow> route_rank q \<le> route_rank r"
proof -
  obtain ys where ys: "order_desc (\<lambda>r. (route_priority r, route_id r)) (filter p rs) = r # ys"
    using assms by (auto simp: best_route_def split: list.splits)
  have elems: "set (r # ys) = set (filter p rs)" unfolding ys [symmetric] by simp
  then show "r \<in> set rs" "p r" by auto
  have "sorted_wrt (\<lambda>a b. (route_priority b, route_id b) \<le> (route_priority a, route_id a)) (r # ys)"
    unfolding ys [symmetric] by (rule sorted_order_desc)
  then show "\<forall>q \<in> set rs. p q \<longrightarrow> route_rank q \<le> route_rank r"
    using elems by (auto simp: route_rank_def)
qed

lemma best_route_None: "best_route p rs = None \<longleftrightarrow> (\<forall>r \<in> set rs. \<not> p r)"
proof -
  have "best_route p rs = None \<longleftrightarrow> order_desc (\<lambda>r. (route_priority r, route_id r)) (filter p rs) = []"
    by (simp add: best_route_def split: list.split)
  also have "\<dots> \<longleftrightarrow> filter p rs = []" by (metis length_0_conv length_order_desc)
  finally show ?thesis by (simp add: filter_empty_conv)
qed

lemma best_route_unique:
  assumes "r \<in> set rs" and "p r" and "\<And>q. q \<in> set rs \<Longrightarrow> p q \<Longrightarrow> q = r"
  shows "best_route p rs = Some r"
proof (cases "best_route p rs")
  case None
  with assms(1,2) show ?thesis by (auto simp: best_route_None)
next
  case (Some q)
  with assms(3) [OF best_route_SomeD(1,2)] show ?thesis by simp
qed

lemma provider_keeps_routes: "get_default_provider d = (p, d') \<Longrightarrow> model_routes d' = model_routes d"
  by (auto simp: get_default_provider_def split: option.splits list.splits)

text \<open>Seeding leaves an active default route, and adds nothing when there is one.\<close>

lemma ensure_seeded_routes:
  assumes "ensure_seeded cfg (rt, d) = (rt', d')"
  shows "model_override rt' = model_override rt" "routes_checked rt'"
    and "\<exists>new. model_routes d' = model_routes d @ new \<and> length new \<le> 1 \<and> list_all (active_in ''default'') new"
    and "\<not> routes_checked rt \<Longrightarrow> list_ex (active_in ''default'') (model_routes d')"
    and "list_ex (active_in ''default'') (model_routes d) \<Longrightarrow> d' = d"
  using assms provider_keeps_routes
  by (auto simp: ensure_seeded_def active_in_def split: if_splits prod.splits)

text \<open>The result of a resolution whose seed gate is open.\<close>

lemma resolve_routed:
  assumes "resolve cfg persona (rt, d) = ((url, m), rt', d')" and "model_override rt = []" and "\<not> routes_checked rt"
  obtains p d1 r where "get_default_provider d = (p, d1)" and "ensure_seeded cfg (rt, d1) = (rt', d')"
    and "route_for (persona_tier persona) (model_routes d') = Some r" and "url = route_url (default_api cfg p) r" and "m = route_model r"
proof -
  obtain p d1 where p: "get_default_provider d = (p, d1)" by (metis prod.exhaust)
  obtain rt2 d2 where s: "ensure_seeded cfg (rt, d1) = (rt2, d2)" by (metis prod.exhaust)
  have "list_ex (active_in ''default'') (model_routes d2)" by (rule ensure_seeded_routes(4) [OF s assms(3)])
  then have "best_route (active_in ''default'') (model_routes d2) \<noteq> None"
    by (simp add: best_route_None list_ex_iff del: not_None_eq)
  then have "route_for t (model_routes d2) \<noteq> None" for t by (simp add: route_for_def split: option.split)
  then obtain r where "route_for (persona_tier persona) (model_routes d2) = Some r" by blast
  with that [of p d1 r] p s assms(1,2) show thesis by (auto simp: resolve_def Let_def)
qed


definition one_per_tier :: "db \<Rightarrow> bool" where
  "one_per_tier d = (distinct (map route_tier (model_routes d)) \<and> distinct (map route_id (model_routes d)))"

lemma set_route_rows:
  assumes "one_per_tier d" and "set_route tier model url prio (rt, d) = (rt', d')"
  shows "one_per_tier d'" and "\<exists>r \<in> set (model_routes d'). active_in tier r \<and> route_model r = model \<and> route_api_url r = url"
    and "\<And>t. t \<noteq> tier \<Longrightarrow> filter (active_in t) (model_routes d') = filter (active_in t) (model_routes d)"
    and "rt' = rt\<lparr>routes_checked := False\<rparr>" and "llm_providers d' = llm_providers d"
proof -
  show "rt' = rt\<lparr>routes_checked := False\<rparr>" "llm_providers d' = llm_providers d"
    using assms(2) by (auto simp: set_route_def split: option.splits)
  let ?set = "\<lambda>q. q\<lparr>route_model := model, route_api_url := url, route_priority := prio, route_active := True\<rparr>"
  have "one_per_tier d' \<and> (\<exists>r \<in> set (model_routes d'). active_in tier r \<and> route_model r = model \<and> route_api_url r = url) \<and>
    (\<forall>t. t \<noteq> tier \<longrightarrow> filter (active_in t) (model_routes d') = filter (active_in t) (model_routes d))"
  proof (cases "best_route (\<lambda>r. route_tier r = tier) (model_routes d)")
    case None
    then have free: "\<forall>r \<in> set (model_routes d). route_tier r \<noteq> tier" by (simp add: best_route_None)
    have d': "model_routes d' = model_routes d @ [\<lparr>route_id = next_id route_id (model_routes d), route_tier = tier,
        route_api_url = url, route_model = model, route_priority = prio, route_active = True\<rparr>]"
      using assms(2) None by (auto simp: set_route_def)
    show ?thesis using assms(1) free next_id_fresh [of route_id "model_routes d"]
      unfolding one_per_tier_def d' by (auto simp: active_in_def)
  next
    case (Some r)
    note r = best_route_SomeD [OF Some]
    have d': "model_routes d' = update_rows (\<lambda>q. route_id q = route_id r) ?set (model_routes d)"
      using assms(2) Some by (auto simp: set_route_def)
    have "route_tier q = tier" if "q \<in> set (model_routes d)" "route_id q = route_id r" for q
      using that r(1,2) assms(1) by (auto simp: one_per_tier_def distinct_map inj_on_def)
    then have "filter (active_in t) (update_rows (\<lambda>q. route_id q = route_id r) ?set rs) = filter (active_in t) rs"
      if "t \<noteq> tier" "set rs \<subseteq> set (model_routes d)" for t rs
      using that by (induction rs) (auto simp: active_in_def)
    moreover have "?set r \<in> set (model_routes d')" unfolding d' set_update_rows using r(1) by force
    moreover have "active_in tier (?set r)" using r(2) by (simp add: active_in_def)
    moreover have "one_per_tier d'" using assms(1) by (simp add: one_per_tier_def d')
    ultimately show ?thesis unfolding d' by (intro conjI bexI [of _ "?set r"]) simp_all
  qed
  then show "one_per_tier d'" and "\<exists>r \<in> set (model_routes d'). active_in tier r \<and> route_model r = model \<and> route_api_url r = url"
    and "\<And>t. t \<noteq> tier \<Longrightarrow> filter (active_in t) (model_routes d') = filter (active_in t) (model_routes d)"
    by blast+
qed

lemma route_for_own:
  assumes "one_per_tier d" and "r \<in> set (model_routes d)" and "active_in tier r"
  shows "route_for tier (model_routes d) = Some r"
proof -
  have "best_route (active_in tier) (model_routes d) = Some r"
    using assms by (intro best_route_unique) (auto simp: one_per_tier_def active_in_def distinct_map inj_on_def)
  then show ?thesis by (simp add: route_for_def)
qed

lemma append_new_kept:
  assumes "one_per_tier d" and "model_routes d' = model_routes d @ new" and "list_all (active_in ''default'') new"
    and "new \<noteq> [] \<Longrightarrow> \<not> list_ex (active_in ''default'') (model_routes d)" and "r \<in> set (model_routes d)" "active_in tier r"
  shows "route_for tier (model_routes d') = Some r"
proof -
  have "q = r" if "q \<in> set (model_routes d')" "active_in tier q" for q
  proof (cases "q \<in> set (model_routes d)")
    case True
    with that assms(1,5,6) show ?thesis by (auto simp: one_per_tier_def active_in_def distinct_map inj_on_def)
  next
    case False
    with that assms(2) have "q \<in> set new" by auto
    with that assms(3) have "tier = ''default''" by (auto simp: list_all_iff active_in_def)
    moreover have "new \<noteq> []" using \<open>q \<in> set new\<close> by auto
    ultimately show ?thesis using assms(4-6) by (auto simp: list_ex_iff)
  qed
  then have "best_route (active_in tier) (model_routes d') = Some r"
    using assms(2,5,6) by (intro best_route_unique) auto
  then show ?thesis by (simp add: route_for_def)
qed

lemma seeded_only_when_needed:
  assumes "ensure_seeded cfg (rt, d) = (rt', d')" and "model_routes d' = model_routes d @ new" and "new \<noteq> []"
  shows "\<not> list_ex (active_in ''default'') (model_routes d)"
  using assms ensure_seeded_routes(5) [OF assms(1)] by auto

text \<open>A route set for a tier is what the next request of that tier gets, in this process and without a
  restart, whatever its priority is and whether the tier had a route before; the routes of other tiers
  stay as they were. Setting routes keeps at most one per tier.\<close>

theorem set_route_takes_effect:
  assumes "one_per_tier d" and "model_override rt = []" and "persona_tier persona = tier"
    and "set_route tier model url prio (rt, d) = s"
  shows "fst (resolve cfg persona s) =
      (case url of None \<Rightarrow> default_api cfg (fst (get_default_provider d))
       | Some u \<Rightarrow> if u = [] then default_api cfg (fst (get_default_provider d)) else u, model) \<and>
    one_per_tier (snd s) \<and>
    (\<forall>t. t \<noteq> tier \<longrightarrow> best_route (active_in t) (model_routes (snd s)) = best_route (active_in t) (model_routes d))"
proof -
  obtain rt1 d1 where s: "s = (rt1, d1)" by (metis prod.exhaust)
  note rows = set_route_rows [OF assms(1) assms(4) [unfolded s]]
  obtain r where r: "r \<in> set (model_routes d1)" "active_in tier r" "route_model r = model" "route_api_url r = url" using rows(2) by blast
  obtain u m rt' d' where res: "resolve cfg persona (rt1, d1) = ((u, m), rt', d')" by (metis prod.exhaust)
  have open_gate: "model_override rt1 = []" "\<not> routes_checked rt1" using rows(4) assms(2) by simp_all
  have same: "fst (get_default_provider d1) = fst (get_default_provider d)"
    using rows(5) by (simp add: get_default_provider_def split: option.split list.split)
  have "(u, m) = (route_url (default_api cfg (fst (get_default_provider d))) r, model)"
    using res open_gate
  proof (cases rule: resolve_routed)
    case (1 p e q)
    obtain new where new: "model_routes d' = model_routes e @ new" "list_all (active_in ''default'') new"
      using ensure_seeded_routes(3) [OF 1(2)] by blast
    have e: "model_routes e = model_routes d1" using provider_keeps_routes [OF 1(1)] .
    have "one_per_tier e" using rows(1) e by (simp add: one_per_tier_def)
    from append_new_kept [OF this new seeded_only_when_needed [OF 1(2) new(1)] _ r(2)] r(1) e 1(3) assms(3)
    have "q = r" by simp
    with 1(1,4,5) same r(3) show ?thesis by simp
  qed
  moreover have "best_route (active_in t) (model_routes d1) = best_route (active_in t) (model_routes d)" if "t \<noteq> tier" for t
    using rows(3) [OF that] by (simp add: best_route_def)
  ultimately show ?thesis using res rows(1) r(4) by (auto simp: s route_url_def split: option.splits)
qed

theorem set_route_takes_effect_witness:
  "fst (resolve (\<lambda>_. None) (Some ''An analytical mind'')
     (set_route ''analytical'' ''qwen'' None (- 3) (\<lparr>model_override = [], routes_checked = True\<rparr>, empty_db))) = (''http://localhost/v1'', ''qwen'')"
proof -
  have "one_per_tier empty_db" "persona_tier (Some ''An analytical mind'') = ''analytical''"
    "default_api (\<lambda>_. None) (fst (get_default_provider empty_db)) = ''http://localhost/v1''" by code_simp+
  then show ?thesis using set_route_takes_effect [OF _ _ _ refl, of empty_db] by simp
qed


end
