(* ===== verification/Credentials.thy ===== *)
theory Credentials
  imports Routing Runs
begin

text \<open>
  Which key goes to which endpoint: the keys per endpoint of \<open>deaddit/config.py\<close>, and the provider, URL,
  model and key of a visit from \<open>deaddit/agents/loop.py\<close>. \<open>urlsplit(..).hostname\<close> is an argument, the
  empty string where there is none or it raises. The configuration of an agent holds its URL and model
  as strings.
\<close>

section \<open>Keys per endpoint\<close>

definition rstrip_slash :: "string \<Rightarrow> string" where
  "rstrip_slash s = rev (dropWhile (\<lambda>c. c = CHR ''/'') (rev s))"

definition normalize_endpoint :: "string option \<Rightarrow> string" where
  "normalize_endpoint url = rstrip_slash (py_strip (case url of None \<Rightarrow> [] | Some u \<Rightarrow> u))"

definition rstrip_dot :: "string \<Rightarrow> string" where
  "rstrip_dot s = rev (dropWhile (\<lambda>c. c = CHR ''.'') (rev s))"

definition ends_in :: "string \<Rightarrow> string \<Rightarrow> bool" where
  "ends_in t s = starts_with (rev t) (rev s)"

definition HOST_KEYS :: "(string \<times> string) list" where
  "HOST_KEYS = [(''openai.com'', ''OPENAI''), (''groq.com'', ''GROQ''), (''openrouter.ai'', ''OPENROUTER'')]"

definition drop_scheme :: "string \<Rightarrow> string" where
  "drop_scheme s =
     (if starts_with ''http://'' (py_lower s) then drop 7 s
      else if starts_with ''https://'' (py_lower s) then drop 8 s else s)"

definition key_char :: "char \<Rightarrow> char" where
  "key_char c =
     (if is_lower_ascii c then char_of (code_point c - 32)
      else if is_upper_ascii c \<or> is_digit c then c else CHR ''_'')"

definition endpoint_to_key :: "(string \<Rightarrow> string) \<Rightarrow> string \<Rightarrow> string" where
  "endpoint_to_key host_name url =
     (let endpoint = normalize_endpoint (Some url); host = rstrip_dot (py_lower (host_name endpoint)) in
      case find (\<lambda>(domain, _). host = domain \<or> ends_in (''.'' @ domain) host) HOST_KEYS of
        Some (_, k) \<Rightarrow> k
      | None \<Rightarrow> take 50 (map key_char (drop_scheme endpoint)))"

definition usable_key :: "llm_provider \<Rightarrow> string option" where
  "usable_key q =
     (case llm_api_key q of None \<Rightarrow> None | Some k \<Rightarrow> if k = [] \<or> py_strip k = [] then None else Some (py_strip k))"

definition get_default_at :: "process \<Rightarrow> llm_provider option \<times> process" where
  "get_default_at p = (case get_default_provider (proc_db p) of (q, d) \<Rightarrow> (q, p\<lparr>proc_db := d\<rparr>))"

definition provider_at :: "string \<Rightarrow> process \<Rightarrow> llm_provider option" where
  "provider_at url p = find (\<lambda>q. normalize_endpoint (Some (llm_api_url q)) = url) (llm_providers (proc_db p))"

definition general_key :: "string \<Rightarrow> timestamp \<Rightarrow> process \<Rightarrow> string option \<times> process" where
  "general_key url now p =
     (case config_get ''OPENAI_API_URL'' None now p of (configured_url, p') \<Rightarrow>
        if configured_url \<noteq> None \<and> configured_url \<noteq> Some [] \<and> url = normalize_endpoint configured_url
        then config_get ''OPENAI_KEY'' None now p' else (None, p'))"

definition scoped_key :: "(string \<Rightarrow> string) \<Rightarrow> string \<Rightarrow> timestamp \<Rightarrow> process \<Rightarrow> string option \<times> process" where
  "scoped_key host_name url now p =
     (case fst (config_get (''API_KEY_'' @ endpoint_to_key host_name url) None now p) of
        Some k \<Rightarrow> if py_strip k \<noteq> [] then (Some (py_strip k), p) else general_key url now p
      | None \<Rightarrow> general_key url now p)"

definition get_api_key_for_endpoint :: "(string \<Rightarrow> string) \<Rightarrow> string option \<Rightarrow> timestamp \<Rightarrow> process \<Rightarrow> string option \<times> process" where
  "get_api_key_for_endpoint host_name url now p =
     (case url of
        Some (c # cs) \<Rightarrow>
          (let n = normalize_endpoint url in
           case Option.bind (provider_at n p) usable_key of Some k \<Rightarrow> (Some k, p) | None \<Rightarrow> scoped_key host_name n now p)
      | _ \<Rightarrow>
          (case get_default_at p of (q, p1) \<Rightarrow>
             (case Option.bind q usable_key of Some k \<Rightarrow> (Some k, p1) | None \<Rightarrow> config_get ''OPENAI_KEY'' None now p1)))"

section \<open>The model of a visit\<close>

definition config_text :: "string \<Rightarrow> (string \<times> json) list \<Rightarrow> string option" where
  "config_text k cfg = (case map_of cfg k of Some (JStr (c # cs)) \<Rightarrow> Some (c # cs) | _ \<Rightarrow> None)"

definition config_provider :: "(string \<times> json) list \<Rightarrow> process \<Rightarrow> llm_provider option" where
  "config_provider cfg p =
     (case map_of cfg ''provider_id'' of
        None \<Rightarrow> None
      | Some v \<Rightarrow>
          if \<not> py_truthy v then None
          else case py_int v of None \<Rightarrow> None | Some i \<Rightarrow> find_row llm_id i (llm_providers (proc_db p)))"

definition serves :: "string \<Rightarrow> llm_provider \<Rightarrow> bool" where
  "serves url q = (llm_api_url q = rstrip_slash url \<or> llm_api_url q = url)"

definition url_provider :: "(string \<times> json) list \<Rightarrow> process \<Rightarrow> llm_provider option" where
  "url_provider cfg p =
     (case config_text ''api_url'' cfg of None \<Rightarrow> None | Some url \<Rightarrow> find (serves url) (llm_providers (proc_db p)))"

definition visit_provider :: "(string \<times> json) list \<Rightarrow> process \<Rightarrow> llm_provider option \<times> process" where
  "visit_provider cfg p =
     (case config_provider cfg p of
        Some q \<Rightarrow> (Some q, p)
      | None \<Rightarrow> (case url_provider cfg p of Some q \<Rightarrow> (Some q, p) | None \<Rightarrow> get_default_at p))"

text \<open>The text of \<open>a or b\<close> for optional strings.\<close>

definition or_text :: "string option \<Rightarrow> string option \<Rightarrow> string option" where
  "or_text a b = (case a of Some (c # cs) \<Rightarrow> a | _ \<Rightarrow> b)"

definition resolve_agent_llm :: "agent \<Rightarrow> timestamp \<Rightarrow> process \<Rightarrow> (llm_provider option \<times> string option \<times> string option) \<times> process" where
  "resolve_agent_llm a now p =
     (let cfg = effective_config a in
      case visit_provider cfg p of
        (Some q, p1) \<Rightarrow>
          let url = or_text (config_text ''api_url'' cfg) (Some (llm_api_url q));
              model = or_text (config_text ''model'' cfg) (or_text (llm_default_model q) None) in
          (case model of
             Some m \<Rightarrow> ((Some q, url, Some m), p1)
           | None \<Rightarrow> (case config_get ''OPENAI_MODEL'' (Some ''llama3'') now p1 of (m, p2) \<Rightarrow> ((Some q, url, m), p2)))
      | (None, p1) \<Rightarrow>
          (case (case config_text ''api_url'' cfg of Some u \<Rightarrow> (Some u, p1) | None \<Rightarrow> config_get ''OPENAI_API_URL'' None now p1) of
             (url, p2) \<Rightarrow>
               (case config_text ''model'' cfg of
                  Some m \<Rightarrow> ((None, url, Some m), p2)
                | None \<Rightarrow> (case config_get ''OPENAI_MODEL'' (Some ''llama3'') now p2 of (m, p3) \<Rightarrow> ((None, url, m), p3)))))"

text \<open>The endpoint, model and key that \<open>run_once\<close> calls with.\<close>

definition visit_credentials :: "(string \<Rightarrow> string) \<Rightarrow> agent \<Rightarrow> timestamp \<Rightarrow> process \<Rightarrow> (string option \<times> string option \<times> string option) \<times> process" where
  "visit_credentials host_name a now p =
     (case resolve_agent_llm a now p of
        ((q, url, model), p1) \<Rightarrow>
          (case Option.bind q usable_key of
             Some k \<Rightarrow> ((url, model, Some k), p1)
           | None \<Rightarrow> (case get_api_key_for_endpoint host_name url now p1 of (k, p2) \<Rightarrow> ((url, model, k), p2))))"

section \<open>What the keys promise\<close>

text \<open>A key belongs to an endpoint if a provider there has it, or the environment has it for the
  endpoint, or it is the general key and the endpoint the configured one.\<close>

definition provider_key :: "string \<Rightarrow> string \<Rightarrow> process \<Rightarrow> bool" where
  "provider_key k url p =
     (\<exists>q \<in> set (llm_providers (proc_db p)). usable_key q = Some k \<and>
        (normalize_endpoint (Some (llm_api_url q)) = normalize_endpoint (Some url) \<or> serves url q))"

definition key_belongs :: "(string \<Rightarrow> string) \<Rightarrow> string \<Rightarrow> string \<Rightarrow> timestamp \<Rightarrow> process \<Rightarrow> bool" where
  "key_belongs host_name k url now p =
     (provider_key k url p \<or>
      map_option py_strip (environ p (''API_KEY_'' @ endpoint_to_key host_name (normalize_endpoint (Some url)))) = Some k \<or>
      normalize_endpoint (fst (config_get ''OPENAI_API_URL'' None now p)) = normalize_endpoint (Some url) \<and>
      environ p ''OPENAI_KEY'' = Some k)"

lemma api_key_secret: "is_secret_key (''API_KEY_'' @ k)" "is_secret_key ''OPENAI_KEY''"
  by (simp_all add: is_secret_key_def SECRET_KEYS_def starts_with_iff)

lemma secret_get: "is_secret_key k \<Longrightarrow> default_value k = None \<Longrightarrow> config_get k None now p = (environ p k, p)"
  by (simp add: config_get_def get_from_environment_def first_some_def split: option.split)

lemma secret_default: "default_value (''API_KEY_'' @ k) = None" "default_value ''OPENAI_KEY'' = None"
  by (simp_all add: default_value_def DEFAULTS_def)

lemmas secret_from_environment = secret_get [OF api_key_secret(1) secret_default(1)] secret_get [OF api_key_secret(2) secret_default(2)]

lemma config_get_frame:
  "proc_db (snd (config_get k dflt now p)) = proc_db p" "environ (snd (config_get k dflt now p)) = environ p"
  by (auto simp: config_get_def cached_setting_def split: option.split prod.split)

lemma general_key_belongs:
  "fst (general_key (normalize_endpoint (Some u)) now p) = Some k \<Longrightarrow> key_belongs host_name k u now p"
  using config_get_frame [of "''OPENAI_API_URL''" None now p]
  unfolding general_key_def key_belongs_def secret_from_environment by (auto split: prod.splits if_splits)

lemma scoped_key_belongs:
  "fst (scoped_key host_name (normalize_endpoint (Some u)) now p) = Some k \<Longrightarrow> key_belongs host_name k u now p"
  using general_key_belongs [of u now p k host_name]
  unfolding scoped_key_def secret_from_environment key_belongs_def by (auto split: option.splits if_splits)

text \<open>A key is only given out for the endpoint it belongs to.\<close>

lemma endpoint_key_belongs:
  assumes "fst (get_api_key_for_endpoint host_name (Some u) now p) = Some k" and "u \<noteq> []"
  shows "key_belongs host_name k u now p"
proof -
  obtain c cs where u: "u = c # cs" using assms(2) by (cases u) auto
  show ?thesis
  proof (cases "Option.bind (provider_at (normalize_endpoint (Some u)) p) usable_key")
    case None
    then show ?thesis using assms(1) scoped_key_belongs [of host_name u now p k]
      by (simp add: get_api_key_for_endpoint_def u Let_def)
  next
    case (Some k')
    then have "k' = k" using assms(1) by (simp add: get_api_key_for_endpoint_def u Let_def)
    moreover obtain q where "provider_at (normalize_endpoint (Some u)) p = Some q" "usable_key q = Some k'"
      using Some by (auto simp: bind_eq_Some_conv)
    ultimately show ?thesis unfolding key_belongs_def provider_key_def provider_at_def by (auto simp: find_Some_iff)
  qed
qed

lemma default_provider_row:
  assumes "get_default_provider d = (Some q, d')"
  shows "q \<in> set (llm_providers d')"
proof (cases "find llm_is_default (llm_providers d)")
  case (Some r)
  then have "r \<in> set (llm_providers d)" by (auto simp: find_Some_iff)
  then show ?thesis using assms Some by (simp add: get_default_provider_def)
next
  case None
  then obtain r rs where r: "sort_key llm_id (llm_providers d) = r # rs"
    using assms by (auto simp: get_default_provider_def split: list.splits)
  have "r \<in> set (llm_providers d)" by (metis list.set_intros(1) r set_sort)
  then show ?thesis using assms None r by (auto simp: get_default_provider_def set_update_rows)
qed

lemma visit_provider_row:
  assumes "visit_provider cfg p = (Some q, p')"
  shows "q \<in> set (llm_providers (proc_db p'))"
  using assms
  by (auto simp: visit_provider_def config_provider_def url_provider_def get_default_at_def find_Some_iff
      dest: find_row_SomeD default_provider_row split: option.splits if_splits prod.splits)

lemma visit_provider_serves:
  assumes "visit_provider cfg p = (Some q, p')" and "config_provider cfg p = None" and "url_provider cfg p \<noteq> None"
    and "config_text ''api_url'' cfg = Some u"
  shows "serves u q"
proof -
  have "url_provider cfg p = Some q" using assms(1-3) by (auto simp: visit_provider_def)
  then show ?thesis using assms(4) by (auto simp: url_provider_def find_Some_iff)
qed

lemma resolve_agent_provider:
  assumes "resolve_agent_llm a now p = ((Some q, url, model), p1)"
  shows "\<exists>p0. visit_provider (effective_config a) p = (Some q, p0) \<and> proc_db p1 = proc_db p0 \<and>
     url = or_text (config_text ''api_url'' (effective_config a)) (Some (llm_api_url q))"
  using assms config_get_frame(1)
  by (auto simp: resolve_agent_llm_def Let_def split: prod.splits option.splits) (metis snd_conv)+


section \<open>Examples\<close>

definition paid_provider :: llm_provider where
  "paid_provider =
     \<lparr>llm_id = 1, llm_name = ''OpenAI'', llm_api_url = ''https://api.openai.com/v1'', llm_api_key = Some ''sk-paid'',
      llm_default_model = Some ''gpt'', llm_is_default = True\<rparr>"

definition paid_process :: process where
  "paid_process = \<lparr>proc_db = empty_db\<lparr>llm_providers := [paid_provider]\<rparr>, environ = Map.empty, setting_cache = Map.empty, ttl = 10\<rparr>"

definition configured_agent :: "json \<Rightarrow> agent" where
  "configured_agent cfg =
     \<lparr>agent_id = 1, persona_mode = ''fixed'', user_username = None, autonomy_tier = ''standard'', is_enabled = True,
      agent_status = ''idle'', agent_config = cfg, run_state = JNull, last_run_at = None, next_run_at = None, consecutive_failures = 0\<rparr>"

lemma paid_visit:
  "fst (visit_credentials (\<lambda>_. '''') (configured_agent (JObj [])) 0 paid_process) =
     (Some ''https://api.openai.com/v1'', Some ''gpt'', Some ''sk-paid'')"
  "config_text ''api_url'' (effective_config (configured_agent (JObj []))) = None"
  by code_simp+


text \<open>
  An agent that names an endpoint no provider has gets the default provider, and with it the default
  provider's key, which its visits send to that endpoint; the lookup by endpoint has no key for it.
\<close>

lemma default_key_leaks:
  "fst (visit_credentials (\<lambda>_. '''') (configured_agent (JObj [(''api_url'', JStr ''http://elsewhere/v1'')])) 0 paid_process) =
     (Some ''http://elsewhere/v1'', Some ''gpt'', Some ''sk-paid'')"
  "fst (get_api_key_for_endpoint (\<lambda>_. '''') (Some ''http://elsewhere/v1'') 0 paid_process) = None"
  by code_simp+

text \<open>The environment's key of a known provider is also that of a bare host of its name.\<close>

lemma bare_host_collides: "endpoint_to_key (\<lambda>_. ''openai'') ''http://openai/'' = ''OPENAI''"
  by code_simp

end
