(* ===== verification/Transport.thy ===== *)
theory Transport
  imports Store
begin

text \<open>
  \<open>deaddit/llm/errors.py\<close> and the blocking half of \<open>deaddit/llm/transport.py\<close>: one chat request over
  HTTP with its retries, its deadline and the report of every attempt. What the endpoint answers and
  what the clock shows are arguments; the waiting between attempts only shows in the clock.
\<close>

section \<open>Errors and replies\<close>

text \<open>The last one is an exception of another class, given with its name and text.\<close>

datatype llm_error =
    Transient_LLM_Error string
  | Permanent_LLM_Error string
  | Schema_Error string
  | Capability_Error string
  | LLM_Error string
  | Other_Error string string

definition error_class :: "llm_error \<Rightarrow> string" where
  "error_class e =
     (case e of
        Transient_LLM_Error _ \<Rightarrow> ''TransientLLMError''
      | Permanent_LLM_Error _ \<Rightarrow> ''PermanentLLMError''
      | Schema_Error _ \<Rightarrow> ''SchemaValidationError''
      | Capability_Error _ \<Rightarrow> ''CapabilityError''
      | LLM_Error _ \<Rightarrow> ''LLMError''
      | Other_Error cls _ \<Rightarrow> cls)"

definition error_text :: "llm_error \<Rightarrow> string" where
  "error_text e =
     (case e of
        Transient_LLM_Error s \<Rightarrow> s | Permanent_LLM_Error s \<Rightarrow> s | Schema_Error s \<Rightarrow> s | Capability_Error s \<Rightarrow> s
      | LLM_Error s \<Rightarrow> s | Other_Error _ s \<Rightarrow> s)"

text \<open>A permanent error in the sense of Python's classes.\<close>

definition is_permanent :: "llm_error \<Rightarrow> bool" where
  "is_permanent e = (case e of Permanent_LLM_Error _ \<Rightarrow> True | Capability_Error _ \<Rightarrow> True | _ \<Rightarrow> False)"

text \<open>No reply with the class and text of the exception of \<open>requests\<close>, or the status, the text and the
  parsed body, which is an error text where it is no JSON.\<close>

datatype http_reply = No_Reply string string | Reply int string "string + json"

datatype notice_outcome = Answered json | Failed llm_error

type_synonym attempt_notice = "nat \<times> notice_outcome"

definition RETRYABLE_STATUSES :: "int list" where
  "RETRYABLE_STATUSES = [408, 429, 500, 502, 503, 504]"

definition MAX_ATTEMPTS :: nat where
  "MAX_ATTEMPTS = 3"

definition json_member :: "string \<Rightarrow> (string \<times> json) list \<Rightarrow> json" where
  "json_member k kvs = (case map_of kvs k of None \<Rightarrow> JNull | Some v \<Rightarrow> v)"

text \<open>One request: the replies of the endpoint by attempt, the seconds left at each look at the clock
  (none without a deadline), the URL, the identifier, and \<open>str\<close> of a JSON value.\<close>

record request_env =
  replies :: "nat \<Rightarrow> http_reply"
  time_left :: "(nat \<Rightarrow> rat) option"
  post_url :: string
  request_key :: string
  show_json :: "json \<Rightarrow> string"

definition bad_format :: "(json \<Rightarrow> string) \<Rightarrow> json \<Rightarrow> llm_error" where
  "bad_format shw v = Permanent_LLM_Error (''Unexpected API response format: '' @ take 200 (shw v))"

definition unwrap_envelope :: "(json \<Rightarrow> string) \<Rightarrow> json \<Rightarrow> llm_error + (string \<times> json) list" where
  "unwrap_envelope shw v =
     (case v of
        JObj kvs \<Rightarrow>
          (case json_member ''data'' kvs of
             JObj fs \<Rightarrow> if \<not> py_truthy (json_member ''choices'' kvs) \<and> py_truthy (json_member ''choices'' fs) then Inr fs else Inr kvs
           | _ \<Rightarrow> Inr kvs)
      | _ \<Rightarrow> Inl (bad_format shw v))"

section \<open>The request\<close>

definition deadline_elapsed :: llm_error where
  "deadline_elapsed = Transient_LLM_Error ''LLM request deadline elapsed''"

definition out_of_time :: "request_env \<Rightarrow> nat \<Rightarrow> bool" where
  "out_of_time env k = (case time_left env of None \<Rightarrow> False | Some left_at \<Rightarrow> left_at k \<le> 0)"

definition http_error :: "int \<Rightarrow> string \<Rightarrow> llm_error" where
  "http_error status body = LLM_Error (''HTTP '' @ py_str_int status @ '': '' @ take 200 body)"

definition exhausted :: "request_env \<Rightarrow> llm_error \<Rightarrow> llm_error" where
  "exhausted env e =
     Transient_LLM_Error (''LLM request '' @ request_key env @ '' failed after 3 attempts: '' @ error_text e)"

text \<open>What a reply that came in time means: an answer, an error to retry, or an error to raise.\<close>

datatype reading = Usable "(string \<times> json) list" | Retry llm_error | Fatal llm_error

definition read_reply :: "request_env \<Rightarrow> http_reply \<Rightarrow> reading" where
  "read_reply env r =
     (case r of
        No_Reply cls txt \<Rightarrow> Retry (Other_Error cls txt)
      | Reply status body parsed \<Rightarrow>
          if status = 200 then
            (case parsed of
               Inl e \<Rightarrow> Fatal (Permanent_LLM_Error (''Invalid JSON response from '' @ post_url env @ '': '' @ e))
             | Inr v \<Rightarrow> (case unwrap_envelope (show_json env) v of Inl e \<Rightarrow> Fatal e | Inr kvs \<Rightarrow> Usable kvs))
          else if status \<in> set RETRYABLE_STATUSES then Retry (http_error status body)
          else Fatal (Permanent_LLM_Error
            (''HTTP '' @ py_str_int status @ '' from '' @ post_url env @ '': '' @ take 200 body)))"

definition came_in :: "http_reply \<Rightarrow> bool" where
  "came_in r = (case r of No_Reply _ _ \<Rightarrow> False | Reply _ _ _ \<Rightarrow> True)"

text \<open>The attempts still to make, the looks at the clock so far and the notices so far. The clock is
  read before an attempt, after a reply, and before the wait for the next attempt.\<close>

fun post_attempts :: "request_env \<Rightarrow> nat list \<Rightarrow> nat \<Rightarrow> attempt_notice list \<Rightarrow> llm_error \<Rightarrow>
    (llm_error + (string \<times> json) list \<times> nat) \<times> attempt_notice list" where
  "post_attempts env [] k ns last_error = (Inl (exhausted env last_error), ns)"
| "post_attempts env (a # as) k ns last_error =
     (if out_of_time env k then (Inl deadline_elapsed, ns)
      else
        let r = replies env a; k' = (if came_in r then k + 2 else k + 1) in
        if came_in r \<and> out_of_time env (k + 1) then (Inl deadline_elapsed, ns)
        else case read_reply env r of
            Usable kvs \<Rightarrow> (Inr (kvs, a), ns @ [(a, Answered (JObj kvs))])
          | Fatal e \<Rightarrow> (Inl e, ns @ [(a, Failed e)])
          | Retry e \<Rightarrow>
              if as \<noteq> [] \<and> out_of_time env k' then (Inl deadline_elapsed, ns @ [(a, Failed e)])
              else post_attempts env as (if as = [] then k' else k' + 1) (ns @ [(a, Failed e)]) e)"

definition post_chat :: "request_env \<Rightarrow> (llm_error + (string \<times> json) list \<times> nat) \<times> attempt_notice list" where
  "post_chat env = post_attempts env [1..<MAX_ATTEMPTS + 1] 0 [] (LLM_Error ''None'')"

section \<open>Retries\<close>

text \<open>The reference: the first attempt whose reply is not to be retried decides.\<close>

definition decided :: "request_env \<Rightarrow> nat \<Rightarrow> bool" where
  "decided env a = (case read_reply env (replies env a) of Retry _ \<Rightarrow> False | _ \<Rightarrow> True)"

definition outcome_of :: "request_env \<Rightarrow> nat \<Rightarrow> llm_error + (string \<times> json) list \<times> nat" where
  "outcome_of env a =
     (case read_reply env (replies env a) of
        Usable kvs \<Rightarrow> Inr (kvs, a) | Fatal e \<Rightarrow> Inl e | Retry e \<Rightarrow> Inl (exhausted env e))"

definition notice_of :: "request_env \<Rightarrow> nat \<Rightarrow> attempt_notice" where
  "notice_of env a =
     (a, case read_reply env (replies env a) of Usable kvs \<Rightarrow> Answered (JObj kvs) | Fatal e \<Rightarrow> Failed e | Retry e \<Rightarrow> Failed e)"

text \<open>The attempts that are made: up to the first decision.\<close>

fun made :: "request_env \<Rightarrow> nat list \<Rightarrow> nat list" where
  "made env [] = []"
| "made env (a # as) = a # (if decided env a then [] else made env as)"

lemma post_attempts_made:
  assumes "time_left env = None" and "as \<noteq> []"
  shows "post_attempts env as k ns e = (outcome_of env (last (made env as)), ns @ map (notice_of env) (made env as))"
  using assms(2)
proof (induction as arbitrary: k ns e)
  case (Cons a as)
  have never: "\<not> out_of_time env i" for i using assms(1) by (simp add: out_of_time_def)
  have "made env as \<noteq> []" if "as \<noteq> []" using that by (cases as) simp_all
  with Cons.IH show ?case
    by (cases "as = []") (auto simp: never Let_def decided_def outcome_of_def notice_of_def split: reading.splits)
qed simp

lemma notice_of_simps:
  "read_reply env (replies env a) = Usable kvs \<Longrightarrow> notice_of env a = (a, Answered (JObj kvs))"
  "read_reply env (replies env a) = Fatal e \<Longrightarrow> notice_of env a = (a, Failed e)"
  "read_reply env (replies env a) = Retry e \<Longrightarrow> notice_of env a = (a, Failed e)"
  by (simp_all add: notice_of_def)

text \<open>What a run over the attempts \<open>as\<close> that ends with \<open>r\<close> and the notices \<open>ms\<close> must be.\<close>

definition settled :: "request_env \<Rightarrow> nat list \<Rightarrow> (llm_error + (string \<times> json) list \<times> nat) \<Rightarrow> attempt_notice list \<Rightarrow> nat \<Rightarrow> bool" where
  "settled env as r ms m =
     (m \<le> length as \<and> ms = map (notice_of env) (take m as) \<and>
      (time_left env \<noteq> None \<and> r = Inl deadline_elapsed \<and> (\<forall>a\<in>set (take m as). \<not> decided env a) \<or>
       0 < m \<and> (\<forall>a\<in>set (take (m - 1) as). \<not> decided env a) \<and>
       (m < length as \<longrightarrow> decided env (as ! (m - 1))) \<and> r = outcome_of env (as ! (m - 1))))"

lemma settled_late: "time_left env \<noteq> None \<Longrightarrow> settled env as (Inl deadline_elapsed) [] 0"
  by (simp add: settled_def)

lemma settled_late_one:
  "time_left env \<noteq> None \<Longrightarrow> \<not> decided env a \<Longrightarrow> settled env (a # as) (Inl deadline_elapsed) [notice_of env a] 1"
  by (simp add: settled_def)

lemma settled_now: "decided env a \<or> as = [] \<Longrightarrow> settled env (a # as) (outcome_of env a) [notice_of env a] 1"
  by (auto simp: settled_def)

lemma settled_later:
  assumes "settled env as r ms m" and "\<not> decided env a"
  shows "settled env (a # as) r (notice_of env a # ms) (Suc m)"
proof (cases m)
  case (Suc j)
  have "take (Suc j) (a # as) = a # take j as" by simp
  with assms Suc show ?thesis by (auto simp: settled_def)
qed (use assms in \<open>auto simp: settled_def\<close>)

lemma out_of_time_deadline: "out_of_time env k \<Longrightarrow> time_left env \<noteq> None"
  by (auto simp: out_of_time_def split: option.splits)

lemma post_attempts_settled:
  assumes "as \<noteq> []"
  shows "\<exists>ms m. snd (post_attempts env as k ns e) = ns @ ms \<and> settled env as (fst (post_attempts env as k ns e)) ms m"
  using assms
proof (induction as arbitrary: k ns e)
  case (Cons a as)
  let ?r = "replies env a"
  let ?k' = "if came_in ?r then k + 2 else k + 1"
  consider (late) "out_of_time env k \<or> came_in ?r \<and> out_of_time env (k + 1)"
    | (usable) kvs where "\<not> out_of_time env k" "\<not> (came_in ?r \<and> out_of_time env (k + 1))" "read_reply env ?r = Usable kvs"
    | (fatal) f where "\<not> out_of_time env k" "\<not> (came_in ?r \<and> out_of_time env (k + 1))" "read_reply env ?r = Fatal f"
    | (retry) f where "\<not> out_of_time env k" "\<not> (came_in ?r \<and> out_of_time env (k + 1))" "read_reply env ?r = Retry f"
    by (cases "read_reply env ?r") auto
  then show ?case
  proof cases
    case late
    then have "settled env (a # as) (Inl deadline_elapsed) [] 0" by (auto intro: settled_late dest: out_of_time_deadline)
    with late show ?thesis by (auto simp: Let_def)
  next
    case usable
    then have "settled env (a # as) (Inr (kvs, a)) [(a, Answered (JObj kvs))] 1"
      using settled_now [of env a as] by (simp add: decided_def outcome_of_def notice_of_simps)
    with usable show ?thesis by (auto simp: Let_def)
  next
    case fatal
    then have "settled env (a # as) (Inl f) [(a, Failed f)] 1"
      using settled_now [of env a as] by (simp add: decided_def outcome_of_def notice_of_simps)
    with fatal show ?thesis by (auto simp: Let_def)
  next
    case retry
    then have n: "notice_of env a = (a, Failed f)" and d: "\<not> decided env a" by (simp_all add: notice_of_simps decided_def)
    show ?thesis
    proof (cases "as = []")
      case True
      then have "settled env (a # as) (Inl (exhausted env f)) [(a, Failed f)] 1"
        using settled_now [of env a as] retry n by (simp add: outcome_of_def)
      with retry True show ?thesis by (auto simp: Let_def)
    next
      case more: False
      show ?thesis
      proof (cases "out_of_time env ?k'")
        case True
        then have "settled env (a # as) (Inl deadline_elapsed) [(a, Failed f)] 1"
          using settled_late_one [of env a as] n d out_of_time_deadline by metis
        with retry more True show ?thesis by (auto simp: Let_def)
      next
        case False
        from Cons.IH [OF more, of "?k' + 1" "ns @ [(a, Failed f)]" f] obtain ms m where
          "snd (post_attempts env as (?k' + 1) (ns @ [(a, Failed f)]) f) = (ns @ [(a, Failed f)]) @ ms"
          and s: "settled env as (fst (post_attempts env as (?k' + 1) (ns @ [(a, Failed f)]) f)) ms m" by blast
        moreover have "settled env (a # as) (fst (post_attempts env as (?k' + 1) (ns @ [(a, Failed f)]) f)) ((a, Failed f) # ms) (Suc m)"
          using settled_later [OF s d] n by simp
        moreover have "post_attempts env (a # as) k ns e = post_attempts env as (?k' + 1) (ns @ [(a, Failed f)]) f"
          using retry more False by (auto simp: Let_def)
        ultimately show ?thesis by (metis append_Cons append_Nil append_assoc)
      qed
    qed
  qed
qed simp

lemma post_chat_result:
  "\<exists>n\<le>3. snd (post_chat env) = map (notice_of env) [1..<Suc n] \<and> (\<forall>a\<in>{1..<n}. \<not> decided env a) \<and>
     (time_left env \<noteq> None \<and> fst (post_chat env) = Inl deadline_elapsed \<and> (1 \<le> n \<longrightarrow> \<not> decided env n) \<or>
      1 \<le> n \<and> (n < 3 \<longrightarrow> decided env n) \<and> fst (post_chat env) = outcome_of env n)"
proof -
  obtain ms m where ms: "snd (post_chat env) = ms" and s: "settled env [1..<4] (fst (post_chat env)) ms m"
    using post_attempts_settled [of "[1..<4]" env 0 "[]" "LLM_Error ''None''"] by (auto simp: post_chat_def MAX_ATTEMPTS_def)
  have m: "m \<le> 3" using s by (simp add: settled_def)
  then have "take m [1..<4] = [1..<Suc m]" and "take (m - 1) [1..<4] = [1..<m]"
    by (cases m; simp add: take_upt del: upt_Suc)+
  moreover have "0 < m \<Longrightarrow> [1..<4] ! (m - 1) = m" using m by (subst nth_upt) auto
  ultimately show ?thesis using s ms m unfolding settled_def
    by (intro exI [of _ m]) (auto simp del: upt_Suc)
qed

text \<open>C20. A chat request makes at most three attempts, in order, and reports each to the callback once:
  the first reply that is not to be retried decides, an answer is returned with its own attempt
  number, and three failures raise the transient error with the last of them. Only with a deadline
  can the request end otherwise, with the deadline's own error.
\<close>

theorem post_chat_decides:
  "\<exists>n\<le>3. snd (post_chat env) = map (notice_of env) [1..<Suc n] \<and> (\<forall>a\<in>{1..<n}. \<not> decided env a) \<and>
     (time_left env \<noteq> None \<and> fst (post_chat env) = Inl deadline_elapsed \<and> (1 \<le> n \<longrightarrow> \<not> decided env n) \<or>
      1 \<le> n \<and> (n < 3 \<longrightarrow> decided env n) \<and> fst (post_chat env) = outcome_of env n)"
  using post_chat_result [of env] by blast

text \<open>A throttled endpoint that answers at the second attempt.\<close>

definition throttled :: request_env where
  "throttled =
     \<lparr>replies = (\<lambda>a. if a = 1 then Reply 429 ''slow down'' (Inl ''Expecting value'')
                 else Reply 200 ''{..}'' (Inr (JObj [(''choices'', JList [JStr ''hi''])]))),
      time_left = None, post_url = ''http://llm/chat/completions'', request_key = ''k'', show_json = (\<lambda>_. '''')\<rparr>"

lemma throttled_run:
  "post_chat throttled =
     (Inr ([(''choices'', JList [JStr ''hi''])], 2),
      [(1, Failed (LLM_Error ''HTTP 429: slow down'')), (2, Answered (JObj [(''choices'', JList [JStr ''hi''])]))])"
  by code_simp

lemma post_chat_decides_witness:
  "fst (post_chat throttled) = Inr ([(''choices'', JList [JStr ''hi''])], 2) \<and>
   (\<exists>n\<le>3. (\<forall>a\<in>{1..<n}. \<not> decided throttled a) \<and> fst (post_chat throttled) = outcome_of throttled n)"
  using post_chat_decides [of throttled] by (auto simp: throttled_run)

text \<open>
  A reply that comes in after the deadline is dropped before the callback hears of it: the attempt was
  made and its tokens were spent, and no notice says so.
\<close>

definition belated :: request_env where
  "belated = throttled\<lparr>replies := (\<lambda>_. Reply 200 ''{..}'' (Inr (JObj [(''choices'', JList [JStr ''hi''])]))),
                       time_left := Some (\<lambda>k. 1 - of_nat k)\<rparr>"

lemma late_reply_unreported: "post_chat belated = (Inl deadline_elapsed, [])"
  by code_simp

end
