(* ===== verification/Capability.thy ===== *)
theory Capability
  imports Transport
begin

text \<open>
  \<open>deaddit/llm/capabilities.py\<close>: the verdicts stored for an endpoint and a model, the probes and manual
  overrides that write them, and the gate before a request with tools. What the provider answers to a
  probe is an argument; a reply the code cannot take apart raises the exception Python raises there.
\<close>

section \<open>Taking a reply apart\<close>

definition py_type_name :: "json \<Rightarrow> string" where
  "py_type_name v =
     (case v of JNull \<Rightarrow> ''NoneType'' | JBool _ \<Rightarrow> ''bool'' | JInt _ \<Rightarrow> ''int'' | JFloat _ \<Rightarrow> ''float'' | JStr _ \<Rightarrow> ''str''
      | JList _ \<Rightarrow> ''list'' | JObj _ \<Rightarrow> ''dict'')"

text \<open>\<open>v[0]\<close> and \<open>v.get(key)\<close>.\<close>

definition py_first :: "json \<Rightarrow> llm_error + json" where
  "py_first v =
     (case v of
        JList [] \<Rightarrow> Inl (Other_Error ''IndexError'' ''list index out of range'')
      | JList (x # _) \<Rightarrow> Inr x
      | JStr [] \<Rightarrow> Inl (Other_Error ''IndexError'' ''string index out of range'')
      | JStr (c # _) \<Rightarrow> Inr (JStr [c])
      | JObj _ \<Rightarrow> Inl (Other_Error ''KeyError'' ''0'')
      | _ \<Rightarrow> Inl (Other_Error ''TypeError'' (quoted (py_type_name v) @ '' object is not subscriptable'')))"

definition py_get :: "string \<Rightarrow> json \<Rightarrow> llm_error + json" where
  "py_get k v =
     (case v of
        JObj kvs \<Rightarrow> Inr (json_member k kvs)
      | _ \<Rightarrow> Inl (Other_Error ''AttributeError'' (quoted (py_type_name v) @ '' object has no attribute '' @ quoted ''get'')))"

text \<open>\<open>v or d\<close>.\<close>

definition py_or :: "json \<Rightarrow> json \<Rightarrow> json" where
  "py_or v d = (if py_truthy v then v else d)"

definition and_then :: "llm_error + 'a \<Rightarrow> ('a \<Rightarrow> llm_error + 'b) \<Rightarrow> llm_error + 'b" where
  "and_then r f = (case r of Inl e \<Rightarrow> Inl e | Inr x \<Rightarrow> f x)"

lemma and_then_simps [simp]: "and_then (Inl e) f = Inl e" "and_then (Inr x) f = f x"
  by (simp_all add: and_then_def)

lemma and_then_Inr: "and_then r f = Inr y \<longleftrightarrow> (\<exists>x. r = Inr x \<and> f x = Inr y)"
  by (cases r) simp_all

text \<open>The words of \<open>re\<close>: letters, digits and the underscore.\<close>

definition py_isword :: "char \<Rightarrow> bool" where
  "py_isword c =
     (let n = code_point c in
      is_digit c \<or> is_lower_ascii c \<or> is_upper_ascii c \<or> n = 95 \<or> n \<in> {170, 178, 179, 181, 185, 186, 188, 189, 190} \<or>
      (192 \<le> n \<and> n \<noteq> 215 \<and> n \<noteq> 247))"

fun ends_word :: "string \<Rightarrow> bool" where
  "ends_word [] = True"
| "ends_word (c # _) = (\<not> py_isword c)"

fun word_in :: "string list \<Rightarrow> bool \<Rightarrow> string \<Rightarrow> bool" where
  "word_in ws inside [] = False"
| "word_in ws inside (c # cs) =
     (\<not> inside \<and> list_ex (\<lambda>w. starts_with w (c # cs) \<and> ends_word (drop (length w) (c # cs))) ws \<or>
      word_in ws (py_isword c) cs)"

text \<open>A rejection with status 400 whose text has one of the words.\<close>

definition rejects :: "string list \<Rightarrow> llm_error \<Rightarrow> bool" where
  "rejects ws e = (is_permanent e \<and> contains_sub ''HTTP 400'' (error_text e) \<and> word_in ws False (py_lower (error_text e)))"

definition TOOLS_HINT :: "string list" where
  "TOOLS_HINT = [''tool'', ''tools'', ''function'']"

definition VISION_HINT :: "string list" where
  "VISION_HINT = [''image'', ''vision'', ''multimodal'']"

section \<open>Verdicts\<close>

definition cap_key :: "endpoint_capability \<Rightarrow> string \<times> string" where
  "cap_key r = (cap_api_url r, cap_model r)"

definition get_capability :: "string \<times> string \<Rightarrow> db \<Rightarrow> endpoint_capability option" where
  "get_capability k d = find_row cap_key k (capabilities d)"

definition new_capability :: "string \<times> string \<Rightarrow> endpoint_capability" where
  "new_capability k =
     \<lparr>cap_api_url = fst k, cap_model = snd k, supports_tools = False, supports_streaming = None, probed_at = None,
      probe_method = None, supports_vision = None, vision_probed_at = None, vision_probe_method = None\<rparr>"

definition put_capability :: "string \<times> string \<Rightarrow> (endpoint_capability \<Rightarrow> endpoint_capability) \<Rightarrow> db \<Rightarrow> db" where
  "put_capability k f d =
     (case get_capability k d of
        None \<Rightarrow> d\<lparr>capabilities := capabilities d @ [f (new_capability k)]\<rparr>
      | Some _ \<Rightarrow> d\<lparr>capabilities := update_rows (\<lambda>r. cap_key r = k) f (capabilities d)\<rparr>)"

definition set_tools :: "bool \<Rightarrow> string \<Rightarrow> timestamp \<Rightarrow> endpoint_capability \<Rightarrow> endpoint_capability" where
  "set_tools b how now r = r\<lparr>supports_tools := b, probe_method := Some how, probed_at := Some now\<rparr>"

definition set_vision :: "bool \<Rightarrow> string \<Rightarrow> timestamp \<Rightarrow> endpoint_capability \<Rightarrow> endpoint_capability" where
  "set_vision b how now r = r\<lparr>supports_vision := Some b, vision_probe_method := Some how, vision_probed_at := Some now\<rparr>"

definition set_manual_override :: "string \<times> string \<Rightarrow> bool \<Rightarrow> timestamp \<Rightarrow> db \<Rightarrow> db" where
  "set_manual_override k b now = put_capability k (set_tools b ''manual'' now)"

definition record_verdict :: "string \<times> string \<Rightarrow> bool \<Rightarrow> timestamp \<Rightarrow> db \<Rightarrow> db" where
  "record_verdict k b now = put_capability k (set_tools b ''probe'' now)"

definition set_vision_manual_override :: "string \<times> string \<Rightarrow> bool \<Rightarrow> timestamp \<Rightarrow> db \<Rightarrow> db" where
  "set_vision_manual_override k b now = put_capability k (set_vision b ''manual'' now)"

definition record_vision_verdict :: "string \<times> string \<Rightarrow> bool \<Rightarrow> timestamp \<Rightarrow> db \<Rightarrow> db" where
  "record_vision_verdict k b now = put_capability k (set_vision b ''probe'' now)"

definition mark_stale :: "string \<times> string \<Rightarrow> db \<Rightarrow> db" where
  "mark_stale k d = d\<lparr>capabilities := filter (\<lambda>r. cap_key r \<noteq> k) (capabilities d)\<rparr>"

definition is_vision_capable :: "string \<times> string \<Rightarrow> db \<Rightarrow> bool" where
  "is_vision_capable k d = (case get_capability k d of None \<Rightarrow> False | Some r \<Rightarrow> supports_vision r = Some True)"

section \<open>Probes\<close>

text \<open>What a provider answers to the three probes, JSON parsing, and the clock.\<close>

record probe_env =
  tools_reply :: "llm_error + (string \<times> json) list"
  vision_reply :: "llm_error + (string \<times> json) list"
  stream_reply :: "json list \<times> llm_error option"
  parse_json :: "string \<Rightarrow> json option"
  probe_now :: timestamp

text \<open>\<open>validate_tool_args\<close> of the echo tool: an object with the one string \<open>message\<close>.\<close>

definition echo_accepts :: "probe_env \<Rightarrow> json \<Rightarrow> bool" where
  "echo_accepts env args =
     (case (case args of JStr s \<Rightarrow> parse_json env s | _ \<Rightarrow> Some args) of
        Some (JObj kvs) \<Rightarrow> list_all (\<lambda>(k, _). k = ''message'') kvs \<and>
          (case map_of kvs ''message'' of Some (JStr _) \<Rightarrow> True | _ \<Rightarrow> False)
      | _ \<Rightarrow> False)"

definition first_choice :: "(string \<times> json) list \<Rightarrow> llm_error + json" where
  "first_choice kvs =
     (if py_truthy (json_member ''choices'' kvs) then py_first (json_member ''choices'' kvs) else Inr (JObj []))"

definition choice_message :: "(string \<times> json) list \<Rightarrow> llm_error + json" where
  "choice_message kvs =
     and_then (first_choice kvs) (\<lambda>choice. and_then (py_get ''message'' choice) (\<lambda>m. Inr (py_or m (JObj []))))"

text \<open>\<open>d.get(key, {})\<close>, whose default applies to a missing key only.\<close>

definition get_or_dict :: "string \<Rightarrow> json \<Rightarrow> llm_error + json" where
  "get_or_dict k v = (case v of JObj kvs \<Rightarrow> Inr (case map_of kvs k of None \<Rightarrow> JObj [] | Some x \<Rightarrow> x) | _ \<Rightarrow> py_get k v)"

definition tools_verdict :: "probe_env \<Rightarrow> (string \<times> json) list \<Rightarrow> llm_error + bool" where
  "tools_verdict env kvs =
     and_then (choice_message kvs) (\<lambda>m. and_then (py_get ''tool_calls'' m) (\<lambda>v.
       if \<not> py_truthy v then Inr False
       else and_then (py_first v) (\<lambda>call. and_then (get_or_dict ''function'' call) (\<lambda>f. and_then (py_get ''name'' f) (\<lambda>nm.
         and_then (py_get ''arguments'' f) (\<lambda>args. Inr (nm = JStr ''echo_probe'' \<and> echo_accepts env (py_or args (JObj [])))))))))"

definition manual_tools :: "endpoint_capability option \<Rightarrow> bool" where
  "manual_tools c = (case c of None \<Rightarrow> False | Some r \<Rightarrow> probe_method r = Some ''manual'')"

definition probe_endpoint :: "probe_env \<Rightarrow> string \<times> string \<Rightarrow> db \<Rightarrow> (llm_error + unit) \<times> db" where
  "probe_endpoint env k d =
     (if manual_tools (get_capability k d) then (Inr (), d)
      else case tools_reply env of
          Inl e \<Rightarrow> if rejects TOOLS_HINT e then (Inr (), record_verdict k False (probe_now env) d) else (Inl e, d)
        | Inr kvs \<Rightarrow>
            (case tools_verdict env kvs of
               Inl e \<Rightarrow> (Inl e, d)
             | Inr b \<Rightarrow> (Inr (), record_verdict k b (probe_now env) d)))"

text \<open>A row must exist before the other two verdicts are written.\<close>

definition ensure_row :: "probe_env \<Rightarrow> string \<times> string \<Rightarrow> db \<Rightarrow> (llm_error + unit) \<times> db" where
  "ensure_row env k d = (if get_capability k d = None then probe_endpoint env k d else (Inr (), d))"

definition has_token :: "json \<Rightarrow> llm_error + bool" where
  "has_token chunk =
     and_then (py_get ''choices'' chunk) (\<lambda>cs.
     and_then (if py_truthy cs then py_first cs else Inr (JObj [])) (\<lambda>choice.
     and_then (py_get ''delta'' choice) (\<lambda>v.
       case py_or v (JObj []) of
         JObj delta \<Rightarrow> Inr (list_ex (\<lambda>k. py_truthy (json_member k delta)) [''content'', ''reasoning'', ''reasoning_content'', ''tool_calls''])
       | w \<Rightarrow> and_then (py_get ''content'' w) (\<lambda>_. Inr False))))"

fun count_tokens :: "json list \<Rightarrow> nat \<Rightarrow> llm_error + nat" where
  "count_tokens [] n = Inr n"
| "count_tokens (c # cs) n = and_then (has_token c) (\<lambda>b. count_tokens cs (if b then Suc n else n))"

text \<open>A stream that breaks raises the transient error, whatever \<open>LLMError\<close> it broke with.\<close>

definition stream_failure :: "llm_error \<Rightarrow> llm_error" where
  "stream_failure e =
     (case e of
        Transient_LLM_Error _ \<Rightarrow> e | Other_Error _ _ \<Rightarrow> e
      | _ \<Rightarrow> Transient_LLM_Error (''Streaming probe failed: '' @ error_text e))"

definition streaming_verdict :: "probe_env \<Rightarrow> llm_error + bool" where
  "streaming_verdict env =
     and_then (count_tokens (fst (stream_reply env)) 0) (\<lambda>n.
       case snd (stream_reply env) of Some e \<Rightarrow> Inl (stream_failure e) | None \<Rightarrow> Inr (1 \<le> n))"

definition stored_streaming :: "endpoint_capability option \<Rightarrow> bool" where
  "stored_streaming c = (case c of None \<Rightarrow> False | Some r \<Rightarrow> supports_streaming r = Some True)"

definition probe_streaming :: "probe_env \<Rightarrow> string \<times> string \<Rightarrow> db \<Rightarrow> (llm_error + bool) \<times> db" where
  "probe_streaming env k d =
     (if manual_tools (get_capability k d) then (Inr (stored_streaming (get_capability k d)), d)
      else case ensure_row env k d of
          (Inl e, d1) \<Rightarrow> (Inl e, d1)
        | (Inr _, d1) \<Rightarrow>
            (case streaming_verdict env of
               Inl e \<Rightarrow> (Inl e, d1)
             | Inr b \<Rightarrow> (Inr b, put_capability k (\<lambda>r. r\<lparr>supports_streaming := Some b\<rparr>) d1)))"

definition vision_verdict :: "(string \<times> json) list \<Rightarrow> llm_error + bool" where
  "vision_verdict kvs =
     and_then (choice_message kvs) (\<lambda>m. and_then (py_get ''content'' m) (\<lambda>v.
       Inr (case v of JStr s \<Rightarrow> contains_sub ''red'' (py_lower s) | _ \<Rightarrow> False)))"

definition manual_vision :: "endpoint_capability option \<Rightarrow> bool" where
  "manual_vision c = (case c of None \<Rightarrow> False | Some r \<Rightarrow> vision_probe_method r = Some ''manual'')"

definition probe_vision :: "probe_env \<Rightarrow> string \<times> string \<Rightarrow> db \<Rightarrow> (llm_error + unit) \<times> db" where
  "probe_vision env k d =
     (if manual_vision (get_capability k d) then (Inr (), d)
      else case ensure_row env k d of
          (Inl e, d1) \<Rightarrow> (Inl e, d1)
        | (Inr _, d1) \<Rightarrow>
            (case vision_reply env of
               Inl e \<Rightarrow> if rejects VISION_HINT e then (Inr (), record_vision_verdict k False (probe_now env) d1) else (Inl e, d1)
             | Inr kvs \<Rightarrow>
                 (case vision_verdict kvs of
                    Inl e \<Rightarrow> (Inl e, d1)
                  | Inr b \<Rightarrow> (Inr (), record_vision_verdict k b (probe_now env) d1))))"

section \<open>The gate\<close>

definition FALSE_VERDICT_TTL :: int where
  "FALSE_VERDICT_TTL = hours 6"

definition stale_verdict :: "timestamp \<Rightarrow> endpoint_capability option \<Rightarrow> bool" where
  "stale_verdict now c =
     (case c of
        None \<Rightarrow> False
      | Some r \<Rightarrow> \<not> supports_tools r \<and> probe_method r = Some ''probe'' \<and>
          (case probed_at r of None \<Rightarrow> False | Some t \<Rightarrow> FALSE_VERDICT_TTL < now - t))"

definition refused :: "string \<times> string \<Rightarrow> endpoint_capability \<Rightarrow> llm_error" where
  "refused k r =
     Capability_Error (''Model '' @ quoted (snd k) @ '' at '' @ fst k @ '' does not support tool calling (probe_method='' @
       (case probe_method r of None \<Rightarrow> ''None'' | Some s \<Rightarrow> s) @ '').'')"

definition judge :: "string \<times> string \<Rightarrow> endpoint_capability option \<Rightarrow> llm_error option" where
  "judge k c = (case c of None \<Rightarrow> None | Some r \<Rightarrow> if supports_tools r then None else Some (refused k r))"

text \<open>An exception that is no \<open>LLMError\<close> is not caught around the second probe.\<close>

definition ensure_tools_allowed :: "probe_env \<Rightarrow> bool \<Rightarrow> string \<times> string \<Rightarrow> db \<Rightarrow> llm_error option \<times> db" where
  "ensure_tools_allowed env auto_probe k d =
     (let c = get_capability k d in
      if stale_verdict (probe_now env) c then
        (case probe_endpoint env k d of
           (Inl (Other_Error cls txt), d1) \<Rightarrow> (Some (Other_Error cls txt), d1)
         | (Inl _, d1) \<Rightarrow> (judge k c, d1)
         | (Inr _, d1) \<Rightarrow> (judge k (get_capability k d1), d1))
      else if c = None \<and> auto_probe then
        (case probe_endpoint env k d of
           (Inl e, d1) \<Rightarrow> (Some e, d1)
         | (Inr _, d1) \<Rightarrow> (judge k (get_capability k d1), d1))
      else (judge k c, d))"

section \<open>What the verdicts promise\<close>

lemma cap_key_set [simp]:
  "cap_key (set_tools b how now r) = cap_key r" "cap_key (set_vision b how now r) = cap_key r"
  "cap_key (r\<lparr>supports_streaming := s\<rparr>) = cap_key r" "cap_key (new_capability k) = k"
  by (simp_all add: cap_key_def set_tools_def set_vision_def new_capability_def)

lemma find_row_snoc: "find_row key k (xs @ [y]) = (case find_row key k xs of Some x \<Rightarrow> Some x | None \<Rightarrow> if key y = k then Some y else None)"
  by (induction xs) auto

lemma get_put [db_simps]:
  assumes "\<And>r. cap_key (f r) = cap_key r"
  shows "get_capability k' (put_capability k f d) =
     (if k' = k then Some (f (case get_capability k d of None \<Rightarrow> new_capability k | Some r \<Rightarrow> r)) else get_capability k' d)"
proof (cases "get_capability k d")
  case None
  then show ?thesis using assms
    by (auto simp: put_capability_def get_capability_def find_row_snoc split: option.splits)
next
  case (Some r)
  have "cap_key x = k'" if "find_row cap_key k' (capabilities d) = Some x" for x using find_row_SomeD [OF that] by simp
  then show ?thesis using Some assms
    by (cases "find_row cap_key k' (capabilities d)") (auto simp: put_capability_def get_capability_def find_row_update)
qed

text \<open>The operations on verdicts, other than dropping a row.\<close>

datatype capability_op =
    Probe_Tools probe_env "string \<times> string"
  | Probe_Streaming probe_env "string \<times> string"
  | Probe_Vision probe_env "string \<times> string"
  | Gate probe_env bool "string \<times> string"
  | Override_Tools "string \<times> string" bool timestamp
  | Override_Vision "string \<times> string" bool timestamp

definition run_op :: "capability_op \<Rightarrow> db \<Rightarrow> db" where
  "run_op op d =
     (case op of
        Probe_Tools env k \<Rightarrow> snd (probe_endpoint env k d)
      | Probe_Streaming env k \<Rightarrow> snd (probe_streaming env k d)
      | Probe_Vision env k \<Rightarrow> snd (probe_vision env k d)
      | Gate env auto_probe k \<Rightarrow> snd (ensure_tools_allowed env auto_probe k d)
      | Override_Tools k b now \<Rightarrow> set_manual_override k b now d
      | Override_Vision k b now \<Rightarrow> set_vision_manual_override k b now d)"

definition overrides_tools :: "string \<times> string \<Rightarrow> capability_op \<Rightarrow> bool" where
  "overrides_tools k op = (case op of Override_Tools k' _ _ \<Rightarrow> k' = k | _ \<Rightarrow> False)"

definition overrides_vision :: "string \<times> string \<Rightarrow> capability_op \<Rightarrow> bool" where
  "overrides_vision k op = (case op of Override_Vision k' _ _ \<Rightarrow> k' = k | _ \<Rightarrow> False)"

text \<open>The tools columns and the vision columns of a row.\<close>

definition tools_columns :: "string \<times> string \<Rightarrow> db \<Rightarrow> (bool \<times> string option \<times> timestamp option) option" where
  "tools_columns k d = map_option (\<lambda>r. (supports_tools r, probe_method r, probed_at r)) (get_capability k d)"

definition vision_columns :: "string \<times> string \<Rightarrow> db \<Rightarrow> (bool option \<times> string option \<times> timestamp option) option" where
  "vision_columns k d = map_option (\<lambda>r. (supports_vision r, vision_probe_method r, vision_probed_at r)) (get_capability k d)"

lemma map_get_put:
  assumes "\<And>r. cap_key (f r) = cap_key r" and "\<And>r. g (f r) = g r" and "k \<noteq> k' \<or> get_capability k d \<noteq> None"
  shows "map_option g (get_capability k (put_capability k' f d)) = map_option g (get_capability k d)"
  using assms by (cases "get_capability k d") (auto simp: get_put)

lemma tools_columns_put:
  "tools_columns k' (put_capability k (set_tools b how now) d) =
     (if k' = k then Some (b, Some how, Some now) else tools_columns k' d)"
  by (auto simp: tools_columns_def get_put set_tools_def cap_key_def)

lemma tools_columns_other:
  assumes "k \<noteq> k' \<or> get_capability k d \<noteq> None"
  shows "tools_columns k (put_capability k' (set_vision v how now) d) = tools_columns k d"
    and "tools_columns k (put_capability k' (\<lambda>r. r\<lparr>supports_streaming := s\<rparr>) d) = tools_columns k d"
  unfolding tools_columns_def using assms by (intro map_get_put; simp add: set_vision_def cap_key_def)+

lemma vision_columns_put:
  "vision_columns k' (put_capability k (set_vision b how now) d) =
     (if k' = k then Some (Some b, Some how, Some now) else vision_columns k' d)"
  by (auto simp: vision_columns_def get_put set_vision_def cap_key_def)

lemma vision_columns_other:
  assumes "k \<noteq> k' \<or> get_capability k d \<noteq> None"
  shows "vision_columns k (put_capability k' (set_tools v how now) d) = vision_columns k d"
    and "vision_columns k (put_capability k' (\<lambda>r. r\<lparr>supports_streaming := s\<rparr>) d) = vision_columns k d"
  unfolding vision_columns_def using assms by (intro map_get_put; simp add: set_tools_def cap_key_def)+

lemma columns_Some:
  "tools_columns k d = Some c \<Longrightarrow> get_capability k d \<noteq> None" "vision_columns k d = Some w \<Longrightarrow> get_capability k d \<noteq> None"
  by (auto simp: tools_columns_def vision_columns_def)

lemma manual_columns:
  "tools_columns k d = Some (b, Some ''manual'', t) \<Longrightarrow> manual_tools (get_capability k d)"
  "vision_columns k d = Some (w, Some ''manual'', t') \<Longrightarrow> manual_vision (get_capability k d)"
  by (auto simp: tools_columns_def vision_columns_def manual_tools_def manual_vision_def)

lemma probe_endpoint_db:
  "snd (probe_endpoint env k d) = d \<or>
   \<not> manual_tools (get_capability k d) \<and> (\<exists>b. snd (probe_endpoint env k d) = put_capability k (set_tools b ''probe'' (probe_now env)) d)"
  by (auto simp: probe_endpoint_def record_verdict_def split: sum.split)

lemma ensure_row_db:
  "snd (ensure_row env k d) = d \<or>
   get_capability k d = None \<and> (\<exists>b. snd (ensure_row env k d) = put_capability k (set_tools b ''probe'' (probe_now env)) d)"
  using probe_endpoint_db [of env k d] by (auto simp: ensure_row_def)

lemma gate_db:
  "snd (ensure_tools_allowed env auto_probe k d) = d \<or> snd (ensure_tools_allowed env auto_probe k d) = snd (probe_endpoint env k d)"
  by (auto simp: ensure_tools_allowed_def Let_def split: prod.split sum.split llm_error.split)

lemma streaming_db:
  "snd (probe_streaming env k d) \<in> {d, snd (ensure_row env k d)} \<or>
   (\<exists>b. snd (probe_streaming env k d) = put_capability k (\<lambda>r. r\<lparr>supports_streaming := Some b\<rparr>) (snd (ensure_row env k d)))"
  by (auto simp: probe_streaming_def split: prod.split sum.split)

lemma vision_db:
  "snd (probe_vision env k d) = d \<or> snd (probe_vision env k d) = snd (ensure_row env k d) \<or>
   \<not> manual_vision (get_capability k d) \<and>
   (\<exists>b. snd (probe_vision env k d) = put_capability k (set_vision b ''probe'' (probe_now env)) (snd (ensure_row env k d)))"
  by (auto simp: probe_vision_def record_vision_verdict_def split: prod.split sum.split)

lemma ensure_row_columns:
  assumes "get_capability k d \<noteq> None"
  shows "tools_columns k (snd (ensure_row env k' d)) = tools_columns k d"
    and "vision_columns k (snd (ensure_row env k' d)) = vision_columns k d"
  using ensure_row_db [of env k' d] assms
  by (auto simp: tools_columns_put tools_columns_other vision_columns_put vision_columns_other)

lemma probe_endpoint_columns:
  assumes "manual_tools (get_capability k d)"
  shows "tools_columns k (snd (probe_endpoint env k' d)) = tools_columns k d"
proof (cases "k' = k")
  case True
  then show ?thesis using assms by (simp add: probe_endpoint_def)
next
  case False
  then show ?thesis using probe_endpoint_db [of env k' d] by (auto simp: tools_columns_put tools_columns_other)
qed

lemma probe_endpoint_vision:
  "get_capability k d \<noteq> None \<Longrightarrow> vision_columns k (snd (probe_endpoint env k' d)) = vision_columns k d"
  using probe_endpoint_db [of env k' d] by (auto simp: vision_columns_put vision_columns_other)

lemma run_op_keeps_tools:
  assumes "tools_columns k d = Some (b, Some ''manual'', t)" and "\<not> overrides_tools k op"
  shows "tools_columns k (run_op op d) = Some (b, Some ''manual'', t)"
proof -
  note row = columns_Some(1) [OF assms(1)] and man = manual_columns(1) [OF assms(1)]
  have kept: "get_capability k (snd (ensure_row env k' d)) \<noteq> None" for env k'
    using ensure_row_columns(1) [OF row, of env k'] assms(1) columns_Some(1) by metis
  show ?thesis
  proof (cases op)
    case (Probe_Tools env k')
    then show ?thesis using probe_endpoint_columns [OF man] assms(1) by (simp add: run_op_def)
  next
    case (Probe_Streaming env k')
    then show ?thesis using streaming_db [of env k' d] ensure_row_columns(1) [OF row, of env k'] kept [of env k'] assms(1)
      by (auto simp: run_op_def tools_columns_put tools_columns_other simp del: not_None_eq)
  next
    case (Probe_Vision env k')
    then show ?thesis using vision_db [of env k' d] ensure_row_columns(1) [OF row, of env k'] kept [of env k'] assms(1)
      by (auto simp: run_op_def tools_columns_put tools_columns_other simp del: not_None_eq)
  next
    case (Gate env au k')
    then show ?thesis using gate_db [of env au k' d] probe_endpoint_columns [OF man, of env k'] assms(1) by (auto simp: run_op_def)
  next
    case (Override_Tools k' v now)
    then show ?thesis using assms by (simp add: run_op_def set_manual_override_def tools_columns_put overrides_tools_def)
  next
    case (Override_Vision k' v now)
    then show ?thesis using assms row by (simp add: run_op_def set_vision_manual_override_def tools_columns_put tools_columns_other)
  qed
qed

lemma run_op_keeps_vision:
  assumes "vision_columns k d = Some (b, Some ''manual'', t)" and "\<not> overrides_vision k op"
  shows "vision_columns k (run_op op d) = Some (b, Some ''manual'', t)"
proof -
  note row = columns_Some(2) [OF assms(1)] and man = manual_columns(2) [OF assms(1)]
  have kept: "get_capability k (snd (ensure_row env k' d)) \<noteq> None" for env k'
    using ensure_row_columns(2) [OF row, of env k'] assms(1) columns_Some(2) by metis
  show ?thesis
  proof (cases op)
    case (Probe_Tools env k')
    then show ?thesis using probe_endpoint_vision [OF row] assms(1) by (simp add: run_op_def)
  next
    case (Probe_Streaming env k')
    then show ?thesis using streaming_db [of env k' d] ensure_row_columns(2) [OF row, of env k'] kept [of env k'] assms(1)
      by (auto simp: run_op_def vision_columns_put vision_columns_other simp del: not_None_eq)
  next
    case (Probe_Vision env k')
    show ?thesis
    proof (cases "k' = k")
      case True
      then show ?thesis using Probe_Vision man assms(1) by (simp add: run_op_def probe_vision_def)
    next
      case False
      then show ?thesis using Probe_Vision vision_db [of env k' d] ensure_row_columns(2) [OF row, of env k'] assms(1)
        by (auto simp: run_op_def vision_columns_put vision_columns_other)
    qed
  next
    case (Gate env au k')
    then show ?thesis using gate_db [of env au k' d] probe_endpoint_vision [OF row, of env k'] assms(1) by (auto simp: run_op_def)
  next
    case (Override_Tools k' v now)
    then show ?thesis using assms row by (simp add: run_op_def set_manual_override_def vision_columns_put vision_columns_other)
  next
    case (Override_Vision k' v now)
    then show ?thesis using assms by (simp add: run_op_def set_vision_manual_override_def vision_columns_put vision_columns_other overrides_vision_def)
  qed
qed

lemma run_ops_keep:
  "tools_columns k d = Some (b, Some ''manual'', t) \<Longrightarrow> list_all (\<lambda>op. \<not> overrides_tools k op) ops \<Longrightarrow>
     tools_columns k (fold run_op ops d) = Some (b, Some ''manual'', t)"
  "vision_columns k d = Some (w, Some ''manual'', t') \<Longrightarrow> list_all (\<lambda>op. \<not> overrides_vision k op) ops \<Longrightarrow>
     vision_columns k (fold run_op ops d) = Some (w, Some ''manual'', t')"
  by (induction ops arbitrary: d) (simp_all add: run_op_keeps_tools run_op_keeps_vision)

lemma gate_manual:
  assumes "tools_columns k d = Some (b, Some ''manual'', t)"
  shows "ensure_tools_allowed env auto_probe k d =
     (if b then None
      else Some (Capability_Error (''Model '' @ quoted (snd k) @ '' at '' @ fst k @ '' does not support tool calling (probe_method=manual).'')), d)"
  using assms by (auto simp: ensure_tools_allowed_def stale_verdict_def judge_def refused_def tools_columns_def)


section \<open>Examples\<close>

text \<open>A provider whose tools probe times out, and one that rejects tools.\<close>

definition silent :: probe_env where
  "silent =
     \<lparr>tools_reply = Inl (Transient_LLM_Error ''timeout''), vision_reply = Inr [], stream_reply = ([], None),
      parse_json = (\<lambda>_. None), probe_now = hours 1000\<rparr>"

definition toolless :: probe_env where
  "toolless = silent\<lparr>tools_reply := Inl (Permanent_LLM_Error ''HTTP 400 from u: Tools are not enabled'')\<rparr>"

definition qwen :: "string \<times> string" where
  "qwen = (''http://llm/v1'', ''qwen'')"


text \<open>
  A vision override for an endpoint nobody has probed creates a row that says tools are unsupported.
  The gate, open before, now refuses every request with tools, and as no probe wrote that verdict,
  it never expires.
\<close>

lemma vision_override_blocks_tools:
  assumes "get_capability k d = None"
  shows "fst (ensure_tools_allowed env False k d) = None"
    and "\<exists>msg. ensure_tools_allowed env' auto_probe k (set_vision_manual_override k v now d) =
           (Some (Capability_Error msg), set_vision_manual_override k v now d)"
proof -
  show "fst (ensure_tools_allowed env False k d) = None"
    using assms by (simp add: ensure_tools_allowed_def stale_verdict_def judge_def)
  have "get_capability k (set_vision_manual_override k v now d) = Some (set_vision v ''manual'' now (new_capability k))"
    using assms by (simp add: set_vision_manual_override_def get_put)
  then show "\<exists>msg. ensure_tools_allowed env' auto_probe k (set_vision_manual_override k v now d) =
           (Some (Capability_Error msg), set_vision_manual_override k v now d)"
    by (simp add: ensure_tools_allowed_def stale_verdict_def judge_def refused_def set_vision_def new_capability_def)
qed

text \<open>
  The vision probe looks for the letters of the colour anywhere in the reply, so a model that says it
  cannot see is recorded as one that can.
\<close>

definition blind :: probe_env where
  "blind = toolless\<lparr>vision_reply := Inr [(''choices'', JList [JObj [(''message'', JObj [(''content'', JStr ''I am not configured to view images.'')])]])]\<rparr>"

lemma refusal_counts_as_vision: "is_vision_capable qwen (snd (probe_vision blind qwen empty_db))"
  by code_simp

text \<open>
  A stale verdict is probed again, and a probe that determines nothing should leave it in force with the
  same error. A reply with a tool call that is no object makes the gate raise Python's own exception.
\<close>

definition garbled :: probe_env where
  "garbled = silent\<lparr>tools_reply := Inr [(''choices'', JList [JObj [(''message'', JObj [(''tool_calls'', JList [JNull])])]])]\<rparr>"

lemma garbled_probe_escapes:
  "map_option error_class (fst (ensure_tools_allowed garbled False qwen (record_verdict qwen False 0 empty_db))) = Some ''AttributeError''"
  "map_option error_class (fst (ensure_tools_allowed silent False qwen (record_verdict qwen False 0 empty_db))) = Some ''CapabilityError''"
  by code_simp+

end
