(* ===== verification/Ledger.thy ===== *)
theory Ledger
  imports Capability
begin

text \<open>
  \<open>deaddit/llm/accounting.py\<close>: the price of a request and one ledger row per attempt. The host of a URL
  and whether an address is private are what \<open>urllib\<close> and \<open>ipaddress\<close> answer; which commits fail is
  an argument. Prices are exact, latencies are left out, and token counts are kept as bound to the
  statement.
\<close>

section \<open>Glob patterns\<close>

text \<open>\<open>fnmatch\<close>: a set holds ranges, and is negated by an exclamation mark.\<close>

datatype glob_item = Any_Run | Any_Char | Lit char | One_Of bool "(char \<times> char) list"

text \<open>An exclamation mark and a bracket right after it belong to the set. The text of a set and what
  follows it; none when the bracket is not closed.\<close>

definition set_lead :: "string \<Rightarrow> nat" where
  "set_lead s =
     (case s of
        [] \<Rightarrow> 0
      | c # cs \<Rightarrow> if c = CHR ''!'' then (if starts_with '']'' cs then 2 else 1) else if c = CHR '']'' then 1 else 0)"

definition split_set :: "string \<Rightarrow> (string \<times> string) option" where
  "split_set s =
     (let n = set_lead s in
      case dropWhile (\<lambda>c. c \<noteq> CHR '']'') (drop n s) of
        [] \<Rightarrow> None
      | _ # after \<Rightarrow> Some (take n s @ takeWhile (\<lambda>c. c \<noteq> CHR '']'') (drop n s), after))"

fun set_ranges :: "string \<Rightarrow> (char \<times> char) list" where
  "set_ranges (a # b # c # cs) = (if b = CHR ''-'' then (a, c) # set_ranges cs else (a, a) # set_ranges (b # c # cs))"
| "set_ranges [a, b] = [(a, a), (b, b)]"
| "set_ranges [a] = [(a, a)]"
| "set_ranges [] = []"

definition set_item :: "string \<Rightarrow> glob_item" where
  "set_item s = (case s of [] \<Rightarrow> One_Of True [] | c # cs \<Rightarrow> if c = CHR ''!'' then One_Of False (set_ranges cs) else One_Of True (set_ranges s))"

lemma split_set_shorter:
  assumes "split_set s = Some (t, after)"
  shows "length after < length s"
proof -
  obtain c where "dropWhile (\<lambda>c. c \<noteq> CHR '']'') (drop (set_lead s) s) = c # after"
    using assms by (simp add: split_set_def Let_def split: list.splits)
  then have "length (c # after) \<le> length (drop (set_lead s) s)" by (metis length_dropWhile_le)
  then show ?thesis by simp
qed

function glob_items :: "string \<Rightarrow> glob_item list" where
  "glob_items s =
     (case s of
        [] \<Rightarrow> []
      | c # cs \<Rightarrow>
          if c = CHR ''*'' then Any_Run # glob_items cs
          else if c = CHR ''?'' then Any_Char # glob_items cs
          else if c = CHR ''['' then (case split_set cs of None \<Rightarrow> Lit c # glob_items cs | Some (t, after) \<Rightarrow> set_item t # glob_items after)
          else Lit c # glob_items cs)"
  by pat_completeness auto
termination by (relation "measure length") (auto dest: split_set_shorter)

declare glob_items.simps [simp del]

fun glob_accepts :: "glob_item list \<Rightarrow> string \<Rightarrow> bool" where
  "glob_accepts [] s = (s = [])"
| "glob_accepts (Any_Run # gs) [] = glob_accepts gs []"
| "glob_accepts (Any_Run # gs) (c # cs) = (glob_accepts gs (c # cs) \<or> glob_accepts (Any_Run # gs) cs)"
| "glob_accepts (g # gs) [] = False"
| "glob_accepts (Any_Char # gs) (c # cs) = glob_accepts gs cs"
| "glob_accepts (Lit x # gs) (c # cs) = (x = c \<and> glob_accepts gs cs)"
| "glob_accepts (One_Of yes rs # gs) (c # cs) = (list_ex (\<lambda>(a, b). a \<le> c \<and> c \<le> b) rs = yes \<and> glob_accepts gs cs)"

definition fnmatch :: "string \<Rightarrow> string \<Rightarrow> bool" where
  "fnmatch s pat = glob_accepts (glob_items pat) s"

section \<open>Prices\<close>

record ledger_env =
  host_of :: "string \<Rightarrow> string"
  private_address :: "string \<Rightarrow> bool"
  commit_fails :: "nat \<Rightarrow> bool"
  ledger_now :: timestamp

definition is_local_endpoint :: "ledger_env \<Rightarrow> string \<Rightarrow> bool" where
  "is_local_endpoint env url =
     (host_of env url \<in> {''localhost'', ''127.0.0.1'', ''::1''} \<or> private_address env (host_of env url))"

definition better_price :: "string \<Rightarrow> model_price \<Rightarrow> model_price option \<Rightarrow> model_price option" where
  "better_price model price best =
     (if \<not> fnmatch (py_lower model) (py_lower (price_pattern price)) then best
      else case best of
          None \<Rightarrow> Some price
        | Some b \<Rightarrow> if length (price_pattern b) < length (price_pattern price) then Some price else best)"

definition match_price :: "string \<Rightarrow> db \<Rightarrow> model_price option" where
  "match_price model d = fold (better_price model) (model_prices d) None"

text \<open>\<open>(tokens or 0) * price\<close>, which Python refuses for anything that is no number.\<close>

definition tokens_cost :: "json \<Rightarrow> rat \<Rightarrow> llm_error + rat" where
  "tokens_cost v q =
     (if \<not> py_truthy v then Inr 0
      else case v of
          JInt i \<Rightarrow> Inr (of_int i * q)
        | JFloat x \<Rightarrow> Inr (x * q)
        | JBool _ \<Rightarrow> Inr q
        | JObj _ \<Rightarrow> Inl (Other_Error ''TypeError'' (''unsupported operand type(s) for *: '' @ quoted ''dict'' @ '' and '' @ quoted ''float''))
        | _ \<Rightarrow> Inl (Other_Error ''TypeError'' ([CHR 0x63, CHR 0x61, CHR 0x6E, CHR 0x27] @ ''t multiply sequence by non-int of type '' @ quoted ''float'')))"

definition estimate_cost :: "ledger_env \<Rightarrow> string \<Rightarrow> string \<Rightarrow> json \<Rightarrow> json \<Rightarrow> db \<Rightarrow> llm_error + rat option" where
  "estimate_cost env url model prompt completion d =
     (if is_local_endpoint env url then Inr (Some 0)
      else case match_price model d of
          None \<Rightarrow> Inr None
        | Some price \<Rightarrow>
            if prompt = JNull \<and> completion = JNull then Inr None
            else and_then (tokens_cost prompt (prompt_price price)) (\<lambda>a.
                 and_then (tokens_cost completion (completion_price price)) (\<lambda>b. Inr (Some (a + b)))))"

section \<open>One row per attempt\<close>

text \<open>The request as the ledger sees it.\<close>

record ledger_request =
  lr_id :: string
  lr_url :: string
  lr_model :: string
  lr_action :: "string option"
  lr_agent :: "string option"

record recorder =
  rec_invoked :: bool
  rows_recorded :: nat
  rec_commits :: nat

definition fresh_recorder :: recorder where
  "fresh_recorder = \<lparr>rec_invoked = False, rows_recorded = 0, rec_commits = 0\<rparr>"

definition base_row :: "ledger_env \<Rightarrow> ledger_request \<Rightarrow> nat \<Rightarrow> db \<Rightarrow> llm_usage" where
  "base_row env lr attempt d =
     \<lparr>usage_id = next_id usage_id (llm_usages d), usage_created_at = ledger_now env, usage_request = lr_id lr,
      usage_attempt = int attempt, usage_api_url = lr_url lr, usage_model = lr_model lr, usage_action = lr_action lr,
      usage_agent = lr_agent lr, usage_status = [], usage_error = None, usage_prompt = JNull, usage_completion = JNull,
      usage_total = JNull, usage_cost = None\<rparr>"

text \<open>What the driver can bind to an integer column.\<close>

definition bindable :: "json \<Rightarrow> bool" where
  "bindable v = (case v of JList _ \<Rightarrow> False | JObj _ \<Rightarrow> False | JInt i \<Rightarrow> - (2 ^ 63) \<le> i \<and> i < 2 ^ 63 | _ \<Rightarrow> True)"

definition commit_row :: "ledger_env \<Rightarrow> llm_usage \<Rightarrow> recorder \<times> db \<Rightarrow> recorder \<times> db" where
  "commit_row env row = (\<lambda>(rc, d).
     let rc' = rc\<lparr>rec_commits := rec_commits rc + 1\<rparr> in
     if commit_fails env (rec_commits rc) \<or> \<not> (bindable (usage_prompt row) \<and> bindable (usage_completion row) \<and> bindable (usage_total row))
     then (rc', d)
     else (rc'\<lparr>rows_recorded := rows_recorded rc + 1\<rparr>, d\<lparr>llm_usages := llm_usages d @ [row]\<rparr>))"

definition failed_row :: "ledger_env \<Rightarrow> ledger_request \<Rightarrow> nat \<Rightarrow> llm_error \<Rightarrow> db \<Rightarrow> llm_usage" where
  "failed_row env lr attempt e d = (base_row env lr attempt d)\<lparr>usage_status := ''failed'', usage_error := Some (error_class e)\<rparr>"

text \<open>The \<open>usage\<close> of a response, and a row with it.\<close>

definition usage_of :: "json \<Rightarrow> llm_error + (json \<times> json \<times> json)" where
  "usage_of data =
     and_then (py_get ''usage'' (py_or data (JObj []))) (\<lambda>u.
       case py_or u (JObj []) of
         JObj kvs \<Rightarrow> Inr (json_member ''prompt_tokens'' kvs, json_member ''completion_tokens'' kvs, json_member ''total_tokens'' kvs)
       | w \<Rightarrow> and_then (py_get ''prompt_tokens'' w) (\<lambda>_. Inr (JNull, JNull, JNull)))"

definition ok_row :: "ledger_env \<Rightarrow> ledger_request \<Rightarrow> nat \<Rightarrow> json \<Rightarrow> db \<Rightarrow> llm_error + llm_usage" where
  "ok_row env lr attempt data d =
     and_then (usage_of data) (\<lambda>(prompt, completion, tot).
     and_then (estimate_cost env (lr_url lr) (lr_model lr) prompt completion d) (\<lambda>cost.
       Inr ((base_row env lr attempt d)\<lparr>usage_status := ''ok'', usage_prompt := prompt, usage_completion := completion,
              usage_total := tot, usage_cost := cost\<rparr>)))"

definition on_attempt :: "ledger_env \<Rightarrow> ledger_request \<Rightarrow> attempt_notice \<Rightarrow> recorder \<times> db \<Rightarrow> llm_error option \<times> recorder \<times> db" where
  "on_attempt env lr n = (\<lambda>(rc, d).
     case snd n of
       Failed e \<Rightarrow> (None, commit_row env (failed_row env lr (fst n) e d) (rc, d))
     | Answered data \<Rightarrow>
         (case ok_row env lr (fst n) data d of Inl e \<Rightarrow> (Some e, rc, d) | Inr row \<Rightarrow> (None, commit_row env row (rc, d))))"

text \<open>A row for a provider that never called back.\<close>

definition finalize :: "ledger_env \<Rightarrow> ledger_request \<Rightarrow> notice_outcome \<Rightarrow> recorder \<times> db \<Rightarrow> llm_error option \<times> recorder \<times> db" where
  "finalize env lr outcome = (\<lambda>(rc, d).
     if \<not> rec_invoked rc \<or> 0 < rows_recorded rc then (None, rc, d) else on_attempt env lr (1, outcome) (rc, d))"

end
