(* ===== verification/Client.thy ===== *)
theory Client
  imports Ledger
begin

text \<open>
  \<open>LLMClient.complete\<close> of \<open>deaddit/llm/client.py\<close> with the request and result records, the payload, and
  the reading of a response. The provider is a run: the notices it gives, what it returns or raises and
  the attempts it reports; for the real transport that is \<open>post_chat\<close>.
\<close>

section \<open>Requests and results\<close>

record sampling =
  temperature :: "rat option"
  max_tokens :: int
  stop_words :: "string list option"

record chat_request =
  system_prompt :: string
  user_prompt :: string
  req_model :: string
  req_api_url :: string
  req_sampling :: "sampling option"
  extra_payload :: "(string \<times> json) list"
  req_tools :: "json list"
  request_id :: string
  req_action :: "string option"
  req_agent :: "string option"
  template_version :: "int option"

record chat_result =
  res_content :: string
  res_model :: string
  res_usage :: "(string \<times> json) list"
  res_attempts :: nat
  res_request :: string
  res_tool_calls :: "json list option"
  res_template_version :: "int option"
  finish_reason :: json

text \<open>\<open>d[key] = v\<close>, which keeps the place of a key that is there.\<close>

fun dict_put :: "string \<Rightarrow> json \<Rightarrow> (string \<times> json) list \<Rightarrow> (string \<times> json) list" where
  "dict_put k v [] = [(k, v)]"
| "dict_put k v ((k', v') # kvs) = (if k' = k then (k, v) # kvs else (k', v') # dict_put k v kvs)"

definition groq_stops :: "string \<Rightarrow> string list \<Rightarrow> string list" where
  "groq_stops url ws = (if contains_sub ''api.groq.com'' url then take 4 ws else ws)"

definition chat_message :: "string \<Rightarrow> string \<Rightarrow> json" where
  "chat_message role txt = JObj [(''role'', JStr role), (''content'', JStr txt)]"

definition build_payload :: "chat_request \<Rightarrow> (string \<times> json) list" where
  "build_payload req =
     (let base = [(''model'', JStr (req_model req)),
                  (''messages'', JList [chat_message ''system'' (system_prompt req), chat_message ''user'' (user_prompt req)]),
                  (''max_tokens'', JInt (case req_sampling req of None \<Rightarrow> 2048 | Some s \<Rightarrow> max_tokens s))];
          sampled = (case req_sampling req of
              None \<Rightarrow> base
            | Some s \<Rightarrow>
                base @ (case temperature s of None \<Rightarrow> [] | Some t \<Rightarrow> [(''temperature'', JFloat t)])
                  @ (case stop_words s of None \<Rightarrow> [] | Some ws \<Rightarrow> [(''stop'', JList (map JStr (groq_stops (req_api_url req) ws)))]));
          tooled = (if req_tools req = [] then sampled else sampled @ [(''tools'', JList (req_tools req))]) in
      fold (\<lambda>(k, v) p. dict_put k v p) (extra_payload req) tooled)"

section \<open>Reading a response\<close>

text \<open>\<open>d[key]\<close> on a dictionary, and \<open>response["choices"][0]\<close>.\<close>

definition py_item :: "string \<Rightarrow> json \<Rightarrow> llm_error + json" where
  "py_item k v =
     (case v of
        JObj kvs \<Rightarrow> (case map_of kvs k of Some x \<Rightarrow> Inr x | None \<Rightarrow> Inl (Other_Error ''KeyError'' (quoted k)))
      | JList _ \<Rightarrow> Inl (Other_Error ''TypeError'' ''list indices must be integers or slices, not str'')
      | JStr _ \<Rightarrow> Inl (Other_Error ''TypeError'' (''string indices must be integers, not '' @ quoted ''str''))
      | _ \<Rightarrow> Inl (Other_Error ''TypeError'' (quoted (py_type_name v) @ '' object is not subscriptable'')))"

definition choice_of :: "(string \<times> json) list \<Rightarrow> llm_error + json" where
  "choice_of kvs = and_then (py_item ''choices'' (JObj kvs)) py_first"

text \<open>The message whose fields can be read; every failure on the way is caught.\<close>

definition message_of :: "(string \<times> json) list \<Rightarrow> (string \<times> json) list option" where
  "message_of kvs = (case and_then (choice_of kvs) (py_item ''message'') of Inr (JObj m) \<Rightarrow> Some m | _ \<Rightarrow> None)"

definition fallback_content :: "(json \<Rightarrow> string) \<Rightarrow> (string \<times> json) list \<Rightarrow> llm_error + (string \<times> json list option)" where
  "fallback_content shw kvs =
     (case find (\<lambda>k. case json_member k kvs of JStr s \<Rightarrow> s \<noteq> [] | _ \<Rightarrow> False) [''content'', ''response''] of
        Some k \<Rightarrow> (case json_member k kvs of JStr s \<Rightarrow> Inr (s, None) | _ \<Rightarrow> Inl (bad_format shw (JObj kvs)))
      | None \<Rightarrow> Inl (bad_format shw (JObj kvs)))"

definition extract_response :: "(json \<Rightarrow> string) \<Rightarrow> (string \<times> json) list \<Rightarrow> llm_error + (string \<times> json list option)" where
  "extract_response shw kvs =
     (case message_of kvs of
        None \<Rightarrow> fallback_content shw kvs
      | Some m \<Rightarrow>
          (case (case json_member ''content'' m of JNull \<Rightarrow> Some [] | JStr s \<Rightarrow> Some s | _ \<Rightarrow> None) of
             None \<Rightarrow> Inl (bad_format shw (JObj kvs))
           | Some words \<Rightarrow>
               let calls = json_member ''tool_calls'' m in
               if py_truthy calls then
                 (case calls of JList cs \<Rightarrow> Inr (words, Some cs) | _ \<Rightarrow> Inl (bad_format shw (JObj kvs)))
               else if words \<noteq> [] then Inr (words, None)
               else
                 let reasoning = py_or (json_member ''reasoning'' m) (json_member ''reasoning_content'' m) in
                 if py_truthy reasoning then
                   (case reasoning of JStr s \<Rightarrow> Inr (s, None) | _ \<Rightarrow> Inl (bad_format shw (JObj kvs)))
                 else fallback_content shw kvs))"

definition extract_finish_reason :: "(string \<times> json) list \<Rightarrow> json" where
  "extract_finish_reason kvs =
     (case and_then (choice_of kvs) (py_get ''finish_reason'') of Inl _ \<Rightarrow> JNull | Inr v \<Rightarrow> v)"

text \<open>The whole reading of what a provider returned: the envelope, the text, and the usage.\<close>

record reading_of =
  read_data :: "(string \<times> json) list"
  read_content :: string
  read_calls :: "json list option"
  read_finish :: json
  read_usage :: "(string \<times> json) list"

definition read_response :: "(json \<Rightarrow> string) \<Rightarrow> json \<Rightarrow> llm_error + reading_of" where
  "read_response shw raw =
     and_then (unwrap_envelope shw raw) (\<lambda>data.
     and_then (extract_response shw data) (\<lambda>(words, calls).
       case py_or (json_member ''usage'' data) (JObj []) of
         JObj usage \<Rightarrow> Inr \<lparr>read_data = data, read_content = words, read_calls = calls,
           read_finish = extract_finish_reason data, read_usage = usage\<rparr>
       | _ \<Rightarrow> Inl (bad_format shw (JObj data))))"

section \<open>A completed request\<close>

record provider_run =
  run_notices :: "attempt_notice list"
  run_result :: "llm_error + json"
  run_attempts :: nat

definition real_run :: "request_env \<Rightarrow> nat \<Rightarrow> provider_run" where
  "real_run tenv before =
     (case post_chat tenv of
        (Inl e, ns) \<Rightarrow> \<lparr>run_notices = ns, run_result = Inl e, run_attempts = before\<rparr>
      | (Inr (kvs, n), ns) \<Rightarrow> \<lparr>run_notices = ns, run_result = Inr (JObj kvs), run_attempts = n\<rparr>)"

record client_env =
  ledger :: ledger_env
  gate_probe :: probe_env
  shown_json :: "json \<Rightarrow> string"

definition ledger_request_of :: "chat_request \<Rightarrow> ledger_request" where
  "ledger_request_of req =
     \<lparr>lr_id = request_id req, lr_url = req_api_url req, lr_model = req_model req, lr_action = req_action req, lr_agent = req_agent req\<rparr>"

definition endpoint :: "chat_request \<Rightarrow> string \<times> string" where
  "endpoint req = (req_api_url req, req_model req)"

text \<open>The callback of \<open>complete\<close>: failures are recorded at once, an answer waits for its reading.\<close>

definition hear :: "client_env \<Rightarrow> chat_request \<Rightarrow> attempt_notice \<Rightarrow> nat option \<times> recorder \<times> db \<Rightarrow> nat option \<times> recorder \<times> db" where
  "hear env req n = (\<lambda>(pending, rd).
     case snd n of
       Failed _ \<Rightarrow> (pending, snd (on_attempt (ledger env) (ledger_request_of req) n rd))
     | Answered _ \<Rightarrow> (Some (fst n), rd))"

definition tools_rejected :: "chat_request \<Rightarrow> llm_error \<Rightarrow> bool" where
  "tools_rejected req e = (req_tools req \<noteq> [] \<and> rejects TOOLS_HINT e)"

text \<open>How a failed request ends: its pending answer becomes a failed attempt, and a rejection of the tools
  drops the stored verdict.\<close>

definition settle_failure :: "client_env \<Rightarrow> chat_request \<Rightarrow> llm_error \<Rightarrow> nat option \<times> recorder \<times> db \<Rightarrow> llm_error \<times> db" where
  "settle_failure env req e = (\<lambda>(pending, rd).
     let lr = ledger_request_of req;
         (rc, d) = (case pending of None \<Rightarrow> rd | Some a \<Rightarrow> snd (on_attempt (ledger env) lr (a, Failed e) rd));
         (e', d') = (if tools_rejected req e then (Capability_Error (error_text e), mark_stale (endpoint req) d) else (e, d)) in
     (e', snd (snd (finalize (ledger env) lr (Failed e') (rc, d')))))"

text \<open>How an answered one ends. An exception of the ledger replaces the result; the row of a provider
  that never called back is tried after it, and raises it again.\<close>

definition settle_answer :: "client_env \<Rightarrow> chat_request \<Rightarrow> json \<Rightarrow> nat option \<times> recorder \<times> db \<Rightarrow> llm_error option \<times> db" where
  "settle_answer env req data = (\<lambda>(pending, rd).
     let lr = ledger_request_of req;
         (e1, rd1) = (case pending of None \<Rightarrow> (None, rd) | Some a \<Rightarrow> on_attempt (ledger env) lr (a, Answered data) rd);
         (e2, rd2) = finalize (ledger env) lr (Answered data) rd1 in
     (case e2 of None \<Rightarrow> e1 | Some e \<Rightarrow> Some e, snd rd2))"

definition tools_gate :: "client_env \<Rightarrow> chat_request \<Rightarrow> db \<Rightarrow> llm_error option \<times> db" where
  "tools_gate env req d = (if req_tools req = [] then (None, d) else ensure_tools_allowed (gate_probe env) False (endpoint req) d)"

definition result_of :: "chat_request \<Rightarrow> provider_run \<Rightarrow> reading_of \<Rightarrow> chat_result" where
  "result_of req run rd =
     \<lparr>res_content = read_content rd, res_model = req_model req, res_usage = read_usage rd, res_attempts = run_attempts run,
      res_request = request_id req, res_tool_calls = read_calls rd, res_template_version = template_version req,
      finish_reason = read_finish rd\<rparr>"

definition conclude :: "client_env \<Rightarrow> chat_request \<Rightarrow> provider_run \<Rightarrow> nat option \<times> recorder \<times> db \<Rightarrow> (llm_error + chat_result) \<times> db" where
  "conclude env req run heard =
     (case and_then (run_result run) (read_response (shown_json env)) of
        Inl e \<Rightarrow> (case settle_failure env req e heard of (e', d) \<Rightarrow> (Inl e', d))
      | Inr rd \<Rightarrow>
          (case settle_answer env req (JObj (read_data rd)) heard of
             (Some e, d) \<Rightarrow> (Inl e, d)
           | (None, d) \<Rightarrow> (Inr (result_of req run rd), d)))"

definition complete :: "client_env \<Rightarrow> chat_request \<Rightarrow> provider_run \<Rightarrow> db \<Rightarrow> (llm_error + chat_result) \<times> db" where
  "complete env req run d =
     (case tools_gate env req d of
        (Some e, d1) \<Rightarrow> (Inl e, d1)
      | (None, d1) \<Rightarrow> conclude env req run (fold (hear env req) (run_notices run) (None, fresh_recorder\<lparr>rec_invoked := True\<rparr>, d1)))"

section \<open>What a run of the transport looks like\<close>

definition is_failure :: "attempt_notice \<Rightarrow> bool" where
  "is_failure n = (case snd n of Failed _ \<Rightarrow> True | Answered _ \<Rightarrow> False)"

text \<open>Failures, numbered from one, and then the answer where there is one.\<close>

definition well_run :: "provider_run \<Rightarrow> bool" where
  "well_run run =
     (\<exists>fs m. map fst (run_notices run) = [1..<Suc m] \<and> m \<le> 3 \<and> list_all is_failure fs \<and>
        run_notices run = fs @ (case run_result run of Inl _ \<Rightarrow> [] | Inr v \<Rightarrow> [(m, Answered v)]))"

lemma fst_notice_of [simp]: "fst (notice_of tenv a) = a"
  by (simp add: notice_of_def)

lemma undecided_failure: "\<not> decided tenv a \<Longrightarrow> is_failure (notice_of tenv a)"
  by (auto simp: decided_def notice_of_def is_failure_def split: reading.splits)

lemma outcome_notice:
  "outcome_of tenv a = Inr (kvs, n) \<Longrightarrow> n = a \<and> notice_of tenv a = (a, Answered (JObj kvs))"
  "outcome_of tenv a = Inl e \<Longrightarrow> is_failure (notice_of tenv a)"
  by (auto simp: outcome_of_def notice_of_def is_failure_def split: reading.splits)

lemma early_notices:
  "n > 0 \<Longrightarrow> map f [1..<Suc n] = map f [1..<n] @ [f n]"
  by simp

lemma real_run_failed:
  "fst (post_chat tenv) = Inl e \<Longrightarrow> run_notices (real_run tenv b) = snd (post_chat tenv) \<and> run_result (real_run tenv b) = Inl e"
  by (auto simp: real_run_def split: prod.split sum.split)

lemma real_run_answered:
  "fst (post_chat tenv) = Inr (kvs, n) \<Longrightarrow> run_notices (real_run tenv b) = snd (post_chat tenv) \<and> run_result (real_run tenv b) = Inr (JObj kvs)"
  by (auto simp: real_run_def split: prod.split sum.split)

lemma real_run_well: "well_run (real_run tenv b)"
proof -
  obtain m where m: "m \<le> 3" "\<forall>a\<in>{1..<m}. \<not> decided tenv a" "snd (post_chat tenv) = map (notice_of tenv) [1..<Suc m]"
    and r: "fst (post_chat tenv) = Inl deadline_elapsed \<and> (1 \<le> m \<longrightarrow> \<not> decided tenv m) \<or> 1 \<le> m \<and> fst (post_chat tenv) = outcome_of tenv m"
    using post_chat_result [of tenv] by blast
  have early: "list_all is_failure (map (notice_of tenv) [1..<m])"
    using m(2) undecided_failure by (simp add: list_all_iff)
  have nums: "map fst (snd (post_chat tenv)) = [1..<Suc m]" unfolding m(3) map_map by (simp add: comp_def del: upt_Suc)
  show ?thesis
  proof (cases "fst (post_chat tenv)")
    case (Inl e)
    have "list_all is_failure (snd (post_chat tenv))"
    proof (cases "m = 0")
      case False
      then have "is_failure (notice_of tenv m)"
        using r Inl outcome_notice(2) [of tenv m e] undecided_failure [of tenv m] by (metis One_nat_def Suc_leI neq0_conv)
      then show ?thesis using early False unfolding m(3) by simp
    qed (use m(3) in simp)
    with real_run_failed [OF Inl] nums m(1) show ?thesis unfolding well_run_def by auto
  next
    case (Inr p)
    obtain kvs n where p: "p = (kvs, n)" by (cases p)
    with Inr r have "1 \<le> m" "outcome_of tenv m = Inr (kvs, n)" by auto
    with outcome_notice(1) m(3) have "snd (post_chat tenv) = map (notice_of tenv) [1..<m] @ [(m, Answered (JObj kvs))]" by simp
    with real_run_answered [OF Inr [unfolded p]] nums m(1) early show ?thesis unfolding well_run_def by auto
  qed
qed

section \<open>The ledger and the request\<close>

text \<open>The error a response makes the ledger raise, which depends on the prices alone.\<close>

definition ledger_error :: "client_env \<Rightarrow> chat_request \<Rightarrow> json \<Rightarrow> db \<Rightarrow> llm_error option" where
  "ledger_error env req data d =
     (case ok_row (ledger env) (ledger_request_of req) 1 data d of Inl e \<Rightarrow> Some e | Inr _ \<Rightarrow> None)"

lemma ok_row_error:
  "model_prices d' = model_prices d \<Longrightarrow>
     (case ok_row (ledger env) (ledger_request_of req) a data d' of Inl e \<Rightarrow> Some e | Inr _ \<Rightarrow> None) = ledger_error env req data d"
  by (auto simp: ledger_error_def ok_row_def and_then_def estimate_cost_def match_price_def split: sum.splits)

lemma commit_row_frame:
  "model_prices (snd (commit_row env row rd)) = model_prices (snd rd)"
  "rec_invoked (fst (commit_row env row rd)) = rec_invoked (fst rd)"
  by (auto simp: commit_row_def Let_def split: prod.split)

lemma on_attempt_frame:
  "model_prices (snd (snd (on_attempt env lr n rd))) = model_prices (snd rd)"
  "rec_invoked (fst (snd (on_attempt env lr n rd))) = rec_invoked (fst rd)"
  by (auto simp: on_attempt_def commit_row_frame split: prod.split notice_outcome.split sum.split)

lemma on_attempt_error:
  "fst (on_attempt (ledger env) (ledger_request_of req) (a, Answered data) (rc, d)) = ledger_error env req data d"
  using ok_row_error [where d = d and d' = d and a = a and env = env and req = req and data = data]
  by (auto simp: on_attempt_def split: sum.split)

lemma hear_frame:
  "model_prices (snd (snd (hear env req n (p, rd)))) = model_prices (snd rd)"
  "rec_invoked (fst (snd (hear env req n (p, rd)))) = rec_invoked (fst rd)"
  by (auto simp: hear_def on_attempt_frame split: notice_outcome.split)

lemma hear_all_frame:
  "model_prices (snd (snd (fold (hear env req) ns (p, rd)))) = model_prices (snd rd) \<and>
   rec_invoked (fst (snd (fold (hear env req) ns (p, rd)))) = rec_invoked (fst rd)"
proof (induction ns arbitrary: p rd)
  case (Cons n ns)
  obtain p' rd' where h: "hear env req n (p, rd) = (p', rd')" by (metis prod.exhaust)
  with hear_frame [of env req n p rd] Cons [of p' rd'] show ?case by simp
qed simp

text \<open>Which attempt waits for its reading depends on the notices alone.\<close>

definition waiting :: "attempt_notice list \<Rightarrow> nat option \<Rightarrow> nat option" where
  "waiting ns p = fold (\<lambda>n q. if is_failure n then q else Some (fst n)) ns p"

lemma hear_all_waiting: "fst (fold (hear env req) ns (p, rd)) = waiting ns p"
proof (induction ns arbitrary: p rd)
  case (Cons n ns)
  obtain p' rd' where h: "hear env req n (p, rd) = (p', rd')" by (metis prod.exhaust)
  then have "p' = (if is_failure n then p else Some (fst n))"
    by (auto simp: hear_def is_failure_def split: notice_outcome.splits)
  with h Cons [of p' rd'] show ?case by (simp add: waiting_def)
qed (simp add: waiting_def)

lemma waiting_failures: "list_all is_failure fs \<Longrightarrow> waiting fs p = p"
  unfolding waiting_def by (induction fs) simp_all

lemma waiting_answer:
  assumes "well_run run" and "run_result run = Inr v"
  shows "\<exists>a. waiting (run_notices run) None = Some a"
proof -
  obtain fs m where "list_all is_failure fs" "run_notices run = fs @ [(m, Answered v)]"
    using assms by (auto simp: well_run_def)
  then show ?thesis using waiting_failures [of fs None] by (simp add: waiting_def is_failure_def)
qed

lemma settle_answer_error:
  "fst (settle_answer env req data (Some a, rd)) = ledger_error env req data (snd rd)"
proof -
  obtain rc d where rd: "rd = (rc, d)" by (cases rd)
  obtain e1 rc1 d1 where 1: "on_attempt (ledger env) (ledger_request_of req) (a, Answered data) (rc, d) = (e1, rc1, d1)" by (metis prod.exhaust)
  have "model_prices d1 = model_prices d" using on_attempt_frame(1) [of "ledger env" "ledger_request_of req" "(a, Answered data)" "(rc, d)"] 1 by simp
  then have same: "ledger_error env req data d1 = ledger_error env req data d"
    using ok_row_error [of d1 d env req 1 data] by (simp add: ledger_error_def)
  have "e1 = ledger_error env req data d" using on_attempt_error [of env req a data rc d] 1 by simp
  moreover have "fst (finalize (ledger env) (ledger_request_of req) (Answered data) (rc1, d1)) \<in> {None, ledger_error env req data d}"
    using on_attempt_error [of env req 1 data rc1 d1] same by (simp add: finalize_def)
  ultimately show ?thesis
    using 1 rd by (auto simp: settle_answer_def Let_def split: prod.split option.split)
qed

lemma ledger_error_same:
  "model_prices d' = model_prices d \<Longrightarrow>
     ledger_error (env\<lparr>ledger := (ledger env)\<lparr>commit_fails := f\<rparr>\<rparr>) req data d' = ledger_error env req data d"
  by (auto simp: ledger_error_def ok_row_def and_then_def estimate_cost_def match_price_def is_local_endpoint_def split: sum.splits)

lemma conclude_same:
  assumes "p = waiting (run_notices (real_run tenv b)) None" and "model_prices (snd rd1) = model_prices (snd rd2)"
  shows "fst (conclude (env\<lparr>ledger := (ledger env)\<lparr>commit_fails := f\<rparr>\<rparr>) req (real_run tenv b) (p, rd1)) =
         fst (conclude env req (real_run tenv b) (p, rd2))"
    (is "fst (conclude ?env req ?run _) = _")
proof (cases "and_then (run_result ?run) (read_response (shown_json env))")
  case (Inl e)
  then show ?thesis by (auto simp: conclude_def settle_failure_def Let_def split: prod.split)
next
  case (Inr rd)
  then obtain v where "run_result ?run = Inr v" by (auto simp: and_then_Inr)
  then obtain a where a: "p = Some a" using waiting_answer [OF real_run_well] assms(1) by metis
  have same: "fst (settle_answer ?env req data (p, rd1)) = fst (settle_answer env req data (p, rd2))" for data
    unfolding a settle_answer_error by (rule ledger_error_same) (rule assms(2))
  have "fst (conclude e req ?run h) = (case fst (settle_answer e req (JObj (read_data rd)) h) of Some x \<Rightarrow> Inl x | None \<Rightarrow> Inr (result_of req ?run rd))"
    if "shown_json e = shown_json env" for e h
    using Inr that by (simp add: conclude_def split: prod.split option.split)
  from this [of ?env "(p, rd1)"] this [of env "(p, rd2)"] show ?thesis using same by simp
qed

text \<open>C19. A ledger that cannot be written does not touch generation: over the real transport, the answer or
  the error of a request is the same whichever of its rows fail to commit.
\<close>

theorem ledger_failures_harmless:
  "fst (complete (env\<lparr>ledger := (ledger env)\<lparr>commit_fails := f\<rparr>\<rparr>) req (real_run tenv b) d) = fst (complete env req (real_run tenv b) d)"
proof -
  let ?env = "env\<lparr>ledger := (ledger env)\<lparr>commit_fails := f\<rparr>\<rparr>" and ?run = "real_run tenv b"
  obtain g d1 where gate: "tools_gate env req d = (g, d1)" by (metis prod.exhaust)
  then have gate': "tools_gate ?env req d = (g, d1)" by (simp add: tools_gate_def split: if_splits)
  let ?start = "(fresh_recorder\<lparr>rec_invoked := True\<rparr>, d1)"
  obtain p1 rd1 where h1: "fold (hear ?env req) (run_notices ?run) (None, ?start) = (p1, rd1)" by (metis prod.exhaust)
  obtain p2 rd2 where h2: "fold (hear env req) (run_notices ?run) (None, ?start) = (p2, rd2)" by (metis prod.exhaust)
  have p: "p1 = waiting (run_notices ?run) None" "p2 = waiting (run_notices ?run) None"
    using hear_all_waiting [of ?env] hear_all_waiting [of env] h1 h2 by (metis fst_conv)+
  have prices: "model_prices (snd rd1) = model_prices (snd rd2)"
    using hear_all_frame [of ?env req "run_notices ?run" None ?start] hear_all_frame [of env req "run_notices ?run" None ?start] h1 h2 by simp
  have "fst (conclude ?env req ?run (p1, rd1)) = fst (conclude env req ?run (p2, rd2))"
    using conclude_same p prices by blast
  then show ?thesis using gate gate' h1 h2 by (simp add: complete_def split: option.split)
qed

section \<open>One row per attempt\<close>

definition entry :: "llm_usage \<Rightarrow> string \<times> int \<times> string" where
  "entry r = (usage_request r, usage_attempt r, usage_status r)"

text \<open>Token counts as providers give them: absent, or integers the column can hold.\<close>

definition plain_count :: "json \<Rightarrow> bool" where
  "plain_count v = (case v of JNull \<Rightarrow> True | JInt i \<Rightarrow> bindable (JInt i) | _ \<Rightarrow> False)"

definition plain_counts :: "(string \<times> json) list \<Rightarrow> bool" where
  "plain_counts kvs =
     (plain_count (json_member ''prompt_tokens'' kvs) \<and> plain_count (json_member ''completion_tokens'' kvs) \<and>
      plain_count (json_member ''total_tokens'' kvs))"

lemma plain_countD: "plain_count v \<Longrightarrow> (v = JNull \<or> (\<exists>i. v = JInt i)) \<and> bindable v"
  by (cases v) (simp_all add: plain_count_def bindable_def)

lemma usages_put: "llm_usages (put_capability k f d) = llm_usages d"
  by (simp add: put_capability_def split: option.split)

lemma usages_gate: "tools_gate env req d = (g, d1) \<Longrightarrow> llm_usages d1 = llm_usages d"
  using gate_db [of "gate_probe env" False "endpoint req" d] probe_endpoint_db [of "gate_probe env" "endpoint req" d]
  by (auto simp: tools_gate_def usages_put split: if_splits)

lemma usages_stale [simp]: "llm_usages (mark_stale k d) = llm_usages d"
  by (simp add: mark_stale_def)

text \<open>A recorder after \<open>rows\<close> were added to the ledger that was \<open>us\<close>.\<close>

definition booked :: "llm_usage list \<Rightarrow> (string \<times> int \<times> string) list \<Rightarrow> recorder \<times> db \<Rightarrow> bool" where
  "booked us es = (\<lambda>(rc, d). rec_invoked rc \<and> rows_recorded rc = length es \<and>
     (\<exists>rows. llm_usages d = us @ rows \<and> map entry rows = es))"

lemma booked_commit:
  assumes "booked us es rd" and "\<forall>k. \<not> commit_fails env k"
    and "bindable (usage_prompt row) \<and> bindable (usage_completion row) \<and> bindable (usage_total row)"
  shows "booked us (es @ [entry row]) (commit_row env row rd)"
  using assms by (auto simp: booked_def commit_row_def Let_def split: prod.splits)

lemma booked_failed:
  assumes "booked us es rd" and "\<forall>k. \<not> commit_fails env k"
  shows "booked us (es @ [(lr_id lr, int a, ''failed'')]) (snd (on_attempt env lr (a, Failed e) rd))"
proof -
  obtain rc d where rd: "rd = (rc, d)" by (cases rd)
  have "entry (failed_row env lr a e d) = (lr_id lr, int a, ''failed'')"
    by (simp add: entry_def failed_row_def base_row_def)
  with booked_commit [OF assms, of "failed_row env lr a e d"] show ?thesis
    by (simp add: rd on_attempt_def failed_row_def base_row_def bindable_def)
qed

lemma plain_cost: "v = JNull \<or> (\<exists>i. v = JInt i) \<Longrightarrow> \<exists>c. tokens_cost v q = Inr c"
  by (auto simp: tokens_cost_def)

lemma plain_estimate:
  assumes "p = JNull \<or> (\<exists>i. p = JInt i)" and "c = JNull \<or> (\<exists>i. c = JInt i)"
  shows "\<exists>x. estimate_cost env url model p c d = Inr x"
proof (cases "match_price model d")
  case (Some price)
  obtain a b where "tokens_cost p (prompt_price price) = Inr a" "tokens_cost c (completion_price price) = Inr b"
    using plain_cost [OF assms(1)] plain_cost [OF assms(2)] by blast
  with Some show ?thesis by (simp add: estimate_cost_def)
qed (simp add: estimate_cost_def)

lemma plain_row:
  assumes "plain_counts usage" and "py_or (json_member ''usage'' data) (JObj []) = JObj usage"
  shows "\<exists>row. ok_row env lr a (JObj data) d = Inr row \<and> entry row = (lr_id lr, int a, ''ok'') \<and>
     bindable (usage_prompt row) \<and> bindable (usage_completion row) \<and> bindable (usage_total row)"
proof -
  let ?g = "\<lambda>k. json_member k usage"
  note counts = assms(1) [unfolded plain_counts_def]
  obtain p c t where g: "?g ''prompt_tokens'' = p" "?g ''completion_tokens'' = c" "?g ''total_tokens'' = t" by blast
  have plain: "(p = JNull \<or> (\<exists>i. p = JInt i)) \<and> bindable p" "(c = JNull \<or> (\<exists>i. c = JInt i)) \<and> bindable c" "bindable t"
    using counts plain_countD unfolding g by blast+
  have "py_get ''usage'' (py_or (JObj data) (JObj [])) = Inr (json_member ''usage'' data)"
    by (cases data) (simp_all add: py_or_def py_get_def)
  then have u: "usage_of (JObj data) = Inr (p, c, t)"
    using assms(2) g by (simp add: usage_of_def)
  obtain x where x: "estimate_cost env (lr_url lr) (lr_model lr) p c d = Inr x"
    using plain_estimate plain by blast
  define row where "row = (base_row env lr a d)\<lparr>usage_status := ''ok'', usage_prompt := p,
      usage_completion := c, usage_total := t, usage_cost := x\<rparr>"
  have "ok_row env lr a (JObj data) d = Inr row" using u x by (simp add: ok_row_def row_def)
  moreover have "entry row = (lr_id lr, int a, ''ok'')" by (simp add: row_def entry_def base_row_def)
  moreover have "usage_prompt row = p" "usage_completion row = c" "usage_total row = t" by (simp_all add: row_def)
  ultimately show ?thesis using plain by blast
qed

lemma booked_answered:
  assumes "booked us es rd" and "\<forall>k. \<not> commit_fails env k" and "plain_counts usage"
    and "py_or (json_member ''usage'' data) (JObj []) = JObj usage"
  shows "booked us (es @ [(lr_id lr, int a, ''ok'')]) (snd (on_attempt env lr (a, Answered (JObj data)) rd))"
    and "fst (on_attempt env lr (a, Answered (JObj data)) rd) = None"
proof -
  obtain rc d where rd: "rd = (rc, d)" by (cases rd)
  obtain row where row: "ok_row env lr a (JObj data) d = Inr row" "entry row = (lr_id lr, int a, ''ok'')"
    "bindable (usage_prompt row) \<and> bindable (usage_completion row) \<and> bindable (usage_total row)"
    using plain_row [OF assms(3,4)] by blast
  from booked_commit [OF assms(1,2) row(3)] row
  show "booked us (es @ [(lr_id lr, int a, ''ok'')]) (snd (on_attempt env lr (a, Answered (JObj data)) rd))"
    and "fst (on_attempt env lr (a, Answered (JObj data)) rd) = None"
    by (simp_all add: rd on_attempt_def)
qed

lemma booked_hear:
  assumes "\<forall>k. \<not> commit_fails (ledger env) k" and "list_all is_failure fs" and "booked us es rd"
  shows "\<exists>rd'. fold (hear env req) fs (p, rd) = (p, rd') \<and>
     booked us (es @ map (\<lambda>n. (request_id req, int (fst n), ''failed'')) fs) rd'"
  using assms(2,3)
proof (induction fs arbitrary: rd es)
  case (Cons n fs)
  then obtain a e where n: "n = (a, Failed e)" by (cases n) (auto simp: is_failure_def split: notice_outcome.splits)
  have "booked us (es @ [(request_id req, int a, ''failed'')]) (snd (on_attempt (ledger env) (ledger_request_of req) n rd))"
    using booked_failed [OF Cons.prems(2) assms(1), of "ledger_request_of req" a e] by (simp add: n ledger_request_of_def)
  from Cons.IH [OF _ this] Cons.prems(1) show ?case by (simp add: hear_def n)
qed simp

lemma booked_finalize:
  "booked us es rd \<Longrightarrow> es \<noteq> [] \<Longrightarrow> finalize env lr out rd = (None, rd)"
  by (auto simp: booked_def finalize_def split: prod.splits)

lemma booked_backfill:
  "booked us [] rd \<Longrightarrow> \<forall>k. \<not> commit_fails env k \<Longrightarrow>
     booked us [(lr_id lr, 1, ''failed'')] (snd (finalize env lr (Failed e) rd))"
  using booked_failed [of us "[]" rd env lr 1 e] by (auto simp: booked_def finalize_def split: prod.splits)

lemma booked_stale: "booked us es (rc, d) \<Longrightarrow> booked us es (rc, mark_stale k d)"
  by (simp add: booked_def)

text \<open>The end of a request, after the failures \<open>es\<close>.\<close>

lemma settle_failure_books:
  assumes "booked us es rd" and "\<forall>k. \<not> commit_fails (ledger env) k"
    and "es' = (case pending of None \<Rightarrow> if es = [] then [(request_id req, 1, ''failed'')] else es
                | Some a \<Rightarrow> es @ [(request_id req, int a, ''failed'')])"
  shows "\<exists>rows. llm_usages (snd (settle_failure env req e (pending, rd))) = us @ rows \<and> map entry rows = es'"
proof -
  let ?lr = "ledger_request_of req"
  have lr: "lr_id ?lr = request_id req" by (simp add: ledger_request_of_def)
  obtain rc d where rd1: "(case pending of None \<Rightarrow> rd | Some a \<Rightarrow> snd (on_attempt (ledger env) ?lr (a, Failed e) rd)) = (rc, d)"
    by (metis prod.exhaust)
  define es1 where "es1 = (case pending of None \<Rightarrow> es | Some a \<Rightarrow> es @ [(request_id req, int a, ''failed'')])"
  have b1: "booked us es1 (rc, d)"
  proof (cases pending)
    case (Some a)
    then show ?thesis using booked_failed [OF assms(1,2), of ?lr a e] rd1 lr by (simp add: es1_def)
  qed (use assms(1) rd1 in \<open>simp add: es1_def\<close>)
  obtain e' d' where settled: "(if tools_rejected req e then (Capability_Error (error_text e), mark_stale (endpoint req) d) else (e, d)) = (e', d')"
    by (metis prod.exhaust)
  then have "d' = d \<or> d' = mark_stale (endpoint req) d" by (auto split: if_splits)
  then have b2: "booked us es1 (rc, d')" using b1 booked_stale [OF b1, of "endpoint req"] by auto
  have end_db: "snd (settle_failure env req e (pending, rd)) = snd (snd (finalize (ledger env) ?lr (Failed e') (rc, d')))"
    using rd1 settled by (simp add: settle_failure_def Let_def)
  have "booked us es' (snd (finalize (ledger env) ?lr (Failed e') (rc, d')))"
  proof (cases "es1 = []")
    case True
    then have "es' = [(request_id req, 1, ''failed'')]" using assms(3) by (auto simp: es1_def split: option.splits)
    then show ?thesis using booked_backfill [OF b2 [unfolded True] assms(2), of ?lr e'] lr by simp
  next
    case False
    then have "es' = es1" using assms(3) by (auto simp: es1_def split: option.splits)
    then show ?thesis using booked_finalize [OF b2 False] b2 by simp
  qed
  then show ?thesis unfolding end_db by (auto simp: booked_def split: prod.splits)
qed

lemma settle_answer_books:
  assumes "booked us es rd" and "\<forall>k. \<not> commit_fails (ledger env) k" and "plain_counts usage"
    and "py_or (json_member ''usage'' data) (JObj []) = JObj usage"
  shows "fst (settle_answer env req (JObj data) (Some a, rd)) = None"
    and "\<exists>rows. llm_usages (snd (settle_answer env req (JObj data) (Some a, rd))) = us @ rows \<and>
           map entry rows = es @ [(request_id req, int a, ''ok'')]"
proof -
  let ?lr = "ledger_request_of req" and ?step = "on_attempt (ledger env) (ledger_request_of req) (a, Answered (JObj data)) rd"
  have lr: "lr_id ?lr = request_id req" by (simp add: ledger_request_of_def)
  note b = booked_answered [OF assms, of ?lr a]
  have fin: "finalize (ledger env) ?lr (Answered (JObj data)) (snd ?step) = (None, snd ?step)"
    by (rule booked_finalize [OF b(1)]) simp
  have run: "settle_answer env req (JObj data) (Some a, rd) = (None, snd (snd ?step))"
    using b(2) fin by (cases ?step) (simp add: settle_answer_def Let_def)
  then show "fst (settle_answer env req (JObj data) (Some a, rd)) = None" by simp
  show "\<exists>rows. llm_usages (snd (settle_answer env req (JObj data) (Some a, rd))) = us @ rows \<and>
           map entry rows = es @ [(request_id req, int a, ''ok'')]"
    unfolding run using b(1) lr by (auto simp: booked_def split: prod.splits)
qed

definition started :: "db \<Rightarrow> recorder \<times> db" where
  "started d = (fresh_recorder\<lparr>rec_invoked := True\<rparr>, d)"

lemma booked_started: "booked (llm_usages d) [] (started d)"
  by (simp add: booked_def started_def fresh_recorder_def)

lemma numbered_failures:
  "map fst fs = xs \<Longrightarrow> map (\<lambda>n. (i, int (fst n), ''failed'')) fs = map (\<lambda>a. (i, int a, ''failed'')) xs"
  by (induction fs arbitrary: xs) auto

text \<open>The entries of a request that made \<open>m\<close> attempts.\<close>

definition entries_of :: "string \<Rightarrow> nat \<Rightarrow> bool \<Rightarrow> (string \<times> int \<times> string) list" where
  "entries_of i m answered = map (\<lambda>a. (i, int a, if a = m \<and> answered then ''ok'' else ''failed'')) [1..<Suc m]"

lemma entries_snoc:
  assumes "1 \<le> m"
  shows "map (\<lambda>a. (i, int a, ''failed'')) [1..<m] @ [(i, int m, if answered then ''ok'' else ''failed'')] = entries_of i m answered"
  using assms by (simp add: entries_of_def)

lemma conclude_failed:
  assumes "and_then (run_result run) (read_response (shown_json env)) = Inl e" and "conclude env req run h = (r, d')"
  shows "d' = snd (settle_failure env req e h)" and "\<exists>e'. r = Inl e'"
  using assms by (auto simp: conclude_def split: prod.splits)

lemma conclude_answered:
  assumes "and_then (run_result run) (read_response (shown_json env)) = Inr rd" and "conclude env req run h = (r, d')"
    and "fst (settle_answer env req (JObj (read_data rd)) h) = None"
  shows "d' = snd (settle_answer env req (JObj (read_data rd)) h)" and "r = Inr (result_of req run rd)"
  using assms by (auto simp: conclude_def split: prod.splits)

lemma read_usage_field:
  "read_response shw raw = Inr rd \<Longrightarrow> py_or (json_member ''usage'' (read_data rd)) (JObj []) = JObj (read_usage rd)"
proof -
  assume "read_response shw raw = Inr rd"
  then obtain data words calls where "(case py_or (json_member ''usage'' data) (JObj []) of
       JObj usage \<Rightarrow> Inr \<lparr>read_data = data, read_content = words, read_calls = calls,
         read_finish = extract_finish_reason data, read_usage = usage\<rparr>
     | _ \<Rightarrow> Inl (bad_format shw (JObj data))) = Inr rd"
    by (auto simp: read_response_def and_then_Inr split: prod.splits)
  then show ?thesis by (cases "py_or (json_member ''usage'' data) (JObj [])") auto
qed

lemma conclude_books:
  assumes ok: "\<forall>k. \<not> commit_fails (ledger env) k" and well: "well_run run"
    and counts: "\<And>rd. and_then (run_result run) (read_response (shown_json env)) = Inr rd \<Longrightarrow> plain_counts (read_usage rd)"
    and run: "conclude env req run (fold (hear env req) (run_notices run) (None, started d)) = (r, d')"
  shows "\<exists>rows. llm_usages d' = llm_usages d @ rows \<and>
     map entry rows = entries_of (request_id req) (max 1 (length (run_notices run))) (\<exists>x. r = Inr x)"
proof -
  let ?i = "request_id req" and ?ns = "run_notices run"
  obtain fs m where fs: "list_all is_failure fs" "map fst ?ns = [1..<Suc m]"
    "?ns = fs @ (case run_result run of Inl _ \<Rightarrow> [] | Inr v \<Rightarrow> [(m, Answered v)])"
    using well by (auto simp: well_run_def)
  have len: "length ?ns = m" using arg_cong [OF fs(2), of length] by simp
  obtain rd1 where heard: "fold (hear env req) fs (None, started d) = (None, rd1)"
    and b: "booked (llm_usages d) (map (\<lambda>n. (?i, int (fst n), ''failed'')) fs) rd1"
    using booked_hear [OF ok fs(1) booked_started, of req None d] by auto
  show ?thesis
  proof (cases "run_result run")
    case (Inl e)
    have ns: "?ns = fs" using fs(3) Inl by simp
    have es: "map (\<lambda>n. (?i, int (fst n), ''failed'')) fs = map (\<lambda>a. (?i, int a, ''failed'')) [1..<Suc m]"
      by (rule numbered_failures) (use fs(2) ns in simp)
    have "and_then (run_result run) (read_response (shown_json env)) = Inl e" using Inl by simp
    note c = conclude_failed [OF this run]
    have "entries_of ?i (max 1 m) (\<exists>x. r = Inr x) = (case None of None \<Rightarrow>
        if map (\<lambda>a. (?i, int a, ''failed'')) [1..<Suc m] = [] then [(?i, 1, ''failed'')] else map (\<lambda>a. (?i, int a, ''failed'')) [1..<Suc m]
        | Some a \<Rightarrow> map (\<lambda>a. (?i, int a, ''failed'')) [1..<Suc m] @ [(?i, int a, ''failed'')])"
      using c(2) by (cases m) (auto simp: entries_of_def)
    from settle_failure_books [OF b [unfolded es] ok this, of e] show ?thesis using c(1) heard ns len by simp
  next
    case (Inr v)
    have ns: "?ns = fs @ [(m, Answered v)]" using fs(3) Inr by simp
    then have m: "1 \<le> m" using len by simp
    have "map fst fs @ [m] = [1..<m] @ [m]" using fs(2) m unfolding ns by simp
    then have es: "map (\<lambda>n. (?i, int (fst n), ''failed'')) fs = map (\<lambda>a. (?i, int a, ''failed'')) [1..<m]"
      by (intro numbered_failures) simp
    have h: "fold (hear env req) ?ns (None, started d) = (Some m, rd1)" using heard by (simp add: ns hear_def)
    show ?thesis
    proof (cases "and_then (run_result run) (read_response (shown_json env))")
      case (Inl e)
      note c = conclude_failed [OF Inl run]
      have "entries_of ?i m (\<exists>x. r = Inr x) = (case Some m of None \<Rightarrow>
          if map (\<lambda>a. (?i, int a, ''failed'')) [1..<m] = [] then [(?i, 1, ''failed'')] else map (\<lambda>a. (?i, int a, ''failed'')) [1..<m]
          | Some a \<Rightarrow> map (\<lambda>a. (?i, int a, ''failed'')) [1..<m] @ [(?i, int a, ''failed'')])"
        using c(2) entries_snoc [OF m, of ?i "\<exists>x. r = Inr x"] by auto
      from settle_failure_books [OF b [unfolded es] ok this, of e] show ?thesis using c(1) h m len by simp
    next
      case (Inr rd)
      have u: "py_or (json_member ''usage'' (read_data rd)) (JObj []) = JObj (read_usage rd)"
        using Inr read_usage_field by (auto simp: and_then_Inr)
      note s = settle_answer_books [OF b [unfolded es] ok counts [OF Inr] u, where a = m and req = req]
      have "fst (settle_answer env req (JObj (read_data rd)) (fold (hear env req) ?ns (None, started d))) = None" using s(1) h by simp
      note c = conclude_answered [OF Inr run this]
      show ?thesis using s(2) c h m len entries_snoc [OF m, of ?i True] by simp
    qed
  qed
qed

text \<open>C18. Every attempt is accounted for. A request over the real transport that passes the gate adds to the
  ledger exactly one row per attempt that was reported, numbered from one, under its own identifier:
  all failed but the last, which is marked as answered exactly when the caller gets a result, so an
  answer that cannot be read counts as failed. A request whose deadline left no report adds one failed
  row. This supposes that the rows can be committed and that token counts are integers or absent.
\<close>

theorem every_attempt_accounted:
  assumes "\<forall>k. \<not> commit_fails (ledger env) k" and "tools_gate env req d = (None, d0)"
    and "\<And>rd. and_then (run_result (real_run tenv b)) (read_response (shown_json env)) = Inr rd \<Longrightarrow> plain_counts (read_usage rd)"
    and "complete env req (real_run tenv b) d = (r, d')"
  shows "\<exists>rows. llm_usages d' = llm_usages d @ rows \<and>
     map entry rows = entries_of (request_id req) (max 1 (length (snd (post_chat tenv)))) (\<exists>x. r = Inr x)"
proof -
  have "conclude env req (real_run tenv b) (fold (hear env req) (run_notices (real_run tenv b)) (None, started d0)) = (r, d')"
    using assms(2,4) by (simp add: complete_def started_def)
  from conclude_books [OF assms(1) real_run_well assms(3) this] usages_gate [OF assms(2)]
  show ?thesis using real_run_failed real_run_answered by (cases "fst (post_chat tenv)") auto
qed

section \<open>Examples\<close>

definition sample_request :: chat_request where
  "sample_request =
     \<lparr>system_prompt = ''be brief'', user_prompt = ''hi'', req_model = ''qwen'', req_api_url = ''http://llm/v1'', req_sampling = None,
      extra_payload = [], req_tools = [], request_id = ''r1'', req_action = None, req_agent = None, template_version = None\<rparr>"

definition sample_client :: client_env where
  "sample_client =
     \<lparr>ledger = \<lparr>host_of = (\<lambda>_. ''llm''), private_address = (\<lambda>_. False), commit_fails = (\<lambda>_. False), ledger_now = 0\<rparr>,
      gate_probe = silent, shown_json = (\<lambda>_. '''')\<rparr>"

definition answering :: "json \<Rightarrow> request_env" where
  "answering usage =
     \<lparr>replies = (\<lambda>a. if a = 1 then No_Reply ''ConnectionError'' ''refused''
                 else Reply 200 ''{..}'' (Inr (JObj
                   [(''choices'', JList [JObj [(''message'', JObj [(''content'', JStr ''hello'')]), (''finish_reason'', JStr ''stop'')]]),
                    (''usage'', usage)]))),
      time_left = None, post_url = ''http://llm/v1/chat/completions'', request_key = ''r1'', show_json = (\<lambda>_. '''')\<rparr>"

lemma sample_run:
  "llm_usages empty_db = [] \<and> request_id sample_request = ''r1''"
  "length (snd (post_chat (answering (JObj [(''prompt_tokens'', JInt 7)])))) = 2"
  "map_option res_content (case fst (complete sample_client sample_request (real_run (answering (JObj [(''prompt_tokens'', JInt 7)])) 0) empty_db) of
     Inl _ \<Rightarrow> None | Inr x \<Rightarrow> Some x) = Some ''hello''"
  "case and_then (run_result (real_run (answering (JObj [(''prompt_tokens'', JInt 7)])) 0)) (read_response (shown_json sample_client)) of
     Inl _ \<Rightarrow> True | Inr rd \<Rightarrow> plain_counts (read_usage rd)"
  by code_simp+

theorem every_attempt_accounted_witness:
  "\<exists>rows. llm_usages (snd (complete sample_client sample_request (real_run (answering (JObj [(''prompt_tokens'', JInt 7)])) 0) empty_db)) = rows \<and>
     map entry rows = [(''r1'', 1, ''failed''), (''r1'', 2, ''ok'')]"
proof -
  let ?t = "answering (JObj [(''prompt_tokens'', JInt 7)])"
  obtain r d' where c: "complete sample_client sample_request (real_run ?t 0) empty_db = (r, d')" by (metis prod.exhaust)
  have "\<exists>x. r = Inr x" using sample_run(3) c by (cases r) simp_all
  moreover have "tools_gate sample_client sample_request empty_db = (None, empty_db)" by (simp add: tools_gate_def sample_request_def)
  moreover have "\<forall>k. \<not> commit_fails (ledger sample_client) k" by (simp add: sample_client_def)
  moreover have "plain_counts (read_usage rd)"
    if "and_then (run_result (real_run ?t 0)) (read_response (shown_json sample_client)) = Inr rd" for rd
    using sample_run(4) that by simp
  ultimately show ?thesis
    using every_attempt_accounted [OF _ _ _ c] sample_run(1,2) c by (simp add: entries_of_def)
qed

text \<open>
  Writing the ledger never raises, but pricing does: where the model has a price, a provider that
  counts tokens in strings makes the request fail although it answered.
\<close>

definition priced_db :: db where
  "priced_db = empty_db\<lparr>model_prices := [\<lparr>price_id = 1, price_pattern = ''qwen*'', prompt_price = 1, completion_price = 2\<rparr>]\<rparr>"

lemma price_breaks_request:
  "(case fst (complete sample_client sample_request (real_run (answering (JObj [(''prompt_tokens'', JStr ''7'')])) 0) priced_db) of
     Inl e \<Rightarrow> Some (error_class e) | Inr _ \<Rightarrow> None) = Some ''TypeError''"
  "(case fst (complete sample_client sample_request (real_run (answering (JObj [(''prompt_tokens'', JStr ''7'')])) 0) empty_db) of
     Inl e \<Rightarrow> None | Inr x \<Rightarrow> Some (res_content x)) = Some ''hello''"
  by code_simp+

text \<open>
  A rejection of the tools drops the stored row whoever wrote it, a human's override and the vision
  verdict with it.
\<close>

definition rejecting :: request_env where
  "rejecting = (answering JNull)\<lparr>replies := (\<lambda>_. Reply 400 ''tools are unavailable right now'' (Inl ''''))\<rparr>"

lemma rejection_drops_override:
  "get_capability qwen (snd (complete sample_client (sample_request\<lparr>req_tools := [JObj []]\<rparr>) (real_run rejecting 0)
     (set_manual_override qwen True 5 (set_vision_manual_override qwen True 4 empty_db)))) = None"
  by code_simp

end
