(* ===== verification/Memory.thy ===== *)
theory Memory
  imports Client Texts Runs
begin

text \<open>
  \<open>deaddit/agents/memory.py\<close>: the note written after a visit, the backfill of a persona's history in
  chunks, and the memory a visit is shown. A language model may be asked to summarise a chunk; without
  one, or when it fails, the summary is extracted.
\<close>

section \<open>Text\<close>

definition clean_text :: "string option \<Rightarrow> string" where
  "clean_text text = join_with '' '' (split_words (case text of None \<Rightarrow> [] | Some s \<Rightarrow> s))"

definition snippet :: "string option \<Rightarrow> nat \<Rightarrow> string" where
  "snippet text limit =
     (let s = clean_text text in if length s \<le> limit then s else py_rstrip (take (limit - 3) s) @ ''...'')"

text \<open>\<open>Counter\<close>: counts in the order the keys were first seen.\<close>

fun count_up :: "string \<Rightarrow> (string \<times> nat) list \<Rightarrow> (string \<times> nat) list" where
  "count_up w [] = [(w, 1)]"
| "count_up w ((v, n) # c) = (if v = w then (v, n + 1) # c else (v, n) # count_up w c)"

definition counter :: "string list \<Rightarrow> (string \<times> nat) list" where
  "counter ws = fold count_up ws []"

definition most_common :: "nat \<Rightarrow> (string \<times> nat) list \<Rightarrow> (string \<times> nat) list" where
  "most_common k c = take k (sort_key (\<lambda>(w, n). - int n) c)"

definition str_nat :: "nat \<Rightarrow> string" where
  "str_nat n = py_str_int (int n)"

section \<open>The note after a visit\<close>

definition inventory :: "(string \<times> nat) list \<Rightarrow> string" where
  "inventory c = join_with '', '' (map (\<lambda>(w, n). if 1 < n then w @ '' x'' @ str_nat n else w) c)"

definition created_of :: "(string \<times> nat) list \<Rightarrow> string" where
  "created_of c =
     join_with '', '' (map (\<lambda>(w, n). str_nat n @ '' '' @ drop 7 w @ (if 1 < n then ''s'' else [])) c)"

definition first_error :: "tool_call list \<Rightarrow> string" where
  "first_error calls =
     (case List.map_filter (\<lambda>c. case call_error c of None \<Rightarrow> None | Some e \<Rightarrow> if e = [] then None else Some e) calls of
        [] \<Rightarrow> [] | e # _ \<Rightarrow> e)"

definition episode_content :: "tool_call list \<Rightarrow> string" where
  "episode_content calls =
     (let failed = filter (\<lambda>c. \<not> call_ok c) calls;
          stock = inventory (counter (map call_name calls));
          example = first_error failed;
          created = counter (map call_name (filter (\<lambda>c. call_ok c \<and> starts_with ''create_'' (call_name c)) calls)) in
      join_with '' '' (take 3
        ([''Last visit: '' @ str_nat (length calls) @ '' tool action(s), '' @ str_nat (length (filter call_ok calls)) @ '' ok / '' @
            str_nat (length failed) @ '' error'' @ (if stock = [] then ''.'' else '': '' @ stock @ ''.'')] @
         (if failed = [] then [] else
            [str_nat (length failed) @ '' action(s) errored'' @
               (if example = [] then [] else '' e.g. \"'' @ snippet (Some example) 80 @ ''\"'') @ ''.'']) @
         (if created = [] then [] else [''Created '' @ created_of created @ ''.'']))))"

definition add_memory :: "username \<Rightarrow> string \<Rightarrow> string \<Rightarrow> timestamp \<Rightarrow> db \<Rightarrow> db" where
  "add_memory who knd txt now d =
     d\<lparr>memories := memories d @
        [\<lparr>memory_id = next_id memory_id (memories d), memory_user = who, memory_kind = knd, memory_content = txt,
          memory_created_at = now\<rparr>]\<rparr>"

definition summarize_run :: "agent_run \<Rightarrow> timestamp \<Rightarrow> db \<Rightarrow> db" where
  "summarize_run r now d =
     (let calls = sort_key call_id (filter (\<lambda>c. call_run c = run_id r) (tool_calls d)) in
      add_memory (persona_username r) ''episode''
        (if calls = [] then ''Woke up, looked around, and finished without taking any tool actions.'' else episode_content calls) now d)"

section \<open>The history of a persona\<close>

record history_item =
  hist_post :: bool
  hist_at :: timestamp
  hist_title :: string
  hist_text :: "string option"

definition post_item :: "post \<Rightarrow> history_item" where
  "post_item p = \<lparr>hist_post = True, hist_at = created_at p, hist_title = title p, hist_text = content p\<rparr>"

definition comment_item :: "comment \<Rightarrow> history_item" where
  "comment_item c = \<lparr>hist_post = False, hist_at = created_at c, hist_title = [], hist_text = content c\<rparr>"

definition persona_items :: "username \<Rightarrow> db \<Rightarrow> history_item list" where
  "persona_items who d =
     sort_key hist_at
       (map post_item (sort_key created_at (filter (\<lambda>p. author p = who) (posts d))) @
        map comment_item (sort_key created_at (filter (\<lambda>c. author c = who) (comments d))))"

definition CHUNK_SIZE :: nat where
  "CHUNK_SIZE = 15"

definition MAX_CHUNKS :: nat where
  "MAX_CHUNKS = 20"

definition chunks_of :: "'a list \<Rightarrow> 'a list list" where
  "chunks_of xs =
     take MAX_CHUNKS (map (\<lambda>i. take CHUNK_SIZE (drop (i * CHUNK_SIZE) xs)) [0..<(length xs + CHUNK_SIZE - 1) div CHUNK_SIZE])"

definition STOPWORDS :: "string list" where
  "STOPWORDS =
     [''about'', ''also'', ''been'', ''because'', ''just'', ''know'', ''like'', ''more'', ''most'', ''much'', ''only'', ''over'',
      ''really'', ''some'', ''than'', ''that'', ''their'', ''them'', ''then'', ''there'', ''they'', ''think'', ''this'', ''very'',
      ''was'', ''were'', ''what'', ''when'', ''which'', ''with'', ''would'', ''your'']"

text \<open>A word starts with a letter and has at least four letters or apostrophes.\<close>

definition topic_words :: "string \<Rightarrow> string list" where
  "topic_words s =
     filter (\<lambda>w. w \<notin> set STOPWORDS)
       (map py_lower (filter (\<lambda>w. 4 \<le> length w)
         (map (dropWhile (\<lambda>c. c = CHR 0x27)) (word_runs (\<lambda>c. is_lower_ascii c \<or> is_upper_ascii c \<or> c = CHR 0x27) s))))"

definition item_text :: "history_item \<Rightarrow> string" where
  "item_text h = join_with '' '' (filter (\<lambda>s. s \<noteq> []) [hist_title h, case hist_text h of None \<Rightarrow> [] | Some s \<Rightarrow> s])"

definition extractive_summary :: "history_item list \<Rightarrow> string" where
  "extractive_summary chunk =
     (let ps = filter hist_post chunk;
          top = join_with '', '' (map fst (most_common 6 (counter (concat (map (topic_words \<circ> item_text) chunk)))));
          titles = take 3 (map (\<lambda>h. snippet (Some (hist_title h)) 80) (filter (\<lambda>h. hist_title h \<noteq> []) ps)) in
      ''Extracted summary: '' @ join_with ''; ''
        ([''wrote '' @ str_nat (length ps) @ '' post(s) and '' @ str_nat (length chunk - length ps) @ '' comment(s)''] @
         (if top = [] then [] else [''recurring topics: '' @ top]) @
         (if titles = [] then [] else [''representative titles: '' @ join_with ''; '' (map (\<lambda>t. ''\"'' @ t @ ''\"'') titles)])) @ ''.'')"

definition item_line :: "history_item \<Rightarrow> string" where
  "item_line h =
     (case civil_date (hist_at h div days 1) of (y, m, d) \<Rightarrow>
        let stamp = py_str_int y @ ''-'' @ two_digits m @ ''-'' @ two_digits d; body = snippet (hist_text h) 200 in
        if hist_post h then ''[post] '' @ stamp @ '' - '' @ hist_title h @ '': '' @ body else ''[comment] '' @ stamp @ '' - '' @ body)"

definition chunk_text :: "history_item list \<Rightarrow> string" where
  "chunk_text chunk = join_with [CHR 0x0A] (map item_line chunk)"

section \<open>The backfill\<close>

definition BACKFILL_PREFIX :: string where
  "BACKFILL_PREFIX = ''History (before becoming an agent):''"

text \<open>A model asked for the summary of a text: its answer or error, and what asking left behind. There is
  none when no endpoint and model are given.\<close>

type_synonym summarizer = "(string \<Rightarrow> db \<Rightarrow> (llm_error + string) \<times> db) option"

definition chunk_paragraph :: "summarizer \<Rightarrow> history_item list \<Rightarrow> db \<Rightarrow> string \<times> db" where
  "chunk_paragraph ask chunk d =
     (case ask of
        None \<Rightarrow> (extractive_summary chunk, d)
      | Some f \<Rightarrow>
          (case f (''Summarize this person'' @ [CHR 0x27] @ ''s forum activity in third person:'' @ [CHR 0x0A, CHR 0x0A] @ chunk_text chunk) d of
             (Inl _, d') \<Rightarrow> (extractive_summary chunk, d')
           | (Inr s, d') \<Rightarrow> (if clean_text (Some s) = [] then extractive_summary chunk else clean_text (Some s), d')))"

definition backfill_label :: "nat \<Rightarrow> nat \<Rightarrow> string" where
  "backfill_label i n = BACKFILL_PREFIX @ '' ['' @ str_nat i @ ''/'' @ str_nat n @ ''] ''"

fun backfill_chunks :: "summarizer \<Rightarrow> username \<Rightarrow> nat \<Rightarrow> timestamp \<Rightarrow> nat \<Rightarrow> history_item list list \<Rightarrow> db \<Rightarrow> db" where
  "backfill_chunks ask who n now i [] d = d"
| "backfill_chunks ask who n now i (chunk # chunks) d =
     (case chunk_paragraph ask chunk d of (txt, d') \<Rightarrow>
        backfill_chunks ask who n now (i + 1) chunks (add_memory who ''backfill'' (backfill_label i n @ txt) now d'))"

definition has_backfill :: "username \<Rightarrow> db \<Rightarrow> bool" where
  "has_backfill who d = list_ex (\<lambda>m. memory_user m = who \<and> memory_kind m = ''backfill'') (memories d)"

definition backfill_persona_history :: "summarizer \<Rightarrow> username \<Rightarrow> timestamp \<Rightarrow> db \<Rightarrow> (string + nat) \<times> db" where
  "backfill_persona_history ask who now d =
     (if find_row user_name who (users d) = None then (Inl (''No such user '' @ quoted who), d)
      else if has_backfill who d then (Inr 0, d)
      else let chunks = chunks_of (persona_items who d) in
        (Inr (length chunks), backfill_chunks ask who (length chunks) now 1 chunks d))"

definition ensure_lazy_backfill :: "agent \<Rightarrow> username \<Rightarrow> timestamp \<Rightarrow> db \<Rightarrow> db" where
  "ensure_lazy_backfill a who now d =
     (if persona_mode a \<noteq> ''random'' \<or>
         \<not> py_truthy (case map_of (config_items (agent_config a)) ''backfill_memory'' of None \<Rightarrow> JNull | Some v \<Rightarrow> v) then d
      else snd (backfill_persona_history None who now d))"

section \<open>What a visit is shown\<close>

definition memories_of :: "username \<Rightarrow> string \<Rightarrow> db \<Rightarrow> agent_memory list" where
  "memories_of who knd d = filter (\<lambda>m. memory_user m = who \<and> memory_kind m = knd) (memories d)"

definition visit_memories :: "username \<Rightarrow> db \<Rightarrow> (string list \<times> string list) option" where
  "visit_memories who d =
     (let backfills = take 3 (sort_key memory_id (memories_of who ''backfill'' d));
          episodes = take 5 (order_desc memory_id (memories_of who ''episode'' d)) in
      if backfills = [] \<and> episodes = [] then None
      else Some (map memory_content backfills, map memory_content (rev episodes)))"

section \<open>The model that is asked\<close>

definition history_system_prompt :: string where
  "history_system_prompt =
     ''You are writing a private memory file for a person who is about to become an autonomous agent. Summarize their past '' @
     ''forum activity faithfully in third person: what they did, the topics they care about, and their tone. Do not invent '' @
     ''anything; stick to the material given.''"

definition history_request :: "string \<Rightarrow> string \<Rightarrow> string \<Rightarrow> string \<Rightarrow> chat_request" where
  "history_request url model rid prompt =
     \<lparr>system_prompt = history_system_prompt, user_prompt = prompt, req_model = model, req_api_url = url,
      req_sampling = Some \<lparr>temperature = Some (3 / 10), max_tokens = 2048, stop_words = None\<rparr>, extra_payload = [], req_tools = [],
      request_id = rid, req_action = None, req_agent = None, template_version = None\<rparr>"

definition ask_model :: "client_env \<Rightarrow> (string \<Rightarrow> provider_run) \<Rightarrow> (string \<Rightarrow> chat_request) \<Rightarrow> string \<Rightarrow> db \<Rightarrow> (llm_error + string) \<times> db" where
  "ask_model env run req prompt d =
     (case complete env (req prompt) (run prompt) d of
        (Inl e, d') \<Rightarrow> (Inl e, d')
      | (Inr r, d') \<Rightarrow> (Inr (res_content r), d'))"

text \<open>Asking leaves the users and the memories alone.\<close>

definition quiet :: "summarizer \<Rightarrow> bool" where
  "quiet ask = (\<forall>f s d. ask = Some f \<longrightarrow> memories (snd (f s d)) = memories d \<and> users (snd (f s d)) = users d)"

definition untouched :: "db \<Rightarrow> db \<Rightarrow> bool" where
  "untouched d d' = (memories d' = memories d \<and> users d' = users d)"

lemma untouched_trans: "untouched a b \<Longrightarrow> untouched b c \<Longrightarrow> untouched a c"
  by (simp add: untouched_def)

lemma untouched_refl [simp]: "untouched d d"
  by (simp add: untouched_def)

lemma on_attempt_untouched: "untouched (snd rd) (snd (snd (on_attempt env lr n rd)))"
  by (auto simp: untouched_def on_attempt_def commit_row_def Let_def split: prod.split notice_outcome.split sum.split)

lemma finalize_untouched: "untouched (snd rd) (snd (snd (finalize env lr out rd)))"
  using on_attempt_untouched [of rd env lr "(1, out)"] by (cases rd) (simp add: finalize_def)

lemma hear_untouched: "untouched (snd rd) (snd (snd (fold (hear env req) ns (p, rd))))"
proof (induction ns arbitrary: p rd)
  case (Cons n ns)
  obtain p' rd' where h: "hear env req n (p, rd) = (p', rd')" by (metis prod.exhaust)
  then have "untouched (snd rd) (snd rd')"
    using on_attempt_untouched [of rd "ledger env" "ledger_request_of req" n] by (auto simp: hear_def split: notice_outcome.splits)
  with h Cons [of rd' p'] show ?case by (auto intro: untouched_trans)
qed simp

lemma settle_failure_untouched: "untouched (snd rd) (snd (settle_failure env req e (p, rd)))"
proof -
  let ?lr = "ledger_request_of req"
  obtain rc d where 1: "(case p of None \<Rightarrow> rd | Some a \<Rightarrow> snd (on_attempt (ledger env) ?lr (a, Failed e) rd)) = (rc, d)"
    by (metis prod.exhaust)
  have a: "untouched (snd rd) d"
  proof (cases p)
    case (Some a)
    then show ?thesis using 1 on_attempt_untouched [of rd "ledger env" ?lr "(a, Failed e)"] by simp
  qed (use 1 in simp)
  obtain e' d' where 2: "(if tools_rejected req e then (Capability_Error (error_text e), mark_stale (endpoint req) d) else (e, d)) = (e', d')"
    by (metis prod.exhaust)
  have b: "untouched d d'" using 2 by (auto simp: untouched_def mark_stale_def split: if_splits)
  have "settle_failure env req e (p, rd) = (e', snd (snd (finalize (ledger env) ?lr (Failed e') (rc, d'))))"
    using 1 2 by (simp add: settle_failure_def Let_def)
  then show ?thesis using untouched_trans [OF untouched_trans [OF a b] finalize_untouched [of "(rc, d')", simplified]] by simp
qed

lemma settle_answer_untouched: "untouched (snd rd) (snd (settle_answer env req data (p, rd)))"
proof -
  let ?lr = "ledger_request_of req"
  obtain e1 rd1 where 1: "(case p of None \<Rightarrow> (None, rd) | Some a \<Rightarrow> on_attempt (ledger env) ?lr (a, Answered data) rd) = (e1, rd1)"
    by (metis prod.exhaust)
  have a: "untouched (snd rd) (snd rd1)"
  proof (cases p)
    case (Some a)
    then show ?thesis using 1 on_attempt_untouched [of rd "ledger env" ?lr "(a, Answered data)"] by simp
  qed (use 1 in simp)
  have "snd (settle_answer env req data (p, rd)) = snd (snd (finalize (ledger env) ?lr (Answered data) rd1))"
    using 1 by (simp add: settle_answer_def Let_def split: prod.split)
  then show ?thesis using untouched_trans [OF a finalize_untouched] by simp
qed

lemma conclude_untouched: "untouched (snd rd) (snd (conclude env req run (p, rd)))"
  using settle_failure_untouched [of rd env req _ p] settle_answer_untouched [of rd env req _ p]
  by (auto simp: conclude_def split: sum.split prod.split option.split) (metis snd_conv)+

lemma complete_untouched: "req_tools req = [] \<Longrightarrow> untouched d (snd (complete env req run d))"
proof -
  assume "req_tools req = []"
  moreover obtain p rd where h: "fold (hear env req) (run_notices run) (None, fresh_recorder\<lparr>rec_invoked := True\<rparr>, d) = (p, rd)"
    by (metis prod.exhaust)
  moreover have "untouched d (snd rd)"
    using hear_untouched [of "(fresh_recorder\<lparr>rec_invoked := True\<rparr>, d)" env req "run_notices run" None] h by simp
  ultimately show ?thesis using untouched_trans conclude_untouched
    by (simp add: complete_def tools_gate_def)
qed

lemma ask_model_quiet: "quiet (Some (ask_model env run (history_request url model rid)))"
proof -
  have "untouched d (snd (ask_model env run (history_request url model rid) s d))" for s d
    using complete_untouched [of "history_request url model rid s" d env "run s"]
    by (auto simp: ask_model_def history_request_def split: prod.split sum.split)
  then show ?thesis by (simp add: quiet_def untouched_def)
qed

section \<open>What the backfill promises\<close>

lemma concat_chunks:
  "concat (map (\<lambda>i. take s (drop (i * s) xs)) [0..<n]) = take (n * s) xs"
  by (induction n) (simp_all add: take_add [symmetric] add.commute)

lemma chunks_cover: "concat (chunks_of xs) = take (MAX_CHUNKS * CHUNK_SIZE) xs"
proof -
  let ?n = "(length xs + CHUNK_SIZE - 1) div CHUNK_SIZE"
  have "chunks_of xs = map (\<lambda>i. take CHUNK_SIZE (drop (i * CHUNK_SIZE) xs)) [0..<min MAX_CHUNKS ?n]"
    by (simp add: chunks_of_def take_map min_def)
  then have "concat (chunks_of xs) = take (min MAX_CHUNKS ?n * CHUNK_SIZE) xs" by (simp add: concat_chunks)
  moreover have len: "length xs \<le> ?n * CHUNK_SIZE" by (simp add: CHUNK_SIZE_def)
  moreover have "length xs \<le> MAX_CHUNKS * CHUNK_SIZE" if "?n \<le> MAX_CHUNKS" using that len by (meson le_trans mult_le_mono1)
  ultimately show ?thesis by (cases "MAX_CHUNKS \<le> ?n") (simp_all add: min_def)
qed

lemma chunks_nonempty: "chunks_of xs \<noteq> [] \<longleftrightarrow> xs \<noteq> []"
  by (cases xs) (auto simp: chunks_of_def MAX_CHUNKS_def CHUNK_SIZE_def)

definition backfilled :: "username \<Rightarrow> nat \<Rightarrow> nat \<Rightarrow> agent_memory \<Rightarrow> bool" where
  "backfilled who n i m = (memory_user m = who \<and> memory_kind m = ''backfill'' \<and> starts_with (backfill_label i n) (memory_content m))"

lemma chunk_paragraph_quiet: "quiet ask \<Longrightarrow> untouched d (snd (chunk_paragraph ask chunk d))"
  by (auto simp: quiet_def untouched_def chunk_paragraph_def split: option.split prod.split sum.split) (metis snd_conv)+

lemma backfill_chunks_rows:
  assumes "quiet ask"
  shows "\<exists>rows. memories (backfill_chunks ask who n now i cs d) = memories d @ rows \<and> length rows = length cs \<and>
     (\<forall>j < length rows. backfilled who n (i + j) (rows ! j)) \<and> users (backfill_chunks ask who n now i cs d) = users d"
proof (induction cs arbitrary: i d)
  case (Cons c cs)
  obtain par d1 where p: "chunk_paragraph ask c d = (par, d1)" by (metis prod.exhaust)
  have same: "memories d1 = memories d" "users d1 = users d"
    using chunk_paragraph_quiet [OF assms, of d c] p by (simp_all add: untouched_def)
  let ?d2 = "add_memory who ''backfill'' (backfill_label i n @ par) now d1"
  obtain m where m: "memories ?d2 = memories d @ [m]" "backfilled who n i m"
    using same by (auto simp: add_memory_def backfilled_def starts_with_iff)
  obtain rows where rows: "memories (backfill_chunks ask who n now (i + 1) cs ?d2) = memories ?d2 @ rows" "length rows = length cs"
    "\<forall>j < length rows. backfilled who n (i + 1 + j) (rows ! j)" "users (backfill_chunks ask who n now (i + 1) cs ?d2) = users ?d2"
    using Cons by blast
  have "backfilled who n (i + j) ((m # rows) ! j)" if "j < length (m # rows)" for j
    using rows(3) m(2) that by (cases j) auto
  moreover have "users ?d2 = users d" using same by (simp add: add_memory_def)
  ultimately show ?case using p rows m(1) by (intro exI [of _ "m # rows"]) (auto simp: add_memory_def)
qed simp


text \<open>
  A process that dies between two chunks leaves the rows it committed, and with them the mark that the
  backfill was done: the rest of the history is never written.
\<close>

lemma interrupted_backfill_stays:
  assumes "quiet ask" and "find_row user_name who (users d) \<noteq> None" and "cs \<noteq> []"
  shows "backfill_persona_history ask' who now' (backfill_chunks ask who n now 1 cs d) =
     (Inr 0, backfill_chunks ask who n now 1 cs d)"
proof -
  obtain rows where rows: "memories (backfill_chunks ask who n now 1 cs d) = memories d @ rows" "length rows = length cs"
    "\<forall>j < length rows. backfilled who n (1 + j) (rows ! j)" "users (backfill_chunks ask who n now 1 cs d) = users d"
    using backfill_chunks_rows [OF assms(1)] by blast
  then have "backfilled who n 1 (rows ! 0)" "rows ! 0 \<in> set rows" using assms(3) by auto
  then have "has_backfill who (backfill_chunks ask who n now 1 cs d)"
    using rows(1) by (auto simp: has_backfill_def list_ex_iff backfilled_def)
  then show ?thesis using assms(2) rows(4) by (auto simp: backfill_persona_history_def)
qed

section \<open>What a visit remembers\<close>

lemma insort_key_last: "k a \<le> k x \<Longrightarrow> insort_key k a (ys @ [x]) = insort_key k a ys @ [x]"
  by (induction ys) auto

lemma sort_key_snoc_last: "\<forall>r \<in> set xs. k r \<le> k x \<Longrightarrow> sort_key k (xs @ [x]) = sort_key k xs @ [x]"
  by (induction xs) (simp_all add: insort_key_last)

text \<open>The note of the last visit is the last one the next visit is shown, after at most four others and
  at most three rows of history.\<close>

lemma last_note_shown:
  assumes "persona_username r = who"
  shows "\<exists>b e ws. visit_memories who (summarize_run r now d) = Some (b, e @ [ws]) \<and> length b \<le> 3 \<and> length e \<le> 4 \<and>
     memories (summarize_run r now d) =
       memories d @ [\<lparr>memory_id = next_id memory_id (memories d), memory_user = who, memory_kind = ''episode'', memory_content = ws,
                      memory_created_at = now\<rparr>]"
proof -
  obtain ws where ws: "memories (summarize_run r now d) =
       memories d @ [\<lparr>memory_id = next_id memory_id (memories d), memory_user = who, memory_kind = ''episode'', memory_content = ws,
                      memory_created_at = now\<rparr>]" (is "_ = _ @ [?m]")
    using assms by (simp add: summarize_run_def add_memory_def Let_def)
  have "memories_of who ''episode'' (summarize_run r now d) = memories_of who ''episode'' d @ [?m]"
    by (simp add: memories_of_def ws)
  then have "order_desc memory_id (memories_of who ''episode'' (summarize_run r now d)) = ?m # order_desc memory_id (memories_of who ''episode'' d)"
    using next_id_gt [of _ "memories d" memory_id]
    by (simp add: order_desc_def memories_of_def) (subst sort_key_snoc_last; auto simp: less_imp_le)
  then have "visit_memories who (summarize_run r now d) =
     Some (map memory_content (take 3 (sort_key memory_id (memories_of who ''backfill'' (summarize_run r now d)))),
           map memory_content (rev (take 4 (order_desc memory_id (memories_of who ''episode'' d)))) @ [ws])"
    by (simp add: visit_memories_def Let_def)
  then show ?thesis using ws by (intro exI conjI) auto
qed

section \<open>Example\<close>

definition veteran :: db where
  "veteran = empty_db\<lparr>users := [sample_user ''ann''], posts := [sample_post 1 ''ann'']\<rparr>"

definition biographer :: summarizer where
  "biographer = Some (ask_model sample_client (\<lambda>_. real_run (answering JNull) 0) (history_request ''http://llm/v1'' ''qwen'' ''h1''))"

lemma veteran_facts:
  "length (chunks_of (persona_items ''ann'' veteran)) = 1" "persona_items ''ann'' veteran \<noteq> []"
  "find_row user_name ''ann'' (users veteran) \<noteq> None" "\<not> has_backfill ''ann'' veteran"
  by code_simp+


lemma veteran_summary:
  "map memory_content (memories (snd (backfill_persona_history None ''ann'' 5 veteran))) =
     [''History (before becoming an agent): [1/1] Extracted summary: wrote 1 post(s) and 0 comment(s); recurring topics: hello, text; representative titles: \"hello\".'']"
  by code_simp

end
