(* ===== verification/Live.thy ===== *)
theory Live
  imports Content Texts "HOL-Library.Multiset"
begin

text \<open>
  \<open>deaddit/live.py\<close> and \<open>deaddit/runtime/live_pump.py\<close>: the merged feed of posts, comments and votes, its
  pages by cursor, and the count of new events pushed to the room. A cursor is the triple its text
  encodes; unpacking base64 and JSON, reading ISO times and unescaping HTML are arguments, as is
  the ellipsis, which is beyond Latin-1. Links follow from the community, post and comment of an event and are left out, as are the
  thumbnails and the filter chips. A page is \<open>recent\<close> over \<open>collect_events\<close>; \<open>live_events\<close> is the reference
  it is proved equal to. The pump is its state after joins, departures, acknowledgements and ticks, its
  thread being the sequence of its ticks; a watermark query that fails is left out.
\<close>

section \<open>Cursors and kinds\<close>

definition KINDS :: "string list" where
  "KINDS = [''comment'', ''post'', ''vote'']"

definition PAGE_SIZE :: nat where
  "PAGE_SIZE = 30"

definition FETCH_PER_SOURCE :: nat where
  "FETCH_PER_SOURCE = 300"

definition NEWER_LIMIT :: nat where
  "NEWER_LIMIT = 50"

type_synonym event_key = "timestamp \<times> string \<times> int"

record live_env =
  unpack_cursor :: "string \<Rightarrow> json option"
  parse_time :: "string \<Rightarrow> (timestamp \<times> bool) option"
  unescape_html :: "string \<Rightarrow> string"
  ellipsis :: string

text \<open>A time with a zone, an unknown kind and every error give no cursor.\<close>

definition decode_cursor :: "live_env \<Rightarrow> string option \<Rightarrow> event_key option" where
  "decode_cursor env raw =
     (case raw of
        Some (c # cs) \<Rightarrow>
          (case unpack_cursor env (c # cs) of
             Some (JObj kvs) \<Rightarrow>
               (case (map_of kvs ''ts'', map_of kvs ''kind'', Option.bind (map_of kvs ''id'') py_int) of
                  (Some (JStr t), Some (JStr knd), Some i) \<Rightarrow>
                    (case parse_time env t of
                       Some (ts, zoned) \<Rightarrow> if knd \<notin> set KINDS \<or> zoned then None else Some (ts, knd, i)
                     | None \<Rightarrow> None)
                | _ \<Rightarrow> None)
           | _ \<Rightarrow> None)
      | _ \<Rightarrow> None)"

definition parse_kinds :: "string option \<Rightarrow> string list" where
  "parse_kinds raw =
     (case raw of
        Some (c # cs) \<Rightarrow>
          (let wanted = map py_lower (map py_strip (split_on (CHR '','') (c # cs)));
               selected = filter (\<lambda>k. k \<in> set wanted) KINDS in
           if selected = [] then KINDS else selected)
      | _ \<Rightarrow> KINDS)"

section \<open>The three sources\<close>

record live_event =
  ev_at :: timestamp
  ev_kind :: string
  ev_id :: int
  ev_actor :: "username option"
  ev_verb :: string
  ev_title :: string
  ev_community :: string
  ev_post :: int
  ev_value :: "int option"
  ev_context :: "string option"
  ev_comment :: "int option"

definition ev_key :: "live_event \<Rightarrow> event_key" where
  "ev_key e = (ev_at e, ev_kind e, ev_id e)"

function strip_tags :: "string \<Rightarrow> string" where
  "strip_tags [] = []"
| "strip_tags (c # cs) =
     (case dropWhile (\<lambda>x. x \<noteq> CHR ''>'') cs of
        g # rest \<Rightarrow>
          if c = CHR ''<'' \<and> takeWhile (\<lambda>x. x \<noteq> CHR ''>'') cs \<noteq> [] then CHR '' '' # strip_tags rest else c # strip_tags cs
      | [] \<Rightarrow> c # strip_tags cs)"
  by pat_completeness auto
termination
proof (relation "measure length")
  fix c :: char and cs g rest assume "dropWhile (\<lambda>x. x \<noteq> CHR ''>'') cs = g # rest"
  then have "length (g # rest) \<le> length cs" by (metis length_dropWhile_le)
  then show "(rest, c # cs) \<in> measure length" by simp
qed simp_all

definition COMMENT_SNIPPET_LEN :: nat where
  "COMMENT_SNIPPET_LEN = 140"

definition plain_snippet :: "live_env \<Rightarrow> string option \<Rightarrow> string" where
  "plain_snippet env text =
     (case text of
        Some (c # cs) \<Rightarrow>
          (let plain = join_with '' '' (split_words (unescape_html env (strip_tags (c # cs)))) in
           if length plain \<le> COMMENT_SNIPPET_LEN then plain
           else py_rstrip (take COMMENT_SNIPPET_LEN plain) @ ellipsis env)
      | _ \<Rightarrow> [])"

text \<open>A row of a source: its time and id, and its event unless it cannot be rendered.\<close>

type_synonym source_row = "(timestamp \<times> int) \<times> live_event option"

definition post_row :: "post \<Rightarrow> source_row" where
  "post_row p =
     ((created_at p, item_id p),
      Some \<lparr>ev_at = created_at p, ev_kind = ''post'', ev_id = item_id p, ev_actor = Some (author p), ev_verb = ''posted in'',
            ev_title = process_post_title (title p), ev_community = subdeaddit_name p, ev_post = item_id p, ev_value = None,
            ev_context = None, ev_comment = None\<rparr>)"

definition comment_row :: "live_env \<Rightarrow> comment \<Rightarrow> post \<Rightarrow> source_row" where
  "comment_row env c p =
     ((created_at c, item_id c),
      Some \<lparr>ev_at = created_at c, ev_kind = ''comment'', ev_id = item_id c, ev_actor = Some (author c), ev_verb = ''commented in'',
            ev_title = plain_snippet env (content c), ev_community = subdeaddit_name p, ev_post = item_id p, ev_value = None,
            ev_context = Some (process_post_title (title p)), ev_comment = Some (item_id c)\<rparr>)"

text \<open>The post a vote is about, and the comment when it is on one.\<close>

definition voted_comment :: "db \<Rightarrow> vote \<Rightarrow> comment option" where
  "voted_comment d v = Option.bind (vote_comment v) (\<lambda>i. find_row item_id i (comments d))"

definition vote_row :: "live_env \<Rightarrow> db \<Rightarrow> vote \<Rightarrow> source_row" where
  "vote_row env d v =
     ((vote_created_at v, vote_id v),
      let way = (if 0 < vote_value v then ''upvoted'' else ''downvoted''); sign = (if 0 < vote_value v then 1 else - 1) in
      case Option.bind (vote_post v) (\<lambda>i. find_row item_id i (posts d)) of
        Some p \<Rightarrow>
          Some \<lparr>ev_at = vote_created_at v, ev_kind = ''vote'', ev_id = vote_id v, ev_actor = voter v, ev_verb = way @ '' a post in'',
                ev_title = process_post_title (title p), ev_community = subdeaddit_name p, ev_post = item_id p, ev_value = Some sign,
                ev_context = None, ev_comment = None\<rparr>
      | None \<Rightarrow>
          (case Option.bind (voted_comment d v) (\<lambda>c. find_row item_id (post_id c) (posts d)) of
             Some p \<Rightarrow>
               Some \<lparr>ev_at = vote_created_at v, ev_kind = ''vote'', ev_id = vote_id v, ev_actor = voter v, ev_verb = way @ '' a comment in'',
                     ev_title = plain_snippet env (Option.bind (voted_comment d v) content), ev_community = subdeaddit_name p,
                     ev_post = item_id p, ev_value = Some sign, ev_context = Some (process_post_title (title p)),
                     ev_comment = vote_comment v\<rparr>
           | None \<Rightarrow> None))"

definition commented :: "db \<Rightarrow> (comment \<times> post) list" where
  "commented d = List.map_filter (\<lambda>c. map_option (\<lambda>p. (c, p)) (find_row item_id (post_id c) (posts d))) (comments d)"

definition source_rows :: "live_env \<Rightarrow> db \<Rightarrow> string \<Rightarrow> source_row list" where
  "source_rows env d knd =
     (if knd = ''post'' then map post_row (posts d)
      else if knd = ''comment'' then map (\<lambda>(c, p). comment_row env c p) (commented d)
      else map (vote_row env d) (votes d))"

section \<open>Pages\<close>

definition keyset_predicate :: "timestamp \<times> int \<Rightarrow> bool \<Rightarrow> string \<Rightarrow> event_key \<Rightarrow> bool" where
  "keyset_predicate k newer knd c =
     (case (k, c) of ((t, i), (ts, ckind, cid)) \<Rightarrow>
        if newer then
          (if ckind < knd then ts \<le> t else if knd < ckind then ts < t else ts < t \<or> t = ts \<and> cid < i)
        else
          (if knd < ckind then t \<le> ts else if ckind < knd then t < ts else t < ts \<or> t = ts \<and> i < cid))"

definition fetch_rows :: "source_row list \<Rightarrow> bool \<Rightarrow> event_key option \<Rightarrow> string \<Rightarrow> source_row list" where
  "fetch_rows rows newer cursor knd =
     (let kept = (case cursor of None \<Rightarrow> rows | Some c \<Rightarrow> filter (\<lambda>r. keyset_predicate (fst r) newer knd c) rows) in
      take FETCH_PER_SOURCE (if newer then sort_key fst kept else order_desc fst kept))"

definition beyond :: "bool \<Rightarrow> event_key option \<Rightarrow> live_event \<Rightarrow> bool" where
  "beyond newer cursor e =
     (case cursor of None \<Rightarrow> True | Some c \<Rightarrow> if newer then c < ev_key e else ev_key e < c)"

definition source_events :: "live_env \<Rightarrow> db \<Rightarrow> bool \<Rightarrow> event_key option \<Rightarrow> string \<Rightarrow> live_event list" where
  "source_events env d newer cursor knd = List.map_filter snd (fetch_rows (source_rows env d knd) newer cursor knd)"

definition collect_events :: "live_env \<Rightarrow> db \<Rightarrow> bool \<Rightarrow> event_key option \<Rightarrow> string list \<Rightarrow> live_event list" where
  "collect_events env d newer cursor ks =
     (let rows = filter (beyond newer cursor) (concat (map (source_events env d newer cursor) ks)) in
      if newer then rev (take NEWER_LIMIT (sort_key ev_key rows)) else take PAGE_SIZE (order_desc ev_key rows))"

text \<open>The identifier of a cursor is bound to the query of its own kind, which SQLite refuses beyond 64 bits.\<close>

definition binds :: "event_key option \<Rightarrow> string list \<Rightarrow> bool" where
  "binds cursor ks =
     (case cursor of None \<Rightarrow> True | Some (_, knd, i) \<Rightarrow> knd \<notin> set ks \<or> - (2 ^ 63) \<le> i \<and> i < 2 ^ 63)"

definition max_event_ts :: "db \<Rightarrow> timestamp option" where
  "max_event_ts d =
     (let ts = map created_at (posts d) @ map created_at (comments d) @ map vote_created_at (votes d) in
      if ts = [] then None else Some (foldr max ts (hd ts)))"

definition count_events_after :: "timestamp option \<Rightarrow> db \<Rightarrow> nat" where
  "count_events_after ts d =
     (let past = (\<lambda>t. case ts of None \<Rightarrow> True | Some w \<Rightarrow> w < t) in
      length (filter (past \<circ> created_at) (posts d)) + length (filter (past \<circ> created_at \<circ> fst) (commented d)) +
      length (filter (past \<circ> vote_created_at) (votes d)))"

section \<open>The route\<close>

record live_view =
  view_items :: "live_event list"
  view_kinds :: "string list"
  view_watermark :: "timestamp option"
  view_more :: bool
  view_next :: "event_key option"

datatype live_response = Bad_Request string | Overflow_Error | Rendered live_view

definition recent :: "live_env \<Rightarrow> string option \<Rightarrow> string option \<Rightarrow> string option \<Rightarrow> db \<Rightarrow> live_response" where
  "recent env before_raw since_raw kinds_raw d =
     (let ks = parse_kinds kinds_raw in
      if before_raw \<notin> {None, Some []} \<and> since_raw \<notin> {None, Some []} then
        Bad_Request (''Use either '' @ quoted ''before'' @ '' or '' @ quoted ''since'' @ '', not both.'')
      else
        let since = decode_cursor env since_raw; before = decode_cursor env before_raw;
            cursor = (if since \<noteq> None then since else before); items = collect_events env d (since \<noteq> None) cursor ks in
        if \<not> binds cursor ks then Overflow_Error
        else Rendered \<lparr>view_items = items, view_kinds = ks,
               view_watermark = (if since \<noteq> None then max_event_ts d else None),
               view_more = (length items = PAGE_SIZE \<and> since = None),
               view_next = (if items = [] then None else Some (ev_key (last items)))\<rparr>)"

section \<open>The pump\<close>

text \<open>What the pump knows of the room: the watermark and the pending count, while clients are in it. A
  stored watermark may be missing, on an empty site.\<close>

record pump =
  watermark :: "timestamp option option"
  pending_count :: nat

definition note_join :: "db \<Rightarrow> pump \<Rightarrow> pump" where
  "note_join d p =
     (case watermark p of None \<Rightarrow> p\<lparr>watermark := Some (max_event_ts d), pending_count := 0\<rparr> | Some _ \<Rightarrow> p)"

definition note_leave :: "nat \<Rightarrow> pump \<Rightarrow> pump" where
  "note_leave participants p = (if 0 < participants then p else \<lparr>watermark = None, pending_count = 0\<rparr>)"

text \<open>The client's acknowledgement carries the time it claims to have seen. A time with a zone cannot be
  compared to one without, which Python refuses with an exception after the count was cleared.\<close>

definition note_activity_loaded :: "live_env \<Rightarrow> json \<Rightarrow> pump \<Rightarrow> bool \<times> pump" where
  "note_activity_loaded env ts p =
     (let p0 = p\<lparr>pending_count := 0\<rparr> in
      case (case ts of JStr s \<Rightarrow> parse_time env s | _ \<Rightarrow> None) of
        None \<Rightarrow> (True, p0)
      | Some (t, zoned) \<Rightarrow>
          (case watermark p of
             Some (Some w) \<Rightarrow> if zoned then (False, p0) else (True, if w < t then p0\<lparr>watermark := Some (Some t)\<rparr> else p0)
           | _ \<Rightarrow> (True, p0\<lparr>watermark := Some (Some t)\<rparr>)))"

text \<open>A poll: the new state and the count that is emitted.\<close>

definition pump_tick :: "nat \<Rightarrow> db \<Rightarrow> pump \<Rightarrow> nat option \<times> pump" where
  "pump_tick participants d p =
     (case watermark p of
        None \<Rightarrow> (None, p)
      | Some w \<Rightarrow>
          if participants = 0 then (None, p)
          else let n = count_events_after w d in (if 0 < n then Some n else None, p\<lparr>pending_count := n\<rparr>))"

section \<open>What the pages promise\<close>

text \<open>The rank of an element in a strictly descending order, and a page of a list.\<close>

lemma take_filter_all: "\<forall>x \<in> set (take n xs). p x \<Longrightarrow> take n (filter p xs) = take n xs"
proof (induction xs arbitrary: n)
  case (Cons x xs)
  then show ?case by (cases n) auto
qed simp

lemma strict_rank:
  assumes "sorted_wrt R xs" and "\<And>a b. R a b \<Longrightarrow> \<not> R b a" and "i < length xs"
  shows "filter (\<lambda>y. R y (xs ! i)) xs = take i xs"
  using assms(1,3)
proof (induction xs arbitrary: i)
  case (Cons x xs)
  show ?case
  proof (cases i)
    case 0
    with Cons.prems(1) assms(2) show ?thesis by (auto simp: filter_empty_conv)
  next
    case (Suc j)
    with Cons.prems have "R x (xs ! j)" by (simp add: nth_mem)
    with Suc Cons show ?thesis by simp
  qed
qed simp

lemma in_take_rank:
  assumes "sorted_wrt R xs" and "\<And>a b. R a b \<Longrightarrow> \<not> R b a" and "x \<in> set xs"
  shows "x \<in> set (take n xs) \<longleftrightarrow> length (filter (\<lambda>y. R y x) xs) < n"
proof -
  obtain i where i: "i < length xs" "x = xs ! i" using assms(3) by (auto simp: in_set_conv_nth)
  have rank: "length (filter (\<lambda>y. R y x) xs) = i" using strict_rank [OF assms(1,2) i(1)] i by simp
  have "\<not> R x x" using assms(2) by blast
  have "x \<in> set (take n xs) \<longleftrightarrow> i < n"
  proof
    assume "x \<in> set (take n xs)"
    then obtain j where j: "j < n" "j < length xs" "xs ! j = x" by (auto simp: in_set_conv_nth)
    have "length (filter (\<lambda>y. R y x) xs) = j" using strict_rank [OF assms(1,2) j(2)] j by simp
    with rank j(1) show "i < n" by simp
  next
    assume "i < n"
    then show "x \<in> set (take n xs)" using i by (auto simp: in_set_conv_nth intro: exI [of _ i])
  qed
  with rank show ?thesis by simp
qed

lemma length_filter_mset: "mset xs = mset ys \<Longrightarrow> length (filter p xs) = length (filter p ys)"
  by (metis mset_filter size_mset)

text \<open>Events in the order of a page, and which of two comes first there.\<close>

definition arrange :: "bool \<Rightarrow> ('a \<Rightarrow> 'k::linorder) \<Rightarrow> 'a list \<Rightarrow> 'a list" where
  "arrange newer k xs = (if newer then sort_key k xs else order_desc k xs)"

definition comes_first :: "bool \<Rightarrow> ('a \<Rightarrow> 'k::linorder) \<Rightarrow> 'a \<Rightarrow> 'a \<Rightarrow> bool" where
  "comes_first newer k a b = (if newer then k a < k b else k b < k a)"

lemma comes_first_asym: "comes_first newer k a b \<Longrightarrow> \<not> comes_first newer k b a"
  by (auto simp: comes_first_def)

lemma mset_arrange [simp]: "mset (arrange newer k xs) = mset xs"
  by (simp add: arrange_def order_desc_def)

lemma set_arrange [simp]: "set (arrange newer k xs) = set xs"
  by (simp add: arrange_def)

lemma arrange_filter: "arrange newer k (filter p xs) = filter p (arrange newer k xs)"
  by (simp add: arrange_def order_desc_filter filter_sort)

lemma arrange_strict:
  assumes "distinct (map k xs)"
  shows "sorted_wrt (comes_first newer k) (arrange newer k xs)"
proof (cases newer)
  case True
  have "distinct (map k (sort_key k xs))" using assms by (simp add: distinct_map)
  then have "sorted_wrt (<) (map k (sort_key k xs))" by (simp add: strict_sorted_iff)
  then show ?thesis using True by (simp add: arrange_def comes_first_def [abs_def] sorted_wrt_map)
next
  case False
  then show ?thesis using strict_order_desc [OF assms] by (simp add: arrange_def comes_first_def [abs_def])
qed

lemma arrange_mset_eq:
  assumes "mset xs = mset ys" and "distinct (map k ys)"
  shows "arrange newer k xs = arrange newer k ys"
proof -
  have "set xs = set ys" using assms(1) by (metis set_mset_mset)
  then have "sort_key k xs = sort_key k ys"
    using assms by (intro sort_key_inj_key_eq) (simp_all add: distinct_map)
  then show ?thesis by (simp add: arrange_def order_desc_def)
qed

lemma insort_key_same:
  assumes "\<And>a b. a \<in> insert x (set xs) \<Longrightarrow> b \<in> insert x (set xs) \<Longrightarrow> f a \<le> f b \<longleftrightarrow> h a \<le> h b"
  shows "insort_key f x xs = insort_key h x xs"
  using assms by (induction xs) auto

lemma sort_key_same:
  assumes "\<And>a b. a \<in> set xs \<Longrightarrow> b \<in> set xs \<Longrightarrow> f a \<le> f b \<longleftrightarrow> h a \<le> h b"
  shows "sort_key f xs = sort_key h xs"
  using assms
proof (induction xs)
  case (Cons x xs)
  have "sort_key f xs = sort_key h xs" by (rule Cons.IH) (use Cons.prems in simp)
  moreover have "insort_key f x (sort_key h xs) = insort_key h x (sort_key h xs)"
    by (rule insort_key_same) (use Cons.prems in simp)
  ultimately show ?case by simp
qed simp

lemma insort_key_of_map: "insort_key f (g a) (map g xs) = map g (insort_key (\<lambda>x. f (g x)) a xs)"
  by (induction xs) simp_all

lemma sort_key_of_map: "sort_key f (map g xs) = map g (sort_key (\<lambda>x. f (g x)) xs)"
  by (induction xs) (simp_all add: insort_key_of_map)

lemma arrange_map_same:
  assumes "\<And>a b. a \<in> set xs \<Longrightarrow> b \<in> set xs \<Longrightarrow> f (g a) \<le> f (g b) \<longleftrightarrow> h a \<le> h b"
  shows "arrange newer f (map g xs) = map g (arrange newer h xs)"
proof -
  have "sort_key (\<lambda>x. f (g x)) xs = sort_key h xs" by (rule sort_key_same) (rule assms)
  then show ?thesis by (simp add: arrange_def order_desc_def rev_map sort_key_of_map)
qed

lemma concat_parts:
  assumes "\<And>i. i \<in> set ks \<Longrightarrow> mset (F i) = mset (filter p (E i))"
  shows "mset (concat (map F ks)) = mset (filter p (concat (map E ks)))"
  using assms by (induction ks) simp_all

text \<open>A page of the first \<open>n\<close> can be taken from the first \<open>m\<close> of each source, for \<open>n \<le> m\<close>.\<close>

lemma take_of_sources:
  assumes "n \<le> m" and "distinct (map k (concat (map E ks)))" and "distinct ks"
    and "\<And>i j x. i \<in> set ks \<Longrightarrow> j \<in> set ks \<Longrightarrow> x \<in> set (E i) \<Longrightarrow> x \<in> set (E j) \<Longrightarrow> i = j"
  shows "take n (arrange newer k (concat (map (\<lambda>i. take m (arrange newer k (E i))) ks))) =
         take n (arrange newer k (concat (map E ks)))"
proof -
  let ?F = "\<lambda>i. take m (arrange newer k (E i))" and ?A = "concat (map E ks)"
  let ?P = "\<lambda>x. \<exists>i \<in> set ks. x \<in> set (?F i)"
  have dist: "distinct (map k (E i))" if "i \<in> set ks" for i
    using assms(2) that by (induction ks) auto
  have sub: "set (?F i) \<subseteq> set (E i)" for i using set_take_subset [of m "arrange newer k (E i)"] by simp
  have own: "mset (?F i) = mset (filter ?P (E i))" if "i \<in> set ks" for i
  proof -
    have "distinct (arrange newer k (E i))" "distinct (E i)"
      using dist [OF that] by (simp_all add: distinct_map arrange_def order_desc_def)
    then have "distinct (?F i)" "distinct (filter ?P (E i))" by simp_all
    moreover have "set (?F i) = set (filter ?P (E i))"
    proof (rule set_eqI, rule iffI)
      fix x assume "x \<in> set (?F i)"
      then show "x \<in> set (filter ?P (E i))" using subsetD [OF sub] \<open>i \<in> set ks\<close> by force
    next
      fix x assume "x \<in> set (filter ?P (E i))"
      then obtain j where "x \<in> set (E i)" "j \<in> set ks" "x \<in> set (?F j)" by auto
      then show "x \<in> set (?F i)" using assms(4) [OF \<open>i \<in> set ks\<close> _ _ subsetD [OF sub]] by metis
    qed
    ultimately show ?thesis using set_eq_iff_mset_eq_distinct by blast
  qed
  have "mset (concat (map ?F ks)) = mset (filter ?P ?A)" by (rule concat_parts) (rule own)
  moreover have "distinct (map k (filter ?P ?A))" using assms(2) by (simp add: distinct_map_filter)
  ultimately have "arrange newer k (concat (map ?F ks)) = arrange newer k (filter ?P ?A)" by (rule arrange_mset_eq)
  then have same: "arrange newer k (concat (map ?F ks)) = filter ?P (arrange newer k ?A)" by (simp only: arrange_filter)
  have own_page: "?P x" if x: "x \<in> set (take n (arrange newer k ?A))" for x
  proof -
    have mem: "x \<in> set (arrange newer k ?A)" using x in_set_takeD by fast
    then obtain i where i: "i \<in> set ks" "x \<in> set (E i)" by auto
    have "length (filter (\<lambda>y. comes_first newer k y x) ?A) < n"
      using in_take_rank [OF arrange_strict [OF assms(2)] comes_first_asym mem, of n] x
      by (simp only: length_filter_mset [OF mset_arrange])
    moreover have "length (filter (\<lambda>y. comes_first newer k y x) (E i)) \<le> length (filter (\<lambda>y. comes_first newer k y x) ?A)"
      using i(1) by (induction ks) auto
    ultimately have "length (filter (\<lambda>y. comes_first newer k y x) (E i)) < m" using assms(1) by linarith
    then have "x \<in> set (?F i)"
      using in_take_rank [OF arrange_strict [OF dist [OF i(1)]] comes_first_asym, of newer x m] i(2)
      by (simp only: length_filter_mset [OF mset_arrange] set_arrange)
    with i(1) show ?thesis by blast
  qed
  then have "\<forall>x \<in> set (take n (arrange newer k ?A)). ?P x" by blast
  then have "take n (filter ?P (arrange newer k ?A)) = take n (arrange newer k ?A)" by (rule take_filter_all)
  then show ?thesis by (simp only: same)
qed

text \<open>The same order written as one list: every event of the selected kinds, newest first or oldest first.\<close>

definition live_source :: "live_env \<Rightarrow> db \<Rightarrow> string \<Rightarrow> live_event list" where
  "live_source env d knd = List.map_filter snd (source_rows env d knd)"

definition live_events :: "live_env \<Rightarrow> db \<Rightarrow> string list \<Rightarrow> live_event list" where
  "live_events env d ks = concat (map (live_source env d) ks)"

definition event_row :: "live_event \<Rightarrow> source_row" where
  "event_row e = ((ev_at e, ev_id e), Some e)"

lemma event_row_simps [simp]: "fst (event_row e) = (ev_at e, ev_id e)" "snd (event_row e) = Some e"
  by (simp_all add: event_row_def)

lemma map_filter_event_row [simp]: "List.map_filter snd (map event_row es) = es"
  by (induction es) (simp_all add: event_row_def map_filter_simps)

lemma keyset_is_beyond: "keyset_predicate (ev_at e, ev_id e) newer (ev_kind e) c \<longleftrightarrow> beyond newer (Some c) e"
  by (cases c) (auto simp: keyset_predicate_def beyond_def ev_key_def)

text \<open>In a sound state every row can be rendered, and its event carries the key of the row.\<close>

lemma in_commented: "(c, p) \<in> set (commented d) \<Longrightarrow> c \<in> set (comments d)"
  by (auto simp: commented_def List.map_filter_def)

lemma vote_renders:
  assumes "sound d" and "v \<in> set (votes d)"
  shows "\<exists>e. vote_row env d v = event_row e \<and> ev_kind e = ''vote'' \<and> ev_id e = vote_id v"
proof -
  have ok: "vote_row_ok v" "refers (posts d) (vote_post v)" "refers (comments d) (vote_comment v)"
    using assms by (auto simp: sound_def refs_ok_def vote_ledger_def vote_constraints_def list_all_iff)
  show ?thesis
  proof (cases "vote_post v")
    case (Some i)
    with ok(2) obtain p where "find_row item_id i (posts d) = Some p" by (auto simp: refers_def)
    with Some show ?thesis by (auto simp: vote_row_def event_row_def Let_def)
  next
    case None
    with ok obtain j c where "vote_comment v = Some j" and c: "find_row item_id j (comments d) = Some c"
      by (auto simp: vote_row_ok_def refers_def)
    moreover from c have "c \<in> set (comments d)" by (auto dest: find_row_SomeD)
    then obtain p where "find_row item_id (post_id c) (posts d) = Some p"
      using assms(1) by (auto simp: sound_def refs_ok_def list_all_iff)
    ultimately show ?thesis using None by (auto simp: vote_row_def voted_comment_def event_row_def Let_def)
  qed
qed

lemma rows_render:
  assumes "sound d" and "knd \<in> set KINDS" and "r \<in> set (source_rows env d knd)"
  shows "\<exists>e. r = event_row e \<and> ev_kind e = knd"
  using assms vote_renders [OF assms(1)]
  by (fastforce simp: source_rows_def KINDS_def post_row_def comment_row_def event_row_def)

lemma rendered_rows: "\<forall>r \<in> set rows. \<exists>e. r = event_row e \<Longrightarrow> rows = map event_row (List.map_filter snd rows)"
  by (induction rows) (auto simp: map_filter_simps)

lemma source_rows_events:
  assumes "sound d" and "knd \<in> set KINDS"
  shows "source_rows env d knd = map event_row (live_source env d knd)"
  unfolding live_source_def by (rule rendered_rows) (use rows_render [OF assms] in blast)

lemma live_source_kind:
  assumes "sound d" and "knd \<in> set KINDS" and "e \<in> set (live_source env d knd)"
  shows "ev_kind e = knd"
proof -
  have "event_row e \<in> set (source_rows env d knd)" using assms(3) source_rows_events [OF assms(1,2)] by simp
  then show ?thesis using rows_render [OF assms(1,2)] by (force simp: event_row_def)
qed

text \<open>No two events share a key.\<close>

lemma distinct_kept_keys:
  assumes "distinct (map f xs)" and "\<And>x y. g x = Some y \<Longrightarrow> h y = f x"
  shows "distinct (map h (List.map_filter g xs))"
proof -
  have "h ` set (List.map_filter g ys) \<subseteq> f ` set ys" for ys using assms(2) by (fastforce simp: List.map_filter_def)
  with assms show ?thesis by (induction xs) (fastforce simp: map_filter_simps split: option.splits)+
qed

lemma source_rows_distinct:
  assumes "sound d"
  shows "distinct (map (\<lambda>r. snd (fst r)) (source_rows env d knd))"
proof -
  have keys: "distinct (map item_id (posts d))" "distinct (map item_id (comments d))" "distinct (map vote_id (votes d))"
    using assms by (auto simp: sound_def ledger_defs)
  have "distinct (map (\<lambda>cp. item_id (fst cp)) (commented d))"
    unfolding commented_def by (rule distinct_kept_keys [OF keys(2)]) auto
  then show ?thesis
    using keys by (simp add: source_rows_def post_row_def comment_row_def vote_row_def comp_def case_prod_unfold)
qed

lemma live_source_distinct:
  assumes "sound d" and "knd \<in> set KINDS"
  shows "distinct (map ev_key (live_source env d knd))"
proof -
  have "distinct (map ev_id (live_source env d knd))"
    using source_rows_distinct [OF assms(1), of env knd] source_rows_events [OF assms] by (simp add: comp_def)
  then show ?thesis by (auto simp: distinct_map ev_key_def inj_on_def)
qed

lemma live_events_kind:
  assumes "sound d" and "set ks \<subseteq> set KINDS" and "e \<in> set (live_events env d ks)"
  shows "ev_kind e \<in> set ks"
proof -
  obtain knd where "knd \<in> set ks" "e \<in> set (live_source env d knd)" using assms(3) by (auto simp: live_events_def)
  with live_source_kind [OF assms(1), of knd e env] assms(2) show ?thesis by auto
qed

lemma live_events_distinct:
  assumes "sound d" and "distinct ks" and "set ks \<subseteq> set KINDS"
  shows "distinct (map ev_key (live_events env d ks))"
  using assms(2,3)
proof (induction ks)
  case (Cons knd ks)
  have "ev_key e \<noteq> ev_key e'" if e: "e \<in> set (live_source env d knd)" "e' \<in> set (live_events env d ks)" for e e'
  proof -
    have "ev_kind e = knd" using live_source_kind [OF assms(1) _ e(1)] Cons.prems by simp
    moreover have "ev_kind e' \<in> set ks" using live_events_kind [OF assms(1) _ e(2)] Cons.prems by simp
    ultimately show ?thesis using Cons.prems by (auto simp: ev_key_def)
  qed
  then have "ev_key ` set (live_source env d knd) \<inter> ev_key ` set (live_events env d ks) = {}" by blast
  moreover have "live_events env d (knd # ks) = live_source env d knd @ live_events env d ks" by (simp add: live_events_def)
  ultimately show ?case using Cons live_source_distinct [OF assms(1), of knd env] by simp
qed (simp add: live_events_def)

lemma key_within_kind: "ev_kind a = ev_kind b \<Longrightarrow> (ev_at a, ev_id a) \<le> (ev_at b, ev_id b) \<longleftrightarrow> ev_key a \<le> ev_key b"
  by (auto simp: ev_key_def)

text \<open>A source fetch is the beginning of its own events beyond the cursor, and a page that of all of them.\<close>

lemma source_events_are:
  assumes "sound d" and "knd \<in> set KINDS"
  shows "source_events env d newer cursor knd =
    take FETCH_PER_SOURCE (arrange newer ev_key (filter (beyond newer cursor) (live_source env d knd)))"
proof -
  let ?E = "filter (beyond newer cursor) (live_source env d knd)"
  have kept: "(case cursor of None \<Rightarrow> map event_row (live_source env d knd)
      | Some c \<Rightarrow> filter (\<lambda>r. keyset_predicate (fst r) newer knd c) (map event_row (live_source env d knd))) =
      map event_row ?E"
  proof (cases cursor)
    case None
    then show ?thesis by (simp add: beyond_def)
  next
    case (Some c)
    have "keyset_predicate (fst (event_row e)) newer knd c = beyond newer cursor e" if "e \<in> set (live_source env d knd)" for e
      using keyset_is_beyond [of e newer c] live_source_kind [OF assms that] Some by simp
    with Some show ?thesis by (auto simp: filter_map intro!: arg_cong [of _ _ "map event_row"] filter_cong)
  qed
  have "arrange newer fst (map event_row ?E) = map event_row (arrange newer ev_key ?E)"
  proof (rule arrange_map_same)
    fix a b assume "a \<in> set ?E" "b \<in> set ?E"
    then have "ev_kind a = ev_kind b" using live_source_kind [OF assms, of a env] live_source_kind [OF assms, of b env] by simp
    then show "fst (event_row a) \<le> fst (event_row b) \<longleftrightarrow> ev_key a \<le> ev_key b" by (simp only: event_row_simps key_within_kind)
  qed
  then have "fetch_rows (source_rows env d knd) newer cursor knd =
      map event_row (take FETCH_PER_SOURCE (arrange newer ev_key ?E))"
    unfolding fetch_rows_def source_rows_events [OF assms] kept Let_def arrange_def by (simp add: take_map)
  then show ?thesis by (simp add: source_events_def)
qed

lemma collect_events_are:
  assumes "sound d" and "distinct ks" and "set ks \<subseteq> set KINDS"
  shows "collect_events env d newer cursor ks =
    (let page = take (if newer then NEWER_LIMIT else PAGE_SIZE) (filter (beyond newer cursor) (arrange newer ev_key (live_events env d ks)))
     in if newer then rev page else page)"
proof -
  let ?n = "if newer then NEWER_LIMIT else PAGE_SIZE" and ?E = "\<lambda>i. filter (beyond newer cursor) (live_source env d i)"
  let ?F = "\<lambda>i. take FETCH_PER_SOURCE (arrange newer ev_key (?E i))"
  have parts: "concat (map ?E js) = filter (beyond newer cursor) (live_events env d js)" for js
    by (simp add: live_events_def filter_concat comp_def)
  have fetched: "concat (map (source_events env d newer cursor) ks) = concat (map ?F ks)"
    using source_events_are [OF assms(1)] assms(3) by (intro arg_cong [of _ _ concat] map_cong) auto
  have "\<forall>e \<in> set (concat (map ?F ks)). beyond newer cursor e" by (auto dest!: in_set_takeD)
  then have all: "filter (beyond newer cursor) (concat (map ?F ks)) = concat (map ?F ks)" by (simp only: filter_True)
  have "take ?n (arrange newer ev_key (concat (map ?F ks))) = take ?n (arrange newer ev_key (concat (map ?E ks)))"
  proof (rule take_of_sources)
    show "distinct (map ev_key (concat (map ?E ks)))"
      unfolding parts using live_events_distinct [OF assms] by (simp add: distinct_map_filter)
    show "i = j" if "i \<in> set ks" "j \<in> set ks" "x \<in> set (?E i)" "x \<in> set (?E j)" for i j x
      using that assms(3) live_source_kind [OF assms(1), of i x env] live_source_kind [OF assms(1), of j x env] by auto
  qed (use assms(2) in \<open>simp_all add: NEWER_LIMIT_def PAGE_SIZE_def FETCH_PER_SOURCE_def\<close>)
  also have "\<dots> = take ?n (filter (beyond newer cursor) (arrange newer ev_key (live_events env d ks)))"
    by (simp only: parts arrange_filter)
  finally have page: "take ?n (arrange newer ev_key (concat (map ?F ks))) =
      take ?n (filter (beyond newer cursor) (arrange newer ev_key (live_events env d ks)))" .
  have "collect_events env d newer cursor ks =
      (let page = take ?n (arrange newer ev_key (concat (map ?F ks))) in if newer then rev page else page)"
    unfolding collect_events_def Let_def fetched all by (cases newer) (simp_all add: arrange_def)
  then show ?thesis unfolding page .
qed

lemma parse_kinds_ok: "distinct (parse_kinds raw)" "set (parse_kinds raw) \<subseteq> set KINDS"
proof -
  have "distinct KINDS" by (simp add: KINDS_def)
  then show "distinct (parse_kinds raw)" by (auto simp: parse_kinds_def Let_def split: option.splits list.splits)
  show "set (parse_kinds raw) \<subseteq> set KINDS" by (auto simp: parse_kinds_def Let_def split: option.splits list.splits)
qed

lemmas page_of_kinds = collect_events_are [OF _ parse_kinds_ok]

lemma recent_items:
  "recent env before_raw since_raw kinds_raw d = Rendered v \<Longrightarrow>
   view_items v = collect_events env d (decode_cursor env since_raw \<noteq> None)
     (if decode_cursor env since_raw \<noteq> None then decode_cursor env since_raw else decode_cursor env before_raw)
     (parse_kinds kinds_raw)"
  by (auto simp: recent_def Let_def split: if_splits)

text \<open>C34. A page of the live feed is exactly a window of the whole feed. Over a sound database, the items the route
  renders are the thirty newest events of the selected kinds that lie before the cursor, or, for a request
  since a cursor, the fifty closest after it, newest first, in the order of time, kind and identifier of all posts,
  comments and votes together, and no event is shown twice: fetching three hundred rows per source, the three SQL
  comparisons and the merge lose nothing.\<close>

theorem live_page_exact:
  assumes "sound d" and "recent env before_raw since_raw kinds_raw d = Rendered v"
  shows "view_items v =
      (let feed = live_events env d (parse_kinds kinds_raw) in
       case decode_cursor env since_raw of
         Some c \<Rightarrow> rev (take 50 (filter (\<lambda>e. c < ev_key e) (sort_key ev_key feed)))
       | None \<Rightarrow>
           take 30 (filter (\<lambda>e. case decode_cursor env before_raw of None \<Rightarrow> True | Some c \<Rightarrow> ev_key e < c)
             (order_desc ev_key feed))) \<and>
    distinct (map ev_key (view_items v))"
proof
  show "view_items v =
      (let feed = live_events env d (parse_kinds kinds_raw) in
       case decode_cursor env since_raw of
         Some c \<Rightarrow> rev (take 50 (filter (\<lambda>e. c < ev_key e) (sort_key ev_key feed)))
       | None \<Rightarrow>
           take 30 (filter (\<lambda>e. case decode_cursor env before_raw of None \<Rightarrow> True | Some c \<Rightarrow> ev_key e < c)
             (order_desc ev_key feed)))"
    unfolding recent_items [OF assms(2)] page_of_kinds [OF assms(1)]
    by (cases "decode_cursor env since_raw"; cases "decode_cursor env before_raw")
      (simp_all add: Let_def arrange_def NEWER_LIMIT_def PAGE_SIZE_def beyond_def [abs_def])
  have "distinct (map ev_key (live_events env d (parse_kinds kinds_raw)))"
    by (rule live_events_distinct [OF assms(1) parse_kinds_ok])
  then have "distinct (map ev_key (arrange newer ev_key (live_events env d (parse_kinds kinds_raw))))" for newer
    by (simp add: distinct_map) (simp add: arrange_def order_desc_def)
  then show "distinct (map ev_key (view_items v))"
    unfolding recent_items [OF assms(2)] page_of_kinds [OF assms(1)]
    by (simp add: Let_def rev_map [symmetric] take_map [symmetric] distinct_map_filter)
qed

definition clock_env :: "event_key \<Rightarrow> live_env" where
  "clock_env c = \<lparr>unpack_cursor = (\<lambda>_. Some (JObj [(''ts'', JStr ''at''), (''kind'', JStr (fst (snd c))), (''id'', JInt (snd (snd c)))])),
     parse_time = (\<lambda>_. Some (fst c, False)), unescape_html = (\<lambda>s. s), ellipsis = ''...''\<rparr>"

theorem live_page_exact_witness:
  "\<exists>v. recent (clock_env (0, ''comment'', 3)) (Some ''c'') None None sample_db = Rendered v \<and>
     map ev_key (view_items v) = [(0, ''comment'', 2), (0, ''comment'', 1)] \<and> distinct (map ev_key (view_items v))"
proof -
  have "sound sample_db" by code_simp
  moreover have "recent (clock_env (0, ''comment'', 3)) (Some ''c'') None None sample_db =
      Rendered \<lparr>view_items = collect_events (clock_env (0, ''comment'', 3)) sample_db False (Some (0, ''comment'', 3)) KINDS,
        view_kinds = KINDS, view_watermark = None, view_more = False, view_next = Some (0, ''comment'', 1)\<rparr>"
    by code_simp
  moreover have "map ev_key (collect_events (clock_env (0, ''comment'', 3)) sample_db False (Some (0, ''comment'', 3)) KINDS) =
      [(0, ''comment'', 2), (0, ''comment'', 1)]"
    by code_simp
  ultimately show ?thesis using live_page_exact [of sample_db] by fastforce
qed

text \<open>The reader who scrolls down: each further page is requested with the cursor of the last item, as long
  as the page before was full, one database state per request. \<open>enc\<close> writes a cursor as text.\<close>

fun live_walk :: "live_env \<Rightarrow> (event_key \<Rightarrow> string) \<Rightarrow> string option \<Rightarrow> string option \<Rightarrow> db list \<Rightarrow> live_event list" where
  "live_walk env enc kinds_raw before [] = []"
| "live_walk env enc kinds_raw before (d # ds) =
     (case recent env before None kinds_raw d of
        Rendered v \<Rightarrow>
          view_items v @ (case view_next v of
              Some c \<Rightarrow> if view_more v then live_walk env enc kinds_raw (Some (enc c)) ds else []
            | None \<Rightarrow> [])
      | _ \<Rightarrow> [])"

definition live_feed :: "live_env \<Rightarrow> db \<Rightarrow> string list \<Rightarrow> live_event list" where
  "live_feed env d ks = order_desc ev_key (live_events env d ks)"

text \<open>What happens while somebody scrolls: events are added that are newer than the feed was.\<close>

definition feed_grew :: "live_env \<Rightarrow> string list \<Rightarrow> db \<Rightarrow> db \<Rightarrow> bool" where
  "feed_grew env ks d d' = (sound d' \<and> (\<exists>new. live_feed env d' ks = new @ live_feed env d ks))"

definition cursor_safe :: "live_env \<Rightarrow> (event_key \<Rightarrow> string) \<Rightarrow> live_event \<Rightarrow> bool" where
  "cursor_safe env enc e =
     (decode_cursor env (Some (enc (ev_key e))) = Some (ev_key e) \<and> - (2 ^ 63) \<le> ev_id e \<and> ev_id e < 2 ^ 63)"

lemma decode_no_cursor [simp]: "decode_cursor env None = None"
  by (simp add: decode_cursor_def)

lemma live_feed_strict: "sound d \<Longrightarrow> sorted_wrt (\<lambda>a b. ev_key b < ev_key a) (live_feed env d (parse_kinds raw))"
  unfolding live_feed_def by (rule strict_order_desc) (rule live_events_distinct [OF _ parse_kinds_ok])

lemma older_page:
  assumes "sound d" and "binds (decode_cursor env before) (parse_kinds raw)"
  shows "\<exists>v. recent env before None raw d = Rendered v \<and>
    view_items v = take PAGE_SIZE (filter (beyond False (decode_cursor env before)) (live_feed env d (parse_kinds raw))) \<and>
    view_more v = (length (view_items v) = PAGE_SIZE) \<and>
    view_next v = (if view_items v = [] then None else Some (ev_key (last (view_items v))))"
  using assms(2) by (simp add: recent_def Let_def live_feed_def arrange_def page_of_kinds [OF assms(1)])

lemma beyond_nothing [simp]: "filter (beyond newer None) es = es"
  by (simp add: beyond_def)

lemma below_item:
  assumes "feed_grew env (parse_kinds raw) d d'" and "0 < k" and "k \<le> length (live_feed env d (parse_kinds raw))"
  shows "filter (beyond False (Some (ev_key (live_feed env d (parse_kinds raw) ! (k - 1))))) (live_feed env d' (parse_kinds raw)) =
    drop k (live_feed env d (parse_kinds raw))"
proof -
  let ?rows = "live_feed env d (parse_kinds raw)"
  obtain new where new: "live_feed env d' (parse_kinds raw) = new @ ?rows" and "sound d'"
    using assms(1) by (auto simp: feed_grew_def)
  have "?rows ! (k - 1) = (new @ ?rows) ! (length new + (k - 1))" by (simp add: nth_append)
  moreover have "filter (\<lambda>x. ev_key x < ev_key ((new @ ?rows) ! (length new + (k - 1)))) (new @ ?rows) =
      drop (Suc (length new + (k - 1))) (new @ ?rows)"
    using assms(2,3) live_feed_strict [OF \<open>sound d'\<close>, of env raw] by (intro filter_below_nth) (simp_all add: new)
  ultimately show ?thesis using assms(2) by (simp add: new beyond_def [abs_def])
qed

lemma live_walk_from:
  assumes "list_all (cursor_safe env enc) (live_feed env d (parse_kinds raw))"
    and "list_all (feed_grew env (parse_kinds raw) d) ds"
    and "0 < k" and "k \<le> length (live_feed env d (parse_kinds raw))"
    and "length (live_feed env d (parse_kinds raw)) \<le> k + PAGE_SIZE * length ds"
  shows "live_walk env enc raw (Some (enc (ev_key (live_feed env d (parse_kinds raw) ! (k - 1))))) ds =
    drop k (live_feed env d (parse_kinds raw))"
  using assms(2-)
proof (induction ds arbitrary: k)
  case (Cons d' ds)
  let ?rows = "live_feed env d (parse_kinds raw)"
  let ?at = "?rows ! (k - 1)"
  have "cursor_safe env enc ?at" using assms(1) Cons.prems(2,3) by (simp add: list_all_length)
  then have cursor: "decode_cursor env (Some (enc (ev_key ?at))) = Some (ev_key ?at)"
    and fits: "binds (decode_cursor env (Some (enc (ev_key ?at)))) (parse_kinds raw)"
    by (auto simp: cursor_safe_def binds_def ev_key_def)
  have grew: "feed_grew env (parse_kinds raw) d d'" and "sound d'" using Cons.prems(1) by (simp_all add: feed_grew_def)
  obtain v where v: "recent env (Some (enc (ev_key ?at))) None raw d' = Rendered v"
    "view_items v = take PAGE_SIZE (drop k ?rows)" "view_more v = (length (view_items v) = PAGE_SIZE)"
    "view_next v = (if view_items v = [] then None else Some (ev_key (last (view_items v))))"
    using older_page [OF \<open>sound d'\<close> fits] unfolding cursor below_item [OF grew Cons.prems(2,3)] by blast
  show ?case
  proof (cases "PAGE_SIZE \<le> length ?rows - k")
    case True
    then have full: "length (view_items v) = PAGE_SIZE" using v(2) by simp
    have pos: "0 < PAGE_SIZE" by (simp add: PAGE_SIZE_def)
    have "last (view_items v) = ?rows ! (k + PAGE_SIZE - 1)"
      using full v(2) pos True by (simp add: last_conv_nth)
    then have "view_next v = Some (ev_key (?rows ! (k + PAGE_SIZE - 1)))" using v(4) full pos by auto
    moreover have "live_walk env enc raw (Some (enc (ev_key (?rows ! (k + PAGE_SIZE - 1))))) ds = drop (k + PAGE_SIZE) ?rows"
      by (rule Cons.IH) (use Cons.prems True pos in auto)
    ultimately show ?thesis
      using v full by (simp add: add.commute [of k] drop_drop [symmetric] del: drop_drop)
  next
    case False
    then show ?thesis using v by (auto split: option.split)
  qed
qed simp

text \<open>C35. Scrolling down the live feed shows every event of the selected kinds exactly once, newest first, however
  many newer events arrive between the requests, provided that the text of a cursor reads back as the cursor
  and identifiers fit into 64 bits. Enough requests are one for every thirty events of the feed and one more.\<close>

theorem live_pages_complete:
  assumes "sound d" and "list_all (cursor_safe env enc) (live_feed env d (parse_kinds raw))"
    and "list_all (feed_grew env (parse_kinds raw) d) ds"
    and "length (live_feed env d (parse_kinds raw)) \<le> 30 * (length ds + 1)"
  shows "live_walk env enc raw None (d # ds) = live_feed env d (parse_kinds raw)"
proof -
  let ?rows = "live_feed env d (parse_kinds raw)"
  have fits: "binds (decode_cursor env None) (parse_kinds raw)" by (simp add: binds_def)
  obtain v where v: "recent env None None raw d = Rendered v" "view_items v = take PAGE_SIZE ?rows"
    "view_more v = (length (view_items v) = PAGE_SIZE)"
    "view_next v = (if view_items v = [] then None else Some (ev_key (last (view_items v))))"
    using older_page [OF assms(1) fits] unfolding decode_no_cursor beyond_nothing by blast
  have size: "PAGE_SIZE = 30" by (simp add: PAGE_SIZE_def)
  show ?thesis
  proof (cases "PAGE_SIZE \<le> length ?rows")
    case True
    then have full: "length (view_items v) = PAGE_SIZE" using v(2) by simp
    then have "view_items v \<noteq> []" by (auto simp: size)
    then have "last (view_items v) = ?rows ! (PAGE_SIZE - 1)" using v(2) full by (simp add: last_conv_nth size)
    then have "view_next v = Some (ev_key (?rows ! (PAGE_SIZE - 1)))" using v(4) \<open>view_items v \<noteq> []\<close> by simp
    moreover have "live_walk env enc raw (Some (enc (ev_key (?rows ! (PAGE_SIZE - 1))))) ds = drop PAGE_SIZE ?rows"
      by (rule live_walk_from [OF assms(2,3)]) (use assms(4) True in \<open>simp_all add: size\<close>)
    ultimately show ?thesis using v full by simp
  next
    case False
    then show ?thesis using v by (auto split: option.split)
  qed
qed

text \<open>A feed of thirty-five events at one time, read while a newer post arrives; a text of a cursor is its
  identifier as a character, then its kind.\<close>

definition demo_live_env :: live_env where
  "demo_live_env = \<lparr>unpack_cursor = (\<lambda>s. Some (JObj [(''ts'', JStr ''at''), (''kind'', JStr (tl s)), (''id'', JInt (of_char (hd s)))])),
     parse_time = (\<lambda>_. Some (0, False)), unescape_html = (\<lambda>s. s), ellipsis = ''...''\<rparr>"

definition write_demo_cursor :: "event_key \<Rightarrow> string" where
  "write_demo_cursor k = char_of (nat (snd (snd k))) # fst (snd k)"

definition demo_feed :: db where
  "demo_feed = sample_db\<lparr>posts := map (\<lambda>i. sample_post (int i) ''ann'') [1..<32]\<rparr>"

definition later_feed :: db where
  "later_feed = demo_feed\<lparr>posts := (sample_post 40 ''cy'')\<lparr>created_at := 9\<rparr> # posts demo_feed\<rparr>"

theorem live_pages_complete_witness:
  "live_walk demo_live_env write_demo_cursor None None [demo_feed, later_feed] = live_feed demo_live_env demo_feed KINDS \<and>
   length (live_feed demo_live_env demo_feed KINDS) = 35"
proof -
  have kinds: "parse_kinds None = KINDS" by (simp add: parse_kinds_def)
  have size: "length (live_feed demo_live_env demo_feed KINDS) = 35" by code_simp
  have "list_all (cursor_safe demo_live_env write_demo_cursor) (live_feed demo_live_env demo_feed KINDS)" by code_simp
  moreover have "sound demo_feed" "sound later_feed" by code_simp+
  moreover have "live_feed demo_live_env later_feed KINDS =
      take 1 (live_feed demo_live_env later_feed KINDS) @ live_feed demo_live_env demo_feed KINDS" by code_simp
  ultimately show ?thesis
    using live_pages_complete [of demo_feed demo_live_env write_demo_cursor None "[later_feed]"] size
    by (auto simp: kinds feed_grew_def)
qed

section \<open>The count, and what a visitor can do to it\<close>

lemma count_of_rows:
  assumes "sound d" and "knd \<in> set KINDS"
  shows "length (filter (\<lambda>r. p (fst (fst r))) (source_rows env d knd)) =
    length (filter (\<lambda>e. p (ev_at e)) (live_source env d knd))"
  by (simp add: source_rows_events [OF assms] filter_map comp_def)

text \<open>The count that a tick pushes to the room is the number of events of the feed past its watermark.\<close>

lemma live_count_exact:
  assumes "sound d" and "0 < participants" and "watermark p = Some (Some w)"
  shows "fst (pump_tick participants d p) =
    (let n = length (filter (\<lambda>e. w < ev_at e) (live_feed env d KINDS)) in if 0 < n then Some n else None)"
proof -
  have "count_events_after (Some w) d =
      length (filter (\<lambda>r. w < fst (fst r)) (source_rows env d ''post'')) +
      length (filter (\<lambda>r. w < fst (fst r)) (source_rows env d ''comment'')) +
      length (filter (\<lambda>r. w < fst (fst r)) (source_rows env d ''vote''))"
    by (simp add: count_events_after_def source_rows_def post_row_def comment_row_def vote_row_def filter_map comp_def
        case_prod_unfold Let_def)
  also have "\<dots> = length (filter (\<lambda>e. w < ev_at e) (live_events env d KINDS))"
    using count_of_rows [OF assms(1), where p = "\<lambda>t. w < t" and env = env] by (simp add: live_events_def KINDS_def)
  also have "\<dots> = length (filter (\<lambda>e. w < ev_at e) (live_feed env d KINDS))"
    by (rule length_filter_mset) (simp add: live_feed_def order_desc_def)
  finally show ?thesis using assms(2,3) by (simp add: pump_tick_def Let_def)
qed

text \<open>An identifier beyond 64 bits in a cursor ends the request with an error that nothing catches.\<close>

lemma oversized_cursor_raises:
  assumes "decode_cursor env before_raw = Some (t, knd, 2 ^ 63)" and "knd \<in> set (parse_kinds kinds_raw)"
  shows "recent env before_raw None kinds_raw d = Overflow_Error"
  using assms by (simp add: recent_def binds_def Let_def)

text \<open>One visitor's acknowledgement of a time far ahead silences the count for everybody in the room, until
  the events reach that time.\<close>

lemma in_foldr_max: "x \<in> set xs \<Longrightarrow> x \<le> foldr max xs (y :: 'a::linorder)"
  by (induction xs) (auto simp: le_max_iff_disj)

lemma max_event_ts_bound:
  assumes "u \<in> set (map created_at (posts d) @ map created_at (comments d) @ map vote_created_at (votes d))"
  shows "\<exists>m. max_event_ts d = Some m \<and> u \<le> m"
proof -
  let ?ts = "map created_at (posts d) @ map created_at (comments d) @ map vote_created_at (votes d)"
  have "?ts \<noteq> []" using length_pos_if_in_set [OF assms] by (rule length_greater_0_conv [THEN iffD1])
  then have "max_event_ts d = Some (foldr max ?ts (hd ?ts))" unfolding max_event_ts_def Let_def by (rule if_not_P)
  with in_foldr_max [OF assms] show ?thesis by blast
qed

lemma nothing_after_latest:
  assumes "\<And>u. max_event_ts d = Some u \<Longrightarrow> u \<le> t"
  shows "count_events_after (Some t) d = 0"
proof -
  have bound: "\<not> t < u" if u: "u \<in> set (map created_at (posts d) @ map created_at (comments d) @ map vote_created_at (votes d))" for u
    using max_event_ts_bound [OF u] assms by fastforce
  have "\<not> t < created_at q" if "q \<in> set (posts d)" for q using bound [of "created_at q"] that by simp
  moreover have "\<not> t < created_at (fst cp)" if "cp \<in> set (commented d)" for cp
    using bound [of "created_at (fst cp)"] in_commented [of "fst cp" "snd cp" d] that by simp
  moreover have "\<not> t < vote_created_at v" if "v \<in> set (votes d)" for v
    using bound [of "vote_created_at v"] that by simp
  ultimately show ?thesis by (simp add: count_events_after_def Let_def filter_empty_conv)
qed

lemma early_ack_silences:
  assumes "watermark p = Some (Some w)" and "parse_time env s = Some (t, False)" and "w < t"
    and "\<And>u. max_event_ts d = Some u \<Longrightarrow> u \<le> t"
  shows "fst (pump_tick participants d (snd (note_activity_loaded env (JStr s) p))) = None"
  using assms(1-3) nothing_after_latest [OF assms(4)] by (simp add: note_activity_loaded_def pump_tick_def Let_def)

text \<open>A time with a zone in an acknowledgement raises, with the pending count already cleared.\<close>

lemma zoned_ack_raises:
  assumes "watermark p = Some (Some w)" and "parse_time env s = Some (t, True)"
  shows "note_activity_loaded env (JStr s) p = (False, p\<lparr>pending_count := 0\<rparr>)"
  using assms by (simp add: note_activity_loaded_def Let_def)

end
